(* ===== verification/Koo_Base.thy ===== *)
theory Koo_Base
  imports Main "HOL-Library.Word" "HOL-Library.Monad_Syntax"
begin

text \<open>
  Prelude of the development: the machine types of the i386 build (\<^verbatim>\<open>include/khui/types.h\<close>,
  \<^verbatim>\<open>include/types.h\<close>), the page constants (\<^verbatim>\<open>include/i386/pages.h\<close>), the shape of a
  kernel call, and the lemma collections and list facts that the components share.

  A kernel call is a value of an option type.  \<open>None\<close> means that control never comes back
  to the caller: the call reached \<^verbatim>\<open>bug()\<close> or \<^verbatim>\<open>panic()\<close> (both end in an endless loop,
  \<^verbatim>\<open>arch/i386/trap.c\<close>), faulted, or runs forever.  \<open>Some x\<close> means that it returned \<open>x\<close>.
  C's null pointer is a \<open>None\<close> inside the returned value.
\<close>

unbundle bit_operations_syntax

named_theorems klist_simps \<open>heap reads after klist0 updates\<close>
named_theorems klist_intros \<open>ring facts about klist0 operations\<close>

type_synonym u8 = "8 word"
type_synonym u16 = "16 word"
type_synonym u32 = "32 word"
type_synonym u64 = "64 word"

subsection \<open>Stopping the kernel\<close>

definition bug :: "'a option" where
  "bug = None"

definition bug_on :: "bool \<Rightarrow> unit option" where
  "bug_on c = (if c then bug else Some ())"

lemma bug_on_simps [simp]:
  "bug_on True = None"
  "bug_on False = Some ()"
  "(bug_on c = Some u) \<longleftrightarrow> \<not> c"
  "(bug_on c = None) \<longleftrightarrow> c"
  by (simp_all add: bug_on_def bug_def)

subsection \<open>Page constants\<close>

definition PAGE_SHIFT :: nat where
  "PAGE_SHIFT = 12"

definition PAGE_SIZE :: nat where
  "PAGE_SIZE = 4096"

lemma PAGE_SIZE_eq: "PAGE_SIZE = 2 ^ PAGE_SHIFT"
  by (simp add: PAGE_SIZE_def PAGE_SHIFT_def)

lemma PAGE_SIZE_pos [simp]: "0 < PAGE_SIZE"
  by (simp add: PAGE_SIZE_def)

definition PAGE_MASK :: u32 where
  "PAGE_MASK = 0xfff"

definition NOPAGE_MASK :: u32 where
  "NOPAGE_MASK = NOT PAGE_MASK"

definition NOPAGE_ADDR :: u32 where
  "NOPAGE_ADDR = NOT 0"

subsection \<open>Shift counts of the i386\<close>

text \<open>
  The i386 shift instructions use the low five bits of the count.  The C code computes some
  of its counts out of range (\<^verbatim>\<open>include/bitmap.h\<close>); these two functions say what the compiled
  code then does.
\<close>

definition shl_i386 :: "u32 \<Rightarrow> u32 \<Rightarrow> u32" where
  "shl_i386 x n = push_bit (unat n mod 32) x"

definition shr_i386 :: "u32 \<Rightarrow> u32 \<Rightarrow> u32" where
  "shr_i386 x n = drop_bit (unat n mod 32) x"

lemma bit_shl_i386: "bit (shl_i386 x n) k \<longleftrightarrow> unat n mod 32 \<le> k \<and> k < 32 \<and> bit x (k - unat n mod 32)"
  by (auto simp: shl_i386_def bit_simps)

lemma bit_shr_i386: "bit (shr_i386 x n) k \<longleftrightarrow> bit x (unat n mod 32 + k)"
  by (simp add: shr_i386_def bit_simps)

subsection \<open>Words\<close>

lemma unat_less32: "unat (x :: u32) < 2 ^ 32"
  using unsigned_less [of x, where ?'a = nat] by simp

lemma unat_of_nat32: "n < 2 ^ 32 \<Longrightarrow> unat (of_nat n :: u32) = n"
  by (simp add: unat_of_nat)

lemma eq_offset_iff: "n < 2 ^ 32 \<Longrightarrow> a = s + of_nat n \<longleftrightarrow> unat (a - s) = n" for a s :: u32
proof
  assume "n < 2 ^ 32" and "a = s + of_nat n"
  then show "unat (a - s) = n" by (simp add: unat_of_nat)
next
  assume "unat (a - s) = n"
  then have "of_nat n = a - s" by auto
  then show "a = s + of_nat n" by simp
qed

lemma unat_add_offset: "unat p + n < 2 ^ 32 \<Longrightarrow> unat (p + of_nat n :: u32) = unat p + n"
  by (simp add: unat_word_ariths unat_of_nat)

end
