(* ===== verification/Klist0.thy ===== *)
theory Klist0
  imports Koo_Base
begin

text \<open>
  \<^verbatim>\<open>include/klist0.h\<close>: the kernel's intrusive doubly linked lists.

  The heap of list nodes is a record of the two fields of \<^verbatim>\<open>struct klist0_node\<close>, each a
  function from nodes to nodes; the type of nodes is a parameter, so that each component
  has its own datatype of list heads and embedded nodes, and \<^verbatim>\<open>klist0_entry\<close> is a match on
  the constructor.  Every operation is the sequence of assignments of the C code.

  \<open>klist h l xs\<close> says that the ring that starts at head \<open>l\<close> visits the nodes \<open>xs\<close>; the
  lemmas show what each operation does to a ring and to the other rings of the heap, and
  the locale \<open>intrusive_list\<close> is the contract that the components use.
\<close>

section \<open>The operations\<close>

record 'n klist0_node =
  prev :: "'n \<Rightarrow> 'n"
  "next" :: "'n \<Rightarrow> 'n"

definition set_prev :: "'n \<Rightarrow> 'n \<Rightarrow> 'n klist0_node \<Rightarrow> 'n klist0_node" where
  "set_prev n v h = h\<lparr>prev := (prev h)(n := v)\<rparr>"

definition set_next :: "'n \<Rightarrow> 'n \<Rightarrow> 'n klist0_node \<Rightarrow> 'n klist0_node" where
  "set_next n v h = h\<lparr>next := (next h)(n := v)\<rparr>"

definition KLIST0_INIT :: "'n \<Rightarrow> 'n klist0_node \<Rightarrow> 'n klist0_node" where
  "KLIST0_INIT l h = set_next l l (set_prev l l h)"

definition klist0_prepend :: "'n \<Rightarrow> 'n \<Rightarrow> 'n klist0_node \<Rightarrow> 'n klist0_node" where
  "klist0_prepend node l h =
    (let h1 = set_next node l h;
         h2 = set_prev node (prev h1 l) h1;
         h3 = set_next (prev h2 l) node h2
     in set_prev l node h3)"

definition klist0_append :: "'n \<Rightarrow> 'n \<Rightarrow> 'n klist0_node \<Rightarrow> 'n klist0_node" where
  "klist0_append node l h =
    (let h1 = set_next node (next h l) h;
         h2 = set_prev node l h1;
         h3 = set_prev (next h2 l) node h2
     in set_next l node h3)"

definition klist0_unlink :: "'n \<Rightarrow> 'n klist0_node \<Rightarrow> 'n klist0_node" where
  "klist0_unlink node h =
    (let h1 = set_next (prev h node) (next h node) h;
         h2 = set_prev (next h1 node) (prev h1 node) h1;
         h3 = set_next node node h2
     in set_prev node node h3)"

definition klist0_empty :: "'n \<Rightarrow> 'n klist0_node \<Rightarrow> bool" where
  "klist0_empty l h \<longleftrightarrow> next h l = l"

definition klist0_reparent :: "'n \<Rightarrow> 'n \<Rightarrow> 'n klist0_node \<Rightarrow> 'n klist0_node" where
  "klist0_reparent from_head to_head h =
    (let h1 = set_prev to_head (prev h from_head) (set_next to_head (next h from_head) h);
         h2 = set_prev (next h1 to_head) to_head h1;
         h3 = set_next (prev h2 to_head) to_head h2
     in KLIST0_INIT from_head h3)"

text \<open>
  \<^verbatim>\<open>klist0_for_each\<close>: the nodes the loop visits, when the body leaves the links alone.  A ring
  that does not lead back to its head makes the loop run forever: \<open>None\<close>.
\<close>

partial_function (option) klist0_walk :: "'n klist0_node \<Rightarrow> 'n \<Rightarrow> 'n \<Rightarrow> 'n list option" where
  "klist0_walk h l n =
    (if n = l then Some []
     else do { ns \<leftarrow> klist0_walk h l (next h n); Some (n # ns) })"

definition klist0_for_each :: "'n klist0_node \<Rightarrow> 'n \<Rightarrow> 'n list option" where
  "klist0_for_each h l = klist0_walk h l (next h l)"

lemma set_prev_simps [simp]:
  "prev (set_prev n v h) = (prev h)(n := v)"
  "next (set_prev n v h) = next h"
  by (simp_all add: set_prev_def)

lemma set_next_simps [simp]:
  "next (set_next n v h) = (next h)(n := v)"
  "prev (set_next n v h) = prev h"
  by (simp_all add: set_next_def)

lemmas klist0_defs = KLIST0_INIT_def klist0_prepend_def klist0_append_def klist0_unlink_def
  klist0_empty_def klist0_reparent_def Let_def

section \<open>Rings\<close>

fun kseg :: "'n klist0_node \<Rightarrow> 'n \<Rightarrow> 'n list \<Rightarrow> 'n \<Rightarrow> bool" where
  "kseg h a [] b \<longleftrightarrow> next h a = b \<and> prev h b = a"
| "kseg h a (x # xs) b \<longleftrightarrow> next h a = x \<and> prev h x = a \<and> kseg h x xs b"

definition klist :: "'n klist0_node \<Rightarrow> 'n \<Rightarrow> 'n list \<Rightarrow> bool" where
  "klist h l xs \<longleftrightarrow> distinct (l # xs) \<and> kseg h l xs l"

lemma kseg_append [simp]:
  "kseg h a (xs @ x # ys) b \<longleftrightarrow> kseg h a xs x \<and> kseg h x ys b"
  by (induction xs arbitrary: a) auto

text \<open>A segment depends on the \<open>next\<close> of all but its end and the \<open>prev\<close> of all but its start.\<close>

lemma kseg_cong:
  assumes "\<And>n. n \<in> set (a # xs) \<Longrightarrow> next h' n = next h n"
    and "\<And>n. n \<in> set (xs @ [b]) \<Longrightarrow> prev h' n = prev h n"
  shows "kseg h' a xs b = kseg h a xs b"
  using assms by (induction xs arbitrary: a) auto

lemma klist_cong:
  assumes "\<And>n. n \<in> set (l # xs) \<Longrightarrow> next h' n = next h n \<and> prev h' n = prev h n"
  shows "klist h' l xs = klist h l xs"
  unfolding klist_def using assms by (intro conj_cong refl kseg_cong) auto

lemma kseg_next_last: "kseg h a xs b \<Longrightarrow> next h (last (a # xs)) = b"
  by (induction xs arbitrary: a) auto

lemma kseg_prev_end: "kseg h a xs b \<Longrightarrow> prev h b = last (a # xs)"
  by (induction xs arbitrary: a) auto

lemma kseg_next_first: "kseg h a xs b \<Longrightarrow> next h a = hd (xs @ [b])"
  by (cases xs) auto

lemma klist_distinct: "klist h l xs \<Longrightarrow> distinct (l # xs)"
  by (simp add: klist_def)

lemma klist_next: "klist h l xs \<Longrightarrow> next h l = hd (xs @ [l])"
  by (auto simp: klist_def dest: kseg_next_first)

lemma klist_prev: "klist h l xs \<Longrightarrow> prev h l = last (l # xs)"
  unfolding klist_def by (blast dest: kseg_prev_end)

lemma klist_empty_iff: "klist h l xs \<Longrightarrow> klist0_empty l h \<longleftrightarrow> xs = []"
  by (cases xs) (auto simp: klist_def klist0_empty_def)

lemma klist_Nil_iff: "klist h l [] \<longleftrightarrow> next h l = l \<and> prev h l = l"
  by (auto simp: klist_def)

text \<open>A node of a non-trivial ring is linked to another node.\<close>

lemma klist_member_linked:
  assumes "klist h l xs" and "n \<in> set xs"
  shows "next h n \<noteq> n" and "prev h n \<noteq> n"
proof -
  obtain ys zs where xs: "xs = ys @ n # zs"
    using assms(2) by (meson split_list)
  have k: "kseg h l ys n" "kseg h n zs l" and d: "distinct (l # ys @ n # zs)"
    using assms(1) by (auto simp: klist_def xs)
  show "next h n \<noteq> n"
    using kseg_next_first [OF k(2)] d by (cases zs) auto
  show "prev h n \<noteq> n"
    using kseg_prev_end [OF k(1)] d by (cases ys rule: rev_cases) auto
qed

lemma klist_unlinked_notin: "klist h l xs \<Longrightarrow> klist h n [] \<Longrightarrow> n \<noteq> l \<Longrightarrow> n \<notin> set (l # xs)"
  using klist_member_linked by (fastforce simp: klist_Nil_iff)

section \<open>What the operations do to a ring\<close>

lemma kseg_init [simp]:
  "n \<notin> set (a # xs) \<Longrightarrow> n \<notin> set (xs @ [b]) \<Longrightarrow> kseg (KLIST0_INIT n h) a xs b = kseg h a xs b"
  by (rule kseg_cong) (auto simp: klist0_defs)

lemma klist_init: "klist (KLIST0_INIT l h) l []"
  by (simp add: klist_Nil_iff klist0_defs)

text \<open>Insertion and removal at the end of a segment.\<close>

lemma kseg_insert_last:
  assumes "kseg h a xs b" and "distinct (a # xs)" and "b \<notin> set xs" and "n \<notin> set (a # xs @ [b])"
    and nx: "next h' = (next h)(n := b, last (a # xs) := n)"
    and pr: "prev h' = (prev h)(n := last (a # xs), b := n)"
  shows "kseg h' a (xs @ [n]) b"
  using assms
proof (induction xs arbitrary: a)
  case (Cons x xs)
  have "kseg h' x (xs @ [n]) b"
    using Cons.prems by (intro Cons.IH) auto
  then show ?case
    using Cons.prems by (auto split: if_splits)
qed auto

lemma kseg_remove_last:
  assumes "kseg h a (xs @ [n]) b" and "distinct (a # xs)" and "b \<notin> set xs" and "n \<notin> set (a # xs @ [b])"
    and nx: "next h' = (next h)(last (a # xs) := b, n := n)"
    and pr: "prev h' = (prev h)(b := last (a # xs), n := n)"
  shows "kseg h' a xs b"
  using assms
proof (induction xs arbitrary: a)
  case (Cons x xs)
  have "kseg h' x xs b"
    using Cons.prems by (intro Cons.IH) auto
  then show ?case
    using Cons.prems by (auto split: if_splits)
qed auto

text \<open>Insertion before a node \<open>x\<close> of the ring, and before the head (at the tail).\<close>

lemma klist0_prepend_upd:
  assumes "n \<noteq> x" and "n \<noteq> prev h x"
  shows "next (klist0_prepend n x h) = (next h)(n := x, prev h x := n)"
    and "prev (klist0_prepend n x h) = (prev h)(n := prev h x, x := n)"
  using assms by (auto simp: klist0_defs)

lemma klist_prepend_before:
  assumes "klist h l (xs @ x # ys)" and "n \<notin> set (l # xs @ x # ys)"
  shows "klist (klist0_prepend n x h) l (xs @ n # x # ys)"
proof -
  let ?h = "klist0_prepend n x h"
  have d: "distinct (l # xs @ x # ys)" and k: "kseg h l xs x" "kseg h x ys l"
    using assms(1) by (auto simp: klist_def)
  have pv: "prev h x = last (l # xs)"
    using k(1) by (rule kseg_prev_end)
  have "last (l # xs) \<in> set (l # xs)"
    by (rule last_in_set) simp
  then have p: "prev h x \<in> set (l # xs)"
    by (simp only: pv)
  have n: "n \<noteq> x" "n \<noteq> prev h x"
    using assms(2) p by auto
  have "kseg ?h l (xs @ [n]) x"
    using k(1) d assms(2) klist0_prepend_upd [OF n] unfolding pv
    by (intro kseg_insert_last) auto
  moreover have "kseg ?h x ys l = kseg h x ys l"
    using d assms(2) p klist0_prepend_upd [OF n] by (intro kseg_cong) auto
  ultimately show ?thesis
    using d assms(2) k by (auto simp: klist_def)
qed

lemma klist_prepend:
  assumes "klist h l xs" and "n \<notin> set (l # xs)"
  shows "klist (klist0_prepend n l h) l (xs @ [n])"
proof -
  have pv: "prev h l = last (l # xs)"
    using assms(1) by (rule klist_prev)
  have "last (l # xs) \<in> set (l # xs)"
    by (rule last_in_set) simp
  then have n: "n \<noteq> l" "n \<noteq> prev h l"
    using assms(2) pv by auto
  have "kseg (klist0_prepend n l h) l (xs @ [n]) l"
    using assms klist0_prepend_upd [OF n] unfolding pv klist_def
    by (intro kseg_insert_last) auto
  then show ?thesis
    using assms by (auto simp: klist_def)
qed

text \<open>Insertion right after the head.\<close>

lemma klist0_append_upd:
  assumes "n \<noteq> l" and "n \<noteq> next h l"
  shows "next (klist0_append n l h) = (next h)(n := next h l, l := n)"
    and "prev (klist0_append n l h) = (prev h)(n := l, next h l := n)"
  using assms by (auto simp: klist0_defs)

lemma klist_append:
  assumes "klist h l xs" and "n \<notin> set (l # xs)"
  shows "klist (klist0_append n l h) l (n # xs)"
proof -
  have nx: "next h l = hd (xs @ [l])"
    using assms(1) by (rule klist_next)
  have n: "n \<noteq> l" "n \<noteq> next h l"
    using assms(2) nx by (cases xs; auto)+
  have "kseg (klist0_append n l h) n xs l"
  proof (cases xs)
    case Nil
    then show ?thesis using nx klist0_append_upd [OF n] n by auto
  next
    case (Cons y ys)
    have "kseg (klist0_append n l h) y ys l = kseg h y ys l"
      using assms Cons nx klist0_append_upd [OF n] by (intro kseg_cong) (auto simp: klist_def)
    then show ?thesis
      using assms Cons nx klist0_append_upd [OF n] n by (auto simp: klist_def)
  qed
  then show ?thesis
    using assms n klist0_append_upd [OF n] by (auto simp: klist_def)
qed

text \<open>Removal: the node leaves its ring and is a ring of its own.\<close>

lemma klist0_unlink_upd:
  assumes "prev h n \<noteq> n" and "next h n \<noteq> n"
  shows "next (klist0_unlink n h) = (next h)(prev h n := next h n, n := n)"
    and "prev (klist0_unlink n h) = (prev h)(next h n := prev h n, n := n)"
  using assms by (auto simp: klist0_defs)

lemma klist_unlink:
  assumes "klist h l (xs @ n # ys)"
  shows "klist (klist0_unlink n h) l (xs @ ys)" and "klist (klist0_unlink n h) n []"
proof -
  let ?h = "klist0_unlink n h"
  have d: "distinct (l # xs @ n # ys)" and k: "kseg h l xs n" "kseg h n ys l"
    using assms by (auto simp: klist_def)
  have pv: "prev h n = last (l # xs)" and nx: "next h n = hd (ys @ [l])"
    using k by (auto dest: kseg_prev_end kseg_next_first)
  have ne: "prev h n \<noteq> n" "next h n \<noteq> n"
    using klist_member_linked [OF assms, of n] by auto
  have "last (l # xs) \<in> set (l # xs)"
    by (rule last_in_set) simp
  then have p: "prev h n \<in> set (l # xs)"
    by (simp only: pv)
  note upd = klist0_unlink_upd [OF ne]
  show "klist ?h n []"
    by (simp add: klist_Nil_iff upd)
  have nx1: "next ?h = (next h)(last (l # xs) := hd (ys @ [l]), n := n)"
    and pr1: "prev ?h = (prev h)(hd (ys @ [l]) := last (l # xs), n := n)"
    by (simp_all only: upd pv nx)
  show "klist ?h l (xs @ ys)"
  proof (cases ys)
    case Nil
    have "kseg ?h l xs l"
      by (rule kseg_remove_last [of h l xs n l]) (use k d Nil in \<open>auto simp: nx1 pr1\<close>)
    then show ?thesis using d Nil by (simp add: klist_def)
  next
    case (Cons y zs)
    have "kseg ?h l xs y"
      by (rule kseg_remove_last [of h l xs n y]) (use k d nx1 pr1 Cons in auto)
    moreover have "kseg ?h y zs l = kseg h y zs l"
      using d p Cons nx by (intro kseg_cong) (auto simp: upd)
    ultimately show ?thesis
      using d k Cons by (auto simp: klist_def)
  qed
qed

text \<open>Moving a non-empty ring to a new head.\<close>

lemma klist_reparent:
  assumes "klist h f xs" and "xs \<noteq> []" and "t \<notin> set (f # xs)"
  shows "klist (klist0_reparent f t h) t xs" and "klist (klist0_reparent f t h) f []"
proof -
  let ?h = "klist0_reparent f t h"
  have d: "distinct (f # xs)" and k: "kseg h f xs f"
    using assms(1) by (auto simp: klist_def)
  obtain y ys where xs: "xs = y # ys"
    using assms(2) by (cases xs) auto
  have nx: "next h f = y" and pv: "prev h f = last (y # ys)"
    using klist_next [OF assms(1)] klist_prev [OF assms(1)] by (simp_all add: xs)
  have l: "last (y # ys) \<in> set xs"
    unfolding xs by (rule last_in_set) simp
  have ne: "f \<noteq> t" "y \<noteq> t" "y \<noteq> f" "last (y # ys) \<noteq> t" "last (y # ys) \<noteq> f"
    using d assms(3) l by (auto simp: xs)
  have nx1: "next ?h = (next h)(t := y, last (y # ys) := t, f := f)"
    and pr1: "prev ?h = (prev h)(t := last (y # ys), y := t, f := f)"
    unfolding klist0_reparent_def KLIST0_INIT_def Let_def using ne nx pv by (auto simp del: last.simps)
  show "klist ?h f []"
    by (simp add: klist_Nil_iff nx1 pr1)
  have "kseg ?h y ys t"
  proof (cases ys rule: rev_cases)
    case Nil
    then show ?thesis using ne by (simp add: nx1 pr1)
  next
    case (snoc zs z)
    have "kseg ?h y zs z = kseg h y zs z"
      using d ne assms(3) by (intro kseg_cong) (auto simp: nx1 pr1 xs snoc)
    then show ?thesis
      using k d ne assms(3) by (auto simp: nx1 pr1 xs snoc)
  qed
  then show "klist ?h t xs"
    using d assms(3) ne by (auto simp: klist_def xs nx1 pr1)
qed

text \<open>The loop visits exactly the nodes of the ring, and ends.\<close>

lemma klist0_walk_kseg:
  "kseg h a xs l \<Longrightarrow> l \<notin> set xs \<Longrightarrow> klist0_walk h l (next h a) = Some xs"
  by (induction xs arbitrary: a) (auto simp: klist0_walk.simps)

lemma klist_for_each: "klist h l xs \<Longrightarrow> klist0_for_each h l = Some xs"
  by (simp add: klist_def klist0_for_each_def klist0_walk_kseg)

lemma klist_unique: "klist h l xs \<Longrightarrow> klist h l ys \<Longrightarrow> xs = ys"
  by (metis klist_for_each option.inject)

section \<open>Other nodes and other rings\<close>

lemma klist0_append_other:
  assumes "klist h l xs" and "m \<notin> set (n # l # xs)"
  shows "next (klist0_append n l h) m = next h m \<and> prev (klist0_append n l h) m = prev h m"
  using assms(2) klist_next [OF assms(1)] by (cases xs) (auto simp: klist0_defs)

lemma klist_neighbours:
  assumes "klist h l xs" and "x \<in> set (l # xs)"
  shows "next h x \<in> set (l # xs)" and "prev h x \<in> set (l # xs)"
proof -
  have "next h x \<in> set (l # xs) \<and> prev h x \<in> set (l # xs)"
  proof (cases "x = l")
    case True
    then show ?thesis
      using klist_next [OF assms(1)] klist_prev [OF assms(1)] by (cases xs) auto
  next
    case False
    then obtain ys zs where xs: "xs = ys @ x # zs"
      using assms(2) by (auto dest: split_list)
    then have "kseg h l ys x" "kseg h x zs l"
      using assms(1) by (auto simp: klist_def)
    then have "prev h x = last (l # ys)" "next h x = hd (zs @ [l])"
      by (auto dest: kseg_prev_end kseg_next_first)
    then show ?thesis
      by (cases zs) (auto simp: xs)
  qed
  then show "next h x \<in> set (l # xs)" and "prev h x \<in> set (l # xs)"
    by auto
qed

lemma klist0_prepend_other:
  assumes "klist h l xs" and "m \<notin> set (n # l # xs)" and "x \<in> set (l # xs)"
  shows "next (klist0_prepend n x h) m = next h m \<and> prev (klist0_prepend n x h) m = prev h m"
  using klist_neighbours [OF assms(1,3)] assms(2,3) by (auto simp: klist0_defs)

lemma klist0_unlink_other:
  assumes "klist h l xs" and "m \<notin> set (l # xs)" and "x \<in> set xs"
  shows "next (klist0_unlink x h) m = next h m \<and> prev (klist0_unlink x h) m = prev h m"
  using klist_neighbours [OF assms(1), of x] klist_member_linked [OF assms(1,3)] assms(2,3)
  by (auto simp: klist0_unlink_upd)

lemma KLIST0_INIT_other:
  "m \<noteq> n \<Longrightarrow> next (KLIST0_INIT n h) m = next h m \<and> prev (KLIST0_INIT n h) m = prev h m"
  by (simp add: klist0_defs)

text \<open>
  A family of rings: \<open>klists h H L\<close> says that each head \<open>l \<in> H\<close> has the ring \<open>L l\<close> and that the
  rings are pairwise disjoint.  This is the invariant that the components keep.
\<close>

definition ring :: "('n \<Rightarrow> 'n list) \<Rightarrow> 'n \<Rightarrow> 'n set" where
  "ring L l = insert l (set (L l))"

definition klists :: "'n klist0_node \<Rightarrow> 'n set \<Rightarrow> ('n \<Rightarrow> 'n list) \<Rightarrow> bool" where
  "klists h H L \<longleftrightarrow> (\<forall>l\<in>H. klist h l (L l)) \<and>
     (\<forall>a\<in>H. \<forall>b\<in>H. a \<noteq> b \<longrightarrow> ring L a \<inter> ring L b = {})"

lemma klistsD: "klists h H L \<Longrightarrow> l \<in> H \<Longrightarrow> klist h l (L l)"
  by (simp add: klists_def)

lemma klists_disjoint: "klists h H L \<Longrightarrow> a \<in> H \<Longrightarrow> b \<in> H \<Longrightarrow> a \<noteq> b \<Longrightarrow> ring L a \<inter> ring L b = {}"
  by (simp add: klists_def)

lemma klists_member_unique:
  "klists h H L \<Longrightarrow> a \<in> H \<Longrightarrow> b \<in> H \<Longrightarrow> n \<in> set (L a) \<Longrightarrow> n \<in> set (L b) \<Longrightarrow> a = b"
  using klists_disjoint [of h H L a b] by (auto simp: ring_def)

text \<open>An update of one ring that leaves the nodes outside it alone updates the family.\<close>

lemma klists_update:
  assumes "klists h H L" and "l \<in> H" and "klist h' l xs"
    and "\<And>a. a \<in> H \<Longrightarrow> a \<noteq> l \<Longrightarrow> set (l # xs) \<inter> ring L a = {}"
    and "\<And>a m. a \<in> H \<Longrightarrow> a \<noteq> l \<Longrightarrow> m \<in> ring L a \<Longrightarrow> next h' m = next h m \<and> prev h' m = prev h m"
  shows "klists h' H (L(l := xs))"
proof -
  have "klist h' a (L a)" if "a \<in> H" "a \<noteq> l" for a
    using klistsD [OF assms(1) that(1)] assms(5) [OF that]
    by (subst klist_cong [of a "L a" h' h]) (auto simp: ring_def)
  moreover have "ring (L(l := xs)) a \<inter> ring (L(l := xs)) b = {}"
    if "a \<in> H" "b \<in> H" "a \<noteq> b" for a b
    using assms(4) [of a] assms(4) [of b] klists_disjoint [OF assms(1) that] that
    by (cases "a = l"; cases "b = l") (auto simp: ring_def)
  ultimately show ?thesis
    using assms(3) by (auto simp: klists_def)
qed

lemma klists_cong:
  assumes "klists h H L"
    and "\<And>a m. a \<in> H \<Longrightarrow> m \<in> ring L a \<Longrightarrow> next h' m = next h m \<and> prev h' m = prev h m"
  shows "klists h' H L"
proof -
  have "klist h' a (L a)" if "a \<in> H" for a
    using klistsD [OF assms(1) that] assms(2) [OF that]
    by (subst klist_cong [of a "L a" h' h]) (auto simp: ring_def)
  then show ?thesis
    using assms(1) by (simp add: klists_def)
qed

lemma klists_append:
  assumes "klists h H L" and "l \<in> H" and "\<And>a. a \<in> H \<Longrightarrow> n \<notin> ring L a"
  shows "klists (klist0_append n l h) H (L(l := n # L l))"
proof (rule klists_update [OF assms(1,2)])
  have k: "klist h l (L l)"
    using assms(1,2) by (rule klistsD)
  show "klist (klist0_append n l h) l (n # L l)"
    using k assms(3) [OF assms(2)] by (intro klist_append) (auto simp: ring_def)
  show "set (l # n # L l) \<inter> ring L a = {}" if "a \<in> H" "a \<noteq> l" for a
    using klists_disjoint [OF assms(1,2) that(1)] assms(3) [OF that(1)] that(2) by (auto simp: ring_def)
  show "next (klist0_append n l h) m = next h m \<and> prev (klist0_append n l h) m = prev h m"
    if "a \<in> H" "a \<noteq> l" "m \<in> ring L a" for a m
    using klists_disjoint [OF assms(1,2) that(1)] assms(3) [OF that(1)] that
    by (intro klist0_append_other [OF k]) (auto simp: ring_def)
qed

lemma klists_prepend:
  assumes "klists h H L" and "l \<in> H" and "\<And>a. a \<in> H \<Longrightarrow> n \<notin> ring L a"
  shows "klists (klist0_prepend n l h) H (L(l := L l @ [n]))"
proof (rule klists_update [OF assms(1,2)])
  have k: "klist h l (L l)"
    using assms(1,2) by (rule klistsD)
  show "klist (klist0_prepend n l h) l (L l @ [n])"
    using k assms(3) [OF assms(2)] by (intro klist_prepend) (auto simp: ring_def)
  show "set (l # L l @ [n]) \<inter> ring L a = {}" if "a \<in> H" "a \<noteq> l" for a
    using klists_disjoint [OF assms(1,2) that(1)] assms(3) [OF that(1)] that(2) by (auto simp: ring_def)
  show "next (klist0_prepend n l h) m = next h m \<and> prev (klist0_prepend n l h) m = prev h m"
    if "a \<in> H" "a \<noteq> l" "m \<in> ring L a" for a m
    using klists_disjoint [OF assms(1,2) that(1)] assms(3) [OF that(1)] that
    by (intro klist0_prepend_other [OF k]) (auto simp: ring_def)
qed

lemma klists_prepend_before:
  assumes "klists h H L" and "l \<in> H" and "L l = xs @ x # ys" and "\<And>a. a \<in> H \<Longrightarrow> n \<notin> ring L a"
  shows "klists (klist0_prepend n x h) H (L(l := xs @ n # x # ys))"
proof (rule klists_update [OF assms(1,2)])
  have k: "klist h l (xs @ x # ys)"
    using klistsD [OF assms(1,2)] by (simp add: assms(3))
  show "klist (klist0_prepend n x h) l (xs @ n # x # ys)"
    using k assms(3) assms(4) [OF assms(2)] by (intro klist_prepend_before) (auto simp: ring_def)
  show "set (l # xs @ n # x # ys) \<inter> ring L a = {}" if "a \<in> H" "a \<noteq> l" for a
    using klists_disjoint [OF assms(1,2) that(1)] assms(3) assms(4) [OF that(1)] that(2)
    by (auto simp: ring_def)
  show "next (klist0_prepend n x h) m = next h m \<and> prev (klist0_prepend n x h) m = prev h m"
    if "a \<in> H" "a \<noteq> l" "m \<in> ring L a" for a m
    using klists_disjoint [OF assms(1,2) that(1)] assms(3) assms(4) [OF that(1)] that
    by (intro klist0_prepend_other [OF k]) (auto simp: ring_def)
qed

lemma klists_unlink:
  assumes "klists h H L" and "l \<in> H" and "L l = xs @ n # ys"
  shows "klists (klist0_unlink n h) H (L(l := xs @ ys))"
    and "klist (klist0_unlink n h) n []"
proof -
  have k: "klist h l (xs @ n # ys)"
    using klistsD [OF assms(1,2)] by (simp add: assms(3))
  show "klist (klist0_unlink n h) n []"
    using k by (rule klist_unlink)
  show "klists (klist0_unlink n h) H (L(l := xs @ ys))"
  proof (rule klists_update [OF assms(1,2)])
    show "klist (klist0_unlink n h) l (xs @ ys)"
      using k by (rule klist_unlink)
    show "set (l # xs @ ys) \<inter> ring L a = {}" if "a \<in> H" "a \<noteq> l" for a
      using klists_disjoint [OF assms(1,2) that(1)] that(2) by (auto simp: ring_def assms(3))
    show "next (klist0_unlink n h) m = next h m \<and> prev (klist0_unlink n h) m = prev h m"
      if "a \<in> H" "a \<noteq> l" "m \<in> ring L a" for a m
      using klists_disjoint [OF assms(1,2) that(1)] that
      by (intro klist0_unlink_other [OF k]) (auto simp: ring_def assms(3))
  qed
qed

lemma klists_init:
  assumes "klists h H L" and "\<And>a. a \<in> H \<Longrightarrow> l \<notin> ring L a"
  shows "klists (KLIST0_INIT l h) (insert l H) (L(l := []))"
proof -
  have "klist (KLIST0_INIT l h) a (L a)" if "a \<in> H" for a
    using klistsD [OF assms(1) that] assms(2) [OF that]
    by (subst klist_cong [of a "L a" _ h]) (auto simp: ring_def klist0_defs)
  moreover have "l \<notin> H"
    using assms(2) by (auto simp: ring_def)
  ultimately show ?thesis
    using klists_disjoint [OF assms(1)] assms(2) klist_init [of l h]
    by (auto simp: klists_def ring_def)
qed

lemma klists_unlink_first:
  assumes "klists h H L" and "l \<in> H" and "L l = n # ys"
  shows "next h l = n" and "klists (klist0_unlink n h) H (L(l := ys))"
    and "klist (klist0_unlink n h) n []"
  using klist_next [OF klistsD [OF assms(1,2)]] klists_unlink [OF assms(1,2), of "[]" n ys] assms(3)
  by auto

lemma klists_unlink_last:
  assumes "klists h H L" and "l \<in> H" and "L l = ys @ [n]"
  shows "prev h l = n" and "klists (klist0_unlink n h) H (L(l := ys))"
    and "klist (klist0_unlink n h) n []"
  using klist_prev [OF klistsD [OF assms(1,2)]] klists_unlink [OF assms(1,2), of ys n "[]"] assms(3)
  by auto

lemma klists_empty: "klists h H L \<Longrightarrow> l \<in> H \<Longrightarrow> klist0_empty l h \<longleftrightarrow> L l = []"
  by (rule klist_empty_iff) (rule klistsD)

lemma klists_for_each: "klists h H L \<Longrightarrow> l \<in> H \<Longrightarrow> klist0_for_each h l = Some (L l)"
  by (meson klistsD klist_for_each)

lemma klists_not_unlinked: "klists h H L \<Longrightarrow> l \<in> H \<Longrightarrow> n \<in> set (L l) \<Longrightarrow> \<not> klist0_empty n h"
  using klist_member_linked by (fastforce simp: klist0_empty_def dest: klistsD)

section \<open>The contract of an intrusive list\<close>

locale intrusive_list =
  fixes rep :: "'h \<Rightarrow> 'n \<Rightarrow> 'n list \<Rightarrow> bool"
    and insert_head :: "'n \<Rightarrow> 'n \<Rightarrow> 'h \<Rightarrow> 'h"
    and insert_tail :: "'n \<Rightarrow> 'n \<Rightarrow> 'h \<Rightarrow> 'h"
    and remove :: "'n \<Rightarrow> 'h \<Rightarrow> 'h"
    and is_empty :: "'n \<Rightarrow> 'h \<Rightarrow> bool"
    and first :: "'h \<Rightarrow> 'n \<Rightarrow> 'n"
    and final :: "'h \<Rightarrow> 'n \<Rightarrow> 'n"
    and nodes :: "'h \<Rightarrow> 'n \<Rightarrow> 'n list option"
  assumes rep_distinct: "rep h l xs \<Longrightarrow> distinct (l # xs)"
    and rep_insert_head: "rep h l xs \<Longrightarrow> n \<notin> set (l # xs) \<Longrightarrow> rep (insert_head n l h) l (n # xs)"
    and rep_insert_tail: "rep h l xs \<Longrightarrow> n \<notin> set (l # xs) \<Longrightarrow> rep (insert_tail n l h) l (xs @ [n])"
    and rep_remove: "rep h l (xs @ n # ys) \<Longrightarrow> rep (remove n h) l (xs @ ys)"
    and removed_alone: "rep h l (xs @ n # ys) \<Longrightarrow> rep (remove n h) n []"
    and rep_is_empty: "rep h l xs \<Longrightarrow> is_empty l h \<longleftrightarrow> xs = []"
    and rep_first: "rep h l (n # xs) \<Longrightarrow> first h l = n"
    and rep_final: "rep h l (xs @ [n]) \<Longrightarrow> final h l = n"
    and rep_nodes: "rep h l xs \<Longrightarrow> nodes h l = Some xs"
begin

lemma rep_functional: "rep h l xs \<Longrightarrow> rep h l ys \<Longrightarrow> xs = ys"
  by (metis rep_nodes option.inject)

lemma remove_first: "rep h l (n # xs) \<Longrightarrow> rep (remove (first h l) h) l xs"
  using rep_remove [of h l "[]" n xs] by (simp add: rep_first)

lemma remove_final: "rep h l (xs @ [n]) \<Longrightarrow> rep (remove (final h l) h) l xs"
  using rep_remove [of h l xs n "[]"] by (simp add: rep_final)

text \<open>Taking the first node and putting it at the tail rotates the list.\<close>

lemma rotate_first:
  assumes "rep h l (n # xs)"
  shows "rep (insert_tail (first h l) l (remove (first h l) h)) l (xs @ [n])"
  using remove_first [OF assms] rep_distinct [OF assms] assms
  by (auto simp: rep_first intro!: rep_insert_tail)

text \<open>Insertion at one end and removal at the same end give the list back.\<close>

lemma insert_remove_head:
  "rep h l xs \<Longrightarrow> n \<notin> set (l # xs) \<Longrightarrow> rep (remove n (insert_head n l h)) l xs"
  using rep_remove [of "insert_head n l h" l "[]" n xs] by (simp add: rep_insert_head)

lemma insert_remove_tail:
  "rep h l xs \<Longrightarrow> n \<notin> set (l # xs) \<Longrightarrow> rep (remove n (insert_tail n l h)) l xs"
  using rep_remove [of "insert_tail n l h" l xs n "[]"] by (simp add: rep_insert_tail)

text \<open>Nodes inserted at the tail, one after the other, are visited in the order of insertion.\<close>

lemma insert_tail_all:
  assumes "rep h l xs" and "distinct (l # xs @ ns)"
  shows "rep (fold (\<lambda>n. insert_tail n l) ns h) l (xs @ ns)"
  using assms
proof (induction ns arbitrary: h xs)
  case (Cons n ns)
  then have "rep (insert_tail n l h) l (xs @ [n])"
    by (intro rep_insert_tail) auto
  then have "rep (fold (\<lambda>n. insert_tail n l) ns (insert_tail n l h)) l ((xs @ [n]) @ ns)"
    using Cons.prems by (intro Cons.IH) auto
  then show ?case by simp
qed simp

end

interpretation k0: intrusive_list klist klist0_append klist0_prepend klist0_unlink klist0_empty
  "next" prev klist0_for_each
proof unfold_locales
  fix h :: "'n klist0_node" and l n :: 'n and xs ys :: "'n list"
  show "klist h l xs \<Longrightarrow> distinct (l # xs)"
    by (rule klist_distinct)
  show "klist h l xs \<Longrightarrow> n \<notin> set (l # xs) \<Longrightarrow> klist (klist0_append n l h) l (n # xs)"
    by (rule klist_append)
  show "klist h l xs \<Longrightarrow> n \<notin> set (l # xs) \<Longrightarrow> klist (klist0_prepend n l h) l (xs @ [n])"
    by (rule klist_prepend)
  show "klist h l (xs @ n # ys) \<Longrightarrow> klist (klist0_unlink n h) l (xs @ ys)"
    by (rule klist_unlink)
  show "klist h l (xs @ n # ys) \<Longrightarrow> klist (klist0_unlink n h) n []"
    by (rule klist_unlink)
  show "klist h l xs \<Longrightarrow> klist0_empty l h = (xs = [])"
    by (rule klist_empty_iff)
  show "klist h l (n # xs) \<Longrightarrow> next h l = n"
    using klist_next by fastforce
  show "klist h l (xs @ [n]) \<Longrightarrow> prev h l = n"
    using klist_prev by fastforce
  show "klist h l xs \<Longrightarrow> klist0_for_each h l = Some xs"
    by (rule klist_for_each)
qed

section \<open>Properties of the list\<close>

definition self_linked :: "nat klist0_node" where
  "self_linked = \<lparr>prev = id, next = id\<rparr>"

text \<open>
  C28. Nodes put at the tail of a fresh list (\<^verbatim>\<open>klist0_prepend\<close> on the head) are visited by
  \<^verbatim>\<open>klist0_for_each\<close> in the order they were put in, and the links of the ring agree in both directions; unlinking one of
  them leaves the others as a ring in the same order, again in both directions, and the node itself with both links to itself.
\<close>

theorem klist0_queue_order:
  assumes "distinct (l # ns)" and "ns = xs @ n # ys"
    and "h' = fold (\<lambda>m. klist0_prepend m l) ns (KLIST0_INIT l h)"
  shows "klist0_for_each h' l = Some ns \<and> klist h' l ns \<and>
    klist0_for_each (klist0_unlink n h') l = Some (xs @ ys) \<and> klist (klist0_unlink n h') l (xs @ ys) \<and>
    next (klist0_unlink n h') n = n \<and> prev (klist0_unlink n h') n = n"
proof -
  have "klist h' l ([] @ ns)"
    unfolding assms(3) using klist_init assms(1) by (intro k0.insert_tail_all) simp_all
  then have k: "klist h' l (xs @ n # ys)" by (simp add: assms(2))
  show ?thesis
    using k k0.rep_nodes [OF k] k0.rep_nodes [OF k0.rep_remove [OF k]] k0.rep_remove [OF k] k0.removed_alone [OF k]
    by (simp add: assms(2) klist_Nil_iff)
qed

theorem klist0_queue_order_witness:
  "klist0_for_each (klist0_unlink 2 (fold (\<lambda>m. klist0_prepend m 0) [1, 2, 3] (KLIST0_INIT 0 self_linked))) (0 :: nat) =
      Some [1, 3] \<and>
   klist (klist0_unlink 2 (fold (\<lambda>m. klist0_prepend m 0) [1, 2, 3] (KLIST0_INIT 0 self_linked))) (0 :: nat) [1, 3]"
  using klist0_queue_order [of 0 "[1, 2, 3]" "[1]" 2 "[3]" _ self_linked, OF _ _ refl] by simp

text \<open>
  \<^verbatim>\<open>klist0_reparent\<close> moves a non-empty list to a new head and leaves the old head empty; but reparenting
  an empty list leaves the new head pointing at the old one, which is not a valid empty list.
\<close>

lemma klist0_reparent_cases:
  assumes "klist h f xs" and "t \<notin> set (f # xs)"
  shows "if xs = [] then next (klist0_reparent f t h) t = f \<and> \<not> klist (klist0_reparent f t h) t []
    else klist (klist0_reparent f t h) t xs \<and> klist (klist0_reparent f t h) f []"
proof (cases "xs = []")
  case True
  then have "next h f = f" "prev h f = f" using assms(1) by (simp_all add: klist_Nil_iff)
  then have "next (klist0_reparent f t h) t = f" using assms(2) by (simp add: klist0_defs)
  then show ?thesis using True assms(2) by (auto simp: klist_Nil_iff)
next
  case False
  then show ?thesis using klist_reparent [OF assms(1) False assms(2)] by simp
qed

end
