(* ===== verification/Klib.thy ===== *)
theory Klib
  imports Koo_Base
begin

text \<open>
  \<^verbatim>\<open>include/lib.h\<close> and \<^verbatim>\<open>kernel/lib/klib.c\<close>: character classes, \<^verbatim>\<open>log2\<close>, rounding, the string
  functions, \<^verbatim>\<open>memory_set\<close>, \<^verbatim>\<open>memory_copy\<close> and \<^verbatim>\<open>strtoul\<close>.

  Memory is a function from 32-bit addresses to bytes; pointer arithmetic wraps.  A \<^verbatim>\<open>char\<close> of
  the i386 build is signed: reading one into an \<^verbatim>\<open>int\<close> is \<open>sint\<close>, and \<^verbatim>\<open>(unsigned char)\<close> is \<open>uint\<close>.
  The string scans run until they meet the byte they look for, so they are partial functions.
\<close>

type_synonym memory = "u32 \<Rightarrow> u8"

section \<open>Operations\<close>

subsection \<open>Character classes\<close>

definition isdigit :: "int \<Rightarrow> bool" where
  "isdigit c \<longleftrightarrow> 48 \<le> c \<and> c \<le> 57"

definition isupper :: "int \<Rightarrow> bool" where
  "isupper c \<longleftrightarrow> 65 \<le> c \<and> c \<le> 90"

definition islower :: "int \<Rightarrow> bool" where
  "islower c \<longleftrightarrow> 97 \<le> c \<and> c \<le> 97"

definition isalpha :: "int \<Rightarrow> bool" where
  "isalpha c \<longleftrightarrow> isupper c \<or> islower c"

definition isspace :: "int \<Rightarrow> bool" where
  "isspace c \<longleftrightarrow> c = 32 \<or> c = 9 \<or> c = 10 \<or> c = 13"

subsection \<open>log2 and rounding\<close>

definition NMASK :: "nat \<Rightarrow> u32" where
  "NMASK x = push_bit x 1 - 1"

function log2_loop :: "u32 \<Rightarrow> nat \<Rightarrow> nat" where
  "log2_loop n l = (if l < 32 \<and> drop_bit l n \<noteq> 0 then log2_loop n (Suc l) else l)"
  by pat_completeness auto
termination
  by (relation "measure (\<lambda>(n, l). 32 - l)") auto

declare log2_loop.simps [simp del]

definition log2 :: "u32 \<Rightarrow> nat" where
  "log2 n = (let l = log2_loop n 1 in if n AND NMASK (l - 1) \<noteq> 0 then l else l - 1)"

definition roundup_l2 :: "u32 \<Rightarrow> u32 \<Rightarrow> u32" where
  "roundup_l2 x base = (x + (base - 1)) AND NOT (base - 1)"

subsection \<open>Strings\<close>

partial_function (option) kstrchr :: "memory \<Rightarrow> u32 \<Rightarrow> u8 \<Rightarrow> u32 option option" where
  "kstrchr m p c =
    (if m p \<noteq> 0 \<and> c \<noteq> m p then kstrchr m (p + 1) c
     else if m p = 0 then Some None else Some (Some p))"

partial_function (option) kstrlen_loop :: "memory \<Rightarrow> u32 \<Rightarrow> u32 \<Rightarrow> u32 option" where
  "kstrlen_loop m str p =
    (if m (p + 1) \<noteq> 0 then kstrlen_loop m str (p + 1) else Some (p + 1 - str))"

definition kstrlen :: "memory \<Rightarrow> u32 \<Rightarrow> u32 option" where
  "kstrlen m str = kstrlen_loop m str str"

partial_function (option) kstrrchr_loop :: "memory \<Rightarrow> u32 \<Rightarrow> u8 \<Rightarrow> u32 \<Rightarrow> u32 option option" where
  "kstrrchr_loop m str c p =
    (if str \<noteq> p \<and> c \<noteq> m p then kstrrchr_loop m str c (p - 1)
     else if c \<noteq> m p then Some None else Some (Some p))"

definition kstrrchr :: "memory \<Rightarrow> u32 \<Rightarrow> u8 \<Rightarrow> u32 option option" where
  "kstrrchr m str c = do { len \<leftarrow> kstrlen m str; kstrrchr_loop m str c (str + len) }"

fun kstrncmp :: "memory \<Rightarrow> u32 \<Rightarrow> u32 \<Rightarrow> nat \<Rightarrow> int" where
  "kstrncmp m a b 0 = sint (m a) - sint (m b)"
| "kstrncmp m a b (Suc n) =
    (if m a = m b then kstrncmp m (a + 1) (b + 1) n else sint (m a) - sint (m b))"

partial_function (option) k__strcmp :: "memory \<Rightarrow> u32 \<Rightarrow> u32 \<Rightarrow> int option" where
  "k__strcmp m a b =
    (if m a \<noteq> 0 \<and> m b \<noteq> 0 \<and> m a = m b then k__strcmp m (a + 1) (b + 1)
     else Some (sint (m a) - sint (m b)))"

definition kstrcmp :: "memory \<Rightarrow> u32 \<Rightarrow> u32 \<Rightarrow> int option" where
  "kstrcmp m a b = do {
     len_a \<leftarrow> kstrlen m a;
     len_b \<leftarrow> kstrlen m b;
     if len_a = len_b then Some (kstrncmp m a b (unat len_a)) else k__strcmp m a b
   }"

subsection \<open>Memory\<close>

fun memory_set :: "u32 \<Rightarrow> u8 \<Rightarrow> nat \<Rightarrow> memory \<Rightarrow> memory" where
  "memory_set s c 0 m = m"
| "memory_set s c (Suc t) m = memory_set s c t (m(s + of_nat t := c))"

fun copy_up :: "u32 \<Rightarrow> u32 \<Rightarrow> nat \<Rightarrow> nat \<Rightarrow> memory \<Rightarrow> memory" where
  "copy_up dest src i 0 m = m"
| "copy_up dest src i (Suc n) m =
    copy_up dest src (Suc i) n (m(dest + of_nat i := m (src + of_nat i)))"

fun copy_down :: "u32 \<Rightarrow> u32 \<Rightarrow> nat \<Rightarrow> memory \<Rightarrow> memory" where
  "copy_down dest src 0 m = m"
| "copy_down dest src (Suc i) m =
    copy_down dest src i (m(dest + of_nat i := m (src + of_nat i)))"

definition memory_copy :: "u32 \<Rightarrow> u32 \<Rightarrow> nat \<Rightarrow> memory \<Rightarrow> memory" where
  "memory_copy dest src n m =
    (if dest = src then m
     else if dest < src then copy_up dest src 0 n m
     else copy_down dest src n m)"

subsection \<open>strtoul\<close>

definition ULONG_MAX :: u32 where
  "ULONG_MAX = 0xffffffff"

partial_function (option) skip_space :: "memory \<Rightarrow> u32 \<Rightarrow> (int \<times> u32) option" where
  "skip_space m s =
    (let c = uint (m s) in if isspace c then skip_space m (s + 1) else Some (c, s + 1))"

definition digit_of :: "int \<Rightarrow> int option" where
  "digit_of c =
    (if isdigit c then Some (c - 48)
     else if isalpha c then Some (c - (if isupper c then 55 else 87))
     else None)"

partial_function (option) strtoul_loop ::
    "memory \<Rightarrow> int \<Rightarrow> int \<Rightarrow> u32 \<Rightarrow> u32 \<Rightarrow> int \<Rightarrow> (u32 \<times> int) option" where
  "strtoul_loop m base c s acc any =
    (case digit_of c of
       None \<Rightarrow> Some (acc, any)
     | Some d \<Rightarrow>
         if d \<ge> base then Some (acc, any)
         else if any < 0 then strtoul_loop m base (uint (m s)) (s + 1) acc any
         else if acc > ULONG_MAX div of_int base \<or>
                 (acc = ULONG_MAX div of_int base \<and> d > uint (ULONG_MAX mod of_int base))
         then strtoul_loop m base (uint (m s)) (s + 1) ULONG_MAX (-1)
         else strtoul_loop m base (uint (m s)) (s + 1) (acc * of_int base + of_int d) 1)"

definition strtoul :: "memory \<Rightarrow> u32 \<Rightarrow> u32 option" where
  "strtoul m nptr = do {
     (c0, s0) \<leftarrow> skip_space m nptr;
     let (neg, c1, s1) =
       (if c0 = 45 then (True, sint (m s0), s0 + 1)
        else if c0 = 43 then (False, sint (m s0), s0 + 1)
        else (False, c0, s0));
     let (base, c2, s2) =
       (if c1 = 48 \<and> (m s1 = 120 \<or> m s1 = 88) then (16, sint (m (s1 + 1)), s1 + 2)
        else (if c1 = 48 then 8 else 10, c1, s1));
     (acc, any) \<leftarrow> strtoul_loop m base c2 s2 0 0;
     Some (if neg \<and> any > 0 then - acc else acc)
   }"

section \<open>log2 and rounding\<close>

lemma drop_bit_zero_iff: "drop_bit l n = 0 \<longleftrightarrow> unat n < 2 ^ l" for n :: "'a::len word"
proof -
  have "drop_bit l n = 0 \<longleftrightarrow> unat (drop_bit l n) = 0" by (metis unat_0 unat_eq_zero)
  also have "unat (drop_bit l n) = unat n div 2 ^ l" by (simp add: unat_drop_bit_eq) (simp add: drop_bit_eq_div)
  finally show ?thesis by (simp add: div_eq_0_iff)
qed

lemma log2_loop_bounds:
  assumes "0 < l" and "l \<le> 32" and "2 ^ (l - 1) \<le> unat n"
  shows "l \<le> log2_loop n l \<and> log2_loop n l \<le> 32 \<and> 2 ^ (log2_loop n l - 1) \<le> unat n \<and> unat n < 2 ^ log2_loop n l"
  using assms
proof (induction "32 - l" arbitrary: l)
  case 0
  then show ?case using unsigned_less [of n, where ?'a = nat] by (simp add: log2_loop.simps)
next
  case (Suc k)
  show ?case
  proof (cases "drop_bit l n = 0")
    case True
    then show ?thesis using Suc.prems by (simp add: log2_loop.simps [of n l] drop_bit_zero_iff)
  next
    case False
    then have "log2_loop n l = log2_loop n (Suc l)"
      using Suc.hyps(2) by (subst log2_loop.simps) arith
    moreover have "2 ^ l \<le> unat n" using False by (simp add: drop_bit_zero_iff not_less)
    moreover have "k = 32 - Suc l" "Suc l \<le> 32" using Suc.hyps(2) by simp_all
    ultimately show ?thesis using Suc.hyps(1) [of "Suc l"] by simp
  qed
qed

lemma and_NMASK: "l < 32 \<Longrightarrow> unat (n AND NMASK l) = unat n mod 2 ^ l"
proof -
  assume l: "l < 32"
  have "NMASK l = mask l" by (simp add: NMASK_def mask_eq_exp_minus_1)
  then have "n AND NMASK l = take_bit l n" by (simp add: take_bit_eq_mask)
  then show ?thesis by (simp add: unsigned_take_bit_eq) (simp add: take_bit_eq_mod)
qed

lemma log2_bounds:
  assumes "n \<noteq> 0"
  shows "unat n \<le> 2 ^ log2 n" and "0 < log2 n \<Longrightarrow> 2 ^ (log2 n - 1) < unat n"
proof -
  define l where "l = log2_loop n 1"
  have n: "1 \<le> unat n" using assms by (simp add: Suc_le_eq unat_gt_0)
  then have b: "1 \<le> l" "l \<le> 32" "2 ^ (l - 1) \<le> unat n" "unat n < 2 ^ l"
    using log2_loop_bounds [of 1 n] by (simp_all add: l_def)
  have z: "n AND NMASK (l - 1) \<noteq> 0 \<longleftrightarrow> unat n mod 2 ^ (l - 1) \<noteq> 0"
    using and_NMASK [of "l - 1" n] b(1,2) unat_eq_zero [of "n AND NMASK (l - 1)"] by simp
  have two: "(2::nat) ^ l = 2 ^ (l - 1) + 2 ^ (l - 1)"
    using b(1) by (cases l) simp_all
  have "unat n mod 2 ^ (l - 1) = unat n - 2 ^ (l - 1)"
    using b(3,4) two by (simp add: le_mod_geq)
  then have e: "log2 n = (if unat n = 2 ^ (l - 1) then l - 1 else l)"
    using z b(3) unfolding log2_def l_def [symmetric] Let_def by simp
  show "unat n \<le> 2 ^ log2 n" using e b(4) by auto
  show "2 ^ (log2 n - 1) < unat n" if "0 < log2 n"
  proof (cases "unat n = 2 ^ (l - 1)")
    case True
    then show ?thesis using e that by simp
  next
    case False
    then show ?thesis using e b(3) by simp
  qed
qed

lemma log2_le_iff:
  assumes "n \<noteq> 0"
  shows "log2 n \<le> k \<longleftrightarrow> unat n \<le> 2 ^ k"
proof
  assume "log2 n \<le> k"
  then have "(2::nat) ^ log2 n \<le> 2 ^ k" by simp
  then show "unat n \<le> 2 ^ k" using log2_bounds(1) [OF assms] by linarith
next
  assume k: "unat n \<le> 2 ^ k"
  show "log2 n \<le> k"
  proof (rule ccontr)
    assume c: "\<not> log2 n \<le> k"
    then have "(2::nat) ^ k \<le> 2 ^ (log2 n - 1)" by (intro power_increasing) simp_all
    then show False using log2_bounds(2) [OF assms] c k by linarith
  qed
qed

lemma and_not_mask_div: "unat (x AND NOT (mask k)) = unat x div 2 ^ k * 2 ^ k" for x :: "'a::len word"
proof -
  have "x AND NOT (mask k) = push_bit k (drop_bit k x)"
    by (rule bit_word_eqI) (auto simp: bit_simps)
  also have "unat \<dots> = unat x div 2 ^ k * 2 ^ k"
  proof -
    have "unat x div 2 ^ k * 2 ^ k \<le> unat x" by simp
    then have "unat x div 2 ^ k * 2 ^ k < 2 ^ LENGTH('a)" using unsigned_less [of x, where ?'a = nat] by linarith
    then show ?thesis
      by (simp add: unsigned_push_bit_eq unat_drop_bit_eq) (simp add: drop_bit_eq_div push_bit_eq_mult take_bit_nat_eq_self)
  qed
  finally show ?thesis .
qed

lemma unat_sub_pow: "k < 32 \<Longrightarrow> unat (2 ^ k - 1 :: u32) = 2 ^ k - 1"
proof -
  assume k: "k < 32"
  have "(2::nat) ^ k < 2 ^ 32" using k by (intro power_strict_increasing) simp_all
  then have "unat (2 ^ k :: u32) = 2 ^ k"
    using unat_of_nat [of "2 ^ k", where ?'a = 32] by simp
  then show ?thesis by (simp add: unat_sub word_le_nat_alt)
qed

lemma roundup_l2_pow:
  assumes "k < 32" and "unat x + 2 ^ k - 1 < 2 ^ 32"
  shows "unat (roundup_l2 x (2 ^ k)) = (unat x + 2 ^ k - 1) div 2 ^ k * 2 ^ k"
proof -
  have "(2 ^ k - 1 :: u32) = mask k" by (simp add: mask_eq_exp_minus_1)
  moreover have "unat (mask k :: u32) = 2 ^ k - 1"
    using assms(1) by (simp add: mask_eq_exp_minus_1 unat_sub_pow)
  then have "unat (x + mask k) = unat x + 2 ^ k - 1"
    using assms(2) by (simp add: unat_word_ariths)
  ultimately show ?thesis by (simp add: roundup_l2_def and_not_mask_div)
qed

section \<open>Strings\<close>

text \<open>The memory holds the bytes \<open>xs\<close>, none of them zero, and a terminator at \<open>p\<close>.\<close>

fun cstr :: "memory \<Rightarrow> u32 \<Rightarrow> u8 list \<Rightarrow> bool" where
  "cstr m p [] \<longleftrightarrow> m p = 0"
| "cstr m p (x # xs) \<longleftrightarrow> m p = x \<and> x \<noteq> 0 \<and> cstr m (p + 1) xs"

lemma kstrlen_loop_cstr: "cstr m (p + 1) xs \<Longrightarrow> kstrlen_loop m str p = Some (p + 1 + of_nat (length xs) - str)"
proof (induction xs arbitrary: p)
  case Nil
  then show ?case by (simp add: kstrlen_loop.simps)
next
  case (Cons x xs)
  then show ?case by (subst kstrlen_loop.simps) (simp add: add.assoc)
qed

lemma kstrlen_cstr: "cstr m p (x # xs) \<Longrightarrow> kstrlen m p = Some (of_nat (length (x # xs)))"
  using kstrlen_loop_cstr [of m p xs p] by (simp add: kstrlen_def)

lemma kstrlen_after_empty: "cstr m (p + 1) ys \<Longrightarrow> kstrlen m p = Some (of_nat (Suc (length ys)))"
  using kstrlen_loop_cstr [of m p ys p] by (simp add: kstrlen_def)

lemma kstrchr_cstr:
  assumes "cstr m p xs" and "c \<noteq> 0"
  shows "kstrchr m p c = Some (if c \<in> set xs then Some (p + of_nat (length (takeWhile (\<lambda>x. x \<noteq> c) xs))) else None)"
  using assms(1)
proof (induction xs arbitrary: p)
  case Nil
  then show ?case by (simp add: kstrchr.simps)
next
  case (Cons x xs)
  show ?case
  proof (cases "x = c")
    case True
    then show ?thesis using Cons.prems assms(2) by (subst kstrchr.simps) simp
  next
    case False
    then have "kstrchr m p c = kstrchr m (p + 1) c"
      using Cons.prems by (subst kstrchr.simps) auto
    then show ?thesis using Cons False by (simp add: add.assoc)
  qed
qed

text \<open>The sign of the first difference of two byte strings, read as signed characters.\<close>

fun str_diff :: "u8 list \<Rightarrow> u8 list \<Rightarrow> int" where
  "str_diff [] ys = (case ys of [] \<Rightarrow> 0 | y # _ \<Rightarrow> - sint y)"
| "str_diff (x # xs) ys = (case ys of [] \<Rightarrow> sint x | y # ys' \<Rightarrow> if x = y then str_diff xs ys' else sint x - sint y)"

lemma sint_eq_0_byte: "sint x = 0 \<longleftrightarrow> x = 0" for x :: u8
  by (metis signed_0 signed_word_eqI)

lemma str_diff_0: "0 \<notin> set xs \<Longrightarrow> 0 \<notin> set ys \<Longrightarrow> str_diff xs ys = 0 \<longleftrightarrow> xs = ys"
proof (induction xs ys rule: str_diff.induct)
  case (1 ys)
  then show ?case by (cases ys) (auto simp: sint_eq_0_byte)
next
  case (2 x xs ys)
  then show ?case
    by (cases ys) (auto simp: sint_eq_0_byte dest: signed_word_eqI)
qed

lemma k__strcmp_cstr: "cstr m a xs \<Longrightarrow> cstr m b ys \<Longrightarrow> k__strcmp m a b = Some (str_diff xs ys)"
proof (induction xs ys arbitrary: a b rule: str_diff.induct)
  case (1 ys)
  then show ?case by (cases ys) (simp_all add: k__strcmp.simps)
next
  case (2 x xs ys)
  then show ?case
    by (cases ys) (auto simp: k__strcmp.simps [of m a b])
qed

lemma kstrncmp_cstr:
  "cstr m a xs \<Longrightarrow> cstr m b ys \<Longrightarrow> length xs = length ys \<Longrightarrow> kstrncmp m a b (length xs) = str_diff xs ys"
proof (induction xs ys arbitrary: a b rule: str_diff.induct)
  case (1 ys)
  then show ?case by simp
next
  case (2 x xs ys)
  then show ?case by (cases ys) auto
qed

lemma kstrcmp_cstr:
  assumes "cstr m a xs" and "cstr m b ys" and "xs \<noteq> []" and "ys \<noteq> []"
    and "length xs < 2 ^ 32" and "length ys < 2 ^ 32"
  shows "kstrcmp m a b = Some (str_diff xs ys)"
proof -
  have l: "kstrlen m a = Some (of_nat (length xs))" "kstrlen m b = Some (of_nat (length ys))"
    using assms kstrlen_cstr by (metis list.exhaust)+
  have u: "unat (of_nat (length xs) :: u32) = length xs" "unat (of_nat (length ys) :: u32) = length ys"
    using assms(5,6) by (simp_all add: unat_of_nat)
  show ?thesis
  proof (cases "length xs = length ys")
    case True
    then show ?thesis using l u kstrncmp_cstr [OF assms(1,2)] by (simp add: kstrcmp_def)
  next
    case False
    then have "(of_nat (length xs) :: u32) \<noteq> of_nat (length ys)" using u by metis
    then show ?thesis using l k__strcmp_cstr [OF assms(1,2)] by (simp add: kstrcmp_def)
  qed
qed

section \<open>Memory\<close>

lemma memory_set_spec:
  assumes "n \<le> 2 ^ 32"
  shows "memory_set s c n m a = (if unat (a - s) < n then c else m a)"
  using assms
proof (induction n arbitrary: m)
  case 0
  then show ?case by simp
next
  case (Suc n)
  have "a = s + of_nat n \<longleftrightarrow> unat (a - s) = n"
    using Suc.prems by (intro eq_offset_iff) simp
  then show ?case using Suc by auto
qed

text \<open>Both copy loops read each source byte before they overwrite it.\<close>

lemma copy_up_spec:
  assumes "unat dest < unat src" and "unat src + i + n \<le> 2 ^ 32"
  shows "copy_up dest src i n m a =
    (if i \<le> unat (a - dest) \<and> unat (a - dest) < i + n then m (src + (a - dest)) else m a)"
  using assms(2)
proof (induction n arbitrary: i m)
  case 0
  then show ?case by auto
next
  case (Suc n)
  have i: "i < 2 ^ 32" using Suc.prems by simp
  let ?m = "m(dest + of_nat i := m (src + of_nat i))"
  have IH: "copy_up dest src i (Suc n) m a =
      (if Suc i \<le> unat (a - dest) \<and> unat (a - dest) < Suc i + n then ?m (src + (a - dest)) else ?m a)"
    unfolding copy_up.simps using Suc.prems by (intro Suc.IH) simp
  have at: "a = dest + of_nat i \<longleftrightarrow> unat (a - dest) = i"
    using i by (rule eq_offset_iff)
  have ne: "src + (a - dest) \<noteq> dest + of_nat i" if "i \<le> unat (a - dest)" "unat (a - dest) < i + Suc n"
  proof -
    have "unat (src + (a - dest)) = unat src + unat (a - dest)"
      using that Suc.prems unat_add_offset [of src "unat (a - dest)"] by simp
    moreover have "unat (dest + of_nat i) = unat dest + i"
      using Suc.prems assms(1) by (intro unat_add_offset) simp
    ultimately show ?thesis using that(1) assms(1) by fastforce
  qed
  show ?case
  proof (cases "unat (a - dest) = i")
    case True
    then have "src + of_nat i = src + (a - dest)" by (metis of_nat_unat ucast_id)
    then show ?thesis using IH True at by simp
  next
    case False
    then show ?thesis using IH at ne by auto
  qed
qed

lemma copy_down_spec:
  assumes "unat src < unat dest" and "unat dest + n \<le> 2 ^ 32"
  shows "copy_down dest src n m a = (if unat (a - dest) < n then m (src + (a - dest)) else m a)"
  using assms(2)
proof (induction n arbitrary: m)
  case 0
  then show ?case by simp
next
  case (Suc n)
  have n: "n < 2 ^ 32" using Suc.prems by simp
  let ?m = "m(dest + of_nat n := m (src + of_nat n))"
  have IH: "copy_down dest src (Suc n) m a = (if unat (a - dest) < n then ?m (src + (a - dest)) else ?m a)"
    unfolding copy_down.simps using Suc.prems by (intro Suc.IH) simp
  have at: "a = dest + of_nat n \<longleftrightarrow> unat (a - dest) = n"
    using n by (rule eq_offset_iff)
  have ne: "src + (a - dest) \<noteq> dest + of_nat n" if "unat (a - dest) < n"
  proof -
    have "unat (src + (a - dest)) = unat src + unat (a - dest)"
      using that Suc.prems assms(1) unat_add_offset [of src "unat (a - dest)"] by simp
    moreover have "unat (dest + of_nat n) = unat dest + n"
      using Suc.prems by (intro unat_add_offset) simp
    ultimately show ?thesis using that assms(1) by fastforce
  qed
  show ?case
  proof (cases "unat (a - dest) = n")
    case True
    then have "src + of_nat n = src + (a - dest)" by (metis of_nat_unat ucast_id)
    then show ?thesis using IH True at by simp
  next
    case False
    then show ?thesis using IH at ne by auto
  qed
qed

lemma memory_copy_spec:
  assumes "unat src + n \<le> 2 ^ 32" and "unat dest + n \<le> 2 ^ 32"
  shows "memory_copy dest src n m a = (if unat (a - dest) < n then m (src + (a - dest)) else m a)"
proof (cases "dest = src")
  case True
  then show ?thesis by (simp add: memory_copy_def)
next
  case False
  then show ?thesis
    using assms copy_up_spec [of dest src 0 n] copy_down_spec [of src dest n]
    by (cases "dest < src") (auto simp: memory_copy_def word_less_nat_alt word_unat_eq_iff)
qed

text \<open>The \<open>n\<close> bytes from \<open>a\<close> on.\<close>

definition bytes_at :: "memory \<Rightarrow> u32 \<Rightarrow> nat \<Rightarrow> u8 list" where
  "bytes_at m a n = map (\<lambda>i. m (a + of_nat i)) [0..<n]"

lemma length_bytes_at [simp]: "length (bytes_at m a n) = n"
  by (simp add: bytes_at_def)

lemma bytes_at_append: "bytes_at m a (n + k) = bytes_at m a n @ bytes_at m (a + of_nat n) k"
  by (rule nth_equalityI) (auto simp: bytes_at_def nth_append add.assoc simp flip: of_nat_add)

section \<open>strtoul\<close>

text \<open>The memory holds decimal digits at \<open>s\<close>, up to the first byte that is no digit or letter.\<close>

fun digits_at :: "memory \<Rightarrow> u32 \<Rightarrow> nat list \<Rightarrow> bool" where
  "digits_at m s [] \<longleftrightarrow> digit_of (uint (m s)) = None"
| "digits_at m s (d # ds) \<longleftrightarrow> d < 10 \<and> m s = of_nat (48 + d) \<and> digits_at m (s + 1) ds"

definition dec_value :: "nat \<Rightarrow> nat list \<Rightarrow> nat" where
  "dec_value v ds = foldl (\<lambda>a d. 10 * a + d) v ds"

lemma dec_value_simps [simp]: "dec_value v [] = v" "dec_value v (d # ds) = dec_value (10 * v + d) ds"
  by (simp_all add: dec_value_def)

lemma dec_value_ge: "v \<le> dec_value v ds"
proof (induction ds arbitrary: v)
  case (Cons d ds)
  have "v \<le> 10 * v + d" by simp
  also have "\<dots> \<le> dec_value (10 * v + d) ds" by (rule Cons)
  finally show ?case by simp
qed simp

lemma digit_char:
  assumes "d < 10"
  shows "uint (of_nat (48 + d) :: u8) = 48 + int d" and "digit_of (48 + int d) = Some (int d)"
proof -
  have "uint (of_nat (48 + d) :: u8) = int (unat (of_nat (48 + d) :: u8))" by simp
  also have "unat (of_nat (48 + d) :: u8) = 48 + d" using assms by (subst unat_of_nat) simp
  finally show "uint (of_nat (48 + d) :: u8) = 48 + int d" by simp
  show "digit_of (48 + int d) = Some (int d)" using assms by (simp add: digit_of_def isdigit_def)
qed

lemma cutoff_10: "ULONG_MAX div 10 = 429496729" "uint (ULONG_MAX mod 10) = 5"
  by (simp_all add: ULONG_MAX_def)

lemma overflow_test:
  assumes "v < 2 ^ 32" and "d < 10"
  shows "(of_nat v :: u32) > 429496729 \<or> (of_nat v :: u32) = 429496729 \<and> int d > 5 \<longleftrightarrow> 2 ^ 32 \<le> 10 * v + d"
proof -
  have u: "unat (of_nat v :: u32) = v" using assms(1) by (rule unat_of_nat32)
  have "(of_nat v :: u32) > 429496729 \<longleftrightarrow> v > 429496729" by (simp add: word_less_nat_alt u)
  moreover have "(of_nat v :: u32) = 429496729 \<longleftrightarrow> v = 429496729"
    using u by (auto simp: word_unat_eq_iff)
  ultimately show ?thesis using assms by auto
qed

lemma strtoul_loop_step:
  assumes "d < 10" and "v < 2 ^ 32"
  shows "any < 0 \<Longrightarrow> strtoul_loop m 10 (48 + int d) t acc any = strtoul_loop m 10 (uint (m t)) (t + 1) acc any"
    and "0 \<le> any \<Longrightarrow> strtoul_loop m 10 (48 + int d) t (of_nat v) any =
      (if 2 ^ 32 \<le> 10 * v + d then strtoul_loop m 10 (uint (m t)) (t + 1) ULONG_MAX (-1)
       else strtoul_loop m 10 (uint (m t)) (t + 1) (of_nat (10 * v + d)) 1)"
proof -
  show "strtoul_loop m 10 (48 + int d) t acc any = strtoul_loop m 10 (uint (m t)) (t + 1) acc any" if "any < 0"
    using that assms(1) by (subst strtoul_loop.simps) (simp add: digit_char(2))
  show "strtoul_loop m 10 (48 + int d) t (of_nat v) any =
      (if 2 ^ 32 \<le> 10 * v + d then strtoul_loop m 10 (uint (m t)) (t + 1) ULONG_MAX (-1)
       else strtoul_loop m 10 (uint (m t)) (t + 1) (of_nat (10 * v + d)) 1)" if "0 \<le> any"
    unfolding overflow_test [OF assms(2,1), symmetric]
    using that assms(1) by (subst strtoul_loop.simps) (simp add: digit_char(2) cutoff_10 mult.commute)
qed

lemma strtoul_loop_sat:
  "any < 0 \<Longrightarrow> digits_at m s ds \<Longrightarrow> strtoul_loop m 10 (uint (m s)) (s + 1) acc any = Some (acc, any)"
proof (induction ds arbitrary: s)
  case Nil
  then show ?case by (simp add: strtoul_loop.simps)
next
  case (Cons d ds)
  then have d: "d < 10" "uint (m s) = 48 + int d" "digits_at m (s + 1) ds"
    by (simp_all add: digit_char del: of_nat_add)
  show ?case
    unfolding d(2) strtoul_loop_step(1) [OF d(1) zero_less_power [OF zero_less_numeral] Cons.prems(1)]
    by (rule Cons.IH [OF Cons.prems(1) d(3)])
qed

lemma strtoul_loop_dec:
  assumes "digits_at m s ds" and "v < 2 ^ 32" and "0 \<le> any"
  shows "strtoul_loop m 10 (uint (m s)) (s + 1) (of_nat v) any =
    Some (if dec_value v ds < 2 ^ 32 then (of_nat (dec_value v ds), if ds = [] then any else 1) else (ULONG_MAX, -1))"
  using assms
proof (induction ds arbitrary: s v any)
  case Nil
  then show ?case by (simp add: strtoul_loop.simps)
next
  case (Cons d ds)
  then have d: "d < 10" "uint (m s) = 48 + int d" "digits_at m (s + 1) ds"
    by (simp_all add: digit_char del: of_nat_add)
  show ?case
  proof (cases "2 ^ 32 \<le> 10 * v + d")
    case True
    then have "\<not> dec_value v (d # ds) < 2 ^ 32"
      using dec_value_ge [of "10 * v + d" ds] by simp
    then show ?thesis
      unfolding d(2) strtoul_loop_step(2) [OF d(1) Cons.prems(2,3)]
      using True strtoul_loop_sat [OF _ d(3), of "-1"] by simp
  next
    case False
    then show ?thesis
      unfolding d(2) strtoul_loop_step(2) [OF d(1) Cons.prems(2,3)]
      using Cons.IH [OF d(3), of "10 * v + d" 1] by simp
  qed
qed

lemma strtoul_dec:
  assumes "digits_at m p (d # ds)" and "d \<noteq> 0"
  shows "strtoul m p = Some (if dec_value 0 (d # ds) < 2 ^ 32 then of_nat (dec_value 0 (d # ds)) else ULONG_MAX)"
proof -
  have d: "d < 10" "uint (m p) = 48 + int d"
    using assms(1) by (simp_all add: digit_char del: of_nat_add)
  have "skip_space m p = Some (48 + int d, p + 1)"
    using d by (subst skip_space.simps) (simp add: isspace_def)
  then show ?thesis
    using strtoul_loop_dec [OF assms(1), of 0 0] assms(2) d by (simp add: strtoul_def)
qed

section \<open>Properties of the library\<close>

text \<open>
  C29. \<^verbatim>\<open>log2(n)\<close> is the least order whose power of two is not below \<open>n\<close>, so an allocation of that
  order fits \<open>n\<close> and no smaller one does.
\<close>

theorem log2_correct:
  assumes "n \<noteq> 0"
  shows "log2 n \<le> k \<longleftrightarrow> unat n \<le> 2 ^ k"
  using assms by (rule log2_le_iff)

theorem log2_correct_witness: "(5::u32) \<noteq> 0 \<and> log2 5 \<le> 3 \<and> \<not> log2 5 \<le> 2"
  using log2_correct [of 5 3] log2_correct [of 5 2] by simp

text \<open>
  C30. \<^verbatim>\<open>memory_copy\<close> copies \<open>n\<close> bytes and changes nothing else, also when source and destination
  overlap, as long as neither range wraps around the address space.
\<close>

theorem memory_copy_correct:
  assumes "unat src + n \<le> 2 ^ 32" and "unat dest + n \<le> 2 ^ 32"
  shows "memory_copy dest src n m a = (if unat (a - dest) < n then m (src + (a - dest)) else m a)"
  using assms by (rule memory_copy_spec)

theorem memory_copy_correct_witness:
  "memory_copy 2 0 4 (\<lambda>a. ucast a) 5 = 3 \<and> memory_copy 2 0 4 (\<lambda>a. ucast a) 6 = 6"
  using memory_copy_correct [of 0 4 2 "\<lambda>a. ucast a" 5] memory_copy_correct [of 0 4 2 "\<lambda>a. ucast a" 6] by simp

text \<open>
  \<^verbatim>\<open>kstrcmp\<close> of two non-empty strings returns, and returns zero exactly for equal strings.
\<close>

lemma kstrcmp_correct:
  assumes "cstr m a xs" and "cstr m b ys" and "xs \<noteq> []" and "ys \<noteq> []"
    and "length xs < 2 ^ 32" and "length ys < 2 ^ 32"
  shows "\<exists>d. kstrcmp m a b = Some d \<and> (d = 0 \<longleftrightarrow> xs = ys)"
proof -
  have "0 \<notin> set zs" if "cstr m p zs" for p zs
    using that by (induction zs arbitrary: p) auto
  then show ?thesis using kstrcmp_cstr [OF assms] str_diff_0 [of xs ys] assms(1,2) by blast
qed

text \<open>
  \<^verbatim>\<open>kstrlen\<close> looks at the second byte first: for the empty string it returns one plus the length
  of whatever string follows the terminator, never 0.
\<close>

lemma kstrlen_empty_string:
  assumes "m p = 0" and "cstr m (p + 1) ys" and "length ys < 100"
  shows "kstrlen m p = Some (of_nat (Suc (length ys))) \<and> kstrlen m p \<noteq> Some 0"
proof -
  have "unat (of_nat (Suc (length ys)) :: u32) = Suc (length ys)"
    using assms(3) by (intro unat_of_nat32) simp
  then have "(of_nat (Suc (length ys)) :: u32) \<noteq> 0" by (metis nat.distinct(1) unat_0)
  then show ?thesis using kstrlen_after_empty [OF assms(2)] by simp
qed

text \<open>
  C31. \<^verbatim>\<open>strtoul\<close> on decimal digits without a leading zero returns their value, and the largest
  32-bit number when the value does not fit.
\<close>

theorem strtoul_correct:
  assumes "digits_at m p (d # ds)" and "d \<noteq> 0"
  shows "strtoul m p = Some (of_nat (min (dec_value 0 (d # ds)) (2 ^ 32 - 1)))"
proof -
  have "ULONG_MAX = of_nat (2 ^ 32 - 1)" by (simp add: ULONG_MAX_def)
  then show ?thesis unfolding strtoul_dec [OF assms] by (auto simp: min_def simp del: dec_value_simps)
qed

theorem strtoul_correct_witness: "strtoul (\<lambda>a. if a = 0 then 52 else if a = 1 then 50 else 0) 0 = Some 42"
  using strtoul_correct [of "\<lambda>a. if a = 0 then 52 else if a = 1 then 50 else 0" 0 4 "[2]"]
  by (simp add: digit_of_def isdigit_def isalpha_def isupper_def islower_def)

end
