(* ===== verification/Page_Alloc.thy ===== *)
theory Page_Alloc
  imports Klist0 Klib
begin

text \<open>
  \<^verbatim>\<open>kernel/page_alloc.c\<close>, \<^verbatim>\<open>include/page_alloc.h\<close>, \<^verbatim>\<open>include/mm_zone.h\<close>, \<^verbatim>\<open>kernel/mm_zone.c\<close>:
  the buddy page allocator.

  A \<^verbatim>\<open>struct page *\<close> is a pair of a zone number and an index into the zone's array of page
  structures.  The nodes that a page's \<^verbatim>\<open>list\<close> field is linked with (the free lists
  \<^verbatim>\<open>alloc_levels\<close> and the page lists of the slice pools), those of its \<^verbatim>\<open>area_list\<close> field, and
  the zone lists are three klist0 heaps.
\<close>

section \<open>Data\<close>

definition MAX_ORDER :: nat where
  "MAX_ORDER = 11"

definition NUM_ZONES :: nat where
  "NUM_ZONES = 3"

definition ZONE_BOOT :: nat where "ZONE_BOOT = 0"
definition ZONE_USER :: nat where "ZONE_USER = 1"
definition ZONE_VMAP :: nat where "ZONE_VMAP = 2"

definition ZONE_MASK :: u32 where
  "ZONE_MASK = 3"

text \<open>\<open>sizeof(struct page)\<close> on the i386: two words, two list nodes, two words.\<close>

definition SIZEOF_PAGE :: nat where
  "SIZEOF_PAGE = 32"

type_synonym pageptr = "nat \<times> nat"

datatype list_node = Level nat nat | PgList pageptr | PagesActive u32 | PagesInactive u32

datatype area_node = AreaHead nat | PgArea pageptr

datatype zone_node = ZoneNode nat | GlobalMemInfo | MemoryInfo

record page =
  pg_index :: nat
  virt :: u32
  pg_order :: nat
  pg_zone :: nat

record mem_zone =
  base :: u32
  total_pages :: nat
  free_pages_count :: u32

record mm =
  mem_zone :: "nat \<Rightarrow> mem_zone"
  p_pool :: "pageptr \<Rightarrow> page"
  lists :: "list_node klist0_node"
  areas :: "area_node klist0_node"
  zones :: "zone_node klist0_node"

definition set_page :: "pageptr \<Rightarrow> (page \<Rightarrow> page) \<Rightarrow> mm \<Rightarrow> mm" where
  "set_page p f s = s\<lparr>p_pool := (p_pool s)(p := f (p_pool s p))\<rparr>"

definition set_order :: "pageptr \<Rightarrow> nat \<Rightarrow> mm \<Rightarrow> mm" where
  "set_order p n = set_page p (\<lambda>pg. pg\<lparr>pg_order := n\<rparr>)"

section \<open>Operations\<close>

subsection \<open>idx_order\<close>

function idx_order_loop :: "nat \<Rightarrow> nat \<Rightarrow> nat" where
  "idx_order_loop i index =
    (if even index \<and> i < MAX_ORDER - 1 then idx_order_loop (Suc i) (index div 2) else i)"
  by pat_completeness auto
termination
  by (relation "measure (\<lambda>(i, index). MAX_ORDER - i)") auto

definition idx_order :: "nat \<Rightarrow> nat" where
  "idx_order index = idx_order_loop 0 index"

declare idx_order_loop.simps [simp del]

subsection \<open>Zone initialisation\<close>

definition init_page :: "nat \<Rightarrow> nat \<Rightarrow> mm \<Rightarrow> mm" where
  "init_page z i s =
    s\<lparr>lists := KLIST0_INIT (PgList (z, i)) (lists s),
      areas := KLIST0_INIT (PgArea (z, i)) (areas s),
      p_pool := (p_pool s)((z, i) :=
        \<lparr>pg_index = i, virt = NOPAGE_ADDR, pg_order = 0, pg_zone = z\<rparr>)\<rparr>"

definition init_level :: "nat \<Rightarrow> nat \<Rightarrow> mm \<Rightarrow> mm" where
  "init_level z i s = s\<lparr>lists := KLIST0_INIT (Level z i) (lists s)\<rparr>"

definition consumed_pages :: "nat \<Rightarrow> nat" where
  "consumed_pages npages = (SIZEOF_PAGE * npages mod 2 ^ 32) div PAGE_SIZE + 1"

text \<open>\<open>while ((1 << order) > pages_left) order--;\<close> (entered with \<open>pages_left > 0\<close>, so it ends by 0)\<close>

fun reduce_order :: "nat \<Rightarrow> nat \<Rightarrow> nat" where
  "reduce_order 0 pages_left = 0"
| "reduce_order (Suc n) pages_left =
    (if 2 ^ Suc n > pages_left then reduce_order n pages_left else Suc n)"

function populate :: "nat \<Rightarrow> nat \<Rightarrow> nat \<Rightarrow> mm \<Rightarrow> mm" where
  "populate z npages i s =
    (if i < npages then
       (let order = reduce_order (idx_order i) (npages - i);
            s1 = set_order (z, i) order s;
            s2 = s1\<lparr>lists := klist0_prepend (PgList (z, i)) (Level z order) (lists s1)\<rparr>
        in populate z npages (i + 2 ^ order) s2)
     else s)"
  by pat_completeness auto
termination
  by (relation "measure (\<lambda>(z, npages, i, s). npages - i)") (auto intro!: diff_less_mono2)

declare populate.simps [simp del]

definition mem_zone_init :: "nat \<Rightarrow> mm \<Rightarrow> mm" where
  "mem_zone_init z s =
    (let npages = total_pages (mem_zone s z);
         s1 = fold (init_page z) [0..<npages] s;
         s2 = fold (init_level z) [0..<MAX_ORDER] s1;
         s3 = s2\<lparr>zones := KLIST0_INIT (ZoneNode z) (zones s2)\<rparr>;
         consumed = consumed_pages npages;
         s4 = s3\<lparr>mem_zone := (mem_zone s3)(z := (mem_zone s3 z)
                 \<lparr>free_pages_count := of_nat npages - of_nat consumed\<rparr>)\<rparr>;
         s5 = populate z npages consumed s4
     in s5\<lparr>zones := klist0_append (ZoneNode z) GlobalMemInfo (zones s5)\<rparr>)"

subsection \<open>Allocation\<close>

function find_level :: "mm \<Rightarrow> nat \<Rightarrow> nat \<Rightarrow> nat option" where
  "find_level s z i =
    (if i \<ge> MAX_ORDER then None
     else if klist0_empty (Level z i) (lists s) then find_level s z (Suc i)
     else Some i)"
  by pat_completeness auto
termination
  by (relation "measure (\<lambda>(s, z, i). MAX_ORDER - i)") auto

declare find_level.simps [simp del]

text \<open>\<open>while (i-- > order) \<dots>\<close>: the lower half goes to its level, the upper half is kept.\<close>

fun split_pile :: "nat \<Rightarrow> nat \<Rightarrow> nat \<Rightarrow> pageptr \<Rightarrow> mm \<Rightarrow> mm \<times> pageptr" where
  "split_pile z order 0 pile s = (s, pile)"
| "split_pile z order (Suc i) pile s =
    (if Suc i > order then
       (let s1 = set_order pile i s;
            s2 = s1\<lparr>lists := klist0_append (PgList pile) (Level z i) (lists s1)\<rparr>
        in split_pile z order i (fst pile, snd pile + 2 ^ i) s2)
     else (s, pile))"

definition alloc_pages_zone :: "mm \<Rightarrow> nat \<Rightarrow> nat \<Rightarrow> (mm \<times> pageptr option) option" where
  "alloc_pages_zone s z order =
    (case find_level s z order of
       None \<Rightarrow> Some (s, None)
     | Some i \<Rightarrow>
         (case next (lists s) (Level z i) of
            PgList pile \<Rightarrow>
              (let s1 = s\<lparr>lists := klist0_unlink (next (lists s) (Level z i)) (lists s)\<rparr>;
                   (s2, pile2) = split_pile z order i pile s1
               in Some (set_order pile2 order s2, Some pile2))
          | _ \<Rightarrow> None))"

definition alloc_pages :: "mm \<Rightarrow> u32 \<Rightarrow> nat \<Rightarrow> (mm \<times> pageptr option) option" where
  "alloc_pages s flags order =
    (let z = unat (flags AND ZONE_MASK)
     in if z < NUM_ZONES then alloc_pages_zone s z order else None)"

subsection \<open>Release\<close>

text \<open>The difference of two \<^verbatim>\<open>struct page *\<close>, defined within one array only.\<close>

definition pg_diff :: "pageptr \<Rightarrow> pageptr \<Rightarrow> int option" where
  "pg_diff p q = (if fst p = fst q then Some (int (snd p) - int (snd q)) else None)"

datatype buddy = LeftBuddy pageptr | RightBuddy pageptr

fun find_buddy :: "mm \<Rightarrow> pageptr \<Rightarrow> nat \<Rightarrow> list_node list \<Rightarrow> buddy option" where
  "find_buddy s pg order [] = None"
| "find_buddy s pg order (PgList neighbour # ns) =
    (if pg_diff pg neighbour = Some (2 ^ order) \<and> idx_order (pg_index (p_pool s neighbour)) > order
     then Some (LeftBuddy neighbour)
     else if pg_diff neighbour pg = Some (2 ^ order) \<and> idx_order (pg_index (p_pool s pg)) > order
     then Some (RightBuddy neighbour)
     else find_buddy s pg order ns)"
| "find_buddy s pg order (_ # ns) = find_buddy s pg order ns"

definition incr_order :: "pageptr \<Rightarrow> mm \<Rightarrow> mm" where
  "incr_order p s = set_order p (pg_order (p_pool s p) + 1) s"

text \<open>
  The merge loop of \<^verbatim>\<open>free_pages\<close>.  It ends when the order did not change or reached
  \<^verbatim>\<open>MAX_ORDER\<close>; a level number outside \<^verbatim>\<open>alloc_levels\<close> is an access past the array.
\<close>

partial_function (option) merge_loop :: "nat \<Rightarrow> pageptr \<Rightarrow> mm \<Rightarrow> (mm \<times> pageptr) option" where
  "merge_loop z pg s =
    (let order = pg_order (p_pool s pg)
     in if order \<ge> MAX_ORDER then None
        else do {
          nodes \<leftarrow> klist0_for_each (lists s) (Level z order);
          (case find_buddy s pg order nodes of
             None \<Rightarrow> Some (s, pg)
           | Some (LeftBuddy n) \<Rightarrow>
               (let s1 = incr_order n (s\<lparr>lists := klist0_unlink (PgList n) (lists s)\<rparr>)
                in if pg_order (p_pool s1 n) < MAX_ORDER \<and> order \<noteq> pg_order (p_pool s1 n)
                   then merge_loop z n s1 else Some (s1, n))
           | Some (RightBuddy n) \<Rightarrow>
               (let s1 = incr_order pg (s\<lparr>lists := klist0_unlink (PgList n) (lists s)\<rparr>)
                in if pg_order (p_pool s1 pg) < MAX_ORDER \<and> order \<noteq> pg_order (p_pool s1 pg)
                   then merge_loop z pg s1 else Some (s1, pg)))
        })"

definition free_pages :: "mm \<Rightarrow> pageptr \<Rightarrow> mm option" where
  "free_pages s pg = do {
     let z = pg_zone (p_pool s pg);
     (s1, pg1) \<leftarrow> merge_loop z pg s;
     let order = pg_order (p_pool s1 pg1);
     if order \<ge> MAX_ORDER then None
     else do {
       let s2 = s1\<lparr>lists := klist0_append (PgList pg1) (Level z order) (lists s1)\<rparr>;
       Some (if \<not> klist0_empty (PgArea pg1) (areas s2)
             then s2\<lparr>areas := klist0_unlink (PgArea pg1) (areas s2)\<rparr>
             else s2)
     }
   }"

subsection \<open>Addresses\<close>

definition page_to_addr :: "mm \<Rightarrow> pageptr \<Rightarrow> u32" where
  "page_to_addr s pg =
    base (mem_zone s (pg_zone (p_pool s pg))) + of_nat (pg_index (p_pool s pg)) * of_nat PAGE_SIZE"

definition in_zone :: "mem_zone \<Rightarrow> u32 \<Rightarrow> bool" where
  "in_zone zone addr \<longleftrightarrow>
    addr > base zone \<and> addr < base zone + of_nat (total_pages zone) * of_nat PAGE_SIZE"

text \<open>
  The walk over the zone list.  A node that is no zone and not the head of this list would be read
  as a zone: \<^verbatim>\<open>klist0_entry\<close> of another list's head has no defined value.
\<close>

partial_function (option) addr_to_page_from :: "mm \<Rightarrow> u32 \<Rightarrow> zone_node \<Rightarrow> pageptr option option" where
  "addr_to_page_from s addr tmp =
    (case tmp of
       GlobalMemInfo \<Rightarrow> Some None
     | MemoryInfo \<Rightarrow> None
     | ZoneNode z \<Rightarrow>
         if in_zone (mem_zone s z) addr
         then Some (Some (z, unat (addr - base (mem_zone s z)) div PAGE_SIZE))
         else addr_to_page_from s addr (next (zones s) tmp))"

definition addr_to_page :: "mm \<Rightarrow> u32 \<Rightarrow> pageptr option option" where
  "addr_to_page s addr = addr_to_page_from s addr (next (zones s) GlobalMemInfo)"

text \<open>\<^verbatim>\<open>page_to_addr(NULL)\<close> and \<^verbatim>\<open>free_pages(NULL)\<close> read through a null pointer.\<close>

definition get_pages :: "mm \<Rightarrow> u32 \<Rightarrow> nat \<Rightarrow> (mm \<times> u32) option" where
  "get_pages s flags order = do {
     (s1, p) \<leftarrow> alloc_pages s flags order;
     (case p of None \<Rightarrow> None | Some pg \<Rightarrow> Some (s1, page_to_addr s1 pg))
   }"

definition put_pages :: "mm \<Rightarrow> u32 \<Rightarrow> mm option" where
  "put_pages s addr = do {
     p \<leftarrow> addr_to_page s addr;
     (case p of None \<Rightarrow> None | Some pg \<Rightarrow> free_pages s pg)
   }"

definition INPAGES :: "u32 \<Rightarrow> u32" where
  "INPAGES x = drop_bit PAGE_SHIFT (roundup_l2 x (of_nat PAGE_SIZE))"

definition get_pages_to_fit :: "mm \<Rightarrow> u32 \<Rightarrow> u32 \<Rightarrow> (mm \<times> u32) option" where
  "get_pages_to_fit s flags sz = get_pages s flags (log2 (INPAGES sz))"

subsection \<open>Page lists\<close>

definition ENOMEM :: int where
  "ENOMEM = 12"

partial_function (option) free_pagelist_from :: "mm \<Rightarrow> area_node \<Rightarrow> area_node \<Rightarrow> mm option" where
  "free_pagelist_from s pg_list tmp =
    (if tmp = pg_list then Some s
     else (case tmp of
             AreaHead n \<Rightarrow> None
           | PgArea pg \<Rightarrow> do {
               s1 \<leftarrow> free_pages s pg;
               free_pagelist_from s1 pg_list (next (areas s1) tmp)
             }))"

definition free_pagelist :: "mm \<Rightarrow> area_node \<Rightarrow> mm option" where
  "free_pagelist s pg_list = free_pagelist_from s pg_list (next (areas s) pg_list)"

definition append_area :: "pageptr \<Rightarrow> area_node \<Rightarrow> mm \<Rightarrow> mm" where
  "append_area pg pg_list s = s\<lparr>areas := klist0_append (PgArea pg) pg_list (areas s)\<rparr>"

fun alloc_sparse_loop :: "u32 \<Rightarrow> area_node \<Rightarrow> nat \<Rightarrow> u32 \<Rightarrow> mm \<Rightarrow> (mm \<times> u32 \<times> int) option" where
  "alloc_sparse_loop zone pg_list 0 startp s = Some (s, startp, 0)"
| "alloc_sparse_loop zone pg_list (Suc npages) startp s = do {
     (s1, p) \<leftarrow> alloc_pages s zone 0;
     (case p of
        None \<Rightarrow> do { s2 \<leftarrow> free_pagelist s1 pg_list; Some (s2, startp, - ENOMEM) }
      | Some pg \<Rightarrow>
          let s2 = append_area pg pg_list s1;
              a = page_to_addr s2 pg
          in alloc_sparse_loop zone pg_list npages (if startp > a then a else startp) s2)
   }"

definition alloc_pagelist_sparse :: "mm \<Rightarrow> u32 \<Rightarrow> nat \<Rightarrow> area_node \<Rightarrow> (mm \<times> u32 \<times> int) option" where
  "alloc_pagelist_sparse s flags npages pg_list =
    alloc_sparse_loop (flags AND ZONE_MASK) pg_list npages NOPAGE_ADDR s"

definition alloc_pagelist_contig :: "mm \<Rightarrow> u32 \<Rightarrow> u32 \<Rightarrow> u32 \<Rightarrow> area_node \<Rightarrow> (mm \<times> u32 \<times> int) option" where
  "alloc_pagelist_contig s flags npages startp pg_list = do {
     let order = log2 npages;
     (s1, p) \<leftarrow> alloc_pages s (flags AND ZONE_MASK) order;
     (case p of
        None \<Rightarrow> Some (s1, startp, - ENOMEM)
      | Some (z, k) \<Rightarrow>
          let s2 = fold (\<lambda>i. append_area (z, k + i) pg_list) [0..<2 ^ order] s1
          in Some (s2, page_to_addr s2 (z, k), 0))
   }"

subsection \<open>Reporting and boot\<close>

definition check_pile :: "mm \<Rightarrow> nat \<Rightarrow> list_node \<Rightarrow> unit option" where
  "check_pile s i n = (case n of
      PgList pg \<Rightarrow> do {
        _ \<leftarrow> bug_on (pg_order (p_pool s pg) \<noteq> i);
        bug_on (idx_order (pg_index (p_pool s pg)) < i)
      }
    | _ \<Rightarrow> None)"

fun check_piles :: "mm \<Rightarrow> nat \<Rightarrow> list_node list \<Rightarrow> nat \<Rightarrow> nat option" where
  "check_piles s i [] j = Some j"
| "check_piles s i (n # ns) j = do { _ \<leftarrow> check_pile s i n; check_piles s i ns (Suc j) }"

text \<open>The number of pages that \<^verbatim>\<open>print_alloc_info\<close> prints, unless one of its two checks stops it.\<close>

fun print_alloc_levels :: "mm \<Rightarrow> nat \<Rightarrow> nat list \<Rightarrow> nat \<Rightarrow> nat option" where
  "print_alloc_levels s z [] n = Some n"
| "print_alloc_levels s z (i # is) n = do {
     nodes \<leftarrow> klist0_for_each (lists s) (Level z i);
     j \<leftarrow> check_piles s i nodes 0;
     print_alloc_levels s z is (n + j * 2 ^ i)
   }"

definition print_alloc_info :: "mm \<Rightarrow> nat \<Rightarrow> nat option" where
  "print_alloc_info s z = print_alloc_levels s z [0..<MAX_ORDER] 0"

definition KERN_ALLOWANCE :: nat where
  "KERN_ALLOWANCE = 8"

definition set_zone :: "nat \<Rightarrow> u32 \<Rightarrow> nat \<Rightarrow> mm \<Rightarrow> mm" where
  "set_zone z b n s = s\<lparr>mem_zone := (mem_zone s)(z := (mem_zone s z)\<lparr>base := b, total_pages := n\<rparr>)\<rparr>"

text \<open>
  \<^verbatim>\<open>arch_init_boot_zone\<close> of \<^verbatim>\<open>arch/i386/bootmem_zone.c\<close>; the memory size reported by the boot loader
  (in kilobytes above one megabyte) and the link address of \<^verbatim>\<open>kernel_end\<close> are its inputs.
\<close>

definition arch_init_boot_zone :: "u32 \<Rightarrow> u32 \<Rightarrow> mm \<Rightarrow> mm" where
  "arch_init_boot_zone mem_upper kernel_end s =
    (let total_mem = unat (mem_upper * 1024 - (kernel_end - 0x100000));
         boot_pages = total_mem div PAGE_SIZE div KERN_ALLOWANCE;
         s1 = mem_zone_init ZONE_BOOT (set_zone ZONE_BOOT kernel_end boot_pages s);
         user_pages = total_mem div PAGE_SIZE - boot_pages
     in mem_zone_init ZONE_USER
          (set_zone ZONE_USER (kernel_end + of_nat boot_pages * of_nat PAGE_SIZE) user_pages s1))"

definition init_zone_lists :: "mm \<Rightarrow> mm" where
  "init_zone_lists s =
    fold (\<lambda>i s. s\<lparr>zones := KLIST0_INIT (ZoneNode i) (zones s)\<rparr>) [0..<NUM_ZONES]
      (s\<lparr>zones := KLIST0_INIT MemoryInfo (zones s)\<rparr>)"

definition append_zone_lists :: "mm \<Rightarrow> mm" where
  "append_zone_lists s =
    fold (\<lambda>i s. s\<lparr>zones := klist0_append (ZoneNode i) MemoryInfo (zones s)\<rparr>) [0..<NUM_ZONES] s"

end
