(* ===== verification/Buddy.thy ===== *)
theory Buddy
  imports Page_Alloc
begin

text \<open>
  Correctness of the buddy allocator of \<^verbatim>\<open>kernel/page_alloc.c\<close>.

  \<open>zone_inv s H L z\<close> is the invariant of a zone: the free lists are the rings \<open>L (Level z i)\<close>, the
  piles on them are aligned, inside the zone and pairwise disjoint, and no two of them could be
  merged.  \<open>free_set L z\<close> is the abstract state: the set of free page indices.
\<close>

section \<open>Alignment\<close>

lemma idx_order_loop_step:
  "even n \<Longrightarrow> i < MAX_ORDER - 1 \<Longrightarrow> idx_order_loop i n = idx_order_loop (Suc i) (n div 2)"
  by (simp add: idx_order_loop.simps [of i n])

lemma idx_order_loop_stop:
  "\<not> (even n \<and> i < MAX_ORDER - 1) \<Longrightarrow> idx_order_loop i n = i"
  by (subst idx_order_loop.simps) (rule if_not_P)

lemma idx_order_loop_start: "i \<le> idx_order_loop i n"
proof (induction i n rule: idx_order_loop.induct)
  case (1 i n)
  then show ?case
    by (cases "even n \<and> i < MAX_ORDER - 1") (simp_all add: idx_order_loop_step idx_order_loop_stop)
qed

lemma idx_order_loop_ge:
  "i \<le> j \<Longrightarrow> j \<le> MAX_ORDER - 1 \<Longrightarrow> j \<le> idx_order_loop i n \<longleftrightarrow> 2 ^ (j - i) dvd n"
proof (induction i n rule: idx_order_loop.induct)
  case (1 i n)
  show ?case
  proof (cases "i = j")
    case True
    then show ?thesis by (simp add: idx_order_loop_start)
  next
    case False
    then have j: "j - i = Suc (j - Suc i)" "Suc i \<le> j" "i < MAX_ORDER - 1"
      using "1.prems" by simp_all
    show ?thesis
    proof (cases "even n")
      case True
      then have "(2::nat) ^ (j - i) dvd n \<longleftrightarrow> 2 ^ (j - Suc i) dvd n div 2"
        by (auto simp: j(1) elim!: evenE)
      then show ?thesis
        using 1 True j(2,3) by (simp add: idx_order_loop_step)
    next
      case False
      then have "\<not> 2 ^ (j - i) dvd n"
        by (auto simp: j(1) dest: dvd_mult_left)
      then show ?thesis
        using False j(2) by (simp add: idx_order_loop_stop)
    qed
  qed
qed

lemma idx_order_ge: "j \<le> MAX_ORDER - 1 \<Longrightarrow> j \<le> idx_order n \<longleftrightarrow> 2 ^ j dvd n"
  using idx_order_loop_ge [of 0 j n] by (simp add: idx_order_def)

lemma idx_order_loop_le: "i \<le> MAX_ORDER - 1 \<Longrightarrow> idx_order_loop i n \<le> MAX_ORDER - 1"
proof (induction i n rule: idx_order_loop.induct)
  case (1 i n)
  then show ?case by (cases "even n \<and> i < MAX_ORDER - 1") (simp_all add: idx_order_loop_step idx_order_loop_stop)
qed

lemma idx_order_less: "idx_order n < MAX_ORDER"
  using idx_order_loop_le [of 0 n] by (simp add: idx_order_def MAX_ORDER_def)

lemma idx_order_gt: "j < idx_order n \<longleftrightarrow> Suc j < MAX_ORDER \<and> 2 ^ Suc j dvd n"
  using idx_order_ge [of "Suc j" n] idx_order_less [of n] by (auto simp: Suc_le_eq)

lemma idx_order_dvd: "2 ^ idx_order n dvd n"
  using idx_order_ge [of "idx_order n" n] idx_order_less [of n] by (simp add: MAX_ORDER_def)

section \<open>Piles and the zone invariant\<close>

definition pile_pages :: "nat \<Rightarrow> nat \<Rightarrow> nat set" where
  "pile_pages i k = {k..<k + 2 ^ i}"

definition levels :: "nat \<Rightarrow> list_node set" where
  "levels z = Level z ` {..<MAX_ORDER}"

definition piles :: "(list_node \<Rightarrow> list_node list) \<Rightarrow> nat \<Rightarrow> (nat \<times> nat) set" where
  "piles L z = {(i, k). i < MAX_ORDER \<and> PgList (z, k) \<in> set (L (Level z i))}"

definition free_set :: "(list_node \<Rightarrow> list_node list) \<Rightarrow> nat \<Rightarrow> nat set" where
  "free_set L z = (\<Union>(i, k)\<in>piles L z. pile_pages i k)"

text \<open>Indices of pages that some other list of the heap holds (a slice pool, for example).\<close>

definition lent :: "list_node set \<Rightarrow> (list_node \<Rightarrow> list_node list) \<Rightarrow> nat \<Rightarrow> nat set" where
  "lent H L z = {m. \<exists>l\<in>H - levels z. PgList (z, m) \<in> set (L l)}"

definition zone_pages_ok :: "mm \<Rightarrow> nat \<Rightarrow> bool" where
  "zone_pages_ok s z \<longleftrightarrow>
    (\<forall>k<total_pages (mem_zone s z). pg_index (p_pool s (z, k)) = k \<and> pg_zone (p_pool s (z, k)) = z)"

text \<open>A pile of the zone: aligned and inside it.\<close>

definition pile_ok :: "mm \<Rightarrow> nat \<Rightarrow> nat \<Rightarrow> nat \<Rightarrow> bool" where
  "pile_ok s z i k \<longleftrightarrow> i < MAX_ORDER \<and> 2 ^ i dvd k \<and> k + 2 ^ i \<le> total_pages (mem_zone s z)"

definition members_ok :: "mm \<Rightarrow> (list_node \<Rightarrow> list_node list) \<Rightarrow> nat \<Rightarrow> bool" where
  "members_ok s L z \<longleftrightarrow> (\<forall>i<MAX_ORDER. \<forall>n\<in>set (L (Level z i)).
     \<exists>k. n = PgList (z, k) \<and> pg_order (p_pool s (z, k)) = i)"

definition piles_ok :: "mm \<Rightarrow> (list_node \<Rightarrow> list_node list) \<Rightarrow> nat \<Rightarrow> bool" where
  "piles_ok s L z \<longleftrightarrow> (\<forall>i k. (i, k) \<in> piles L z \<longrightarrow> pile_ok s z i k)"

definition piles_disjoint :: "(list_node \<Rightarrow> list_node list) \<Rightarrow> nat \<Rightarrow> bool" where
  "piles_disjoint L z \<longleftrightarrow> (\<forall>i k j m. (i, k) \<in> piles L z \<longrightarrow> (j, m) \<in> piles L z \<longrightarrow>
     (i, k) \<noteq> (j, m) \<longrightarrow> pile_pages i k \<inter> pile_pages j m = {})"

definition no_buddies :: "(list_node \<Rightarrow> list_node list) \<Rightarrow> nat \<Rightarrow> bool" where
  "no_buddies L z \<longleftrightarrow> (\<forall>i k. Suc i < MAX_ORDER \<longrightarrow> 2 ^ Suc i dvd k \<longrightarrow>
     (i, k) \<in> piles L z \<longrightarrow> (i, k + 2 ^ i) \<notin> piles L z)"

definition zone_inv :: "mm \<Rightarrow> list_node set \<Rightarrow> (list_node \<Rightarrow> list_node list) \<Rightarrow> nat \<Rightarrow> bool" where
  "zone_inv s H L z \<longleftrightarrow>
     klists (lists s) H L \<and> levels z \<subseteq> H \<and> (\<forall>a b. PgList (a, b) \<notin> H) \<and> zone_pages_ok s z \<and>
     members_ok s L z \<and> piles_ok s L z \<and> piles_disjoint L z \<and> no_buddies L z \<and>
     lent H L z \<inter> free_set L z = {}"

lemma pile_pages_head: "k \<in> pile_pages i k"
  by (simp add: pile_pages_def)

lemma free_set_memI: "(i, k) \<in> piles L z \<Longrightarrow> m \<in> pile_pages i k \<Longrightarrow> m \<in> free_set L z"
  by (auto simp: free_set_def)

lemma piles_head_free: "(i, k) \<in> piles L z \<Longrightarrow> k \<in> free_set L z"
  by (erule free_set_memI) (rule pile_pages_head)

lemma set_order_simps [simp]:
  "lists (set_order p n s) = lists s"
  "areas (set_order p n s) = areas s"
  "zones (set_order p n s) = zones s"
  "mem_zone (set_order p n s) = mem_zone s"
  "pg_order (p_pool (set_order p n s) q) = (if q = p then n else pg_order (p_pool s q))"
  "pg_index (p_pool (set_order p n s) q) = pg_index (p_pool s q)"
  "pg_zone (p_pool (set_order p n s) q) = pg_zone (p_pool s q)"
  "virt (p_pool (set_order p n s) q) = virt (p_pool s q)"
  by (simp_all add: set_order_def set_page_def)

lemma zone_invD:
  assumes "zone_inv s H L z"
  shows zone_inv_klists: "klists (lists s) H L" and zone_inv_levels: "levels z \<subseteq> H"
    and zone_inv_heads: "PgList (a, b) \<notin> H" and zone_inv_pages: "zone_pages_ok s z"
    and zone_inv_members: "members_ok s L z" and zone_inv_piles: "piles_ok s L z"
    and zone_inv_disjoint: "piles_disjoint L z" and zone_inv_buddies: "no_buddies L z"
    and zone_inv_lent: "lent H L z \<inter> free_set L z = {}"
  using assms by (simp_all add: zone_inv_def)

lemma members_okD:
  "members_ok s L z \<Longrightarrow> i < MAX_ORDER \<Longrightarrow> n \<in> set (L (Level z i)) \<Longrightarrow>
    \<exists>k. n = PgList (z, k) \<and> pg_order (p_pool s (z, k)) = i"
  by (simp add: members_ok_def)

lemma piles_okD: "piles_ok s L z \<Longrightarrow> (i, k) \<in> piles L z \<Longrightarrow> pile_ok s z i k"
  by (simp add: piles_ok_def)

lemma piles_disjointD:
  "piles_disjoint L z \<Longrightarrow> (i, k) \<in> piles L z \<Longrightarrow> (j, m) \<in> piles L z \<Longrightarrow> (i, k) \<noteq> (j, m) \<Longrightarrow>
    pile_pages i k \<inter> pile_pages j m = {}"
  unfolding piles_disjoint_def by blast

lemma piles_order: "zone_inv s H L z \<Longrightarrow> (i, k) \<in> piles L z \<Longrightarrow> pg_order (p_pool s (z, k)) = i"
  using zone_inv_members members_okD by (fastforce simp: piles_def)

lemma levels_mem [simp]: "Level z i \<in> levels z' \<longleftrightarrow> z = z' \<and> i < MAX_ORDER"
  by (auto simp: levels_def)

lemma PgList_not_level [simp]: "PgList p \<notin> levels z"
  by (auto simp: levels_def)

lemma zone_inv_level_in: "zone_inv s H L z \<Longrightarrow> i < MAX_ORDER \<Longrightarrow> Level z i \<in> H"
  using zone_inv_levels by fastforce

text \<open>A page that is neither free nor lent is on no list.\<close>

lemma not_in_rings:
  assumes "zone_inv s H L z" and "k \<notin> free_set L z" and "k \<notin> lent H L z" and "l \<in> H"
  shows "PgList (z, k) \<notin> ring L l"
proof
  assume "PgList (z, k) \<in> ring L l"
  then have mem: "PgList (z, k) \<in> set (L l)"
    using assms(4) zone_inv_heads [OF assms(1)] by (auto simp: ring_def)
  show False
  proof (cases "l \<in> levels z")
    case True
    then show False
      using mem assms(2) piles_head_free [of _ k L z] by (auto simp: levels_def piles_def)
  next
    case False
    then show False
      using mem assms(3,4) by (auto simp: lent_def)
  qed
qed

text \<open>Changing the order field of a page that heads no free pile.\<close>

lemma zone_inv_set_order:
  assumes "zone_inv s H L z" and "k \<notin> free_set L z"
  shows "zone_inv (set_order (z, k) n s) H L z"
proof -
  have "(i, k) \<notin> piles L z" for i
    using assms(2) piles_head_free by blast
  then have "PgList (z, k) \<notin> set (L (Level z i))" if "i < MAX_ORDER" for i
    using that by (auto simp: piles_def)
  then have "members_ok (set_order (z, k) n s) L z"
    using zone_inv_members [OF assms(1)] by (fastforce simp: members_ok_def)
  then show ?thesis
    using assms(1) by (simp add: zone_inv_def zone_pages_ok_def piles_ok_def pile_ok_def)
qed

text \<open>The lists of the zone with a pile more, whatever its place on the list.\<close>

lemma piles_mem:
  "(j, m) \<in> piles (L(Level z i := xs)) z \<longleftrightarrow>
    j < MAX_ORDER \<and> PgList (z, m) \<in> set (if j = i then xs else L (Level z j))"
  by (simp add: piles_def)

lemma lent_update [simp]: "i < MAX_ORDER \<Longrightarrow> lent H (L(Level z i := xs)) z = lent H L z"
  unfolding lent_def by (intro Collect_cong bex_cong refl) auto

lemma piles_insert:
  assumes "i < MAX_ORDER" and "set xs = insert (PgList (z, k)) (set (L (Level z i)))"
  shows "piles (L(Level z i := xs)) z = insert (i, k) (piles L z)"
proof (intro set_eqI, clarify)
  fix j m
  show "(j, m) \<in> piles (L(Level z i := xs)) z \<longleftrightarrow> (j, m) \<in> insert (i, k) (piles L z)"
    unfolding piles_mem using assms by (auto simp: piles_def)
qed

lemma free_set_insert:
  assumes "i < MAX_ORDER" and "set xs = insert (PgList (z, k)) (set (L (Level z i)))"
  shows "free_set (L(Level z i := xs)) z = free_set L z \<union> pile_pages i k"
  unfolding free_set_def piles_insert [of i xs z k L, OF assms] by auto

lemma zone_inv_insert:
  assumes inv: "zone_inv s H L z" and ok: "pile_ok s z i k"
    and dis: "pile_pages i k \<inter> free_set L z = {}" and lent: "pile_pages i k \<inter> lent H L z = {}"
    and nbR: "Suc i < MAX_ORDER \<Longrightarrow> 2 ^ Suc i dvd k \<Longrightarrow> (i, k + 2 ^ i) \<notin> piles L z"
    and nbL: "\<And>m. Suc i < MAX_ORDER \<Longrightarrow> 2 ^ Suc i dvd m \<Longrightarrow> k = m + 2 ^ i \<Longrightarrow> (i, m) \<notin> piles L z"
    and ord: "pg_order (p_pool s (z, k)) = i"
    and h': "klists h' H (L(Level z i := xs))"
    and xs: "set xs = insert (PgList (z, k)) (set (L (Level z i)))"
  shows "zone_inv (s\<lparr>lists := h'\<rparr>) H (L(Level z i := xs)) z"
proof -
  let ?L = "L(Level z i := xs)"
  have i: "i < MAX_ORDER"
    using ok by (simp add: pile_ok_def)
  note P = piles_insert [of i xs z k L, OF i xs] and F = free_set_insert [of i xs z k L, OF i xs]
  have disj: "pile_pages a b \<inter> pile_pages i k = {}" if "(a, b) \<in> piles L z" for a b
    using dis free_set_memI [OF that] by blast
  have "members_ok (s\<lparr>lists := h'\<rparr>) ?L z"
    using zone_inv_members [OF inv] ord xs by (auto simp: members_ok_def)
  moreover have "piles_ok (s\<lparr>lists := h'\<rparr>) ?L z"
    using zone_inv_piles [OF inv] ok by (simp add: piles_ok_def P pile_ok_def)
  moreover have "piles_disjoint ?L z"
    using zone_inv_disjoint [OF inv] disj unfolding piles_disjoint_def P by fast
  moreover have "no_buddies ?L z"
    using zone_inv_buddies [OF inv] nbR nbL by (auto simp: no_buddies_def P)
  moreover have "lent H ?L z \<inter> free_set ?L z = {}"
    using zone_inv_lent [OF inv] lent i by (auto simp: F)
  ultimately show ?thesis
    using inv h' by (simp add: zone_inv_def zone_pages_ok_def)
qed

lemma piles_remove:
  assumes "i < MAX_ORDER" and "set xs = set (L (Level z i)) - {PgList (z, k)}"
  shows "piles (L(Level z i := xs)) z = piles L z - {(i, k)}"
proof (intro set_eqI, clarify)
  fix j m
  show "(j, m) \<in> piles (L(Level z i := xs)) z \<longleftrightarrow> (j, m) \<in> piles L z - {(i, k)}"
    unfolding piles_mem using assms by (auto simp: piles_def)
qed

lemma free_set_remove:
  assumes inv: "zone_inv s H L z" and p: "(i, k) \<in> piles L z"
    and xs: "set xs = set (L (Level z i)) - {PgList (z, k)}"
  shows "free_set (L(Level z i := xs)) z = free_set L z - pile_pages i k"
proof -
  have i: "i < MAX_ORDER"
    using p by (simp add: piles_def)
  have "pile_pages a b \<inter> pile_pages i k = {}" if "(a, b) \<in> piles L z" "(a, b) \<noteq> (i, k)" for a b
    using piles_disjointD [OF zone_inv_disjoint [OF inv] that(1) p that(2)] .
  then show ?thesis
    unfolding free_set_def piles_remove [of i xs L z k, OF i xs] by blast
qed

lemma zone_inv_remove:
  assumes inv: "zone_inv s H L z" and p: "(i, k) \<in> piles L z"
    and h': "klists h' H (L(Level z i := xs))"
    and xs: "set xs = set (L (Level z i)) - {PgList (z, k)}"
  shows "zone_inv (s\<lparr>lists := h'\<rparr>) H (L(Level z i := xs)) z"
proof -
  let ?L = "L(Level z i := xs)"
  have i: "i < MAX_ORDER"
    using p by (simp add: piles_def)
  note P = piles_remove [of i xs L z k, OF i xs] and F = free_set_remove [OF inv p xs]
  have "members_ok (s\<lparr>lists := h'\<rparr>) ?L z"
    using zone_inv_members [OF inv] xs by (auto simp: members_ok_def)
  moreover have "piles_ok (s\<lparr>lists := h'\<rparr>) ?L z"
    using zone_inv_piles [OF inv] by (auto simp: piles_ok_def P pile_ok_def)
  moreover have "piles_disjoint ?L z"
    using zone_inv_disjoint [OF inv] unfolding piles_disjoint_def P by fast
  moreover have "no_buddies ?L z"
    using zone_inv_buddies [OF inv] by (auto simp: no_buddies_def P)
  moreover have "lent H ?L z \<inter> free_set ?L z = {}"
    using zone_inv_lent [OF inv] i by (auto simp: F)
  ultimately show ?thesis
    using inv h' by (simp add: zone_inv_def zone_pages_ok_def)
qed

text \<open>What an operation on a zone leaves alone: everything but the lists and the order fields of the
  pages in \<open>A\<close>.\<close>

definition mm_same :: "mm \<Rightarrow> mm \<Rightarrow> nat \<Rightarrow> nat set \<Rightarrow> bool" where
  "mm_same s s' z A \<longleftrightarrow> mem_zone s' = mem_zone s \<and> areas s' = areas s \<and> zones s' = zones s \<and>
     (\<forall>q. virt (p_pool s' q) = virt (p_pool s q) \<and> pg_index (p_pool s' q) = pg_index (p_pool s q) \<and>
          pg_zone (p_pool s' q) = pg_zone (p_pool s q)) \<and>
     (\<forall>q. q \<notin> {z} \<times> A \<longrightarrow> pg_order (p_pool s' q) = pg_order (p_pool s q))"

lemma mm_same_refl [simp]: "mm_same s s z A"
  by (simp add: mm_same_def)

lemma mm_same_trans:
  assumes "mm_same s s' z A" and "mm_same s' s'' z B" and "A \<subseteq> C" and "B \<subseteq> C"
  shows "mm_same s s'' z C"
proof -
  have "pg_order (p_pool s'' q) = pg_order (p_pool s q)" if "q \<notin> {z} \<times> C" for q
  proof -
    have "q \<notin> {z} \<times> A" "q \<notin> {z} \<times> B" using that assms(3,4) by auto
    then show ?thesis using assms(1,2) by (cases q) (simp add: mm_same_def)
  qed
  then show ?thesis using assms(1,2) by (simp add: mm_same_def)
qed

lemma mm_same_mono: "mm_same s s' z A \<Longrightarrow> A \<subseteq> B \<Longrightarrow> mm_same s s' z B"
  by (rule mm_same_trans [of s s' z A s' A]) simp_all

lemma mm_same_lists [simp]: "mm_same s (s'\<lparr>lists := h\<rparr>) z A = mm_same s s' z A"
  by (simp add: mm_same_def)

lemma mm_same_set_order: "k \<in> A \<Longrightarrow> mm_same s (set_order (z, k) n s) z A"
  by (auto simp: mm_same_def)

lemma mm_same_pile_ok: "mm_same s s' z A \<Longrightarrow> pile_ok s' y i k = pile_ok s y i k"
  by (simp add: mm_same_def pile_ok_def)

definition off_levels :: "nat \<Rightarrow> (list_node \<Rightarrow> list_node list) \<Rightarrow> (list_node \<Rightarrow> list_node list) \<Rightarrow> bool" where
  "off_levels z L L' \<longleftrightarrow> (\<forall>l. l \<notin> levels z \<longrightarrow> L' l = L l)"

lemma off_levels_refl [simp]: "off_levels z L L"
  by (simp add: off_levels_def)

lemma off_levels_trans: "off_levels z L L' \<Longrightarrow> off_levels z L' L'' \<Longrightarrow> off_levels z L L''"
  by (simp add: off_levels_def)

lemma off_levels_upd: "i < MAX_ORDER \<Longrightarrow> off_levels z L (L(Level z i := xs))"
  by (auto simp: off_levels_def)

lemma off_levels_lent: "off_levels z L L' \<Longrightarrow> lent H L' z = lent H L z"
  unfolding lent_def off_levels_def by (intro Collect_cong bex_cong refl) auto

section \<open>Allocation\<close>

lemma find_level_spec:
  assumes inv: "zone_inv s H L z"
  shows "case find_level s z i of
      None \<Rightarrow> \<forall>m. i \<le> m \<longrightarrow> m < MAX_ORDER \<longrightarrow> L (Level z m) = []
    | Some j \<Rightarrow> i \<le> j \<and> j < MAX_ORDER \<and> L (Level z j) \<noteq> []"
proof (induction "MAX_ORDER - i" arbitrary: i)
  case 0
  then show ?case by (simp add: find_level.simps [of s z i])
next
  case (Suc n)
  then have i: "i < MAX_ORDER" and n: "n = MAX_ORDER - Suc i" by simp_all
  have e: "klist0_empty (Level z i) (lists s) \<longleftrightarrow> L (Level z i) = []"
    using klists_empty [OF zone_inv_klists [OF inv] zone_inv_level_in [OF inv i]] .
  note IH = Suc.hyps(1) [OF n]
  show ?case
  proof (cases "L (Level z i) = []")
    case True
    then have f: "find_level s z i = find_level s z (Suc i)"
      using e i by (simp add: find_level.simps [of s z i])
    show ?thesis
    proof (cases "find_level s z (Suc i)")
      case None
      then have "\<forall>m. Suc i \<le> m \<longrightarrow> m < MAX_ORDER \<longrightarrow> L (Level z m) = []"
        using IH by simp
      then show ?thesis
        using f None True by (simp add: Suc_le_eq) (metis le_neq_implies_less)
    next
      case (Some j)
      then show ?thesis using IH f by simp
    qed
  next
    case False
    then show ?thesis using e i by (simp add: find_level.simps [of s z i])
  qed
qed

lemma pile_pages_split:
  "pile_pages (Suc i) k = pile_pages i k \<union> pile_pages i (k + 2 ^ i)"
  "pile_pages i k \<inter> pile_pages i (k + 2 ^ i) = {}"
  by (auto simp: pile_pages_def)

lemma pile_ok_split:
  assumes "pile_ok s z (Suc i) k"
  shows "pile_ok s z i k" and "pile_ok s z i (k + 2 ^ i)"
  using assms by (auto simp: pile_ok_def dest: dvd_mult_right)

text \<open>Putting the lower half of a held pile on its level.\<close>

lemma zone_inv_put_lower:
  assumes inv: "zone_inv s H L z" and ok: "pile_ok s z (Suc i) k"
    and dis: "pile_pages (Suc i) k \<inter> free_set L z = {}"
    and len: "pile_pages (Suc i) k \<inter> lent H L z = {}"
  defines "s1 \<equiv> set_order (z, k) i s"
  shows "zone_inv (s1\<lparr>lists := klist0_append (PgList (z, k)) (Level z i) (lists s1)\<rparr>) H
      (L(Level z i := PgList (z, k) # L (Level z i))) z" (is ?inv)
    and "free_set (L(Level z i := PgList (z, k) # L (Level z i))) z = free_set L z \<union> pile_pages i k"
proof -
  have i: "i < MAX_ORDER"
    using ok by (simp add: pile_ok_def)
  have k: "k \<in> pile_pages (Suc i) k"
    by (rule pile_pages_head)
  have k': "k \<notin> free_set L z" "k \<notin> lent H L z"
    using k dis len by blast+
  have inv1: "zone_inv s1 H L z"
    unfolding s1_def using inv k'(1) by (rule zone_inv_set_order)
  have al: "2 ^ Suc i dvd k"
    using ok by (simp add: pile_ok_def)
  show ?inv
  proof (rule zone_inv_insert [OF inv1])
    show "pile_ok s1 z i k"
      using pile_ok_split(1) [OF ok] by (simp add: s1_def pile_ok_def)
    show "pile_pages i k \<inter> free_set L z = {}" "pile_pages i k \<inter> lent H L z = {}"
      using dis len pile_pages_split(1) [of i k] by auto
    show "(i, k + 2 ^ i) \<notin> piles L z"
      using dis pile_pages_split(1) [of i k] pile_pages_head [of "k + 2 ^ i" i] piles_head_free by blast
    show "(i, m) \<notin> piles L z" if "2 ^ Suc i dvd m" "k = m + 2 ^ i" for m
    proof -
      have "2 ^ Suc i dvd (2 ^ i :: nat)"
        using al that by (simp add: dvd_add_right_iff)
      then show ?thesis by (simp add: nat_dvd_not_less)
    qed
    show "pg_order (p_pool s1 (z, k)) = i"
      by (simp add: s1_def)
    show "klists (klist0_append (PgList (z, k)) (Level z i) (lists s1)) H
        (L(Level z i := PgList (z, k) # L (Level z i)))"
      using zone_inv_klists [OF inv1] zone_inv_level_in [OF inv1 i] not_in_rings [OF inv k']
      by (intro klists_append) auto
  qed simp
  show "free_set (L(Level z i := PgList (z, k) # L (Level z i))) z = free_set L z \<union> pile_pages i k"
    using i by (intro free_set_insert) simp_all
qed

text \<open>
  The splitting loop: the lower halves go to the levels below, the upper end of the pile is what
  remains.
\<close>

lemma split_pile_spec:
  assumes "zone_inv s H L z" and "pile_ok s z i k" and "order \<le> i"
    and "pile_pages i k \<inter> free_set L z = {}" and "pile_pages i k \<inter> lent H L z = {}"
  shows "\<exists>s' k' L'. split_pile z order i (z, k) s = (s', (z, k')) \<and> zone_inv s' H L' z \<and>
    pile_ok s' z order k' \<and> pile_pages order k' \<subseteq> pile_pages i k \<and>
    free_set L' z = free_set L z \<union> (pile_pages i k - pile_pages order k') \<and>
    off_levels z L L' \<and> mm_same s s' z (pile_pages i k)"
  using assms
proof (induction i arbitrary: k s L)
  case 0
  then show ?case by (intro exI [of _ s] exI [of _ k] exI [of _ L]) simp
next
  case (Suc i)
  show ?case
  proof (cases "order = Suc i")
    case True
    then show ?thesis
      using Suc.prems by (intro exI [of _ s] exI [of _ k] exI [of _ L]) simp
  next
    case False
    define s1 where "s1 = set_order (z, k) i s"
    define s2 where "s2 = s1\<lparr>lists := klist0_append (PgList (z, k)) (Level z i) (lists s1)\<rparr>"
    define L2 where "L2 = L(Level z i := PgList (z, k) # L (Level z i))"
    have i: "i < MAX_ORDER"
      using Suc.prems(2) by (simp add: pile_ok_def)
    note put = zone_inv_put_lower [OF Suc.prems(1,2,4,5), folded s1_def, folded s2_def L2_def]
    note sp = pile_pages_split [of i k]
    have ss: "mm_same s s2 z (pile_pages (Suc i) k)"
      unfolding s2_def s1_def by (simp add: mm_same_set_order pile_pages_head)
    have ok2: "pile_ok s2 z i (k + 2 ^ i)"
      using pile_ok_split(2) [OF Suc.prems(2)] mm_same_pile_ok [OF ss] by simp
    have off: "off_levels z L L2"
      unfolding L2_def using i by (rule off_levels_upd)
    have dis2: "pile_pages i (k + 2 ^ i) \<inter> free_set L2 z = {}"
      using sp Suc.prems(4) unfolding put(2) by blast
    have len2: "pile_pages i (k + 2 ^ i) \<inter> lent H L2 z = {}"
      using sp(1) Suc.prems(5) off_levels_lent [OF off] by auto
    obtain s' k' L' where IH: "split_pile z order i (z, k + 2 ^ i) s2 = (s', (z, k'))"
        "zone_inv s' H L' z" "pile_ok s' z order k'" "pile_pages order k' \<subseteq> pile_pages i (k + 2 ^ i)"
        "free_set L' z = free_set L2 z \<union> (pile_pages i (k + 2 ^ i) - pile_pages order k')"
        "off_levels z L2 L'" "mm_same s2 s' z (pile_pages i (k + 2 ^ i))"
      using Suc.IH [OF put(1) ok2 _ dis2 len2] False Suc.prems(3) by auto
    have "split_pile z order (Suc i) (z, k) s = (s', (z, k'))"
      using False Suc.prems(3) IH(1) by (simp add: s2_def s1_def)
    moreover have "free_set L' z = free_set L z \<union> (pile_pages (Suc i) k - pile_pages order k')"
      unfolding IH(5) put(2) sp(1) using IH(4) sp(2) by blast
    moreover have "mm_same s s' z (pile_pages (Suc i) k)"
      using ss IH(7) by (rule mm_same_trans) (auto simp: sp(1))
    moreover have "pile_pages order k' \<subseteq> pile_pages (Suc i) k"
      using IH(4) by (auto simp: sp(1))
    ultimately show ?thesis
      using IH(2,3) off_levels_trans [OF off IH(6)] by blast
  qed
qed

lemma alloc_pages_zone_none:
  assumes "zone_inv s H L z" and "find_level s z order = None"
  shows "alloc_pages_zone s z order = Some (s, None)"
  using assms by (simp add: alloc_pages_zone_def)

lemma alloc_pages_zone_some:
  assumes inv: "zone_inv s H L z" and fl: "find_level s z order = Some i"
  shows "\<exists>s' k L'. alloc_pages_zone s z order = Some (s', Some (z, k)) \<and> zone_inv s' H L' z \<and>
    pile_ok s z order k \<and> pile_pages order k \<subseteq> free_set L z \<and>
    free_set L' z = free_set L z - pile_pages order k \<and> pg_order (p_pool s' (z, k)) = order \<and>
    off_levels z L L' \<and> mm_same s s' z (free_set L z)"
proof -
  have oi: "order \<le> i" and i: "i < MAX_ORDER" and "L (Level z i) \<noteq> []"
    using find_level_spec [OF inv, of order] fl by simp_all
  then obtain n ns where n: "L (Level z i) = n # ns"
    by (cases "L (Level z i)") auto
  then obtain k0 where k0: "n = PgList (z, k0)"
    using members_okD [OF zone_inv_members [OF inv] i, of n] by auto
  have p: "(i, k0) \<in> piles L z"
    using i n k0 by (simp add: piles_def)
  note lev = zone_inv_level_in [OF inv i]
  have un: "next (lists s) (Level z i) = n" "klists (klist0_unlink n (lists s)) H (L(Level z i := ns))"
    using klists_unlink_first [OF zone_inv_klists [OF inv] lev n] by simp_all
  have set_ns: "set ns = set (L (Level z i)) - {PgList (z, k0)}"
    using klist_distinct [OF klistsD [OF zone_inv_klists [OF inv] lev]] by (simp add: n k0)
  define s1 where "s1 = s\<lparr>lists := klist0_unlink n (lists s)\<rparr>"
  define L1 where "L1 = L(Level z i := ns)"
  have inv1: "zone_inv s1 H L1 z"
    unfolding s1_def L1_def using inv p un(2) set_ns by (rule zone_inv_remove)
  have fs1: "free_set L1 z = free_set L z - pile_pages i k0"
    unfolding L1_def using inv p set_ns by (rule free_set_remove)
  have off1: "off_levels z L L1"
    unfolding L1_def using i by (rule off_levels_upd)
  have sub: "pile_pages i k0 \<subseteq> free_set L z"
    using free_set_memI [OF p] by blast
  have ok: "pile_ok s1 z i k0"
    using piles_okD [OF zone_inv_piles [OF inv] p] by (simp add: s1_def pile_ok_def)
  have dis: "pile_pages i k0 \<inter> free_set L1 z = {}" "pile_pages i k0 \<inter> lent H L1 z = {}"
    using fs1 sub zone_inv_lent [OF inv] off_levels_lent [OF off1, of H] by auto
  obtain s2 k L2 where sp: "split_pile z order i (z, k0) s1 = (s2, (z, k))" "zone_inv s2 H L2 z"
      "pile_ok s2 z order k" "pile_pages order k \<subseteq> pile_pages i k0"
      "free_set L2 z = free_set L1 z \<union> (pile_pages i k0 - pile_pages order k)"
      "off_levels z L1 L2" "mm_same s1 s2 z (pile_pages i k0)"
    using split_pile_spec [OF inv1 ok oi dis] by blast
  have fs2: "free_set L2 z = free_set L z - pile_pages order k"
    unfolding sp(5) fs1 using sub sp(4) by blast
  then have kn: "k \<notin> free_set L2 z"
    using pile_pages_head by simp
  have "alloc_pages_zone s z order = Some (set_order (z, k) order s2, Some (z, k))"
    using fl un(1) sp(1) by (simp add: alloc_pages_zone_def k0 s1_def)
  moreover have "mm_same s s2 z (free_set L z)"
    using mm_same_mono [OF sp(7) sub] by (simp add: s1_def mm_same_def)
  then have "mm_same s (set_order (z, k) order s2) z (free_set L z)"
    using mm_same_set_order [of k "pile_pages order k", OF pile_pages_head]
    by (rule mm_same_trans) (use sp(4) sub in auto)
  moreover have "pile_ok s z order k"
    using sp(3) mm_same_pile_ok [OF sp(7)] by (simp add: s1_def pile_ok_def)
  moreover have "pile_pages order k \<subseteq> free_set L z"
    using sp(4) sub by blast
  ultimately show ?thesis
    using zone_inv_set_order [OF sp(2) kn, of order] fs2 off_levels_trans [OF off1 sp(6)]
    by (intro exI [of _ "set_order (z, k) order s2"] exI [of _ k] exI [of _ L2]) simp
qed

subsection \<open>Completeness: a request fails only when no aligned run of that size is free\<close>

text \<open>Two aligned piles are nested or disjoint.\<close>

lemma aligned_nested:
  assumes "2 ^ i dvd k" and "2 ^ j dvd m" and "i \<le> j" and "x \<in> pile_pages i k" and "x \<in> pile_pages j m"
  shows "pile_pages i k \<subseteq> pile_pages j m"
proof -
  obtain a where a: "k = 2 ^ i * a" using assms(1) by blast
  obtain b where b: "m = 2 ^ i * b" using assms(2,3) by (meson dvdE dvd_trans le_imp_power_dvd)
  obtain c where c: "(2::nat) ^ j = 2 ^ i * c" using assms(3) by (meson dvdE le_imp_power_dvd)
  have x: "2 ^ i * a \<le> x" "x < 2 ^ i * (a + 1)" "2 ^ i * b \<le> x" "x < 2 ^ i * (b + c)"
    using assms(4,5) by (simp_all add: pile_pages_def a b c algebra_simps)
  have "2 ^ i * b < 2 ^ i * (a + 1)" "2 ^ i * a < 2 ^ i * (b + c)"
    using x by linarith+
  then have "b < a + 1" "a < b + c"
    by (simp_all only: mult_less_cancel1)
  then have "b \<le> a" "a + 1 \<le> b + c"
    by simp_all
  then have "2 ^ i * b \<le> 2 ^ i * a" "2 ^ i * (a + 1) \<le> 2 ^ i * (b + c)"
    by (simp_all only: mult_le_mono2)
  then show ?thesis
    by (auto simp: pile_pages_def a b c algebra_simps)
qed

lemma free_set_elim:
  assumes "x \<in> free_set L z"
  obtains i k where "(i, k) \<in> piles L z" and "x \<in> pile_pages i k"
  using assms by (auto simp: free_set_def)

lemma buddy_pile:
  assumes "2 ^ i dvd (k::nat)"
  obtains (low) "2 ^ Suc i dvd k" | (high) m where "2 ^ Suc i dvd m" and "k = m + 2 ^ i"
proof (cases "even (k div 2 ^ i)")
  case True
  then obtain c where "k div 2 ^ i = 2 * c" by blast
  then have "k = 2 ^ Suc i * c" using assms by (metis dvd_div_mult_self mult.assoc mult.commute power_Suc)
  then show ?thesis using low by simp
next
  case False
  then obtain c where "k div 2 ^ i = 2 * c + 1" by (rule oddE)
  then have "k = (2 * c + 1) * 2 ^ i" using assms by (metis dvd_div_mult_self)
  then have "k = 2 ^ Suc i * c + 2 ^ i" by (simp add: algebra_simps)
  then show ?thesis using high [of "2 ^ Suc i * c"] by simp
qed

lemma free_pile_above:
  assumes inv: "zone_inv s H L z" and al: "2 ^ order dvd k" and ord: "order < MAX_ORDER"
    and sub: "pile_pages order k \<subseteq> free_set L z"
  shows "\<exists>j\<ge>order. \<exists>m. (j, m) \<in> piles L z"
proof (rule ccontr)
  assume no: "\<not> ?thesis"
  define small where "small j \<longleftrightarrow> (\<exists>m. (j, m) \<in> piles L z \<and> m \<in> pile_pages order k)" for j
  have cover: "\<exists>j m. (j, m) \<in> piles L z \<and> x \<in> pile_pages j m \<and> j < order \<and> m \<in> pile_pages order k"
    if x: "x \<in> pile_pages order k" for x
  proof -
    obtain j m where jm: "(j, m) \<in> piles L z" "x \<in> pile_pages j m"
      using sub x free_set_elim by (metis subsetD)
    then have j: "j < order" using no by (meson not_le)
    have "2 ^ j dvd m" using piles_okD [OF zone_inv_piles [OF inv] jm(1)] by (simp add: pile_ok_def)
    then have "pile_pages j m \<subseteq> pile_pages order k"
      using al j jm(2) x by (intro aligned_nested) auto
    then show ?thesis using jm j pile_pages_head by blast
  qed
  have "\<exists>j. small j"
    using cover [OF pile_pages_head] by (auto simp: small_def)
  then obtain i where i: "small i" "\<And>j. small j \<Longrightarrow> i \<le> j"
    by (metis LeastI_ex Least_le)
  then obtain m where m: "(i, m) \<in> piles L z" "m \<in> pile_pages order k"
    by (auto simp: small_def)
  have io: "i < order" using no m(1) by (meson not_le)
  have am: "2 ^ i dvd m" using piles_okD [OF zone_inv_piles [OF inv] m(1)] by (simp add: pile_ok_def)
  obtain b y where b: "2 ^ Suc i dvd b" "m = b \<and> y = b + 2 ^ i \<or> m = b + 2 ^ i \<and> y = b"
    using buddy_pile [OF am] by metis
  have mb: "m \<in> pile_pages (Suc i) b" "y \<in> pile_pages (Suc i) b"
    using b(2) by (auto simp: pile_pages_def)
  have ay: "2 ^ i dvd y"
    using b am by (auto dest: dvd_mult_right)
  have "pile_pages (Suc i) b \<subseteq> pile_pages order k"
    using b(1) al io mb(1) m(2) by (intro aligned_nested) auto
  then obtain j n where jn: "(j, n) \<in> piles L z" "y \<in> pile_pages j n" "j < order" "n \<in> pile_pages order k"
    using cover [of y] mb(2) by blast
  have ij: "i \<le> j"
    using i(2) jn by (auto simp: small_def)
  have an: "2 ^ j dvd n"
    using piles_okD [OF zone_inv_piles [OF inv] jn(1)] by (simp add: pile_ok_def)
  show False
  proof (cases "j = i")
    case True
    then have "pile_pages i n = pile_pages i y"
      using aligned_nested [of i n i y y] aligned_nested [of i y i n y] an ay jn(2) pile_pages_head [of y i]
      by blast
    then have "n = y"
      by (simp add: pile_pages_def atLeastLessThan_eq_iff)
    then show False
      using zone_inv_buddies [OF inv] b m(1) jn(1) True io ord by (auto simp: no_buddies_def)
  next
    case False
    then have "pile_pages (Suc i) b \<subseteq> pile_pages j n"
      using b(1) an ij mb(2) jn(2) by (intro aligned_nested) auto
    then show False
      using piles_disjointD [OF zone_inv_disjoint [OF inv] m(1) jn(1)] False mb(1) pile_pages_head by blast
  qed
qed

text \<open>The specification of \<^verbatim>\<open>__alloc_pages\<close>.\<close>

lemma alloc_pages_zone_null_iff:
  assumes inv: "zone_inv s H L z"
  shows "alloc_pages_zone s z order = Some (s, None) \<longleftrightarrow>
    \<not> (\<exists>k. pile_ok s z order k \<and> pile_pages order k \<subseteq> free_set L z)"
proof (cases "find_level s z order")
  case None
  have "\<not> (\<exists>k. pile_ok s z order k \<and> pile_pages order k \<subseteq> free_set L z)"
  proof
    assume "\<exists>k. pile_ok s z order k \<and> pile_pages order k \<subseteq> free_set L z"
    then obtain k where k: "pile_ok s z order k" "pile_pages order k \<subseteq> free_set L z" by blast
    then obtain j m where "order \<le> j" "(j, m) \<in> piles L z"
      using free_pile_above [OF inv _ _ k(2)] by (auto simp: pile_ok_def)
    then show False
      using find_level_spec [OF inv, of order] None by (fastforce simp: piles_def)
  qed
  then show ?thesis
    using alloc_pages_zone_none [OF inv None] by simp
next
  case (Some i)
  show ?thesis
    using alloc_pages_zone_some [OF inv Some] by auto
qed

section \<open>Release\<close>

text \<open>The scan for a buddy over a level whose nodes are pages of the zone.\<close>

definition is_left :: "nat \<Rightarrow> nat \<Rightarrow> nat \<Rightarrow> bool" where
  "is_left i k m \<longleftrightarrow> k = m + 2 ^ i \<and> Suc i < MAX_ORDER \<and> 2 ^ Suc i dvd m"

lemma find_buddy_spec:
  assumes "\<forall>n\<in>set ns. \<exists>m. n = PgList (z, m) \<and> pg_index (p_pool s (z, m)) = m"
    and "pg_index (p_pool s (z, k)) = k"
  shows "case find_buddy s (z, k) i ns of
      None \<Rightarrow> \<forall>m. PgList (z, m) \<in> set ns \<longrightarrow> \<not> is_left i k m \<and> \<not> is_left i m k
    | Some (LeftBuddy n) \<Rightarrow> \<exists>m. n = (z, m) \<and> PgList (z, m) \<in> set ns \<and> is_left i k m
    | Some (RightBuddy n) \<Rightarrow> \<exists>m. n = (z, m) \<and> PgList (z, m) \<in> set ns \<and> is_left i m k"
  using assms(1)
proof (induction ns)
  case Nil
  then show ?case by simp
next
  case (Cons n ns)
  then obtain m where m: "n = PgList (z, m)" "pg_index (p_pool s (z, m)) = m" by auto
  have diff: "pg_diff (z, a) (z, b) = Some (2 ^ i) \<longleftrightarrow> a = b + 2 ^ i" for a b
  proof -
    have "int a - int b = int (2 ^ i) \<longleftrightarrow> a = b + 2 ^ i" by linarith
    then show ?thesis by (simp add: pg_diff_def)
  qed
  have eq: "find_buddy s (z, k) i (n # ns) =
      (if is_left i k m then Some (LeftBuddy (z, m))
       else if is_left i m k then Some (RightBuddy (z, m)) else find_buddy s (z, k) i ns)"
    using m assms(2) by (simp add: diff is_left_def idx_order_gt)
  show ?case
  proof (cases "is_left i k m \<or> is_left i m k")
    case True
    then show ?thesis unfolding eq using m(1) by (cases "is_left i k m") simp_all
  next
    case False
    then have "find_buddy s (z, k) i (n # ns) = find_buddy s (z, k) i ns" by (simp add: eq)
    then show ?thesis
      using Cons False m(1) by (cases "find_buddy s (z, k) i ns") (auto simp del: find_buddy.simps split: buddy.splits)
  qed
qed

text \<open>Taking a pile off its level to merge it: the pile of the next order, and the invariant.\<close>

lemma take_buddy:
  assumes inv: "zone_inv s H L z" and m: "PgList (z, m) \<in> set (L (Level z i))" and i: "i < MAX_ORDER"
    and f: "f \<notin> free_set L z - pile_pages i m"
  shows "\<exists>L'. zone_inv (set_order (z, f) j (s\<lparr>lists := klist0_unlink (PgList (z, m)) (lists s)\<rparr>)) H L' z \<and>
    free_set L' z = free_set L z - pile_pages i m \<and> off_levels z L L'"
proof -
  obtain xs ys where xy: "L (Level z i) = xs @ PgList (z, m) # ys"
    using m by (meson split_list)
  note lev = zone_inv_level_in [OF inv i]
  have kl: "klists (klist0_unlink (PgList (z, m)) (lists s)) H (L(Level z i := xs @ ys))"
    using klists_unlink(1) [OF zone_inv_klists [OF inv] lev xy] .
  have se: "set (xs @ ys) = set (L (Level z i)) - {PgList (z, m)}"
    using klist_distinct [OF klistsD [OF zone_inv_klists [OF inv] lev]] by (auto simp: xy)
  have p: "(i, m) \<in> piles L z"
    using m i by (simp add: piles_def)
  note inv' = zone_inv_remove [OF inv p kl se] and fs = free_set_remove [OF inv p se]
  show ?thesis
    using zone_inv_set_order [OF inv', of f j] f fs off_levels_upd [OF i] by blast
qed

lemma pile_merge:
  assumes "is_left i k m" and "pile_ok s z i k" and "pile_ok s z i m"
  shows "pile_ok s z (Suc i) m" and "pile_pages (Suc i) m = pile_pages i m \<union> pile_pages i k"
  using assms by (auto simp: is_left_def pile_ok_def pile_pages_def)

text \<open>
  The merge loop returns.  What it holds at the end is the largest aligned pile that the freed one
  completes; none of its buddies is on the levels.
\<close>

definition unmerged :: "(list_node \<Rightarrow> list_node list) \<Rightarrow> nat \<Rightarrow> nat \<Rightarrow> nat \<Rightarrow> bool" where
  "unmerged L z i k \<longleftrightarrow> (\<forall>m. (i, m) \<in> piles L z \<longrightarrow> \<not> is_left i k m \<and> \<not> is_left i m k)"

definition merged :: "mm \<Rightarrow> list_node set \<Rightarrow> (list_node \<Rightarrow> list_node list) \<Rightarrow> nat \<Rightarrow> nat \<Rightarrow> nat \<Rightarrow>
    mm \<Rightarrow> nat \<Rightarrow> (list_node \<Rightarrow> list_node list) \<Rightarrow> bool" where
  "merged s H L z i k s' k' L' \<longleftrightarrow> (let j = pg_order (p_pool s' (z, k')) in
     zone_inv s' H L' z \<and> pile_ok s z j k' \<and> unmerged L' z j k' \<and>
     pile_pages i k \<subseteq> pile_pages j k' \<and> pile_pages j k' \<subseteq> free_set L z \<union> pile_pages i k \<and>
     free_set L' z = free_set L z - pile_pages j k' \<and>
     off_levels z L L' \<and> mm_same s s' z (pile_pages j k'))"

lemma merged_step:
  assumes "merged s1 H L1 z (Suc i) a s' k' L'"
    and "pile_pages (Suc i) a = pile_pages i k \<union> pile_pages i m"
    and "pile_pages i m \<subseteq> free_set L z" and "free_set L1 z = free_set L z - pile_pages i m"
    and "off_levels z L L1" and "mm_same s s1 z (pile_pages (Suc i) a)"
  shows "merged s H L z i k s' k' L'"
  unfolding merged_def Let_def
proof (intro conjI)
  let ?j = "pg_order (p_pool s' (z, k'))"
  note M = assms(1) [unfolded merged_def Let_def]
  show "zone_inv s' H L' z" "unmerged L' z ?j k'"
    using M by blast+
  show "pile_ok s z ?j k'"
    using M mm_same_pile_ok [OF assms(6)] by blast
  show "pile_pages i k \<subseteq> pile_pages ?j k'"
    using M assms(2) by blast
  show "pile_pages ?j k' \<subseteq> free_set L z \<union> pile_pages i k"
    using M assms(2-4) by blast
  show "free_set L' z = free_set L z - pile_pages ?j k'"
    using M assms(2,4) by blast
  show "off_levels z L L'"
    using M off_levels_trans [OF assms(5)] by blast
  show "mm_same s s' z (pile_pages ?j k')"
    using M by (intro mm_same_trans [OF assms(6)]) auto
qed

lemma take_buddy_same: "f \<in> A \<Longrightarrow> mm_same s (set_order (z, f) j (s\<lparr>lists := h\<rparr>)) z A"
  using mm_same_set_order [of f A "s\<lparr>lists := h\<rparr>" z j] by (simp add: mm_same_def)

lemma pile_ok_head:
  assumes "zone_inv s H L z" and "pile_ok s z i k"
  shows "pg_index (p_pool s (z, k)) = k" and "pg_zone (p_pool s (z, k)) = z"
proof -
  have "k < total_pages (mem_zone s z)"
    using assms(2) by (auto simp: pile_ok_def intro: less_le_trans [of _ "k + 2 ^ i"])
  then show "pg_index (p_pool s (z, k)) = k" "pg_zone (p_pool s (z, k)) = z"
    using zone_inv_pages [OF assms(1)] by (simp_all add: zone_pages_ok_def)
qed

lemma merge_loop_spec:
  assumes "zone_inv s H L z" and "pile_ok s z i k" and "pg_order (p_pool s (z, k)) = i"
    and "pile_pages i k \<inter> free_set L z = {}" and "pile_pages i k \<inter> lent H L z = {}"
  shows "\<exists>s' k' L'. merge_loop z (z, k) s = Some (s', (z, k')) \<and> merged s H L z i k s' k' L'"
  using assms
proof (induction "MAX_ORDER - i" arbitrary: i k s L rule: less_induct)
  case less
  note inv = less.prems(1) and ok = less.prems(2) and ord = less.prems(3)
  have i: "i < MAX_ORDER" using ok by (simp add: pile_ok_def)
  have fe: "klist0_for_each (lists s) (Level z i) = Some (L (Level z i))"
    using klists_for_each [OF zone_inv_klists [OF inv] zone_inv_level_in [OF inv i]] .
  have pl: "(i, m) \<in> piles L z \<longleftrightarrow> PgList (z, m) \<in> set (L (Level z i))" for m
    using i by (simp add: piles_def)
  note idx = pile_ok_head(1) [OF inv]
  have nodes: "\<forall>n\<in>set (L (Level z i)). \<exists>m. n = PgList (z, m) \<and> pg_index (p_pool s (z, m)) = m"
    using members_okD [OF zone_inv_members [OF inv] i] idx piles_okD [OF zone_inv_piles [OF inv]] pl by metis
  note fb = find_buddy_spec [OF nodes idx [OF ok], of i]
  show ?case
  proof (cases "find_buddy s (z, k) i (L (Level z i))")
    case None
    then have "unmerged L z i k" using fb by (simp add: unmerged_def pl)
    then have "merged s H L z i k s k L"
      using inv ok ord less.prems(4) by (auto simp: merged_def)
    moreover have "merge_loop z (z, k) s = Some (s, (z, k))"
      using i ord fe None by (simp add: merge_loop.simps)
    ultimately show ?thesis by blast
  next
    case (Some bd)
    then obtain a m where am: "PgList (z, m) \<in> set (L (Level z i))"
        "bd = LeftBuddy (z, m) \<and> is_left i k m \<and> a = m \<or> bd = RightBuddy (z, m) \<and> is_left i m k \<and> a = k"
      using fb by (cases bd) auto
    have p: "(i, m) \<in> piles L z" using am(1) pl by simp
    have i': "Suc i < MAX_ORDER" using am(2) by (auto simp: is_left_def)
    note okm = piles_okD [OF zone_inv_piles [OF inv] p]
    have ok': "pile_ok s z (Suc i) a" and pp: "pile_pages (Suc i) a = pile_pages i k \<union> pile_pages i m"
      using am(2) pile_merge [OF _ ok okm] pile_merge [OF _ okm ok] by auto
    have sub: "pile_pages i m \<subseteq> free_set L z" using free_set_memI [OF p] by blast
    have a: "a \<in> pile_pages i k \<union> pile_pages i m" using am(2) pile_pages_head by blast
    define s1 where "s1 = set_order (z, a) (Suc i) (s\<lparr>lists := klist0_unlink (PgList (z, m)) (lists s)\<rparr>)"
    have "a \<notin> free_set L z - pile_pages i m" using a less.prems(4) by blast
    then obtain L1 where L1: "zone_inv s1 H L1 z" "free_set L1 z = free_set L z - pile_pages i m"
        "off_levels z L L1"
      unfolding s1_def using take_buddy [OF inv am(1) i] by blast
    have same: "mm_same s s1 z (pile_pages (Suc i) a)"
      unfolding s1_def by (rule take_buddy_same) (rule pile_pages_head)
    have "merge_loop z (z, k) s = merge_loop z (z, a) s1"
      using am(2) i' ord piles_order [OF inv p] fe Some
      by (subst merge_loop.simps) (auto simp: incr_order_def s1_def)
    moreover have "\<exists>s' k' L'. merge_loop z (z, a) s1 = Some (s', (z, k')) \<and> merged s1 H L1 z (Suc i) a s' k' L'"
    proof (rule less.hyps)
      show "MAX_ORDER - Suc i < MAX_ORDER - i" using i by simp
      show "zone_inv s1 H L1 z" by (rule L1)
      show "pile_ok s1 z (Suc i) a" using ok' mm_same_pile_ok [OF same] by simp
      show "pg_order (p_pool s1 (z, a)) = Suc i" by (simp add: s1_def)
      show "pile_pages (Suc i) a \<inter> free_set L1 z = {}"
        using pp L1(2) less.prems(4) by blast
      show "pile_pages (Suc i) a \<inter> lent H L1 z = {}"
        using pp off_levels_lent [OF L1(3), of H] sub less.prems(5) zone_inv_lent [OF inv] by auto
    qed
    ultimately show ?thesis
      using merged_step [OF _ pp sub L1(2,3) same] by metis
  qed
qed


text \<open>The specification of \<^verbatim>\<open>free_pages\<close>: exactly the pages of the pile come back.\<close>

lemma free_pages_spec:
  assumes inv: "zone_inv s H L z" and ok: "pile_ok s z i k" and ord: "pg_order (p_pool s (z, k)) = i"
    and dis: "pile_pages i k \<inter> free_set L z = {}" and len: "pile_pages i k \<inter> lent H L z = {}"
  shows "\<exists>s' L'. free_pages s (z, k) = Some s' \<and> zone_inv s' H L' z \<and>
    free_set L' z = free_set L z \<union> pile_pages i k \<and> off_levels z L L' \<and>
    mm_same s (s'\<lparr>areas := areas s\<rparr>) z (free_set L' z)"
proof -
  obtain s1 k' L1 where ml: "merge_loop z (z, k) s = Some (s1, (z, k'))" and mg: "merged s H L z i k s1 k' L1"
    using merge_loop_spec [OF assms] by blast
  define j where "j = pg_order (p_pool s1 (z, k'))"
  have M: "zone_inv s1 H L1 z" "pile_ok s z j k'" "unmerged L1 z j k'"
      "pile_pages i k \<subseteq> pile_pages j k'" "pile_pages j k' \<subseteq> free_set L z \<union> pile_pages i k"
      "free_set L1 z = free_set L z - pile_pages j k'" "off_levels z L L1" "mm_same s s1 z (pile_pages j k')"
    using mg by (simp_all add: merged_def j_def Let_def)
  have j: "j < MAX_ORDER" using M(2) by (simp add: pile_ok_def)
  define s2 where "s2 = s1\<lparr>lists := klist0_append (PgList (z, k')) (Level z j) (lists s1)\<rparr>"
  define L2 where "L2 = L1(Level z j := PgList (z, k') # L1 (Level z j))"
  have lent1: "pile_pages j k' \<inter> lent H L1 z = {}"
    using M(5) off_levels_lent [OF M(7), of H] len zone_inv_lent [OF inv] by auto
  have hd: "k' \<notin> free_set L1 z" "k' \<notin> lent H L1 z"
    using M(6) lent1 pile_pages_head [of k' j] by blast+
  have "zone_inv s2 H L2 z"
    unfolding s2_def L2_def
  proof (rule zone_inv_insert [OF M(1)])
    show "pile_ok s1 z j k'" using M(2) mm_same_pile_ok [OF M(8)] by simp
    show "pile_pages j k' \<inter> free_set L1 z = {}" using M(6) by blast
    show "pile_pages j k' \<inter> lent H L1 z = {}" by (rule lent1)
    show "(j, k' + 2 ^ j) \<notin> piles L1 z" if "Suc j < MAX_ORDER" "2 ^ Suc j dvd k'"
      using M(3) that by (auto simp: unmerged_def is_left_def)
    show "(j, m) \<notin> piles L1 z" if "Suc j < MAX_ORDER" "2 ^ Suc j dvd m" "k' = m + 2 ^ j" for m
      using M(3) that by (auto simp: unmerged_def is_left_def)
    show "pg_order (p_pool s1 (z, k')) = j" by (simp add: j_def)
    show "klists (klist0_append (PgList (z, k')) (Level z j) (lists s1)) H
        (L1(Level z j := PgList (z, k') # L1 (Level z j)))"
      using zone_inv_klists [OF M(1)] zone_inv_level_in [OF M(1) j] not_in_rings [OF M(1) hd]
      by (intro klists_append) auto
  qed simp
  then have inv': "zone_inv (s2\<lparr>areas := h\<rparr>) H L2 z" for h
    by (simp add: zone_inv_def zone_pages_ok_def members_ok_def piles_ok_def pile_ok_def)
  have fs: "free_set L2 z = free_set L z \<union> pile_pages i k"
    unfolding L2_def using M(4-6) j by (subst free_set_insert [of j _ z k' L1]) auto
  have same: "mm_same s (s2\<lparr>areas := areas s\<rparr>) z (free_set L2 z)"
    using mm_same_mono [OF M(8)] M(5) by (simp add: s2_def fs mm_same_def)
  obtain h where h: "free_pages s (z, k) = Some (s2\<lparr>areas := h\<rparr>)"
  proof (cases "klist0_empty (PgArea (z, k')) (areas s2)")
    case True
    then show ?thesis
      using that [of "areas s2"] ml j pile_ok_head(2) [OF inv ok] by (simp add: free_pages_def s2_def j_def)
  next
    case False
    then show ?thesis
      using that [of "klist0_unlink (PgArea (z, k')) (areas s2)"] ml j pile_ok_head(2) [OF inv ok]
      by (simp add: free_pages_def s2_def j_def)
  qed
  have "off_levels z L L2"
    using off_levels_trans [OF M(7) off_levels_upd [OF j]] by (simp add: L2_def)
  then show ?thesis
    using h inv' [of h] fs same by (intro exI [of _ "s2\<lparr>areas := h\<rparr>"] exI [of _ L2]) simp
qed

end
