(* ===== verification/Zone_Init.thy ===== *)
theory Zone_Init
  imports Buddy
begin

text \<open>
  \<^verbatim>\<open>mem_zone_init\<close> of \<^verbatim>\<open>kernel/page_alloc.c\<close> establishes the zone invariant: every page above the
  pages that hold the array of page structures is on the free lists, in maximal aligned piles.
\<close>

section \<open>The page structures and the levels\<close>

text \<open>No list of the heap holds a node of the zone yet.\<close>

definition zone_clear :: "mm \<Rightarrow> list_node set \<Rightarrow> (list_node \<Rightarrow> list_node list) \<Rightarrow> nat \<Rightarrow> bool" where
  "zone_clear s H L z \<longleftrightarrow> klists (lists s) H L \<and> (\<forall>a b. PgList (a, b) \<notin> H) \<and>
     (\<forall>l\<in>H. \<forall>i. Level z i \<notin> ring L l \<and> PgList (z, i) \<notin> ring L l)"

definition pages_ready :: "mm \<Rightarrow> nat \<Rightarrow> nat \<Rightarrow> bool" where
  "pages_ready s z n \<longleftrightarrow> (\<forall>k<n. pg_index (p_pool s (z, k)) = k \<and> pg_zone (p_pool s (z, k)) = z)"

lemma zone_clear_init_page: "zone_clear s H L z \<Longrightarrow> zone_clear (init_page z k s) H L z"
proof -
  assume c: "zone_clear s H L z"
  have "klists (KLIST0_INIT (PgList (z, k)) (lists s)) H L"
  proof (rule klists_cong)
    show "klists (lists s) H L" using c by (simp add: zone_clear_def)
    show "next (KLIST0_INIT (PgList (z, k)) (lists s)) m = next (lists s) m \<and>
        prev (KLIST0_INIT (PgList (z, k)) (lists s)) m = prev (lists s) m" if "a \<in> H" "m \<in> ring L a" for a m
      using c that by (intro KLIST0_INIT_other) (auto simp: zone_clear_def)
  qed
  then show ?thesis using c by (simp add: zone_clear_def init_page_def)
qed

lemma init_page_simps [simp]:
  "mem_zone (init_page z k s) = mem_zone s"
  "pg_index (p_pool (init_page z k s) q) = (if q = (z, k) then k else pg_index (p_pool s q))"
  "pg_zone (p_pool (init_page z k s) q) = (if q = (z, k) then z else pg_zone (p_pool s q))"
  by (simp_all add: init_page_def)

lemma init_pages:
  assumes "zone_clear s H L z"
  shows "zone_clear (fold (init_page z) [0..<n] s) H L z" (is ?A)
    and "pages_ready (fold (init_page z) [0..<n] s) z n" (is ?B)
    and "mem_zone (fold (init_page z) [0..<n] s) = mem_zone s" (is ?C)
proof -
  have "?A \<and> ?B \<and> ?C"
  proof (induction n)
    case 0
    then show ?case using assms by (simp add: pages_ready_def)
  next
    case (Suc n)
    then show ?case
      using zone_clear_init_page [of "fold (init_page z) [0..<n] s"]
      by (auto simp: pages_ready_def less_Suc_eq)
  qed
  then show ?A ?B ?C by blast+
qed

definition empty_levels :: "nat \<Rightarrow> nat \<Rightarrow> (list_node \<Rightarrow> list_node list) \<Rightarrow> list_node \<Rightarrow> list_node list" where
  "empty_levels z m L l = (if l \<in> Level z ` {..<m} then [] else L l)"

lemma init_levels:
  assumes c: "zone_clear s H L z"
  shows "klists (lists (fold (init_level z) [0..<m] s)) (H \<union> Level z ` {..<m}) (empty_levels z m L)" (is "?K m")
    and "mem_zone (fold (init_level z) [0..<m] s) = mem_zone s" (is "?M m")
    and "p_pool (fold (init_level z) [0..<m] s) = p_pool s" (is "?P m")
proof -
  have "?K m \<and> ?M m \<and> ?P m"
  proof (induction m)
    case 0
    have "empty_levels z 0 L = L" by (simp add: empty_levels_def fun_eq_iff)
    then show ?case using c by (simp add: zone_clear_def)
  next
    case (Suc m)
    have out: "Level z m \<notin> ring (empty_levels z m L) a" if "a \<in> H \<union> Level z ` {..<m}" for a
      using that c by (auto simp: zone_clear_def ring_def empty_levels_def)
    have H': "H \<union> Level z ` {..<Suc m} = insert (Level z m) (H \<union> Level z ` {..<m})"
      by (auto simp: lessThan_Suc)
    have L': "empty_levels z (Suc m) L = (empty_levels z m L)(Level z m := [])"
      by (auto simp: empty_levels_def fun_eq_iff lessThan_Suc)
    define t where "t = fold (init_level z) [0..<m] s"
    have st: "fold (init_level z) [0..<Suc m] s = init_level z m t"
      by (simp add: t_def)
    note IH = Suc [folded t_def]
    have "klists (KLIST0_INIT (Level z m) (lists t)) (insert (Level z m) (H \<union> Level z ` {..<m}))
        ((empty_levels z m L)(Level z m := []))"
      using IH by (intro klists_init out) simp_all
    then show ?case
      unfolding H' L' st using IH by (simp add: init_level_def del: fun_upd_apply)
  qed
  then show "?K m" "?M m" "?P m" by blast+
qed

section \<open>Populating the levels\<close>

text \<open>The greedy choice: a pile is as large as its alignment and the end of the zone allow.\<close>

definition greedy :: "(list_node \<Rightarrow> list_node list) \<Rightarrow> nat \<Rightarrow> nat \<Rightarrow> bool" where
  "greedy L z npages \<longleftrightarrow> (\<forall>i k. (i, k) \<in> piles L z \<longrightarrow> Suc i < MAX_ORDER \<longrightarrow> 2 ^ Suc i dvd k \<longrightarrow>
     npages < k + 2 ^ Suc i)"

lemma reduce_order_le: "reduce_order n left \<le> n"
  by (induction n) auto

lemma reduce_order_fits: "0 < left \<Longrightarrow> 2 ^ reduce_order n left \<le> left"
  by (induction n) auto

lemma reduce_order_max: "reduce_order n left < j \<Longrightarrow> j \<le> n \<Longrightarrow> left < 2 ^ j"
  by (induction n) (auto simp: le_Suc_eq split: if_splits)

lemma populate_spec:
  assumes "zone_inv s H L z" and "lent H L z = {}" and "npages = total_pages (mem_zone s z)"
    and "greedy L z npages" and "free_set L z = {c..<i}" and "c \<le> i" and "i \<le> max c npages"
  shows "\<exists>L'. zone_inv (populate z npages i s) H L' z \<and> free_set L' z = {c..<npages} \<and> off_levels z L L' \<and>
    mm_same s (populate z npages i s) z {c..<npages}"
  using assms
proof (induction "npages - i" arbitrary: i s L rule: less_induct)
  case less
  note inv = less.prems(1) and np = less.prems(3) and fs = less.prems(5)
  show ?case
  proof (cases "i < npages")
    case False
    then have "populate z npages i s = s" by (simp add: populate.simps)
    moreover have "{c..<i} = {c..<npages}" using False less.prems(6,7) by (auto simp: max_def split: if_splits)
    ultimately show ?thesis using inv fs by (intro exI [of _ L]) simp
  next
    case True
    define d where "d = reduce_order (idx_order i) (npages - i)"
    define s1 where "s1 = set_order (z, i) d s"
    define s2 where "s2 = s1\<lparr>lists := klist0_prepend (PgList (z, i)) (Level z d) (lists s1)\<rparr>"
    define L2 where "L2 = L(Level z d := L (Level z d) @ [PgList (z, i)])"
    have d: "d \<le> idx_order i" "2 ^ d \<le> npages - i"
      using reduce_order_le reduce_order_fits True by (simp_all add: d_def)
    have dM: "d < MAX_ORDER" using d(1) idx_order_less [of i] by simp
    have fit: "i + 2 ^ d \<le> npages" using d(2) True by simp
    have al: "2 ^ d dvd i" using d(1) idx_order_dvd [of i] by (meson dvd_trans le_imp_power_dvd)
    have big: "npages < i + 2 ^ Suc d" if "Suc d < MAX_ORDER" "2 ^ Suc d dvd i"
    proof -
      have "Suc d \<le> idx_order i" using that idx_order_gt [of d i] by simp
      then show ?thesis
        using reduce_order_max [of "idx_order i" "npages - i" "Suc d"] True by (simp add: d_def)
    qed
    have ok: "pile_ok s z d i" using dM al fit np by (simp add: pile_ok_def)
    have i0: "i \<notin> free_set L z" "i \<notin> lent H L z" using fs less.prems(2) by simp_all
    have pd: "pile_pages d i \<inter> free_set L z = {}" using fs by (auto simp: pile_pages_def)
    have inv1: "zone_inv s1 H L z" unfolding s1_def using inv i0(1) by (rule zone_inv_set_order)
    have inv2: "zone_inv s2 H L2 z"
      unfolding s2_def L2_def
    proof (rule zone_inv_insert [OF inv1])
      show "pile_ok s1 z d i" using ok by (simp add: s1_def pile_ok_def)
      show "pile_pages d i \<inter> free_set L z = {}" by (rule pd)
      show "pile_pages d i \<inter> lent H L z = {}" using less.prems(2) by simp
      show "(d, i + 2 ^ d) \<notin> piles L z"
        using fs piles_head_free [of d "i + 2 ^ d" L z] by auto
      show "(d, m) \<notin> piles L z" if "Suc d < MAX_ORDER" "2 ^ Suc d dvd m" "i = m + 2 ^ d" for m
        using less.prems(4) [unfolded greedy_def, rule_format, of d m] that fit by auto
      show "pg_order (p_pool s1 (z, i)) = d" by (simp add: s1_def)
      show "klists (klist0_prepend (PgList (z, i)) (Level z d) (lists s1)) H
          (L(Level z d := L (Level z d) @ [PgList (z, i)]))"
        using zone_inv_klists [OF inv1] zone_inv_level_in [OF inv1 dM] not_in_rings [OF inv i0]
        by (intro klists_prepend) auto
    qed simp
    have off: "off_levels z L L2" unfolding L2_def using dM by (rule off_levels_upd)
    have same: "mm_same s s2 z {c..<npages}"
      unfolding s2_def s1_def using True less.prems(6) by (simp add: mm_same_set_order)
    have "free_set L2 z = free_set L z \<union> pile_pages d i"
      unfolding L2_def using dM by (rule free_set_insert) simp
    then have fs2: "free_set L2 z = {c..<i + 2 ^ d}"
      using less.prems(6) unfolding fs pile_pages_def by (simp add: ivl_disj_un_two(3))
    have "piles L2 z = insert (d, i) (piles L z)"
      unfolding L2_def using dM by (rule piles_insert) simp
    then have gr: "greedy L2 z npages"
      using less.prems(4) big unfolding greedy_def by (metis Pair_inject insert_iff)
    have "\<exists>L'. zone_inv (populate z npages (i + 2 ^ d) s2) H L' z \<and> free_set L' z = {c..<npages} \<and>
        off_levels z L2 L' \<and> mm_same s2 (populate z npages (i + 2 ^ d) s2) z {c..<npages}"
    proof (rule less.hyps)
      show "npages - (i + 2 ^ d) < npages - i" using True by (simp add: diff_less_mono2)
      show "lent H L2 z = {}" using less.prems(2) off_levels_lent [OF off] by simp
      show "npages = total_pages (mem_zone s2 z)" using np by (simp add: s2_def s1_def)
      show "c \<le> i + 2 ^ d" "i + 2 ^ d \<le> max c npages" using less.prems(6) fit by simp_all
    qed (fact inv2 gr fs2)+
    moreover have "populate z npages i s = populate z npages (i + 2 ^ d) s2"
      using True by (subst populate.simps) (simp add: Let_def d_def s2_def s1_def)
    ultimately show ?thesis
      using off_levels_trans [OF off] mm_same_trans [OF same _ order_refl order_refl] by metis
  qed
qed

section \<open>The whole initialisation\<close>

lemma mem_zone_init_spec:
  assumes c: "zone_clear s H L z"
  shows "\<exists>L'. zone_inv (mem_zone_init z s) (H \<union> levels z) L' z \<and>
    free_set L' z = {consumed_pages (total_pages (mem_zone s z))..<total_pages (mem_zone s z)} \<and>
    off_levels z L L' \<and> lent (H \<union> levels z) L' z = {}"
proof -
  define npages where "npages = total_pages (mem_zone s z)"
  define s1 where "s1 = fold (init_page z) [0..<npages] s"
  define s2 where "s2 = fold (init_level z) [0..<MAX_ORDER] s1"
  define s3 where "s3 = s2\<lparr>zones := KLIST0_INIT (ZoneNode z) (zones s2)\<rparr>"
  define s4 where "s4 = s3\<lparr>mem_zone := (mem_zone s3)(z := (mem_zone s3 z)
      \<lparr>free_pages_count := of_nat npages - of_nat (consumed_pages npages)\<rparr>)\<rparr>"
  define L1 where "L1 = empty_levels z MAX_ORDER L"
  note P = init_pages [OF c, of npages, folded s1_def]
  note V = init_levels [OF P(1), of MAX_ORDER, folded s2_def L1_def levels_def]
  have L1: "L1 (Level z i) = []" if "i < MAX_ORDER" for i
    using that by (simp add: L1_def empty_levels_def)
  have off: "off_levels z L L1"
    by (auto simp: L1_def off_levels_def empty_levels_def levels_def)
  have piles1: "piles L1 z = {}"
    using L1 by (auto simp: piles_def)
  have lent1: "lent (H \<union> levels z) L1 z = {}"
    using c off by (auto simp: lent_def zone_clear_def ring_def off_levels_def)
  have "total_pages (mem_zone s4 z) = npages"
    using V(2) P(3) by (simp add: s4_def s3_def npages_def)
  moreover have "zone_inv s4 (H \<union> levels z) L1 z"
    unfolding zone_inv_def
  proof (intro conjI allI)
    show "klists (lists s4) (H \<union> levels z) L1" using V(1) by (simp add: s4_def s3_def)
    show "levels z \<subseteq> H \<union> levels z" by simp
    show "PgList (a, b) \<notin> H \<union> levels z" for a b using c by (simp add: zone_clear_def)
    show "zone_pages_ok s4 z"
      using P(2,3) V(2,3) by (simp add: zone_pages_ok_def pages_ready_def s4_def s3_def npages_def)
    show "members_ok s4 L1 z" using L1 by (simp add: members_ok_def)
    show "piles_ok s4 L1 z" "piles_disjoint L1 z" "no_buddies L1 z"
      by (simp_all add: piles_ok_def piles_disjoint_def no_buddies_def piles1)
    show "lent (H \<union> levels z) L1 z \<inter> free_set L1 z = {}" using lent1 by simp
  qed
  moreover have "greedy L1 z npages" "free_set L1 z = {consumed_pages npages..<consumed_pages npages}"
    by (simp_all add: greedy_def free_set_def piles1)
  ultimately obtain L' where L': "zone_inv (populate z npages (consumed_pages npages) s4) (H \<union> levels z) L' z"
      "free_set L' z = {consumed_pages npages..<npages}" "off_levels z L1 L'"
    using populate_spec [of s4 "H \<union> levels z" L1 z npages "consumed_pages npages" "consumed_pages npages"] lent1
    by fastforce
  have "mem_zone_init z s = (let s5 = populate z npages (consumed_pages npages) s4
      in s5\<lparr>zones := klist0_append (ZoneNode z) GlobalMemInfo (zones s5)\<rparr>)"
    by (simp add: mem_zone_init_def Let_def s4_def s3_def s2_def s1_def npages_def)
  then have "zone_inv (mem_zone_init z s) (H \<union> levels z) L' z"
    using L'(1) by (simp add: Let_def zone_inv_def zone_pages_ok_def members_ok_def piles_ok_def pile_ok_def)
  then show ?thesis
    using L'(2,3) off_levels_trans [OF off] off_levels_lent [OF L'(3)] lent1 by (auto simp: npages_def)
qed

section \<open>What initialisation leaves alone\<close>

lemma populate_frame:
  "mem_zone (populate z npages i s) = mem_zone s \<and> zones (populate z npages i s) = zones s \<and>
   areas (populate z npages i s) = areas s \<and>
   (\<forall>q. virt (p_pool (populate z npages i s) q) = virt (p_pool s q) \<and>
        pg_index (p_pool (populate z npages i s) q) = pg_index (p_pool s q) \<and>
        pg_zone (p_pool (populate z npages i s) q) = pg_zone (p_pool s q))"
proof (induction z npages i s rule: populate.induct)
  case (1 z npages i s)
  show ?case
  proof (cases "i < npages")
    case True
    then show ?thesis using 1 [OF True refl refl refl] by (subst (1 2 3 4 5 6) populate.simps) (simp add: Let_def)
  next
    case False
    then show ?thesis by (simp add: populate.simps)
  qed
qed

lemma fold_init_page_frame:
  "mem_zone (fold (init_page z) xs s) = mem_zone s \<and> zones (fold (init_page z) xs s) = zones s \<and>
   (\<forall>y k. pg_index (p_pool (fold (init_page z) xs s) (y, k)) =
           (if y = z \<and> k \<in> set xs then k else pg_index (p_pool s (y, k))) \<and>
          pg_zone (p_pool (fold (init_page z) xs s) (y, k)) =
           (if y = z \<and> k \<in> set xs then z else pg_zone (p_pool s (y, k))))"
proof (induction xs arbitrary: s)
  case (Cons x xs)
  have "zones (init_page z x s) = zones s" by (simp add: init_page_def)
  then show ?case using Cons [of "init_page z x s"] by auto
qed simp

lemma fold_init_level_frame:
  "mem_zone (fold (init_level z) xs s) = mem_zone s \<and> zones (fold (init_level z) xs s) = zones s \<and>
   p_pool (fold (init_level z) xs s) = p_pool s"
proof (induction xs arbitrary: s)
  case (Cons x xs)
  have "mem_zone (init_level z x s) = mem_zone s" "zones (init_level z x s) = zones s"
      "p_pool (init_level z x s) = p_pool s"
    by (simp_all add: init_level_def)
  then show ?case using Cons [of "init_level z x s"] by simp
qed simp

lemma mem_zone_init_frame:
  "total_pages (mem_zone (mem_zone_init z s) y) = total_pages (mem_zone s y)"
  "base (mem_zone (mem_zone_init z s) y) = base (mem_zone s y)"
  "zones (mem_zone_init z s) = klist0_append (ZoneNode z) GlobalMemInfo (KLIST0_INIT (ZoneNode z) (zones s))"
  "pg_index (p_pool (mem_zone_init z s) (y, k)) =
    (if y = z \<and> k < total_pages (mem_zone s z) then k else pg_index (p_pool s (y, k)))"
  "pg_zone (p_pool (mem_zone_init z s) (y, k)) =
    (if y = z \<and> k < total_pages (mem_zone s z) then z else pg_zone (p_pool s (y, k)))"
  by (simp_all add: mem_zone_init_def Let_def populate_frame fold_init_level_frame fold_init_page_frame)

text \<open>The pages below the populated ones keep order 0.\<close>

lemma populate_order_below:
  "k < i \<Longrightarrow> pg_order (p_pool (populate z npages i s) (z, k)) = pg_order (p_pool s (z, k))"
proof (induction z npages i s rule: populate.induct)
  case (1 z npages i s)
  show ?case
  proof (cases "i < npages")
    case True
    then show ?thesis
      using "1.IH" [OF True refl refl refl] "1.prems" by (subst populate.simps) (simp add: Let_def trans_less_add1)
  next
    case False
    then show ?thesis by (simp add: populate.simps)
  qed
qed

lemma fold_init_page_order:
  "k \<in> set xs \<Longrightarrow> pg_order (p_pool (fold (init_page z) xs s) (z, k)) = 0"
proof (induction xs arbitrary: s rule: rev_induct)
  case (snoc x xs)
  then show ?case by (cases "k = x") (simp_all add: init_page_def [of z x])
qed simp

lemma mem_zone_init_order:
  "k < consumed_pages (total_pages (mem_zone s z)) \<Longrightarrow> k < total_pages (mem_zone s z) \<Longrightarrow>
    pg_order (p_pool (mem_zone_init z s) (z, k)) = 0"
  by (simp add: mem_zone_init_def Let_def populate_order_below fold_init_level_frame fold_init_page_order)

end
