(* ===== verification/Page_Pool.thy ===== *)
theory Page_Pool
  imports Zone_Init
begin

text \<open>
  The contract of the page allocator, as its clients see it: a pool of aligned piles of pages.
  The locale states what allocation and release promise; the interpretation discharges the laws
  for \<^verbatim>\<open>__alloc_pages\<close> and \<^verbatim>\<open>free_pages\<close> of a zone.  A client that allocates piles and
  frees piles it holds is a step relation; its reachable states account for every page.
\<close>

section \<open>The contract\<close>

text \<open>
  \<open>held_ok tag avail A M\<close>: the held piles \<open>A\<close> (order, first page) carry their order, are pairwise
  disjoint and disjoint from the available pages, and the two together are the pages \<open>M\<close>.
\<close>

definition piles_of :: "(nat \<times> nat) set \<Rightarrow> nat set" where
  "piles_of A = (\<Union>(i, k)\<in>A. pile_pages i k)"

definition held_ok :: "(nat \<Rightarrow> nat) \<Rightarrow> nat set \<Rightarrow> (nat \<times> nat) set \<Rightarrow> nat set \<Rightarrow> bool" where
  "held_ok tag avail A M \<longleftrightarrow>
    (\<forall>i k. (i, k) \<in> A \<longrightarrow> tag k = i) \<and>
    (\<forall>i k j m. (i, k) \<in> A \<longrightarrow> (j, m) \<in> A \<longrightarrow> (i, k) \<noteq> (j, m) \<longrightarrow> pile_pages i k \<inter> pile_pages j m = {}) \<and>
    piles_of A \<inter> avail = {} \<and> piles_of A \<union> avail = M"

lemma held_okD:
  assumes "held_ok tag avail A M"
  shows held_ok_tag: "(i, k) \<in> A \<Longrightarrow> tag k = i"
    and held_ok_disjoint: "(i, k) \<in> A \<Longrightarrow> (j, m) \<in> A \<Longrightarrow> (i, k) \<noteq> (j, m) \<Longrightarrow> pile_pages i k \<inter> pile_pages j m = {}"
    and held_ok_avail: "piles_of A \<inter> avail = {}" and held_ok_all: "piles_of A \<union> avail = M"
  using assms unfolding held_ok_def by metis+

lemma piles_of_simps [simp]:
  "piles_of {} = {}"
  "piles_of (insert (i, k) A) = pile_pages i k \<union> piles_of A"
  by (auto simp: piles_of_def)

lemma piles_of_mem: "(i, k) \<in> A \<Longrightarrow> pile_pages i k \<subseteq> piles_of A"
  by (auto simp: piles_of_def)

lemma piles_of_remove:
  assumes "held_ok tag avail A M" and "(i, k) \<in> A"
  shows "piles_of (A - {(i, k)}) = piles_of A - pile_pages i k"
proof -
  have "pile_pages j m \<inter> pile_pages i k = {}" if "(j, m) \<in> A - {(i, k)}" for j m
    using held_ok_disjoint [OF assms(1) _ assms(2)] that by blast
  then have "piles_of (A - {(i, k)}) \<inter> pile_pages i k = {}" unfolding piles_of_def by blast
  moreover have "piles_of A = pile_pages i k \<union> piles_of (A - {(i, k)})"
    using assms(2) piles_of_simps(2) [of i k "A - {(i, k)}"] by (simp add: insert_absorb)
  ultimately show ?thesis by blast
qed

lemma held_ok_alloc:
  assumes h: "held_ok tag avail A M" and sub: "pile_pages n k \<subseteq> avail"
    and tag: "tag' k = n" "\<And>m. m \<notin> avail \<Longrightarrow> tag' m = tag m"
  shows "held_ok tag' (avail - pile_pages n k) (insert (n, k) A) M"
proof -
  have dis: "pile_pages i m \<inter> pile_pages n k = {}" if "(i, m) \<in> A" for i m
    using held_ok_avail [OF h] sub piles_of_mem [OF that] by blast
  have kp: "tag' m = i" if "(i, m) \<in> A" for i m
  proof -
    have "m \<notin> avail" using held_ok_avail [OF h] piles_of_mem [OF that] pile_pages_head [of m i] by blast
    then show ?thesis using tag(2) held_ok_tag [OF h that] by simp
  qed
  show ?thesis
    unfolding held_ok_def
  proof (intro conjI allI impI)
    show "tag' m = i" if "(i, m) \<in> insert (n, k) A" for i m
      using that tag(1) kp by blast
    show "pile_pages i a \<inter> pile_pages j b = {}"
      if "(i, a) \<in> insert (n, k) A" "(j, b) \<in> insert (n, k) A" "(i, a) \<noteq> (j, b)" for i a j b
      using that dis [of i a] dis [of j b] held_ok_disjoint [OF h, of i a j b] by blast
    show "piles_of (insert (n, k) A) \<inter> (avail - pile_pages n k) = {}"
      "piles_of (insert (n, k) A) \<union> (avail - pile_pages n k) = M"
      using held_ok_avail [OF h] held_ok_all [OF h] sub unfolding piles_of_simps by blast+
  qed
qed

lemma held_ok_free:
  assumes h: "held_ok tag avail A M" and p: "(i, k) \<in> A"
    and tag: "\<And>m. m \<notin> avail \<union> pile_pages i k \<Longrightarrow> tag' m = tag m"
  shows "held_ok tag' (avail \<union> pile_pages i k) (A - {(i, k)}) M"
proof -
  have rm: "piles_of (A - {(i, k)}) = piles_of A - pile_pages i k"
    using h p by (rule piles_of_remove)
  show ?thesis
    unfolding held_ok_def
  proof (intro conjI allI impI)
    show "tag' m = j" if jm: "(j, m) \<in> A - {(i, k)}" for j m
    proof -
      have "m \<in> piles_of (A - {(i, k)})" using piles_of_mem [OF jm] pile_pages_head by blast
      then have "m \<notin> avail \<union> pile_pages i k" using held_ok_avail [OF h] rm by blast
      then show ?thesis using tag held_ok_tag [OF h] jm by auto
    qed
    show "pile_pages a b \<inter> pile_pages c d = {}"
      if "(a, b) \<in> A - {(i, k)}" "(c, d) \<in> A - {(i, k)}" "(a, b) \<noteq> (c, d)" for a b c d
      using that held_ok_disjoint [OF h, of a b c d] by blast
    show "piles_of (A - {(i, k)}) \<inter> (avail \<union> pile_pages i k) = {}"
      "piles_of (A - {(i, k)}) \<union> (avail \<union> pile_pages i k) = M"
      using held_ok_avail [OF h] held_ok_all [OF h] rm piles_of_mem [OF p] by blast+
  qed
qed

locale pile_pool =
  fixes ok :: "'s \<Rightarrow> bool" and avail :: "'s \<Rightarrow> nat set" and tag :: "'s \<Rightarrow> nat \<Rightarrow> nat"
    and fits :: "'s \<Rightarrow> nat \<Rightarrow> nat \<Rightarrow> bool"
    and alloc :: "'s \<Rightarrow> nat \<Rightarrow> ('s \<times> nat option) option" and release :: "'s \<Rightarrow> nat \<Rightarrow> 's option"
  assumes alloc_law: "ok s \<Longrightarrow> \<exists>s' r. alloc s n = Some (s', r) \<and> ok s' \<and> fits s' = fits s \<and>
      (case r of
         None \<Rightarrow> s' = s \<and> \<not> (\<exists>k. fits s n k \<and> pile_pages n k \<subseteq> avail s)
       | Some k \<Rightarrow> fits s n k \<and> pile_pages n k \<subseteq> avail s \<and> avail s' = avail s - pile_pages n k \<and>
           tag s' k = n \<and> (\<forall>m. m \<notin> avail s \<longrightarrow> tag s' m = tag s m))"
    and release_law: "ok s \<Longrightarrow> fits s i k \<Longrightarrow> tag s k = i \<Longrightarrow> pile_pages i k \<inter> avail s = {} \<Longrightarrow>
      \<exists>s'. release s k = Some s' \<and> ok s' \<and> fits s' = fits s \<and> avail s' = avail s \<union> pile_pages i k \<and>
        (\<forall>m. m \<notin> avail s' \<longrightarrow> tag s' m = tag s m)"
begin

text \<open>The accounting invariant of a client and its preservation.\<close>

definition accounts :: "nat set \<Rightarrow> 's \<Rightarrow> (nat \<times> nat) set \<Rightarrow> bool" where
  "accounts M s A \<longleftrightarrow> ok s \<and> held_ok (tag s) (avail s) A M \<and> (\<forall>i k. (i, k) \<in> A \<longrightarrow> fits s i k)"

lemma accounts_alloc:
  assumes a: "accounts M s A" and r: "alloc s n = Some (s', Some k)"
  shows "accounts M s' (insert (n, k) A)"
proof -
  have s: "ok s'" "fits s' = fits s" "fits s n k" "pile_pages n k \<subseteq> avail s"
      "avail s' = avail s - pile_pages n k" "tag s' k = n" "\<And>m. m \<notin> avail s \<Longrightarrow> tag s' m = tag s m"
    using alloc_law [of s n] a r by (auto simp: accounts_def)
  have "held_ok (tag s') (avail s') (insert (n, k) A) M"
    unfolding s(5) using a s(4,6,7) by (intro held_ok_alloc) (auto simp: accounts_def)
  then show ?thesis using a s(1-3) by (auto simp: accounts_def)
qed

lemma accounts_fail: "accounts M s A \<Longrightarrow> alloc s n = Some (s', None) \<Longrightarrow> accounts M s' A"
  using alloc_law [of s n] by (auto simp: accounts_def)

lemma accounts_release:
  assumes a: "accounts M s A" and p: "(i, k) \<in> A"
  shows "\<exists>s'. release s k = Some s' \<and> accounts M s' (A - {(i, k)}) \<and> avail s' = avail s \<union> pile_pages i k"
proof -
  have h: "held_ok (tag s) (avail s) A M" and ok: "ok s" and fits: "fits s i k"
    using a p by (simp_all add: accounts_def)
  have "pile_pages i k \<inter> avail s = {}"
    using held_ok_avail [OF h] piles_of_mem [OF p] by blast
  then obtain s' where s': "release s k = Some s'" "ok s'" "fits s' = fits s"
      "avail s' = avail s \<union> pile_pages i k" "\<forall>m. m \<notin> avail s' \<longrightarrow> tag s' m = tag s m"
    using release_law [OF ok fits held_ok_tag [OF h p]] by blast
  then have "held_ok (tag s') (avail s') (A - {(i, k)}) M"
    using held_ok_free [OF h p, of "tag s'"] by simp
  then show ?thesis using s' a by (auto simp: accounts_def)
qed

lemma alloc_release_avail:
  assumes "ok s" and "alloc s n = Some (s', Some k)"
  shows "\<exists>s''. release s' k = Some s'' \<and> ok s'' \<and> avail s'' = avail s"
proof -
  have "accounts (avail s) s {}" using assms(1) by (simp add: accounts_def held_ok_def)
  then have "accounts (avail s) s' {(n, k)}" using assms(2) by (rule accounts_alloc)
  then obtain s'' where "release s' k = Some s''" "accounts (avail s) s'' ({(n, k)} - {(n, k)})"
    using accounts_release by blast
  then show ?thesis by (auto simp: accounts_def held_ok_def)
qed

end

section \<open>The zone as a pile pool\<close>

text \<open>The free pages of a zone, read off its lists.\<close>

definition zone_free :: "nat \<Rightarrow> mm \<Rightarrow> nat set" where
  "zone_free z s = {m. \<exists>i ns k. i < MAX_ORDER \<and> klist0_for_each (lists s) (Level z i) = Some ns \<and>
     PgList (z, k) \<in> set ns \<and> m \<in> pile_pages i k}"

definition zone_ok :: "nat \<Rightarrow> mm \<Rightarrow> bool" where
  "zone_ok z s \<longleftrightarrow> (\<exists>H L. zone_inv s H L z \<and> lent H L z = {})"

definition zone_alloc :: "nat \<Rightarrow> mm \<Rightarrow> nat \<Rightarrow> (mm \<times> nat option) option" where
  "zone_alloc z s n = map_option (\<lambda>(s', r). (s', map_option snd r)) (alloc_pages_zone s z n)"

definition zone_tag :: "nat \<Rightarrow> mm \<Rightarrow> nat \<Rightarrow> nat" where
  "zone_tag z s k = pg_order (p_pool s (z, k))"

definition zone_fits :: "nat \<Rightarrow> mm \<Rightarrow> nat \<Rightarrow> nat \<Rightarrow> bool" where
  "zone_fits z s i k \<longleftrightarrow> pile_ok s z i k"

lemma zone_free_eq: "zone_inv s H L z \<Longrightarrow> zone_free z s = free_set L z"
  using klists_for_each [OF zone_inv_klists] zone_inv_level_in
  by (fastforce simp: zone_free_def free_set_def piles_def)

interpretation zp: pile_pool "zone_ok z" "zone_free z" "zone_tag z" "zone_fits z" "zone_alloc z"
    "\<lambda>s k. free_pages s (z, k)" for z
proof
  fix s n
  assume "zone_ok z s"
  then obtain H L where inv: "zone_inv s H L z" and len: "lent H L z = {}"
    by (auto simp: zone_ok_def)
  note F = zone_free_eq [OF inv]
  show "\<exists>s' r. zone_alloc z s n = Some (s', r) \<and> zone_ok z s' \<and> zone_fits z s' = zone_fits z s \<and>
      (case r of
         None \<Rightarrow> s' = s \<and> \<not> (\<exists>k. zone_fits z s n k \<and> pile_pages n k \<subseteq> zone_free z s)
       | Some k \<Rightarrow> zone_fits z s n k \<and> pile_pages n k \<subseteq> zone_free z s \<and>
           zone_free z s' = zone_free z s - pile_pages n k \<and>
           zone_tag z s' k = n \<and> (\<forall>m. m \<notin> zone_free z s \<longrightarrow> zone_tag z s' m = zone_tag z s m))"
  proof (cases "find_level s z n")
    case None
    then have "alloc_pages_zone s z n = Some (s, None)"
      using alloc_pages_zone_none [OF inv] by blast
    then show ?thesis
      using alloc_pages_zone_null_iff [OF inv, of n] \<open>zone_ok z s\<close>
      by (intro exI [of _ s] exI [of _ None]) (simp add: zone_alloc_def zone_fits_def F)
  next
    case (Some i)
    obtain s' k L' where a: "alloc_pages_zone s z n = Some (s', Some (z, k))" "zone_inv s' H L' z"
        "pile_ok s z n k" "pile_pages n k \<subseteq> free_set L z" "free_set L' z = free_set L z - pile_pages n k"
        "pg_order (p_pool s' (z, k)) = n" "off_levels z L L'" "mm_same s s' z (free_set L z)"
      using alloc_pages_zone_some [OF inv Some] by blast
    have "zone_ok z s'"
      using a(2,7) off_levels_lent [of z L L' H] len by (auto simp: zone_ok_def)
    moreover have "zone_fits z s' = zone_fits z s"
      using mm_same_pile_ok [OF a(8)] by (simp add: zone_fits_def fun_eq_iff)
    ultimately show ?thesis
      using a F zone_free_eq [OF a(2)]
      by (intro exI [of _ s'] exI [of _ "Some k"])
        (simp add: zone_alloc_def zone_fits_def zone_tag_def mm_same_def)
  qed
next
  fix s i k
  assume "zone_ok z s" and fits: "zone_fits z s i k" and tag: "zone_tag z s k = i"
    and dis: "pile_pages i k \<inter> zone_free z s = {}"
  then obtain H L where inv: "zone_inv s H L z" and len: "lent H L z = {}"
    by (auto simp: zone_ok_def)
  note F = zone_free_eq [OF inv]
  obtain s' L' where f: "free_pages s (z, k) = Some s'" "zone_inv s' H L' z"
      "free_set L' z = free_set L z \<union> pile_pages i k" "off_levels z L L'"
      "mm_same s (s'\<lparr>areas := areas s\<rparr>) z (free_set L' z)"
    using free_pages_spec [OF inv, of i k] fits tag dis len by (auto simp: zone_fits_def zone_tag_def F)
  have "zone_ok z s'"
    using f(2,4) off_levels_lent [of z L L' H] len by (auto simp: zone_ok_def)
  moreover have "zone_fits z s' = zone_fits z s"
    using f(5) by (simp add: zone_fits_def fun_eq_iff mm_same_def pile_ok_def)
  ultimately show "\<exists>s'. free_pages s (z, k) = Some s' \<and> zone_ok z s' \<and> zone_fits z s' = zone_fits z s \<and>
      zone_free z s' = zone_free z s \<union> pile_pages i k \<and>
      (\<forall>m. m \<notin> zone_free z s' \<longrightarrow> zone_tag z s' m = zone_tag z s m)"
    using f F zone_free_eq [OF f(2)] by (intro exI [of _ s']) (simp add: zone_tag_def mm_same_def)
qed

section \<open>Properties of the page allocator\<close>

definition boot_state :: mm where
  "boot_state = \<lparr>mem_zone = \<lambda>z. \<lparr>base = 0x200000, total_pages = 100, free_pages_count = 0\<rparr>,
     p_pool = \<lambda>p. \<lparr>pg_index = 0, virt = 0, pg_order = 0, pg_zone = 0\<rparr>,
     lists = \<lparr>prev = id, next = id\<rparr>, areas = \<lparr>prev = id, next = id\<rparr>, zones = \<lparr>prev = id, next = id\<rparr>\<rparr>"

lemma zone_init_ok:
  "zone_ok z (mem_zone_init z s)"
  "zone_free z (mem_zone_init z s) = {consumed_pages (total_pages (mem_zone s z))..<total_pages (mem_zone s z)}"
proof -
  have "zone_clear s {} L z" for L by (simp add: zone_clear_def klists_def)
  then obtain L' where "zone_inv (mem_zone_init z s) ({} \<union> levels z) L' z"
      "free_set L' z = {consumed_pages (total_pages (mem_zone s z))..<total_pages (mem_zone s z)}"
      "lent ({} \<union> levels z) L' z = {}"
    using mem_zone_init_spec by blast
  then show "zone_ok z (mem_zone_init z s)"
    "zone_free z (mem_zone_init z s) = {consumed_pages (total_pages (mem_zone s z))..<total_pages (mem_zone s z)}"
    using zone_free_eq by (fastforce simp: zone_ok_def)+
qed

lemma boot_free: "zone_free 0 (mem_zone_init 0 boot_state) = {1..<100}"
  by (simp add: zone_init_ok boot_state_def consumed_pages_def SIZEOF_PAGE_def PAGE_SIZE_def)

lemma zone_alloc_zone:
  assumes "zone_ok z s" and "alloc_pages_zone s z n = Some (s', Some pg)"
  shows "fst pg = z"
proof -
  obtain H L where inv: "zone_inv s H L z" using assms(1) by (auto simp: zone_ok_def)
  show ?thesis
    using alloc_pages_zone_none [OF inv, of n] alloc_pages_zone_some [OF inv, of n] assms(2)
    by (cases "find_level s z n") auto
qed

text \<open>
  C1. \<^verbatim>\<open>__alloc_pages\<close> always returns and keeps the zone well formed.  It fails exactly when no aligned
  run of \<open>2 ^ order\<close> free pages exists; otherwise it returns such a run, and the free pages shrink by
  exactly that run.
\<close>

theorem alloc_pages_zone_correct:
  assumes "zone_ok z s"
  shows "\<exists>s' r. alloc_pages_zone s z order = Some (s', r) \<and> zone_ok z s' \<and>
    (case r of
       None \<Rightarrow> s' = s \<and> \<not> (\<exists>k. pile_ok s z order k \<and> pile_pages order k \<subseteq> zone_free z s)
     | Some (y, k) \<Rightarrow> y = z \<and> pile_ok s z order k \<and> pile_pages order k \<subseteq> zone_free z s \<and>
         zone_free z s' = zone_free z s - pile_pages order k \<and> pg_order (p_pool s' (z, k)) = order)"
proof -
  obtain H L where inv: "zone_inv s H L z" "lent H L z = {}"
    using assms by (auto simp: zone_ok_def)
  show ?thesis
  proof (cases "find_level s z order")
    case None
    then show ?thesis
      using alloc_pages_zone_none [OF inv(1)] alloc_pages_zone_null_iff [OF inv(1), of order] assms
      by (simp add: zone_free_eq [OF inv(1)])
  next
    case (Some i)
    obtain s' k where a: "alloc_pages_zone s z order = Some (s', Some (z, k))"
      using alloc_pages_zone_some [OF inv(1) Some] by blast
    then show ?thesis
      using zp.alloc_law [OF assms, of order] by (auto simp: zone_alloc_def zone_fits_def zone_tag_def)
  qed
qed

theorem alloc_pages_zone_correct_witness:
  "zone_ok 0 (mem_zone_init 0 boot_state) \<and>
    (\<exists>s' k. alloc_pages_zone (mem_zone_init 0 boot_state) 0 3 = Some (s', Some (0, k)) \<and>
      zone_free 0 s' = {1..<100} - {k..<k + 8})"
proof -
  let ?s = "mem_zone_init 0 boot_state"
  have t: "total_pages (mem_zone ?s 0) = 100"
    by (simp add: mem_zone_init_frame boot_state_def)
  have "pile_ok ?s 0 3 8 \<and> pile_pages 3 8 \<subseteq> zone_free 0 ?s"
    by (simp add: pile_ok_def MAX_ORDER_def pile_pages_def boot_free t)
  then show ?thesis
    using alloc_pages_zone_correct [OF zone_init_ok(1), of 0 boot_state 3] zone_init_ok(1) [of 0 boot_state]
    by (auto simp: boot_free pile_pages_def split: option.splits)
qed

text \<open>
  C2. \<^verbatim>\<open>free_pages\<close> of an allocated pile always returns, keeps the zone well formed (in particular the
  freed pages are merged into maximal piles) and adds exactly the pages of the pile to the free pages.
\<close>

theorem free_pages_correct:
  assumes "zone_ok z s" and "pile_ok s z i k" and "pg_order (p_pool s (z, k)) = i"
    and "pile_pages i k \<inter> zone_free z s = {}"
  shows "\<exists>s'. free_pages s (z, k) = Some s' \<and> zone_ok z s' \<and>
    zone_free z s' = zone_free z s \<union> pile_pages i k"
  using zp.release_law [of z s i k] assms by (auto simp: zone_fits_def zone_tag_def)

theorem free_pages_correct_witness:
  "\<exists>s'. free_pages (mem_zone_init 0 boot_state) (0, 0) = Some s' \<and> zone_ok 0 s' \<and> zone_free 0 s' = {0..<100}"
proof -
  let ?s = "mem_zone_init 0 boot_state"
  have t: "total_pages (mem_zone ?s 0) = 100"
    by (simp add: mem_zone_init_frame boot_state_def)
  have "pg_order (p_pool ?s (0, 0)) = 0"
    by (simp add: mem_zone_init_order boot_state_def consumed_pages_def)
  then have "\<exists>s'. free_pages ?s (0, 0) = Some s' \<and> zone_ok 0 s' \<and> zone_free 0 s' = zone_free 0 ?s \<union> pile_pages 0 0"
    by (intro free_pages_correct zone_init_ok)
      (simp_all add: pile_ok_def MAX_ORDER_def t boot_free pile_pages_def)
  moreover have "{1..<100} \<union> pile_pages 0 0 = {0..<100}"
    by (auto simp: pile_pages_def)
  ultimately show ?thesis by (simp add: boot_free)
qed

text \<open>
  C15. \<^verbatim>\<open>mem_zone_init\<close> makes a well-formed zone from any memory contents: all pages are free except
  those that hold the array of page structures.
\<close>

theorem mem_zone_init_correct:
  "zone_ok z (mem_zone_init z s) \<and>
   zone_free z (mem_zone_init z s) = {consumed_pages (total_pages (mem_zone s z))..<total_pages (mem_zone s z)}"
  by (simp add: zone_init_ok)

text \<open>
  Freeing what was just allocated gives back the same set of free pages, whatever splitting
  and merging went on.
\<close>

lemma alloc_free_roundtrip:
  assumes "zone_ok z s" and "alloc_pages_zone s z order = Some (s', Some pg)"
  shows "\<exists>s''. free_pages s' pg = Some s'' \<and> zone_ok z s'' \<and> zone_free z s'' = zone_free z s"
proof -
  obtain k where pg: "pg = (z, k)"
    using zone_alloc_zone [OF assms] by (cases pg) auto
  then show ?thesis
    using zp.alloc_release_avail [OF assms(1), of order s' k] assms(2) by (simp add: zone_alloc_def)
qed

section \<open>Clients of the page allocator\<close>

text \<open>
  A client of a zone, with the piles it holds (order, first page).  It asks for piles, and frees
  piles it holds; the allocator decides.
\<close>

inductive zone_step :: "nat \<Rightarrow> mm \<times> (nat \<times> nat) set \<Rightarrow> mm \<times> (nat \<times> nat) set \<Rightarrow> bool" for z where
  step_alloc: "alloc_pages_zone s z n = Some (s', Some (z, k)) \<Longrightarrow> zone_step z (s, A) (s', insert (n, k) A)"
| step_refused: "alloc_pages_zone s z n = Some (s', None) \<Longrightarrow> zone_step z (s, A) (s', A)"
| step_free: "(i, k) \<in> A \<Longrightarrow> free_pages s (z, k) = Some s' \<Longrightarrow> zone_step z (s, A) (s', A - {(i, k)})"

inductive zone_run :: "nat \<Rightarrow> mm \<Rightarrow> mm \<times> (nat \<times> nat) set \<Rightarrow> bool" for z s0 where
  run_boot: "zone_run z s0 (mem_zone_init z s0, {})"
| run_step: "zone_run z s0 c \<Longrightarrow> zone_step z c c' \<Longrightarrow> zone_run z s0 c'"

inductive_cases zone_stepE: "zone_step z c c'"

lemma zone_step_accounts:
  assumes "zone_step z c c'" and "zp.accounts z M (fst c) (snd c)"
  shows "zp.accounts z M (fst c') (snd c')"
  using assms(1)
proof (cases rule: zone_step.cases)
  case (step_alloc s n s' k A)
  then have "zone_alloc z s n = Some (s', Some k)" by (simp add: zone_alloc_def)
  then show ?thesis using zp.accounts_alloc [of z M s A n s' k] assms(2) step_alloc by simp
next
  case (step_refused s n s' A)
  then have "zone_alloc z s n = Some (s', None)" by (simp add: zone_alloc_def)
  then show ?thesis using zp.accounts_fail [of z M s A n s'] assms(2) step_refused by simp
next
  case (step_free i k A s s')
  then show ?thesis using zp.accounts_release [of z M s A i k] assms(2) by auto
qed

lemma zone_run_accounts:
  assumes "zone_run z s0 c"
  shows "zp.accounts z (zone_free z (mem_zone_init z s0)) (fst c) (snd c)"
  using assms
proof (induction rule: zone_run.induct)
  case run_boot
  then show ?case by (simp add: zp.accounts_def held_ok_def zone_init_ok(1))
next
  case (run_step c c')
  then show ?case using zone_step_accounts by blast
qed

text \<open>
  C6. Whatever a client allocates and frees after boot: the piles it holds are pairwise disjoint,
  none of their pages is free, and held and free pages together are all the pages the zone manages;
  every held pile can be freed.
\<close>

theorem zone_run_safe:
  assumes "zone_run z s0 (s, A)"
  shows "(\<forall>i k j m. (i, k) \<in> A \<longrightarrow> (j, m) \<in> A \<longrightarrow> (i, k) \<noteq> (j, m) \<longrightarrow> pile_pages i k \<inter> pile_pages j m = {}) \<and>
    piles_of A \<inter> zone_free z s = {} \<and>
    piles_of A \<union> zone_free z s = {consumed_pages (total_pages (mem_zone s0 z))..<total_pages (mem_zone s0 z)} \<and>
    (\<forall>i k. (i, k) \<in> A \<longrightarrow> (\<exists>s'. free_pages s (z, k) = Some s'))"
proof -
  have a: "zp.accounts z (zone_free z (mem_zone_init z s0)) s A"
    using zone_run_accounts [OF assms] by simp
  then have h: "held_ok (zone_tag z s) (zone_free z s) A (zone_free z (mem_zone_init z s0))"
    by (simp add: zp.accounts_def)
  show ?thesis
    using held_ok_disjoint [OF h] held_ok_avail [OF h] held_ok_all [OF h] zp.accounts_release [OF a]
    unfolding zone_init_ok(2) by blast
qed

theorem zone_run_safe_witness:
  "\<exists>s k. zone_run 0 boot_state (s, {(3, k)}) \<and> pile_pages 3 k \<inter> zone_free 0 s = {} \<and>
    (\<exists>s'. free_pages s (0, k) = Some s')"
proof -
  let ?s = "mem_zone_init 0 boot_state"
  have t: "total_pages (mem_zone ?s 0) = 100" by (simp add: mem_zone_init_frame boot_state_def)
  have "pile_ok ?s 0 3 8 \<and> pile_pages 3 8 \<subseteq> zone_free 0 ?s"
    by (simp add: pile_ok_def MAX_ORDER_def pile_pages_def boot_free t)
  then obtain s k where "alloc_pages_zone ?s 0 3 = Some (s, Some (0, k))"
    using zp.alloc_law [OF zone_init_ok(1), of 0 boot_state 3] zone_alloc_zone [OF zone_init_ok(1), of 0 boot_state 3]
    by (fastforce simp: zone_alloc_def zone_fits_def split: option.splits)
  then have "zone_run 0 boot_state (s, {(3, k)})"
    using run_step [OF run_boot step_alloc, of 0 boot_state 3 s k] by simp
  then show ?thesis
    using zone_run_safe [of 0 boot_state s "{(3, k)}"] by auto
qed

end
