(* ===== verification/Bitmap.thy ===== *)
theory Bitmap
  imports Koo_Base
begin

text \<open>
  \<^verbatim>\<open>include/bitmap.h\<close> and \<^verbatim>\<open>kernel/lib/bitmap.c\<close>: bit sets in arrays of 32-bit words.

  The memory of words maps the address of an aligned word to its value; \<^verbatim>\<open>dst[i]\<close> is the word at
  \<open>dst + 4 * i\<close>.  Bit counts are non-negative.  The shift in \<^verbatim>\<open>bitmap_fill\<close> has a negative count; on the
  i386 its low five bits are used.
\<close>

type_synonym words = "u32 \<Rightarrow> u32"

definition BITS_PER_LONG :: nat where
  "BITS_PER_LONG = 32"

definition LONG_MASK :: nat where
  "LONG_MASK = BITS_PER_LONG - 1"

text \<open>\<open>((nbits + 31) & ~31) / 8\<close>\<close>

definition BITMAP_SIZE :: "nat \<Rightarrow> nat" where
  "BITMAP_SIZE nbits = (nbits + LONG_MASK) div BITS_PER_LONG * BITS_PER_LONG div 8"

definition word_at :: "u32 \<Rightarrow> nat \<Rightarrow> u32" where
  "word_at dst i = dst + 4 * of_nat i"

fun zero_words :: "u32 \<Rightarrow> nat \<Rightarrow> words \<Rightarrow> words" where
  "zero_words dst 0 m = m"
| "zero_words dst (Suc n) m = zero_words dst n (m(word_at dst n := 0))"

definition bitmap_zero :: "u32 \<Rightarrow> nat \<Rightarrow> words \<Rightarrow> words" where
  "bitmap_zero dst bits m =
    (let m1 = (if bits div BITS_PER_LONG \<noteq> 0 then zero_words dst (bits div BITS_PER_LONG) m else m)
     in m1(dst := m1 dst AND push_bit (bits mod BITS_PER_LONG) (NOT 0)))"

function bitmap_fill :: "u32 \<Rightarrow> nat \<Rightarrow> words \<Rightarrow> words" where
  "bitmap_fill dst bits m =
    (if bits \<ge> BITS_PER_LONG then bitmap_fill (dst + 4) (bits - BITS_PER_LONG) (m(dst := NOT 0))
     else m(dst := m dst OR shr_i386 (NOT 0) (of_nat bits - of_nat BITS_PER_LONG)))"
  by pat_completeness auto
termination
  by (relation "measure (\<lambda>(dst, bits, m). bits)") (auto simp: BITS_PER_LONG_def)

declare bitmap_fill.simps [simp del]

definition bitmap_bit_set :: "u32 \<Rightarrow> nat \<Rightarrow> words \<Rightarrow> words" where
  "bitmap_bit_set dst b m =
    (let a = word_at dst (b div BITS_PER_LONG) in m(a := m a OR push_bit (b mod BITS_PER_LONG) 1))"

definition bitmap_bit_clear :: "u32 \<Rightarrow> nat \<Rightarrow> words \<Rightarrow> words" where
  "bitmap_bit_clear dst b m =
    (let a = word_at dst (b div BITS_PER_LONG) in m(a := m a AND NOT (push_bit (b mod BITS_PER_LONG) 1)))"

definition bitmap_bit_get :: "u32 \<Rightarrow> nat \<Rightarrow> words \<Rightarrow> u32" where
  "bitmap_bit_get dst b m = m (word_at dst (b div BITS_PER_LONG)) AND push_bit (b mod BITS_PER_LONG) 1"

text \<open>The scans step through the bits of a word and advance the pointer after bit 31.\<close>

function seek_set_loop :: "u32 \<Rightarrow> nat \<Rightarrow> nat \<Rightarrow> nat \<Rightarrow> words \<Rightarrow> nat option" where
  "seek_set_loop dst limit b tmp m =
    (if b < limit then
       (let (dst, tmp) = (if tmp = BITS_PER_LONG then (dst + 4, 0) else (dst, tmp))
        in if m dst AND push_bit tmp 1 \<noteq> 0 then Some b
           else seek_set_loop dst limit (Suc b) (Suc tmp) m)
     else None)"
  by pat_completeness auto
termination
  by (relation "measure (\<lambda>(dst, limit, b, tmp, m). limit - b)") auto

definition bitmap_seek_set :: "u32 \<Rightarrow> nat \<Rightarrow> words \<Rightarrow> nat option" where
  "bitmap_seek_set dst limit m = seek_set_loop dst limit 0 0 m"

function seek_unset_loop :: "u32 \<Rightarrow> nat \<Rightarrow> nat \<Rightarrow> nat \<Rightarrow> words \<Rightarrow> nat option" where
  "seek_unset_loop dst limit b tmp m =
    (if b < limit then
       (let (dst, tmp) = (if tmp = BITS_PER_LONG then (dst + 4, 0) else (dst, tmp))
        in if m dst AND push_bit tmp 1 = 0 then Some b
           else seek_unset_loop dst limit (Suc b) (Suc tmp) m)
     else None)"
  by pat_completeness auto
termination
  by (relation "measure (\<lambda>(dst, limit, b, tmp, m). limit - b)") auto

definition bitmap_seek_unset :: "u32 \<Rightarrow> nat \<Rightarrow> words \<Rightarrow> nat option" where
  "bitmap_seek_unset dst limit m = seek_unset_loop dst limit 0 0 m"

declare seek_set_loop.simps [simp del] seek_unset_loop.simps [simp del]

function bitmap_all_set :: "u32 \<Rightarrow> nat \<Rightarrow> words \<Rightarrow> bool" where
  "bitmap_all_set dst limit m =
    (if limit \<ge> BITS_PER_LONG then
       (if m dst \<noteq> NOT 0 then False else bitmap_all_set (dst + 4) (limit - BITS_PER_LONG) m)
     else limit = 0 \<or> NOT (m dst) AND drop_bit (BITS_PER_LONG - limit) (NOT 0) = 0)"
  by pat_completeness auto
termination
  by (relation "measure (\<lambda>(dst, limit, m). limit)") (auto simp: BITS_PER_LONG_def)

function bitmap_all_unset :: "u32 \<Rightarrow> nat \<Rightarrow> words \<Rightarrow> bool" where
  "bitmap_all_unset dst limit m =
    (if limit \<ge> BITS_PER_LONG then
       (if m dst \<noteq> 0 then False else bitmap_all_unset (dst + 4) (limit - BITS_PER_LONG) m)
     else limit = 0 \<or> m dst AND drop_bit (BITS_PER_LONG - limit) (NOT 0) = 0)"
  by pat_completeness auto
termination
  by (relation "measure (\<lambda>(dst, limit, m). limit)") (auto simp: BITS_PER_LONG_def)

declare bitmap_all_set.simps [simp del] bitmap_all_unset.simps [simp del]

section \<open>The bits of a bitmap\<close>

definition bm :: "u32 \<Rightarrow> words \<Rightarrow> nat \<Rightarrow> bool" where
  "bm dst m b \<longleftrightarrow> bit (m (word_at dst (b div BITS_PER_LONG))) (b mod BITS_PER_LONG)"

lemma word_at_0 [simp]: "word_at dst 0 = dst"
  by (simp add: word_at_def)

lemma word_at_Suc: "word_at (dst + 4) i = word_at dst (Suc i)"
  by (simp add: word_at_def algebra_simps)

lemma word_at_eq_iff:
  assumes "i < 2 ^ 30" and "j < 2 ^ 30"
  shows "word_at dst i = word_at dst j \<longleftrightarrow> i = j"
proof -
  have u: "unat (4 * of_nat k :: u32) = 4 * k" if "k < 2 ^ 30" for k
    using that by (simp add: unat_word_ariths unat_of_nat)
  have "i = j" if "word_at dst i = word_at dst j"
  proof -
    have "4 * of_nat i = (4 * of_nat j :: u32)" using that by (simp add: word_at_def)
    then have "4 * i = 4 * j" using u [OF assms(1)] u [OF assms(2)] by metis
    then show ?thesis by simp
  qed
  then show ?thesis by blast
qed

lemma and_pow_zero: "(x :: u32) AND push_bit b 1 = 0 \<longleftrightarrow> \<not> bit x b"
  by (simp add: and_exp_eq_0_iff_not_bit)

lemma bm_shift: "bm (dst + 4) m b = bm dst m (b + BITS_PER_LONG)"
  by (simp add: bm_def word_at_Suc BITS_PER_LONG_def div_add_self2)

lemma bitmap_bit_get_spec: "bitmap_bit_get dst b m \<noteq> 0 \<longleftrightarrow> bm dst m b"
  unfolding bitmap_bit_get_def bm_def and_pow_zero by simp

lemma bm_update:
  assumes "b < 2 ^ 30" and "c < 2 ^ 30"
  shows "bm dst (m(word_at dst (b div BITS_PER_LONG) := w)) c =
    (if c div BITS_PER_LONG = b div BITS_PER_LONG then bit w (c mod BITS_PER_LONG) else bm dst m c)"
proof -
  have "b div BITS_PER_LONG < 2 ^ 30" "c div BITS_PER_LONG < 2 ^ 30"
    using assms by (simp_all add: BITS_PER_LONG_def)
  then show ?thesis by (simp add: bm_def word_at_eq_iff)
qed

lemma bm_update_first: "c < 2 ^ 30 \<Longrightarrow> bm dst (m(dst := w)) c = (if c < 32 then bit w c else bm dst m c)"
  using bm_update [of 0 c dst m w] by (auto simp: BITS_PER_LONG_def div_eq_0_iff)

lemma bm_set:
  assumes "b < 2 ^ 30" and "c < 2 ^ 30"
  shows "bm dst (bitmap_bit_set dst b m) c \<longleftrightarrow> c = b \<or> bm dst m c"
proof -
  have "c = b \<longleftrightarrow> c div BITS_PER_LONG = b div BITS_PER_LONG \<and> c mod BITS_PER_LONG = b mod BITS_PER_LONG"
    by (metis div_mult_mod_eq)
  then show ?thesis
    unfolding bitmap_bit_set_def Let_def bm_update [OF assms]
    by (auto simp: bm_def bit_simps BITS_PER_LONG_def)
qed

lemma bm_clear:
  assumes "b < 2 ^ 30" and "c < 2 ^ 30"
  shows "bm dst (bitmap_bit_clear dst b m) c \<longleftrightarrow> c \<noteq> b \<and> bm dst m c"
proof -
  have "c = b \<longleftrightarrow> c div BITS_PER_LONG = b div BITS_PER_LONG \<and> c mod BITS_PER_LONG = b mod BITS_PER_LONG"
    by (metis div_mult_mod_eq)
  then show ?thesis
    unfolding bitmap_bit_clear_def Let_def bm_update [OF assms]
    by (auto simp: bm_def bit_simps BITS_PER_LONG_def)
qed

section \<open>Scans\<close>

text \<open>The scan position: the pointer and the bit inside its word are those of bit \<open>b\<close>.\<close>

definition scan_at :: "u32 \<Rightarrow> nat \<Rightarrow> u32 \<Rightarrow> nat \<Rightarrow> bool" where
  "scan_at dst b d tmp \<longleftrightarrow>
    (tmp = BITS_PER_LONG \<and> b mod BITS_PER_LONG = 0 \<and> d + 4 = word_at dst (b div BITS_PER_LONG)) \<or>
    (tmp < BITS_PER_LONG \<and> tmp = b mod BITS_PER_LONG \<and> d = word_at dst (b div BITS_PER_LONG))"

lemma scan_at_start: "scan_at dst 0 dst 0"
  by (simp add: scan_at_def BITS_PER_LONG_def)

lemma scan_at_step:
  assumes "scan_at dst b d tmp"
  obtains d' t where "(if tmp = BITS_PER_LONG then (d + 4, 0) else (d, tmp)) = (d', t)"
    and "d' = word_at dst (b div BITS_PER_LONG)" and "t = b mod BITS_PER_LONG" and "scan_at dst (Suc b) d' (Suc t)"
proof -
  have nx: "scan_at dst (Suc b) (word_at dst (b div BITS_PER_LONG)) (Suc (b mod BITS_PER_LONG))"
  proof (cases "Suc (b mod BITS_PER_LONG) = BITS_PER_LONG")
    case True
    then have "Suc b mod BITS_PER_LONG = 0" "Suc b div BITS_PER_LONG = Suc (b div BITS_PER_LONG)"
      by (simp_all add: mod_Suc div_Suc)
    then show ?thesis using True by (simp add: scan_at_def word_at_def algebra_simps)
  next
    case False
    then have "Suc b mod BITS_PER_LONG = Suc (b mod BITS_PER_LONG)" "Suc b div BITS_PER_LONG = b div BITS_PER_LONG"
      by (simp_all add: mod_Suc div_Suc)
    moreover have "b mod BITS_PER_LONG < BITS_PER_LONG" by (simp add: BITS_PER_LONG_def)
    ultimately show ?thesis using False by (simp add: scan_at_def)
  qed
  show ?thesis
    using that [of "word_at dst (b div BITS_PER_LONG)" "b mod BITS_PER_LONG"] nx assms by (auto simp: scan_at_def)
qed

definition first_from :: "(nat \<Rightarrow> bool) \<Rightarrow> nat \<Rightarrow> nat \<Rightarrow> nat option \<Rightarrow> bool" where
  "first_from f b limit r \<longleftrightarrow> (case r of
      None \<Rightarrow> \<forall>c. b \<le> c \<and> c < limit \<longrightarrow> \<not> f c
    | Some c \<Rightarrow> b \<le> c \<and> c < limit \<and> f c \<and> (\<forall>e. b \<le> e \<and> e < c \<longrightarrow> \<not> f e))"

lemma first_from_step: "\<not> f b \<Longrightarrow> first_from f (Suc b) limit r \<Longrightarrow> first_from f b limit r"
  by (auto simp: first_from_def Suc_le_eq split: option.splits) (metis le_neq_implies_less)+

lemma seek_set_loop_spec:
  "scan_at dst b d tmp \<Longrightarrow> first_from (bm dst m) b limit (seek_set_loop d limit b tmp m)"
proof (induction "limit - b" arbitrary: b d tmp)
  case 0
  then show ?case by (auto simp: seek_set_loop.simps first_from_def)
next
  case (Suc n)
  obtain d' t where st: "(if tmp = BITS_PER_LONG then (d + 4, 0) else (d, tmp)) = (d', t)"
      "d' = word_at dst (b div BITS_PER_LONG)" "t = b mod BITS_PER_LONG" "scan_at dst (Suc b) d' (Suc t)"
    using scan_at_step [OF Suc.prems] by metis
  have b: "b < limit" using Suc.hyps(2) by simp
  have e: "seek_set_loop d limit b tmp m = (if bm dst m b then Some b else seek_set_loop d' limit (Suc b) (Suc t) m)"
    using b by (subst seek_set_loop.simps) (simp add: st(1) bm_def st(2,3) [symmetric] and_pow_zero del: push_bit_of_1)
  show ?case
  proof (cases "bm dst m b")
    case True
    then show ?thesis using e b by (auto simp: first_from_def)
  next
    case False
    then show ?thesis using e Suc.hyps(1) [OF _ st(4)] Suc.hyps(2) first_from_step by simp
  qed
qed

lemma seek_unset_loop_spec:
  "scan_at dst b d tmp \<Longrightarrow> first_from (\<lambda>c. \<not> bm dst m c) b limit (seek_unset_loop d limit b tmp m)"
proof (induction "limit - b" arbitrary: b d tmp)
  case 0
  then show ?case by (auto simp: seek_unset_loop.simps first_from_def)
next
  case (Suc n)
  obtain d' t where st: "(if tmp = BITS_PER_LONG then (d + 4, 0) else (d, tmp)) = (d', t)"
      "d' = word_at dst (b div BITS_PER_LONG)" "t = b mod BITS_PER_LONG" "scan_at dst (Suc b) d' (Suc t)"
    using scan_at_step [OF Suc.prems] by metis
  have b: "b < limit" using Suc.hyps(2) by simp
  have e: "seek_unset_loop d limit b tmp m = (if \<not> bm dst m b then Some b else seek_unset_loop d' limit (Suc b) (Suc t) m)"
    using b by (subst seek_unset_loop.simps) (simp add: st(1) bm_def st(2,3) [symmetric] and_pow_zero del: push_bit_of_1)
  show ?case
  proof (cases "bm dst m b")
    case False
    then show ?thesis using e b by (auto simp: first_from_def)
  next
    case True
    then show ?thesis using e Suc.hyps(1) [OF _ st(4)] Suc.hyps(2) first_from_step [of "\<lambda>c. \<not> bm dst m c"] by simp
  qed
qed

lemma word_all_ones: "w = NOT 0 \<longleftrightarrow> (\<forall>b<32. bit w b)" for w :: u32
  by (auto simp: bit_eq_iff bit_simps)

lemma bitmap_all_set_spec: "bitmap_all_set dst limit m \<longleftrightarrow> (\<forall>b<limit. bm dst m b)"
proof (induction dst limit m rule: bitmap_all_set.induct)
  case (1 dst limit m)
  show ?case
  proof (cases "limit \<ge> BITS_PER_LONG")
    case True
    have "(\<forall>b<limit. bm dst m b) \<longleftrightarrow> (\<forall>b<32. bm dst m b) \<and> (\<forall>b<limit - 32. bm dst m (b + 32))"
      using True by (auto simp: BITS_PER_LONG_def) (metis add.commute le_add_diff_inverse less_diff_conv2 not_less)
    moreover have "(\<forall>b<32. bm dst m b) \<longleftrightarrow> m dst = NOT 0"
      unfolding word_all_ones by (simp add: bm_def BITS_PER_LONG_def)
    ultimately show ?thesis
      using True 1 by (simp add: bitmap_all_set.simps [of dst limit] bm_shift) (simp add: BITS_PER_LONG_def)
  next
    case False
    have "NOT (m dst) AND drop_bit (32 - limit) (NOT 0) = 0 \<longleftrightarrow> (\<forall>b<limit. bit (m dst) b)"
      using False by (auto simp: bit_eq_iff bit_simps BITS_PER_LONG_def) (meson less_trans not_le)
    then show ?thesis
      using False by (subst bitmap_all_set.simps) (auto simp: bm_def BITS_PER_LONG_def)
  qed
qed

lemma bitmap_all_unset_spec: "bitmap_all_unset dst limit m \<longleftrightarrow> (\<forall>b<limit. \<not> bm dst m b)"
proof (induction dst limit m rule: bitmap_all_unset.induct)
  case (1 dst limit m)
  show ?case
  proof (cases "limit \<ge> BITS_PER_LONG")
    case True
    have "(\<forall>b<limit. \<not> bm dst m b) \<longleftrightarrow> (\<forall>b<32. \<not> bm dst m b) \<and> (\<forall>b<limit - 32. \<not> bm dst m (b + 32))"
      using True by (auto simp: BITS_PER_LONG_def) (metis add.commute le_add_diff_inverse less_diff_conv2 not_less)
    moreover have "(\<forall>b<32. \<not> bm dst m b) \<longleftrightarrow> m dst = 0"
      by (auto simp: bit_eq_iff bm_def BITS_PER_LONG_def)
    ultimately show ?thesis
      using True 1 by (simp add: bitmap_all_unset.simps [of dst limit] bm_shift) (simp add: BITS_PER_LONG_def)
  next
    case False
    have "m dst AND drop_bit (32 - limit) (NOT 0) = 0 \<longleftrightarrow> (\<forall>b<limit. \<not> bit (m dst) b)"
      using False by (auto simp: bit_eq_iff bit_simps BITS_PER_LONG_def) (meson less_trans not_le)
    then show ?thesis
      using False by (subst bitmap_all_unset.simps) (auto simp: bm_def BITS_PER_LONG_def)
  qed
qed

section \<open>Filling and clearing a prefix\<close>

lemma zero_words_spec: "zero_words dst n m a = (if a \<in> word_at dst ` {..<n} then 0 else m a)"
proof (induction n arbitrary: m)
  case (Suc n)
  show ?case unfolding zero_words.simps Suc.IH by (auto simp: lessThan_Suc)
qed simp

text \<open>What \<^verbatim>\<open>bitmap_zero\<close> clears: from 32 bits on, whole words only.\<close>

definition zeroed :: "nat \<Rightarrow> nat" where
  "zeroed bits = (if bits < 32 then bits else bits div 32 * 32)"

lemma bm_zero:
  assumes "bits < 2 ^ 30" and "c < 2 ^ 30"
  shows "bm dst (bitmap_zero dst bits m) c \<longleftrightarrow> zeroed bits \<le> c \<and> bm dst m c"
proof (cases "bits < 32")
  case True
  then have e: "bitmap_zero dst bits m = m(dst := m dst AND push_bit bits (NOT 0))"
    by (simp add: bitmap_zero_def BITS_PER_LONG_def Let_def)
  show ?thesis
    unfolding e bm_update_first [OF assms(2)] using True
    by (auto simp: zeroed_def bm_def bit_simps BITS_PER_LONG_def)
next
  case False
  let ?n = "bits div 32"
  have n: "0 < ?n" "?n < 2 ^ 30" using False assms(1) by (simp_all add: div_greater_zero_iff)
  have "word_at dst (c div 32) \<in> word_at dst ` {..<?n} \<longleftrightarrow> c div 32 < ?n"
    using n(2) assms(2) by (auto simp: word_at_eq_iff)
  moreover have "dst \<in> word_at dst ` {..<?n}"
    using n(1) by (intro image_eqI [of _ _ 0]) simp_all
  ultimately have "bm dst (bitmap_zero dst bits m) c \<longleftrightarrow> \<not> c div 32 < ?n \<and> bm dst m c"
    using n(1) by (auto simp: bm_def bitmap_zero_def BITS_PER_LONG_def Let_def zero_words_spec)
  moreover have "\<not> c div 32 < ?n \<longleftrightarrow> ?n * 32 \<le> c"
    by (simp add: not_less less_eq_div_iff_mult_less_eq)
  ultimately show ?thesis using False by (simp add: zeroed_def)
qed

text \<open>What \<^verbatim>\<open>bitmap_fill\<close> sets: the complement of the bits left over in the last word.\<close>

definition filled :: "nat \<Rightarrow> nat" where
  "filled bits = bits div 32 * 32 + (32 - bits mod 32)"

lemma bitmap_fill_spec:
  "bits < 2 ^ 30 \<Longrightarrow> bitmap_fill dst bits m a =
    (if a \<in> word_at dst ` {..<bits div 32} then NOT 0
     else if a = word_at dst (bits div 32) then m a OR drop_bit (bits mod 32) (NOT 0) else m a)"
proof (induction dst bits m rule: bitmap_fill.induct)
  case (1 dst bits m)
  show ?case
  proof (cases "bits \<ge> BITS_PER_LONG")
    case True
    then obtain c where c: "bits = c + 32" by (metis BITS_PER_LONG_def add.commute le_Suc_ex)
    then have d: "bits div 32 = Suc (c div 32)" "bits mod 32 = c mod 32" "c < 2 ^ 30"
      using "1.prems" by simp_all
    have "dst \<noteq> word_at dst (Suc (c div 32))"
      using word_at_eq_iff [of 0 "Suc (c div 32)" dst] d(3) by simp
    moreover have "word_at dst ` {..<Suc (c div 32)} = insert dst (word_at (dst + 4) ` {..<c div 32})"
      unfolding lessThan_Suc_eq_insert_0 by (auto simp: word_at_Suc image_image)
    moreover have "bitmap_fill dst bits m = bitmap_fill (dst + 4) c (m(dst := NOT 0))"
      using True c by (subst bitmap_fill.simps) (simp add: BITS_PER_LONG_def)
    moreover have "bitmap_fill (dst + 4) c (m(dst := NOT 0)) a =
        (if a \<in> word_at (dst + 4) ` {..<c div 32} then NOT 0
         else if a = word_at (dst + 4) (c div 32)
         then (m(dst := NOT 0)) a OR drop_bit (c mod 32) (NOT 0) else (m(dst := NOT 0)) a)"
      using "1.IH" [OF True] d(3) unfolding c BITS_PER_LONG_def add_diff_cancel_right' .
    ultimately show ?thesis
      using d by (auto simp: word_at_Suc)
  next
    case False
    have "unat (of_nat bits - of_nat BITS_PER_LONG :: u32) mod 32 = bits"
    proof -
      have eq: "of_nat bits - of_nat BITS_PER_LONG = (of_nat (2 ^ 32 - 32 + bits) :: u32)"
        by (simp add: BITS_PER_LONG_def)
      have "unat (of_nat bits - of_nat BITS_PER_LONG :: u32) = 2 ^ 32 - 32 + bits"
        unfolding eq using False by (intro unat_of_nat32) (simp add: BITS_PER_LONG_def)
      moreover have "(2 ^ 32 - 32 + bits) mod 32 = bits"
        using False mod_mult_self3 [of 134217727 32 bits] by (simp add: BITS_PER_LONG_def)
      ultimately show ?thesis by simp
    qed
    then show ?thesis
      using False by (subst bitmap_fill.simps) (auto simp: shr_i386_def BITS_PER_LONG_def)
  qed
qed

lemma bm_fill:
  assumes "bits < 2 ^ 30" and "c < 2 ^ 30"
  shows "bm dst (bitmap_fill dst bits m) c \<longleftrightarrow> c < filled bits \<or> bm dst m c"
proof -
  have i: "word_at dst (c div 32) \<in> word_at dst ` {..<bits div 32} \<longleftrightarrow> c div 32 < bits div 32"
    "word_at dst (c div 32) = word_at dst (bits div 32) \<longleftrightarrow> c div 32 = bits div 32"
    using assms by (auto simp: word_at_eq_iff)
  have f: "c < filled bits \<longleftrightarrow> c div 32 < bits div 32 \<or> c div 32 = bits div 32 \<and> c mod 32 < 32 - bits mod 32"
  proof -
    have "cq * 32 + cr < q * 32 + (32 - r) \<longleftrightarrow> cq < q \<or> cq = q \<and> cr < 32 - r" if "cr < 32" "r < 32" for cq cr q r :: nat
      using that by arith
    from this [of "c mod 32" "bits mod 32" "c div 32" "bits div 32"] show ?thesis by (simp add: filled_def)
  qed
  show ?thesis
    unfolding f using i by (auto simp: bm_def BITS_PER_LONG_def bitmap_fill_spec [OF assms(1)] bit_simps)
qed

section \<open>Properties of bitmaps\<close>

text \<open>
  C32. \<^verbatim>\<open>bitmap_seek_unset\<close> returns the least clear bit below the limit, and fails only when all are
  set, which is what \<^verbatim>\<open>bitmap_all_set\<close> tests; setting the bit found changes no other bit.
\<close>

theorem bitmap_seek_unset_correct:
  assumes "limit < 2 ^ 30" and "c < 2 ^ 30"
  shows "case bitmap_seek_unset dst limit m of
      None \<Rightarrow> bitmap_all_set dst limit m
    | Some b \<Rightarrow> b < limit \<and> bitmap_bit_get dst b m = 0 \<and> (\<forall>e<b. bitmap_bit_get dst e m \<noteq> 0) \<and>
        (bitmap_bit_get dst c (bitmap_bit_set dst b m) \<noteq> 0 \<longleftrightarrow> c = b \<or> bitmap_bit_get dst c m \<noteq> 0)"
proof -
  have "first_from (\<lambda>c. \<not> bm dst m c) 0 limit (bitmap_seek_unset dst limit m)"
    unfolding bitmap_seek_unset_def by (rule seek_unset_loop_spec [OF scan_at_start])
  moreover have z: "bitmap_bit_get dst b m' = 0 \<longleftrightarrow> \<not> bm dst m' b" for b m'
    using bitmap_bit_get_spec [of dst b m'] by blast
  ultimately show ?thesis
    using assms bm_set [of _ c dst m]
    by (auto simp: first_from_def bitmap_all_set_spec z split: option.splits)
qed

theorem bitmap_seek_unset_correct_witness:
  "case bitmap_seek_unset 0 40 (\<lambda>a. if a = 0 then NOT 0 else 1) of
      None \<Rightarrow> bitmap_all_set 0 40 (\<lambda>a. if a = 0 then NOT 0 else 1)
    | Some b \<Rightarrow> b < 40 \<and> bitmap_bit_get 0 b (\<lambda>a. if a = 0 then NOT 0 else 1) = 0"
  using bitmap_seek_unset_correct [of 40 0 0 "\<lambda>a. if a = 0 then NOT 0 else 1"] by (auto split: option.splits)

text \<open>
  \<^verbatim>\<open>bitmap_fill(dst, bits)\<close> followed by \<^verbatim>\<open>bitmap_zero(dst, n)\<close>: a bit is set exactly if it lies
  in the filled prefix or was set before, and is not in the cleared prefix.  The filled prefix ends
  \<open>32 - bits mod 32\<close> (not \<open>bits mod 32\<close>) bits into the last word, and from 32 bits on the cleared prefix
  is rounded down to whole words.
\<close>

lemma bitmap_fill_zero:
  assumes "bits < 2 ^ 30" and "n < 2 ^ 30" and "c < 2 ^ 30"
  shows "bitmap_bit_get dst c (bitmap_zero dst n (bitmap_fill dst bits m)) \<noteq> 0 \<longleftrightarrow>
    \<not> c < (if n < 32 then n else n div 32 * 32) \<and>
    (c < bits div 32 * 32 + (32 - bits mod 32) \<or> bitmap_bit_get dst c m \<noteq> 0)"
  unfolding bitmap_bit_get_spec bm_zero [OF assms(2,3)] bm_fill [OF assms(1,3)]
  by (auto simp: zeroed_def filled_def)

end
