(* ===== verification/Slice.thy ===== *)
theory Slice
  imports Page_Pool Bitmap
begin

text \<open>
  \<^verbatim>\<open>kernel/slice.c\<close>, \<^verbatim>\<open>include/slice.h\<close>: pools of equal-size objects cut from single pages, with a
  bitmap of used objects at the end of each page.

  A pool is known by the address of its \<^verbatim>\<open>struct slice_pool\<close>.  Its two page lists are rings of the
  page-list heap of \<^verbatim>\<open>Page_Alloc\<close>; the bitmaps live in the word memory.  \<^verbatim>\<open>slice_pool_info\<close> and
  \<^verbatim>\<open>slice_page_info\<close> only print.
\<close>

section \<open>Data\<close>

record slice_pool =
  obj_size :: nat
  sp_flags :: u32

datatype slice_node = Swamp | SliceList u32

record slab =
  kmm :: mm
  wmem :: words
  pools :: "u32 \<Rightarrow> slice_pool"
  swamp :: "slice_node klist0_node"

definition set_lists :: "list_node klist0_node \<Rightarrow> slab \<Rightarrow> slab" where
  "set_lists h s = s\<lparr>kmm := (kmm s)\<lparr>lists := h\<rparr>\<rparr>"

section \<open>Operations\<close>

definition slice_init :: "slab \<Rightarrow> slab" where
  "slice_init s = s\<lparr>swamp := KLIST0_INIT Swamp (swamp s)\<rparr>"

definition slice_pool_create :: "slab \<Rightarrow> u32 \<Rightarrow> nat \<Rightarrow> (slab \<times> u32 option) option" where
  "slice_pool_create s flags osz = do {
     _ \<leftarrow> bug_on (osz > PAGE_SIZE div 2 - 4);
     (m1, pg) \<leftarrow> get_pages (kmm s) flags 0;
     if pg = 0 then Some (s\<lparr>kmm := m1\<rparr>, None)
     else
       let h = KLIST0_INIT (PagesActive pg) (KLIST0_INIT (PagesInactive pg) (lists m1));
           w = klist0_append (SliceList pg) Swamp (KLIST0_INIT (SliceList pg) (swamp s))
       in Some (s\<lparr>kmm := m1\<lparr>lists := h\<rparr>,
                  pools := (pools s)(pg := \<lparr>obj_size = osz, sp_flags = flags\<rparr>),
                  swamp := w\<rparr>, Some pg)
   }"

definition bmask_at :: "u32 \<Rightarrow> nat \<Rightarrow> u32" where
  "bmask_at pg_addr nobjs = pg_addr + of_nat PAGE_SIZE - of_nat (BITMAP_SIZE nobjs)"

text \<open>The objects left when the bitmap does not fit into the gap at the end of the page.\<close>

definition usable :: "nat \<Rightarrow> nat \<Rightarrow> nat" where
  "usable nobjs osz =
    (let bitmap_size = BITMAP_SIZE nobjs
     in if bitmap_size > PAGE_SIZE - nobjs * osz then
          (let consumed_bytes = bitmap_size - (PAGE_SIZE - nobjs * osz)
           in nobjs - (consumed_bytes div osz + (if consumed_bytes mod osz \<noteq> 0 then 1 else 0)))
        else nobjs)"

definition new_bitmap :: "u32 \<Rightarrow> nat \<Rightarrow> nat \<Rightarrow> words \<Rightarrow> words" where
  "new_bitmap bmask nobjs n m =
    bitmap_bit_set bmask (n - 1) (bitmap_zero bmask n (bitmap_fill bmask nobjs m))"

definition slice_alloc :: "slab \<Rightarrow> u32 \<Rightarrow> (slab \<times> u32 option) option" where
  "slice_alloc s pool = do {
     let osz = obj_size (pools s pool);
     _ \<leftarrow> bug_on (osz = 0);
     let nobjs = PAGE_SIZE div osz;
     if klist0_empty (PagesActive pool) (lists (kmm s)) then do {
       (m1, p) \<leftarrow> alloc_pages (kmm s) 0 0;
       (case p of
          None \<Rightarrow> Some (s\<lparr>kmm := m1\<rparr>, None)
        | Some pg \<Rightarrow>
            let pg_addr = page_to_addr m1 pg;
                n = usable nobjs osz;
                w = new_bitmap (bmask_at pg_addr nobjs) nobjs n (wmem s);
                h = klist0_append (PgList pg) (PagesActive pool) (lists m1)
            in Some (s\<lparr>kmm := m1\<lparr>lists := h\<rparr>, wmem := w\<rparr>, Some (pg_addr + of_nat ((n - 1) * osz))))
     }
     else (case next (lists (kmm s)) (PagesActive pool) of
         PgList pg \<Rightarrow>
           let pg_addr = page_to_addr (kmm s) pg;
               bmask = bmask_at pg_addr nobjs
           in (case bitmap_seek_unset bmask nobjs (wmem s) of
                 None \<Rightarrow> bug
               | Some number \<Rightarrow>
                   let w = bitmap_bit_set bmask number (wmem s);
                       h = lists (kmm s);
                       h' = (if bitmap_all_set bmask nobjs w
                             then klist0_append (PgList pg) (PagesInactive pool) (klist0_unlink (PgList pg) h)
                             else h)
                   in Some (set_lists h' (s\<lparr>wmem := w\<rparr>), Some (pg_addr + of_nat (number * osz))))
       | _ \<Rightarrow> None)
   }"

partial_function (option) find_page_from :: "mm \<Rightarrow> list_node \<Rightarrow> u32 \<Rightarrow> list_node \<Rightarrow> pageptr option option" where
  "find_page_from m l pg_addr tmp =
    (if tmp = l then Some None
     else (case tmp of
             PgList pg \<Rightarrow>
               if page_to_addr m pg = pg_addr then Some (Some pg)
               else find_page_from m l pg_addr (next (lists m) tmp)
           | _ \<Rightarrow> None))"

definition find_page :: "mm \<Rightarrow> list_node \<Rightarrow> u32 \<Rightarrow> pageptr option option" where
  "find_page m l pg_addr = find_page_from m l pg_addr (next (lists m) l)"

definition slice_free :: "slab \<Rightarrow> u32 \<Rightarrow> u32 \<Rightarrow> slab option" where
  "slice_free s sl pool = do {
     let osz = obj_size (pools s pool);
     _ \<leftarrow> bug_on (osz = 0);
     let nobjs = PAGE_SIZE div osz;
     let pg_addr = sl AND NOPAGE_MASK;
     let idx = unat (sl - pg_addr) div osz;
     let w = bitmap_bit_clear (bmask_at pg_addr nobjs) idx (wmem s);
     p \<leftarrow> find_page (kmm s) (PagesInactive pool) pg_addr;
     (case p of
        Some pg \<Rightarrow>
          Some (set_lists (klist0_append (PgList pg) (PagesActive pool)
                             (klist0_unlink (PgList pg) (lists (kmm s)))) (s\<lparr>wmem := w\<rparr>))
      | None \<Rightarrow> do {
          q \<leftarrow> find_page (kmm s) (PagesActive pool) pg_addr;
          (case q of Some pg \<Rightarrow> Some (s\<lparr>wmem := w\<rparr>) | None \<Rightarrow> bug)
        })
   }"

partial_function (option) shrink_from :: "slab \<Rightarrow> u32 \<Rightarrow> list_node \<Rightarrow> slab option" where
  "shrink_from s pool t =
    (if t = PagesActive pool then Some s
     else (case t of
             PgList pg \<Rightarrow>
               (let osz = obj_size (pools s pool);
                    nobjs = PAGE_SIZE div osz;
                    bmask = bmask_at (page_to_addr (kmm s) pg) nobjs;
                    t' = next (lists (kmm s)) t
                in if bitmap_all_unset bmask (usable nobjs osz) (wmem s)
                   then do {
                     m1 \<leftarrow> free_pages ((kmm s)\<lparr>lists := klist0_unlink t (lists (kmm s))\<rparr>) pg;
                     shrink_from (s\<lparr>kmm := m1\<rparr>) pool t'
                   }
                   else shrink_from s pool t')
           | _ \<Rightarrow> None))"

definition slice_pool_shrink :: "slab \<Rightarrow> u32 \<Rightarrow> slab option" where
  "slice_pool_shrink s pool = do {
     _ \<leftarrow> bug_on (obj_size (pools s pool) = 0);
     shrink_from s pool (next (lists (kmm s)) (PagesActive pool))
   }"

definition slice_pool_recycle :: "slab \<Rightarrow> u32 \<Rightarrow> slab option" where
  "slice_pool_recycle s pool = do {
     _ \<leftarrow> bug_on (\<not> klist0_empty (PagesInactive pool) (lists (kmm s)));
     s1 \<leftarrow> slice_pool_shrink s pool;
     _ \<leftarrow> bug_on (\<not> klist0_empty (PagesActive pool) (lists (kmm s1)));
     m \<leftarrow> put_pages (kmm s1) pool;
     Some (s1\<lparr>kmm := m\<rparr>)
   }"

end
