(* ===== verification/Slice_Props.thy ===== *)
theory Slice_Props
  imports Slice
begin

text \<open>
  The invariant of the slice pools and the correctness of \<^verbatim>\<open>slice_alloc\<close> and \<^verbatim>\<open>slice_free\<close>.
\<close>

section \<open>Lists outside the zone levels\<close>

text \<open>Changing lists that are no level of the zone.\<close>

definition same_levels :: "nat \<Rightarrow> (list_node \<Rightarrow> list_node list) \<Rightarrow> (list_node \<Rightarrow> list_node list) \<Rightarrow> bool" where
  "same_levels z L L' \<longleftrightarrow> (\<forall>i<MAX_ORDER. L' (Level z i) = L (Level z i))"

lemma piles_same: "same_levels z L L' \<Longrightarrow> piles L' z = piles L z"
  unfolding piles_def same_levels_def by auto

lemma free_set_same: "same_levels z L L' \<Longrightarrow> free_set L' z = free_set L z"
  by (simp add: free_set_def piles_same)

lemma zone_inv_same:
  assumes inv: "zone_inv s H L z" and sl: "same_levels z L L'" and h: "klists h H L'"
    and len: "lent H L' z \<inter> free_set L z = {}"
  shows "zone_inv (s\<lparr>lists := h\<rparr>) H L' z"
proof -
  have "members_ok (s\<lparr>lists := h\<rparr>) L' z"
    using zone_inv_members [OF inv] sl by (simp add: members_ok_def same_levels_def)
  then show ?thesis
    using inv h len unfolding zone_inv_def zone_pages_ok_def piles_ok_def piles_disjoint_def no_buddies_def pile_ok_def
    by (simp add: piles_same [OF sl] free_set_same [OF sl])
qed

lemma zone_inv_grow:
  assumes inv: "zone_inv s H L z" and sl: "same_levels z L L'" and h: "klists h H' L'" and sub: "H \<subseteq> H'"
    and pg: "\<And>a b. PgList (a, b) \<notin> H'" and len: "lent H' L' z \<inter> free_set L z = {}"
  shows "zone_inv (s\<lparr>lists := h\<rparr>) H' L' z"
proof -
  have "members_ok (s\<lparr>lists := h\<rparr>) L' z"
    using zone_inv_members [OF inv] sl by (simp add: members_ok_def same_levels_def)
  moreover have "levels z \<subseteq> H'" using zone_inv_levels [OF inv] sub by blast
  ultimately show ?thesis
    using inv h len pg unfolding zone_inv_def zone_pages_ok_def piles_ok_def piles_disjoint_def no_buddies_def pile_ok_def
    by (simp add: piles_same [OF sl] free_set_same [OF sl])
qed

section \<open>Addresses of pages and of their bitmaps\<close>

definition zone_geom :: "mm \<Rightarrow> bool" where
  "zone_geom m \<longleftrightarrow> unat (base (mem_zone m 0)) mod PAGE_SIZE = 0 \<and>
     unat (base (mem_zone m 0)) + total_pages (mem_zone m 0) * PAGE_SIZE < 2 ^ 32"

definition page_base :: "mm \<Rightarrow> nat \<Rightarrow> nat" where
  "page_base m k = unat (base (mem_zone m 0)) + k * PAGE_SIZE"

lemma page_addr:
  assumes "zone_geom m" and "zone_pages_ok m 0" and "k < total_pages (mem_zone m 0)"
  shows "page_to_addr m (0, k) = of_nat (page_base m k)" and "unat (page_to_addr m (0, k)) = page_base m k"
    and "page_base m k + PAGE_SIZE < 2 ^ 32"
proof -
  show e: "page_to_addr m (0, k) = of_nat (page_base m k)"
    using assms(2,3) by (simp add: page_to_addr_def zone_pages_ok_def page_base_def)
  have "Suc k \<le> total_pages (mem_zone m 0)" using assms(3) by simp
  then have "Suc k * PAGE_SIZE \<le> total_pages (mem_zone m 0) * PAGE_SIZE" by (rule mult_le_mono1)
  then show b: "page_base m k + PAGE_SIZE < 2 ^ 32"
    using assms(1) unfolding zone_geom_def page_base_def by simp
  show "unat (page_to_addr m (0, k)) = page_base m k"
    unfolding e using b by (intro unat_of_nat32) simp
qed

lemma page_base_mod: "zone_geom m \<Longrightarrow> page_base m k mod PAGE_SIZE = 0"
  by (simp add: zone_geom_def page_base_def)

lemma page_base_inj: "page_base m j = page_base m k \<longleftrightarrow> j = k"
  by (simp add: page_base_def PAGE_SIZE_def)

lemma BITMAP_SIZE_eq: "BITMAP_SIZE n = (n + 31) div 32 * 4"
  by (simp add: BITMAP_SIZE_def BITS_PER_LONG_def LONG_MASK_def)

lemma BITMAP_SIZE_le: "n \<le> 4096 \<Longrightarrow> BITMAP_SIZE n \<le> 512"
proof -
  assume "n \<le> 4096"
  then have "(n + 31) div 32 \<le> 4127 div 32" by (intro div_le_mono) simp
  then show ?thesis by (simp add: BITMAP_SIZE_eq)
qed

lemma bmask_word:
  assumes "A + PAGE_SIZE < 2 ^ 32" and "n \<le> 4096" and "i \<le> (n + 31) div 32"
  shows "unat (word_at (bmask_at (of_nat A) n) i) = A + 4096 - BITMAP_SIZE n + 4 * i"
proof -
  have le: "BITMAP_SIZE n \<le> 4096" using BITMAP_SIZE_le [OF assms(2)] by simp
  have "word_at (bmask_at (of_nat A) n) i = of_nat (A + 4096 - BITMAP_SIZE n + 4 * i)"
    using le by (simp add: word_at_def bmask_at_def of_nat_diff PAGE_SIZE_def)
  moreover have "A + 4096 - BITMAP_SIZE n + 4 * i < 2 ^ 32"
    using assms(1,3) le by (simp add: BITMAP_SIZE_eq PAGE_SIZE_def)
  ultimately show ?thesis using unat_of_nat32 by metis
qed

text \<open>The part of a page that may hold its bitmap, and the word after it.\<close>

definition tail :: "nat \<Rightarrow> u32 set" where
  "tail A = {a. A + 3584 \<le> unat a \<and> unat a < A + 4096}"

definition tail1 :: "nat \<Rightarrow> u32 set" where
  "tail1 A = {a. A + 3584 \<le> unat a \<and> unat a \<le> A + 4096}"

lemma word_in_tail:
  assumes "A + PAGE_SIZE < 2 ^ 32" and "n \<le> 4096"
  shows "i \<le> (n + 31) div 32 \<Longrightarrow> word_at (bmask_at (of_nat A) n) i \<in> tail1 A"
    and "i < (n + 31) div 32 \<Longrightarrow> word_at (bmask_at (of_nat A) n) i \<in> tail A"
  using bmask_word [OF assms, of i] BITMAP_SIZE_le [OF assms(2)]
  by (simp_all add: tail_def tail1_def BITMAP_SIZE_eq, arith+)

lemma bm_tail_cong:
  assumes "A + PAGE_SIZE < 2 ^ 32" and "n \<le> 4096" and "b < n" and "\<And>a. a \<in> tail A \<Longrightarrow> m' a = m a"
  shows "bm (bmask_at (of_nat A) n) m' b = bm (bmask_at (of_nat A) n) m b"
proof -
  have "(b + 32) div 32 \<le> (n + 31) div 32" using assms(3) by (intro div_le_mono) simp
  then have "b div 32 < (n + 31) div 32" by simp
  then show ?thesis
    using assms(4) word_in_tail(2) [OF assms(1,2)] by (simp add: bm_def BITS_PER_LONG_def)
qed

lemma tails_disjoint: "zone_geom m \<Longrightarrow> j \<noteq> k \<Longrightarrow> tail (page_base m k) \<inter> tail1 (page_base m j) = {}"
proof -
  assume "j \<noteq> k"
  then consider "Suc j \<le> k" | "Suc k \<le> j" by linarith
  then have "page_base m j + 4096 \<le> page_base m k \<or> page_base m k + 4096 \<le> page_base m j"
  proof cases
    case 1
    then have "Suc j * PAGE_SIZE \<le> k * PAGE_SIZE" by (rule mult_le_mono1)
    then show ?thesis by (simp add: page_base_def PAGE_SIZE_def)
  next
    case 2
    then have "Suc k * PAGE_SIZE \<le> j * PAGE_SIZE" by (rule mult_le_mono1)
    then show ?thesis by (simp add: page_base_def PAGE_SIZE_def)
  qed
  then show ?thesis by (auto simp: tail_def tail1_def)
qed

lemma bit_set_touches:
  assumes "A + PAGE_SIZE < 2 ^ 32" and "n \<le> 4096" and "b < n" and "a \<notin> tail1 A"
  shows "bitmap_bit_set (bmask_at (of_nat A) n) b m a = m a" "bitmap_bit_clear (bmask_at (of_nat A) n) b m a = m a"
proof -
  have "b div 32 \<le> (n + 31) div 32" using assms(3) by (intro div_le_mono) simp
  then have "word_at (bmask_at (of_nat A) n) (b div 32) \<noteq> a"
    using word_in_tail(1) [OF assms(1,2)] assms(4) by metis
  then show "bitmap_bit_set (bmask_at (of_nat A) n) b m a = m a" "bitmap_bit_clear (bmask_at (of_nat A) n) b m a = m a"
    by (simp_all add: bitmap_bit_set_def bitmap_bit_clear_def Let_def BITS_PER_LONG_def)
qed

lemma new_bitmap_touches:
  assumes "A + PAGE_SIZE < 2 ^ 32" and "n \<le> 4096" and "0 < u" and "u \<le> n" and "a \<notin> tail1 A"
  shows "new_bitmap (bmask_at (of_nat A) n) n u m a = m a"
proof -
  let ?d = "bmask_at (of_nat A) n"
  have w: "word_at ?d i \<noteq> a" if "i \<le> (n + 31) div 32" for i
    using word_in_tail(1) [OF assms(1,2) that] assms(5) by metis
  have out: "a \<notin> word_at ?d ` {..<x}" if "x \<le> (n + 31) div 32" for x
    using w that by (metis imageE lessThan_iff less_imp_le le_trans)
  have nd: "n div 32 \<le> (n + 31) div 32" by (intro div_le_mono) simp
  have ud: "u div 32 \<le> n div 32" using assms(4) by (rule div_le_mono)
  have "bitmap_fill ?d n m a = m a"
  proof -
    have "a \<notin> word_at ?d ` {..<n div 32}" using nd by (rule out)
    then show ?thesis using assms(2) w [OF nd] by (subst bitmap_fill_spec) auto
  qed
  moreover have "bitmap_zero ?d u m' a = m' a" for m'
  proof -
    have "a \<notin> word_at ?d ` {..<u div 32}" using nd ud by (intro out) simp
    then show ?thesis using w [of 0] by (auto simp: bitmap_zero_def Let_def zero_words_spec BITS_PER_LONG_def)
  qed
  moreover have "u - 1 < n" using assms(3,4) by simp
  ultimately show ?thesis
    using bit_set_touches(1) [OF assms(1,2) _ assms(5)] by (simp add: new_bitmap_def)
qed

section \<open>The invariant\<close>

definition nobjs_of :: "slab \<Rightarrow> u32 \<Rightarrow> nat" where
  "nobjs_of s p = PAGE_SIZE div obj_size (pools s p)"

text \<open>The bit of object \<open>b\<close> on page \<open>k\<close>, for a pool with the object size of \<open>p\<close>.\<close>

definition pbit :: "slab \<Rightarrow> u32 \<Rightarrow> nat \<Rightarrow> nat \<Rightarrow> bool" where
  "pbit s p k b \<longleftrightarrow> bm (bmask_at (of_nat (page_base (kmm s) k)) (nobjs_of s p)) (wmem s) b"

definition pool_nodes :: "(list_node \<Rightarrow> list_node list) \<Rightarrow> u32 \<Rightarrow> list_node set" where
  "pool_nodes L p = set (L (PagesActive p)) \<union> set (L (PagesInactive p))"

definition page_nodes_ok :: "mm \<Rightarrow> list_node set \<Rightarrow> bool" where
  "page_nodes_ok m N \<longleftrightarrow>
    (\<forall>n\<in>N. \<exists>k<total_pages (mem_zone m 0). n = PgList (0, k) \<and> pg_order (p_pool m (0, k)) = 0)"

definition pool_ok :: "slab \<Rightarrow> list_node set \<Rightarrow> (list_node \<Rightarrow> list_node list) \<Rightarrow> u32 \<Rightarrow> bool" where
  "pool_ok s H L p \<longleftrightarrow>
    PagesActive p \<in> H \<and> PagesInactive p \<in> H \<and>
    0 < obj_size (pools s p) \<and> obj_size (pools s p) \<le> PAGE_SIZE div 2 - 4 \<and>
    page_nodes_ok (kmm s) (pool_nodes L p) \<and>
    (\<forall>k. PgList (0, k) \<in> set (L (PagesActive p)) \<longrightarrow> (\<exists>b<nobjs_of s p. \<not> pbit s p k b)) \<and>
    (\<forall>k. PgList (0, k) \<in> set (L (PagesInactive p)) \<longrightarrow> (\<forall>b<nobjs_of s p. pbit s p k b))"

text \<open>The structure of a pool lives in a page of its own, which is neither free nor on a list.\<close>

definition homes_ok :: "mm \<Rightarrow> list_node set \<Rightarrow> (list_node \<Rightarrow> list_node list) \<Rightarrow> u32 set \<Rightarrow> bool" where
  "homes_ok m H L P \<longleftrightarrow>
    (\<forall>p\<in>P. \<exists>k<total_pages (mem_zone m 0). p = of_nat (page_base m k) \<and> k \<notin> free_set L 0 \<and> k \<notin> lent H L 0) \<and>
    H = levels 0 \<union> PagesActive ` P \<union> PagesInactive ` P"

definition slab_inv :: "slab \<Rightarrow> list_node set \<Rightarrow> (list_node \<Rightarrow> list_node list) \<Rightarrow> u32 set \<Rightarrow> bool" where
  "slab_inv s H L P \<longleftrightarrow> zone_inv (kmm s) H L 0 \<and> zone_geom (kmm s) \<and> (\<forall>p\<in>P. pool_ok s H L p) \<and>
     homes_ok (kmm s) H L P"

text \<open>The objects of a pool that are in use: their addresses.\<close>

definition live :: "slab \<Rightarrow> (list_node \<Rightarrow> list_node list) \<Rightarrow> u32 \<Rightarrow> nat set" where
  "live s L p = {page_base (kmm s) k + b * obj_size (pools s p) | k b.
     PgList (0, k) \<in> pool_nodes L p \<and> b < nobjs_of s p \<and> pbit s p k b}"

lemma nobjs_bounds:
  assumes "pool_ok s H L p"
  shows "2 \<le> nobjs_of s p" and "nobjs_of s p \<le> 4096" and "nobjs_of s p * obj_size (pools s p) \<le> 4096"
proof -
  have o: "0 < obj_size (pools s p)" "obj_size (pools s p) \<le> 2044"
    using assms by (simp_all add: pool_ok_def PAGE_SIZE_def)
  have "4096 div 2044 \<le> 4096 div obj_size (pools s p)" using o by (intro div_le_mono2) simp_all
  then show "2 \<le> nobjs_of s p" by (simp add: nobjs_of_def PAGE_SIZE_def)
  show "nobjs_of s p \<le> 4096" by (simp add: nobjs_of_def PAGE_SIZE_def)
  show "nobjs_of s p * obj_size (pools s p) \<le> 4096" by (simp add: nobjs_of_def PAGE_SIZE_def)
qed

lemma usable_bounds:
  assumes "0 < osz" and "osz \<le> 2044"
  shows "2 \<le> usable (4096 div osz) osz" and "usable (4096 div osz) osz \<le> 4096 div osz"
proof -
  define n where "n = 4096 div osz"
  define c where "c = BITMAP_SIZE n - (4096 - n * osz)"
  define r where "r = c div osz + (if c mod osz \<noteq> 0 then 1 else 0)"
  have u: "usable n osz = n \<or> usable n osz = n - r"
    by (simp add: usable_def Let_def r_def c_def PAGE_SIZE_def)
  have rc: "r \<le> c"
  proof (cases "c mod osz = 0")
    case True
    then show ?thesis by (simp add: r_def)
  next
    case False
    then have "0 < c mod osz" by simp
    moreover have "c div osz \<le> c div osz * osz" using assms(1) by simp
    moreover have "c = c div osz * osz + c mod osz" by simp
    moreover have "r = c div osz + 1" using False by (simp add: r_def)
    ultimately show ?thesis by linarith
  qed
  have n2: "2 \<le> n"
    using div_le_mono2 [OF assms, of 4096] by (simp add: n_def)
  have "2 \<le> n - r"
  proof (cases "n < 32")
    case True
    have b: "BITMAP_SIZE n = 4" using True n2 unfolding BITMAP_SIZE_eq by (auto simp: div_nat_eqI)
    have "128 < osz"
    proof (rule ccontr)
      assume "\<not> 128 < osz"
      then have "4096 div 128 \<le> n" unfolding n_def using assms(1) by (intro div_le_mono2) simp_all
      then show False using True by simp
    qed
    then have "c < osz" using b by (simp add: c_def)
    then have r1: "r \<le> 1" "c = 0 \<Longrightarrow> r = 0" by (simp_all add: r_def)
    show ?thesis
    proof (cases "n = 2")
      case True
      then have "c = 0" using b assms(2) by (simp add: c_def)
      then show ?thesis using r1 n2 by simp
    next
      case False
      then show ?thesis using r1 n2 by simp
    qed
  next
    case False
    have "c \<le> (n + 31) div 32 * 4" by (simp add: c_def BITMAP_SIZE_eq)
    also have "\<dots> \<le> n - 2"
      using False div_times_less_eq_dividend [of "n + 31" 32] by (simp add: mult.commute)
    finally show ?thesis using rc False by simp
  qed
  then show "2 \<le> usable (4096 div osz) osz" "usable (4096 div osz) osz \<le> 4096 div osz"
    using u n2 by (auto simp: n_def [symmetric])
qed

lemma slab_invD:
  assumes "slab_inv s H L P"
  shows "zone_inv (kmm s) H L 0" and "zone_geom (kmm s)" and "p \<in> P \<Longrightarrow> pool_ok s H L p"
    and "homes_ok (kmm s) H L P"
  using assms by (simp_all add: slab_inv_def)

lemma homes_ok_mono:
  assumes "homes_ok m H L P" and "mem_zone m' = mem_zone m"
    and "\<And>k. k \<notin> free_set L 0 \<Longrightarrow> k \<notin> lent H L 0 \<Longrightarrow> k \<notin> free_set L' 0 \<and> k \<notin> lent H L' 0"
  shows "homes_ok m' H L' P"
proof -
  have "page_base m' = page_base m" by (simp add: page_base_def assms(2) fun_eq_iff)
  then show ?thesis using assms unfolding homes_ok_def by (metis (no_types, lifting))
qed

lemma pool_okD:
  assumes "pool_ok s H L p"
  shows "PagesActive p \<in> H" and "PagesInactive p \<in> H" and "0 < obj_size (pools s p)"
    and "n \<in> pool_nodes L p \<Longrightarrow> \<exists>k<total_pages (mem_zone (kmm s) 0). n = PgList (0, k) \<and> pg_order (p_pool (kmm s) (0, k)) = 0"
    and "PgList (0, k) \<in> set (L (PagesActive p)) \<Longrightarrow> \<exists>b<nobjs_of s p. \<not> pbit s p k b"
    and "PgList (0, k) \<in> set (L (PagesInactive p)) \<Longrightarrow> b < nobjs_of s p \<Longrightarrow> pbit s p k b"
  using assms by (simp_all add: pool_ok_def page_nodes_ok_def)

lemma pool_node_lent: "PgList (0, k) \<in> pool_nodes L p \<Longrightarrow> pool_ok s H L p \<Longrightarrow> k \<in> lent H L 0"
  using pool_okD(1,2) by (fastforce simp: pool_nodes_def lent_def levels_def)

section \<open>Changing the bitmap of one page\<close>

definition same_geom :: "slab \<Rightarrow> slab \<Rightarrow> bool" where
  "same_geom s s' \<longleftrightarrow> mem_zone (kmm s') = mem_zone (kmm s) \<and> pools s' = pools s"

lemma same_geom_simps:
  assumes "same_geom s s'"
  shows "page_base (kmm s') k = page_base (kmm s) k" and "nobjs_of s' p = nobjs_of s p"
    and "pools s' = pools s" and "zone_geom (kmm s') = zone_geom (kmm s)"
    and "total_pages (mem_zone (kmm s') 0) = total_pages (mem_zone (kmm s) 0)"
  using assms by (simp_all add: same_geom_def page_base_def nobjs_of_def zone_geom_def)

lemma pbit_other_page:
  assumes "same_geom s s'" and "zone_geom (kmm s)" and "k < total_pages (mem_zone (kmm s) 0)" and "k \<noteq> j"
    and "\<And>a. a \<notin> tail1 (page_base (kmm s) j) \<Longrightarrow> wmem s' a = wmem s a"
    and "nobjs_of s p \<le> 4096" and "b < nobjs_of s p"
  shows "pbit s' p k b = pbit s p k b"
proof -
  have "Suc k * PAGE_SIZE \<le> total_pages (mem_zone (kmm s) 0) * PAGE_SIZE"
    using assms(3) by (intro mult_le_mono1) simp
  then have "page_base (kmm s) k + PAGE_SIZE < 2 ^ 32"
    using assms(2) by (simp add: zone_geom_def page_base_def)
  then show ?thesis
    unfolding pbit_def same_geom_simps(1,2) [OF assms(1)]
    using assms(6,7) tails_disjoint [OF assms(2), of j k] assms(4,5)
    by (intro bm_tail_cong) auto
qed

text \<open>
  A change of one page's bitmap, with the page possibly moved between the two lists of its pool: the
  other pools keep their invariant and their objects.
\<close>

definition only_pool :: "u32 \<Rightarrow> (list_node \<Rightarrow> list_node list) \<Rightarrow> (list_node \<Rightarrow> list_node list) \<Rightarrow> bool" where
  "only_pool p L L' \<longleftrightarrow> (\<forall>q. q \<noteq> p \<longrightarrow> L' (PagesActive q) = L (PagesActive q) \<and> L' (PagesInactive q) = L (PagesInactive q))"

definition orders_kept :: "mm \<Rightarrow> mm \<Rightarrow> nat set \<Rightarrow> bool" where
  "orders_kept m m' A \<longleftrightarrow> (\<forall>k. k \<notin> A \<longrightarrow> pg_order (p_pool m' (0, k)) = pg_order (p_pool m (0, k)))"

lemma other_pool:
  assumes inv: "slab_inv s H L P" and q: "q \<in> P" "q \<noteq> p" and g: "same_geom s s'" and op: "only_pool p L L'"
    and ord: "orders_kept (kmm s) (kmm s') (free_set L 0)"
    and j: "PgList (0, j) \<notin> pool_nodes L q"
    and w: "\<And>a. a \<notin> tail1 (page_base (kmm s) j) \<Longrightarrow> wmem s' a = wmem s a"
  shows "pool_ok s' H L' q" and "live s' L' q = live s L q"
proof -
  note ok = slab_invD(3) [OF inv q(1)]
  have pn: "pool_nodes L' q = pool_nodes L q" "set (L' (PagesActive q)) = set (L (PagesActive q))"
      "set (L' (PagesInactive q)) = set (L (PagesInactive q))"
    using op q(2) by (simp_all add: only_pool_def pool_nodes_def)
  have kn: "k < total_pages (mem_zone (kmm s) 0) \<and> k \<noteq> j \<and> k \<notin> free_set L 0" if "PgList (0, k) \<in> pool_nodes L q" for k
    using pool_okD(4) [OF ok that] that j pool_node_lent [OF that ok] zone_inv_lent [OF slab_invD(1) [OF inv]] by auto
  have pb: "pbit s' q k b = pbit s q k b" if "PgList (0, k) \<in> pool_nodes L q" "b < nobjs_of s q" for k b
    using pbit_other_page [OF g slab_invD(2) [OF inv] _ _ w nobjs_bounds(2) [OF ok] that(2)] kn [OF that(1)] by blast
  have "page_nodes_ok (kmm s') (pool_nodes L' q)"
    unfolding page_nodes_ok_def pn(1) same_geom_simps(5) [OF g]
  proof
    fix n assume n: "n \<in> pool_nodes L q"
    then obtain k where k: "k < total_pages (mem_zone (kmm s) 0)" "n = PgList (0, k)" "pg_order (p_pool (kmm s) (0, k)) = 0"
      using pool_okD(4) [OF ok n] by blast
    then have "pg_order (p_pool (kmm s') (0, k)) = 0" using ord kn n by (simp add: orders_kept_def)
    then show "\<exists>k<total_pages (mem_zone (kmm s) 0). n = PgList (0, k) \<and> pg_order (p_pool (kmm s') (0, k)) = 0"
      using k by blast
  qed
  then show "pool_ok s' H L' q"
    unfolding pool_ok_def pn same_geom_simps [OF g]
  proof (intro conjI allI impI)
    show "PagesActive q \<in> H" "PagesInactive q \<in> H" "0 < obj_size (pools s q)"
      "obj_size (pools s q) \<le> PAGE_SIZE div 2 - 4"
      using ok by (simp_all add: pool_ok_def)
    show "\<exists>b<nobjs_of s q. \<not> pbit s' q k b" if "PgList (0, k) \<in> set (L (PagesActive q))" for k
      using pool_okD(5) [OF ok that] pb [of k] that by (auto simp: pool_nodes_def)
    show "pbit s' q k b" if "PgList (0, k) \<in> set (L (PagesInactive q))" "b < nobjs_of s q" for k b
      using pool_okD(6) [OF ok that] pb [of k b] that by (simp add: pool_nodes_def)
  qed
  show "live s' L' q = live s L q"
    unfolding live_def pn same_geom_simps [OF g] using pb by blast
qed

lemma offset_unique:
  assumes "page_base m j + c = page_base m k + d" and "c < 4096" and "d < 4096"
  shows "j = k \<and> c = d"
proof -
  have e: "j * 4096 + c = k * 4096 + d" using assms(1) by (simp add: page_base_def PAGE_SIZE_def)
  have "(j * 4096 + c) div 4096 = j" "(k * 4096 + d) div 4096 = k" using assms(2,3) by simp_all
  then show ?thesis using e by auto
qed

lemma object_unique:
  assumes ok: "pool_ok s H L p" and bc: "b < nobjs_of s p" "c < nobjs_of s p"
    and eq: "page_base m j + b * obj_size (pools s p) = page_base m k + c * obj_size (pools s p)"
  shows "j = k \<and> b = c"
proof -
  let ?o = "obj_size (pools s p)"
  have lt: "x * ?o < 4096" if "x < nobjs_of s p" for x
  proof -
    have "x * ?o < nobjs_of s p * ?o" using that pool_okD(3) [OF ok] by simp
    then show ?thesis using nobjs_bounds(3) [OF ok] by linarith
  qed
  show ?thesis using offset_unique [OF eq lt [OF bc(1)] lt [OF bc(2)]] pool_okD(3) [OF ok] by simp
qed

text \<open>
  The step shared by allocation from an active page and by release: the bitmap of page \<open>k\<close> of pool
  \<open>p\<close> changes, and the page may move between the two lists of the pool.
\<close>

definition page_objs :: "slab \<Rightarrow> u32 \<Rightarrow> nat \<Rightarrow> nat set" where
  "page_objs s p k = {page_base (kmm s) k + b * obj_size (pools s p) | b. b < nobjs_of s p \<and> pbit s p k b}"

lemma live_eq: "live s L p = (\<Union>k\<in>{k. PgList (0, k) \<in> pool_nodes L p}. page_objs s p k)"
  by (auto simp: live_def page_objs_def)

definition page_step :: "slab \<Rightarrow> slab \<Rightarrow> list_node set \<Rightarrow> (list_node \<Rightarrow> list_node list) \<Rightarrow> (list_node \<Rightarrow> list_node list) \<Rightarrow>
    u32 set \<Rightarrow> u32 \<Rightarrow> nat \<Rightarrow> bool" where
  "page_step s s' H L L' P p k \<longleftrightarrow>
    slab_inv s H L P \<and> p \<in> P \<and> PgList (0, k) \<in> pool_nodes L p \<and> same_geom s s' \<and>
    (\<exists>h. kmm s' = (kmm s)\<lparr>lists := h\<rparr>) \<and> klists (lists (kmm s')) H L' \<and>
    (\<forall>l. l \<noteq> PagesActive p \<longrightarrow> l \<noteq> PagesInactive p \<longrightarrow> L' l = L l) \<and> pool_nodes L' p = pool_nodes L p \<and>
    (\<forall>a. a \<notin> tail1 (page_base (kmm s) k) \<longrightarrow> wmem s' a = wmem s a) \<and>
    (\<forall>j. j \<noteq> k \<longrightarrow> (PgList (0, j) \<in> set (L' (PagesActive p)) \<longleftrightarrow> PgList (0, j) \<in> set (L (PagesActive p))) \<and>
      (PgList (0, j) \<in> set (L' (PagesInactive p)) \<longleftrightarrow> PgList (0, j) \<in> set (L (PagesInactive p)))) \<and>
    (PgList (0, k) \<in> set (L' (PagesActive p)) \<longrightarrow> (\<exists>b<nobjs_of s p. \<not> pbit s' p k b)) \<and>
    (PgList (0, k) \<in> set (L' (PagesInactive p)) \<longrightarrow> (\<forall>b<nobjs_of s p. pbit s' p k b))"

lemma page_stepD:
  assumes "page_step s s' H L L' P p k"
  shows ps_inv: "slab_inv s H L P" and ps_p: "p \<in> P" and ps_k: "PgList (0, k) \<in> pool_nodes L p"
    and ps_geom: "same_geom s s'" and ps_kmmE: "\<exists>h. kmm s' = (kmm s)\<lparr>lists := h\<rparr>"
    and ps_kl: "klists (lists (kmm s')) H L'"
    and ps_lst: "l \<noteq> PagesActive p \<Longrightarrow> l \<noteq> PagesInactive p \<Longrightarrow> L' l = L l"
    and ps_pn: "pool_nodes L' p = pool_nodes L p"
    and ps_touch: "a \<notin> tail1 (page_base (kmm s) k) \<Longrightarrow> wmem s' a = wmem s a"
    and ps_moved: "j \<noteq> k \<Longrightarrow> (PgList (0, j) \<in> set (L' (PagesActive p)) \<longleftrightarrow> PgList (0, j) \<in> set (L (PagesActive p))) \<and>
      (PgList (0, j) \<in> set (L' (PagesInactive p)) \<longleftrightarrow> PgList (0, j) \<in> set (L (PagesInactive p)))"
    and ps_kA: "PgList (0, k) \<in> set (L' (PagesActive p)) \<Longrightarrow> \<exists>b<nobjs_of s p. \<not> pbit s' p k b"
    and ps_kI: "PgList (0, k) \<in> set (L' (PagesInactive p)) \<Longrightarrow> b < nobjs_of s p \<Longrightarrow> pbit s' p k b"
  using assms by (simp_all add: page_step_def)

lemma ps_ok: "page_step s s' H L L' P p k \<Longrightarrow> pool_ok s H L p"
  using ps_inv ps_p slab_invD(3) by metis

lemma ps_kmm: "page_step s s' H L L' P p k \<Longrightarrow> kmm s' = (kmm s)\<lparr>lists := lists (kmm s')\<rparr>"
  using ps_kmmE by fastforce

lemma ps_pool: "page_step s s' H L L' P p k \<Longrightarrow> p_pool (kmm s') = p_pool (kmm s)"
  using ps_kmmE by fastforce

lemma ps_other:
  assumes st: "page_step s s' H L L' P p k"
  shows "PgList (0, j) \<in> pool_nodes L p \<Longrightarrow> j \<noteq> k \<Longrightarrow> c < nobjs_of s p \<Longrightarrow> pbit s' p j c = pbit s p j c"
  using pbit_other_page [OF ps_geom [OF st] slab_invD(2) [OF ps_inv [OF st]] _ _ ps_touch [OF st] nobjs_bounds(2) [OF ps_ok [OF st]]]
    pool_okD(4) [OF ps_ok [OF st], of "PgList (0, j)"] by blast

lemma ps_pool_p:
  assumes st: "page_step s s' H L L' P p k"
  shows "pool_ok s' H L' p"
  unfolding pool_ok_def ps_pn [OF st] same_geom_simps [OF ps_geom [OF st]]
proof (intro conjI allI impI)
  show "PagesActive p \<in> H" "PagesInactive p \<in> H" "0 < obj_size (pools s p)"
    "obj_size (pools s p) \<le> PAGE_SIZE div 2 - 4"
    using ps_ok [OF st] by (simp_all add: pool_ok_def)
  show "page_nodes_ok (kmm s') (pool_nodes L p)"
    using ps_ok [OF st] unfolding pool_ok_def page_nodes_ok_def same_geom_simps [OF ps_geom [OF st]] ps_pool [OF st] by blast
  show "\<exists>b<nobjs_of s p. \<not> pbit s' p j b" if j: "PgList (0, j) \<in> set (L' (PagesActive p))" for j
  proof (cases "j = k")
    case False
    then have "PgList (0, j) \<in> set (L (PagesActive p))" using ps_moved [OF st] j by blast
    then show ?thesis using pool_okD(5) [OF ps_ok [OF st], of j] ps_other [OF st _ False] by (auto simp: pool_nodes_def)
  qed (use ps_kA [OF st] j in blast)
  show "pbit s' p j b" if j: "PgList (0, j) \<in> set (L' (PagesInactive p))" "b < nobjs_of s p" for j b
  proof (cases "j = k")
    case False
    then have "PgList (0, j) \<in> set (L (PagesInactive p))" using ps_moved [OF st] j by blast
    then show ?thesis using pool_okD(6) [OF ps_ok [OF st], of j] ps_other [OF st _ False] j by (auto simp: pool_nodes_def)
  qed (use ps_kI [OF st] j in blast)
qed

lemma ps_not_elsewhere:
  assumes st: "page_step s s' H L L' P p k"
  shows "q \<in> P \<Longrightarrow> q \<noteq> p \<Longrightarrow> PgList (0, k) \<notin> pool_nodes L q"
  using klists_member_unique [OF zone_inv_klists [OF slab_invD(1) [OF ps_inv [OF st]]], of _ _ "PgList (0, k)"]
    pool_okD(1,2) [OF ps_ok [OF st]] pool_okD(1,2) [OF slab_invD(3) [OF ps_inv [OF st]]] ps_k [OF st]
  by (fastforce simp: pool_nodes_def)

lemma ps_pools_q:
  assumes st: "page_step s s' H L L' P p k" and "q \<in> P" and "q \<noteq> p"
  shows "pool_ok s' H L' q" and "live s' L' q = live s L q"
proof -
  have op: "only_pool p L L'" using ps_lst [OF st] by (auto simp: only_pool_def)
  have ord: "orders_kept (kmm s) (kmm s') (free_set L 0)" by (simp add: orders_kept_def ps_pool [OF st])
  show "pool_ok s' H L' q" "live s' L' q = live s L q"
    using other_pool [OF ps_inv [OF st] assms(2,3) ps_geom [OF st] op ord ps_not_elsewhere [OF st assms(2,3)] ps_touch [OF st]] by blast+
qed

lemma ps_lent:
  assumes st: "page_step s s' H L L' P p k"
  shows "lent H L' 0 = lent H L 0"
proof -
  have "(\<exists>l\<in>H - levels 0. PgList (0, m) \<in> set (L' l)) \<longleftrightarrow> (\<exists>l\<in>H - levels 0. PgList (0, m) \<in> set (L l))" for m
  proof (cases "PgList (0, m) \<in> pool_nodes L p")
    case True
    have "PagesActive p \<in> H - levels 0" "PagesInactive p \<in> H - levels 0"
      using pool_okD(1,2) [OF ps_ok [OF st]] by (auto simp: levels_def)
    then show ?thesis using True ps_pn [OF st] unfolding pool_nodes_def by blast
  next
    case False
    have "PgList (0, m) \<in> set (L' l) \<longleftrightarrow> PgList (0, m) \<in> set (L l)" for l
    proof (cases "l = PagesActive p \<or> l = PagesInactive p")
      case True
      then show ?thesis using False ps_pn [OF st] unfolding pool_nodes_def by blast
    next
      case False
      then show ?thesis using ps_lst [OF st] by simp
    qed
    then show ?thesis by blast
  qed
  then show ?thesis by (simp add: lent_def)
qed

lemma ps_slab_inv:
  assumes st: "page_step s s' H L L' P p k"
  shows "slab_inv s' H L' P"
proof -
  have "same_levels 0 L L'" using ps_lst [OF st] by (simp add: same_levels_def)
  then have "zone_inv ((kmm s)\<lparr>lists := lists (kmm s')\<rparr>) H L' 0"
    using zone_inv_same [OF slab_invD(1) [OF ps_inv [OF st]] _ ps_kl [OF st]] ps_lent [OF st] zone_inv_lent [OF slab_invD(1) [OF ps_inv [OF st]]] by simp
  then have "zone_inv (kmm s') H L' 0" using ps_kmm [OF st] by simp
  moreover have "pool_ok s' H L' q" if "q \<in> P" for q
    using ps_pool_p [OF st] ps_pools_q(1) [OF st that] by (cases "q = p") simp_all
  moreover have "homes_ok (kmm s') H L' P"
    using free_set_same [OF \<open>same_levels 0 L L'\<close>] ps_lent [OF st] ps_geom [OF st]
    by (intro homes_ok_mono [OF slab_invD(4) [OF ps_inv [OF st]]]) (simp_all add: same_geom_def)
  ultimately show ?thesis
    using slab_invD(2) [OF ps_inv [OF st]] same_geom_simps(4) [OF ps_geom [OF st]] by (simp add: slab_inv_def)
qed

lemma ps_live:
  assumes st: "page_step s s' H L L' P p k"
  shows "live s' L' p = (live s L p - page_objs s p k) \<union> page_objs s' p k"
proof -
  have same: "page_objs s' p j = page_objs s p j" if "PgList (0, j) \<in> pool_nodes L p" "j \<noteq> k" for j
    using ps_other [OF st that] by (auto simp: page_objs_def same_geom_simps [OF ps_geom [OF st]])
  have dis: "page_objs s p j \<inter> page_objs s p k = {}" if "j \<noteq> k" for j
    using object_unique [OF ps_ok [OF st], of _ _ "kmm s" j k] that by (auto simp: page_objs_def)
  let ?K = "{j. PgList (0, j) \<in> pool_nodes L p}"
  have K: "?K = insert k (?K - {k})" using ps_k [OF st] by blast
  define X where "X = (\<Union>j\<in>?K - {k}. page_objs s p j)"
  have X': "(\<Union>j\<in>?K - {k}. page_objs s' p j) = X"
    unfolding X_def using same by (intro SUP_cong refl) blast
  have dX: "X \<inter> page_objs s p k = {}" unfolding X_def using dis by blast
  have l': "live s' L' p = page_objs s' p k \<union> X"
    unfolding live_eq ps_pn [OF st] X' [symmetric] by (subst K) (rule UN_insert)
  have l: "live s L p = page_objs s p k \<union> X"
    unfolding live_eq X_def by (subst K) (rule UN_insert)
  show ?thesis unfolding l l' using dX by blast
qed

section \<open>Allocation\<close>

definition got :: "slab \<Rightarrow> (list_node \<Rightarrow> list_node list) \<Rightarrow> slab \<Rightarrow> (list_node \<Rightarrow> list_node list) \<Rightarrow> u32 set \<Rightarrow> u32 \<Rightarrow> u32 \<Rightarrow> bool" where
  "got s L s' L' P p a \<longleftrightarrow> unat a \<notin> live s L p \<and> unat a \<in> live s' L' p \<and> live s L p \<subseteq> live s' L' p \<and>
     (\<forall>q\<in>P - {p}. live s' L' q = live s L q) \<and> unat a mod PAGE_SIZE + obj_size (pools s p) \<le> PAGE_SIZE"

lemma object_address:
  assumes inv: "slab_inv s H L P" and ok: "pool_ok s H L p" and k: "k < total_pages (mem_zone (kmm s) 0)"
    and b: "b < nobjs_of s p"
  defines "a \<equiv> of_nat (page_base (kmm s) k) + of_nat (b * obj_size (pools s p)) :: u32"
  shows "unat a = page_base (kmm s) k + b * obj_size (pools s p)"
    and "unat a mod PAGE_SIZE = b * obj_size (pools s p)"
    and "b * obj_size (pools s p) + obj_size (pools s p) \<le> PAGE_SIZE"
proof -
  let ?o = "obj_size (pools s p)"
  note pa = page_addr(3) [OF slab_invD(2) [OF inv] zone_inv_pages [OF slab_invD(1) [OF inv]] k]
  have "Suc b * ?o \<le> nobjs_of s p * ?o" using b by (intro mult_le_mono1) simp
  then show le: "b * ?o + ?o \<le> PAGE_SIZE" using nobjs_bounds(3) [OF ok] by (simp add: PAGE_SIZE_def)
  then have lt: "b * ?o < PAGE_SIZE" using pool_okD(3) [OF ok] by linarith
  have "a = of_nat (page_base (kmm s) k + b * ?o)" by (simp add: a_def)
  then show u: "unat a = page_base (kmm s) k + b * ?o"
    using pa lt unat_of_nat32 [of "page_base (kmm s) k + b * ?o"] by simp
  show "unat a mod PAGE_SIZE = b * ?o"
    using page_base_mod [OF slab_invD(2) [OF inv], of k] lt unfolding u by (metis add_0 mod_add_left_eq mod_less)
qed

lemma pool_member_rings:
  assumes kl: "klists h H L" and a: "l \<in> H" and m: "L l = xs @ nd # ys" and nd: "nd \<notin> H" and b: "l' \<in> H"
  shows "nd \<notin> ring (L(l := xs @ ys)) l'"
proof (cases "l' = l")
  case True
  then show ?thesis
    using klist_distinct [OF klistsD [OF kl a]] m nd a by (auto simp: ring_def)
next
  case False
  then show ?thesis
    using klists_member_unique [OF kl b a, of nd] m nd b by (auto simp: ring_def)
qed

text \<open>The page \<open>nd\<close> moved from the list \<open>l\<close> to the front of the list \<open>l'\<close>.\<close>

lemma klists_move:
  assumes kl: "klists h H L" and l: "l \<in> H" "l' \<in> H" "l \<noteq> l'" and m: "L l = xs @ nd # ys" and nd: "nd \<notin> H"
  shows "klists (klist0_append nd l' (klist0_unlink nd h)) H (L(l := xs @ ys, l' := nd # L l'))"
  using klists_append [OF klists_unlink(1) [OF kl l(1) m] l(2) pool_member_rings [OF kl l(1) m nd]] l(3) by simp

lemma ps_got:
  assumes st: "page_step s s' H L L' P p k" and b: "b < nobjs_of s p" "\<not> pbit s p k b"
    and bits: "\<And>c. c < nobjs_of s p \<Longrightarrow> pbit s' p k c \<longleftrightarrow> c = b \<or> pbit s p k c"
  shows "got s L s' L' P p (of_nat (page_base (kmm s) k) + of_nat (b * obj_size (pools s p)))"
proof -
  note ok = ps_ok [OF st] and inv = ps_inv [OF st]
  have k: "k < total_pages (mem_zone (kmm s) 0)" using pool_okD(4) [OF ok ps_k [OF st]] by auto
  note oa = object_address [OF inv ok k b(1)]
  let ?a = "page_base (kmm s) k + b * obj_size (pools s p)"
  have new: "page_objs s' p k = insert ?a (page_objs s p k)"
    using bits b(1) by (auto simp: page_objs_def same_geom_simps [OF ps_geom [OF st]])
  have "?a \<notin> page_objs s p j" for j
    using object_unique [OF ok b(1), of _ "kmm s" k j] b(2) by (auto simp: page_objs_def)
  then have "?a \<notin> live s L p" by (simp add: live_eq)
  moreover have "live s' L' p = insert ?a (live s L p)"
    unfolding ps_live [OF st] new using ps_k [OF st] by (auto simp: live_eq)
  ultimately show ?thesis
    using oa ps_pools_q(2) [OF st] unfolding got_def by auto
qed

text \<open>An object taken from an active page: the one with the lowest clear bit of the first page.\<close>

lemma alloc_lowest:
  assumes inv: "slab_inv s H L P" and p: "p \<in> P" and ne: "L (PagesActive p) \<noteq> []"
  obtains s' b k L' where "hd (L (PagesActive p)) = PgList (0, k)" "b < nobjs_of s p" "\<not> pbit s p k b" "\<forall>c<b. pbit s p k c"
    "slice_alloc s p = Some (s', Some (of_nat (page_base (kmm s) k) + of_nat (b * obj_size (pools s p))))"
    "slab_inv s' H L' P" "got s L s' L' P p (of_nat (page_base (kmm s) k) + of_nat (b * obj_size (pools s p)))"
    "same_geom s s'" "\<forall>c<nobjs_of s p. pbit s' p k c \<longleftrightarrow> c = b \<or> pbit s p k c"
    "(\<exists>c<nobjs_of s p. \<not> pbit s' p k c) \<longrightarrow> L' = L"
proof -
  note ok = slab_invD(3) [OF inv p] and zi = slab_invD(1) [OF inv] and zg = slab_invD(2) [OF inv]
  note kl = zone_inv_klists [OF zi]
  let ?o = "obj_size (pools s p)" and ?n = "nobjs_of s p"
  obtain nd ns where nd: "L (PagesActive p) = nd # ns" using ne by (cases "L (PagesActive p)") auto
  then obtain k where k: "nd = PgList (0, k)" "k < total_pages (mem_zone (kmm s) 0)"
    using pool_okD(4) [OF ok, of nd] by (auto simp: pool_nodes_def)
  note un = klists_unlink_first [OF kl pool_okD(1) [OF ok] nd]
  note pa = page_addr [OF zg zone_inv_pages [OF zi] k(2)]
  let ?A = "page_base (kmm s) k"
  let ?d = "bmask_at (of_nat ?A) ?n"
  have n4: "?n \<le> 4096" by (rule nobjs_bounds(2) [OF ok])
  have "first_from (\<lambda>c. \<not> bm ?d (wmem s) c) 0 ?n (bitmap_seek_unset ?d ?n (wmem s))"
    unfolding bitmap_seek_unset_def by (rule seek_unset_loop_spec [OF scan_at_start])
  moreover have "\<exists>b<?n. \<not> bm ?d (wmem s) b"
    using pool_okD(5) [OF ok, of k] nd k(1) by (simp add: pbit_def)
  ultimately obtain b where b: "bitmap_seek_unset ?d ?n (wmem s) = Some b" "b < ?n" "\<not> pbit s p k b" "\<forall>c<b. pbit s p k c"
    by (auto simp: first_from_def pbit_def split: option.splits)
  define w where "w = bitmap_bit_set ?d b (wmem s)"
  define full where "full \<longleftrightarrow> bitmap_all_set ?d ?n w"
  define h' where "h' = (if full then klist0_append nd (PagesInactive p) (klist0_unlink nd (lists (kmm s))) else lists (kmm s))"
  define s' where "s' = set_lists h' (s\<lparr>wmem := w\<rparr>)"
  define L' where "L' = (if full then L(PagesActive p := ns, PagesInactive p := nd # L (PagesInactive p)) else L)"
  have g: "same_geom s s'" by (simp add: same_geom_def s'_def set_lists_def)
  have ws: "wmem s' = w" by (simp add: s'_def set_lists_def)
  have bits: "pbit s' p k c \<longleftrightarrow> c = b \<or> pbit s p k c" if "c < ?n" for c
    unfolding pbit_def same_geom_simps(1,2) [OF g] ws w_def using that b(2) n4 by (intro bm_set) simp_all
  have fullb: "full \<longleftrightarrow> (\<forall>c<?n. pbit s' p k c)"
    unfolding full_def bitmap_all_set_spec pbit_def same_geom_simps(1,2) [OF g] ws by simp
  have "nd \<notin> H" using zone_inv_heads [OF zi] k(1) by simp
  then have kl': "klists h' H L'"
    using kl klists_move [OF kl pool_okD(1,2) [OF ok], of "[]" nd ns] nd by (simp add: h'_def L'_def)
  have st: "page_step s s' H L L' P p k"
    unfolding page_step_def
  proof (intro conjI allI impI)
    show "\<exists>h. kmm s' = (kmm s)\<lparr>lists := h\<rparr>" by (simp add: s'_def set_lists_def) blast
    show "klists (lists (kmm s')) H L'" using kl' by (simp add: s'_def set_lists_def)
    show "wmem s' a = wmem s a" if "a \<notin> tail1 ?A" for a
      unfolding ws w_def using bit_set_touches(1) [OF pa(3) n4 b(2) that] .
    show "PgList (0, k) \<in> pool_nodes L p" using nd k(1) by (simp add: pool_nodes_def)
    show "\<exists>b<?n. \<not> pbit s' p k b" if "PgList (0, k) \<in> set (L' (PagesActive p))"
      using that fullb klist_distinct [OF klistsD [OF kl pool_okD(1) [OF ok]]] nd k(1)
      by (auto simp: L'_def split: if_splits)
    show "pbit s' p k c" if "PgList (0, k) \<in> set (L' (PagesInactive p))" "c < ?n" for c
      using that fullb klists_member_unique [OF kl pool_okD(1,2) [OF ok], of nd] nd k(1)
      by (auto simp: L'_def split: if_splits)
  qed (use inv p g nd k(1) in \<open>auto simp: L'_def pool_nodes_def\<close>)
  have sa: "slice_alloc s p = Some (s', Some (of_nat ?A + of_nat (b * ?o)))"
    using pool_okD(3) [OF ok] klists_empty [OF kl pool_okD(1) [OF ok]] nd un(1) k(1) b(1) pa(1)
    by (simp add: slice_alloc_def nobjs_of_def [symmetric] Let_def s'_def h'_def full_def w_def)
  have gt: "got s L s' L' P p (of_nat ?A + of_nat (b * ?o))" by (rule ps_got [OF st b(2,3) bits])
  have same: "(\<exists>c<?n. \<not> pbit s' p k c) \<longrightarrow> L' = L" using fullb by (auto simp: L'_def)
  show thesis
  proof (rule that)
    show "hd (L (PagesActive p)) = PgList (0, k)" using nd k(1) by simp
    show "\<forall>c<?n. pbit s' p k c \<longleftrightarrow> c = b \<or> pbit s p k c" using bits by simp
  qed (fact b sa ps_slab_inv [OF st] gt g same)+
qed

lemma alloc_active:
  assumes inv: "slab_inv s H L P" and p: "p \<in> P" and ne: "L (PagesActive p) \<noteq> []"
  shows "\<exists>s' a L'. slice_alloc s p = Some (s', Some a) \<and> slab_inv s' H L' P \<and> got s L s' L' P p a"
  by (rule alloc_lowest [OF assms]) blast

text \<open>An object taken from a fresh page.\<close>

lemma fresh_bits:
  assumes "0 < osz" and "osz \<le> 2044" and "n = 4096 div osz"
  shows "bm d (new_bitmap d n (usable n osz) m) (usable n osz - 1)" and "\<not> bm d (new_bitmap d n (usable n osz) m) 0"
proof -
  let ?u = "usable n osz"
  have u: "2 \<le> ?u" "?u \<le> n" using usable_bounds [OF assms(1,2)] assms(3) by simp_all
  have n: "n \<le> 4096" by (simp add: assms(3))
  show "bm d (new_bitmap d n ?u m) (?u - 1)"
    unfolding new_bitmap_def using u n by (subst bm_set) simp_all
  have "zeroed ?u \<noteq> 0" using u by (auto simp: zeroed_def div_greater_zero_iff)
  then show "\<not> bm d (new_bitmap d n ?u m) 0"
    unfolding new_bitmap_def using u n by (subst bm_set) (simp_all add: bm_zero)
qed

lemma alloc_fresh_page:
  assumes inv: "slab_inv s H L P" and p: "p \<in> P" and em: "L (PagesActive p) = []"
    and fl: "find_level (kmm s) 0 0 = Some i"
  obtains s' k L' where "slice_alloc s p = Some (s', Some (of_nat (page_base (kmm s) k) +
      of_nat ((usable (nobjs_of s p) (obj_size (pools s p)) - 1) * obj_size (pools s p))))"
    "k < total_pages (mem_zone (kmm s) 0)" "L' (PagesActive p) = [PgList (0, k)]" "same_geom s s'"
    "wmem s' = new_bitmap (bmask_at (of_nat (page_base (kmm s) k)) (nobjs_of s p)) (nobjs_of s p)
      (usable (nobjs_of s p) (obj_size (pools s p))) (wmem s)"
    "slab_inv s' H L' P" "got s L s' L' P p (of_nat (page_base (kmm s) k) +
      of_nat ((usable (nobjs_of s p) (obj_size (pools s p)) - 1) * obj_size (pools s p)))"
proof -
  note ok = slab_invD(3) [OF inv p] and zi = slab_invD(1) [OF inv] and zg = slab_invD(2) [OF inv]
  let ?o = "obj_size (pools s p)" and ?n = "nobjs_of s p"
  obtain m1 k L1 where al: "alloc_pages_zone (kmm s) 0 0 = Some (m1, Some (0, k))" "zone_inv m1 H L1 0"
      "pile_ok (kmm s) 0 0 k" "pile_pages 0 k \<subseteq> free_set L 0" "free_set L1 0 = free_set L 0 - pile_pages 0 k"
      "pg_order (p_pool m1 (0, k)) = 0" "off_levels 0 L L1" "mm_same (kmm s) m1 0 (free_set L 0)"
    using alloc_pages_zone_some [OF zi fl] by blast
  have kf: "k \<in> free_set L 0" "k \<notin> free_set L1 0" using al(4,5) by (auto simp: pile_pages_def)
  have kt: "k < total_pages (mem_zone (kmm s) 0)" using al(3) by (simp add: pile_ok_def)
  have len1: "lent H L1 0 = lent H L 0" by (rule off_levels_lent [OF al(7)])
  have kl: "k \<notin> lent H L1 0" using zone_inv_lent [OF zi] kf(1) len1 by auto
  have mz: "mem_zone m1 = mem_zone (kmm s)" using al(8) by (simp add: mm_same_def)
  define u where "u = usable ?n ?o"
  have o: "0 < ?o" "?o \<le> 2044" using ok by (simp_all add: pool_ok_def PAGE_SIZE_def)
  have ub: "2 \<le> u" "u \<le> ?n" using usable_bounds [OF o] by (simp_all add: u_def nobjs_of_def PAGE_SIZE_def)
  have n4: "?n \<le> 4096" by (rule nobjs_bounds(2) [OF ok])
  let ?A = "page_base (kmm s) k"
  have pa: "page_to_addr m1 (0, k) = of_nat ?A" "?A + PAGE_SIZE < 2 ^ 32"
    using page_addr [of m1 k] zg zone_inv_pages [OF al(2)] kt by (simp_all add: zone_geom_def page_base_def mz)
  define w where "w = new_bitmap (bmask_at (of_nat ?A) ?n) ?n u (wmem s)"
  define s' where "s' = s\<lparr>kmm := m1\<lparr>lists := klist0_append (PgList (0, k)) (PagesActive p) (lists m1)\<rparr>, wmem := w\<rparr>"
  define L' where "L' = L1(PagesActive p := [PgList (0, k)])"
  have L1: "L1 l = L l" if "l \<notin> levels 0" for l using al(7) that by (simp add: off_levels_def)
  have L1p: "L1 (PagesActive q) = L (PagesActive q)" "L1 (PagesInactive q) = L (PagesInactive q)" for q
    using L1 by (auto simp: levels_def)
  have g: "same_geom s s'" by (simp add: same_geom_def s'_def mz)
  have ws: "wmem s' = w" by (simp add: s'_def)
  have touch: "wmem s' a = wmem s a" if "a \<notin> tail1 ?A" for a
    unfolding ws w_def using new_bitmap_touches [OF pa(2) n4 _ ub(2) that] ub(1) by simp
  have zi': "zone_inv (kmm s') H L' 0"
  proof -
    have "klists (klist0_append (PgList (0, k)) (PagesActive p) (lists m1)) H (L1(PagesActive p := PgList (0, k) # L1 (PagesActive p)))"
      using zone_inv_klists [OF al(2)] pool_okD(1) [OF ok] not_in_rings [OF al(2) kf(2) kl] by (intro klists_append) auto
    then have kls: "klists (klist0_append (PgList (0, k)) (PagesActive p) (lists m1)) H L'"
      by (simp add: L'_def L1p em)
    have "lent H L' 0 \<subseteq> insert k (lent H L1 0)" by (auto simp: lent_def L'_def split: if_splits)
    then have "lent H L' 0 \<inter> free_set L1 0 = {}" using zone_inv_lent [OF al(2)] kf(2) by blast
    then show ?thesis
      using zone_inv_same [OF al(2) _ kls] by (simp add: s'_def same_levels_def L'_def)
  qed
  have ord: "orders_kept (kmm s) (kmm s') (free_set L 0)"
    using al(8) by (simp add: orders_kept_def s'_def mm_same_def)
  have op: "only_pool p L L'" by (simp add: only_pool_def L'_def L1p)
  have nk: "PgList (0, k) \<notin> pool_nodes L q" if "q \<in> P" for q
    using pool_node_lent [of k L q s H] slab_invD(3) [OF inv that] zone_inv_lent [OF zi] kf(1) by blast
  have old: "pbit s' p j c = pbit s p j c" if "PgList (0, j) \<in> pool_nodes L p" "c < ?n" for j c
    using pbit_other_page [of s s' j k p c, OF g zg _ _ touch n4 that(2)] pool_okD(4) [OF ok that(1)] nk [OF p] that(1)
    by auto
  have new: "pbit s' p k (u - 1)" "\<not> pbit s' p k 0"
    using fresh_bits [OF o, of ?n] unfolding pbit_def same_geom_simps(1,2) [OF g] ws w_def u_def
    by (simp_all add: nobjs_of_def PAGE_SIZE_def)
  have pn: "pool_nodes L' p = insert (PgList (0, k)) (pool_nodes L p)"
    by (simp add: pool_nodes_def L'_def L1p em)
  have "pool_ok s' H L' p"
    unfolding pool_ok_def same_geom_simps [OF g]
  proof (intro conjI allI impI)
    show "page_nodes_ok (kmm s') (pool_nodes L' p)"
      unfolding page_nodes_ok_def pn same_geom_simps(5) [OF g]
    proof
      fix n assume n: "n \<in> insert (PgList (0, k)) (pool_nodes L p)"
      show "\<exists>j<total_pages (mem_zone (kmm s) 0). n = PgList (0, j) \<and> pg_order (p_pool (kmm s') (0, j)) = 0"
      proof (cases "n = PgList (0, k)")
        case True
        then show ?thesis using kt al(6) by (auto simp: s'_def)
      next
        case False
        then have nn: "n \<in> pool_nodes L p" using n by simp
        then obtain j where j: "j < total_pages (mem_zone (kmm s) 0)" "n = PgList (0, j)" "pg_order (p_pool (kmm s) (0, j)) = 0"
          using pool_okD(4) [OF ok nn] by blast
        have "j \<notin> free_set L 0" using pool_node_lent [of j L p s H] nn j(2) ok zone_inv_lent [OF zi] by blast
        then show ?thesis using j ord by (auto simp: orders_kept_def)
      qed
    qed
    show "\<exists>b<?n. \<not> pbit s' p j b" if "PgList (0, j) \<in> set (L' (PagesActive p))" for j
      using that new(2) ub by (intro exI [of _ 0]) (simp add: L'_def)
    show "pbit s' p j b" if "PgList (0, j) \<in> set (L' (PagesInactive p))" "b < ?n" for j b
    proof -
      have "PgList (0, j) \<in> set (L (PagesInactive p))" using that(1) by (simp add: L'_def L1p)
      then show ?thesis using pool_okD(6) [OF ok, of j b] old [of j b] that(2) by (simp add: pool_nodes_def)
    qed
  qed (use ok in \<open>simp_all add: pool_ok_def\<close>)
  moreover have oq: "pool_ok s' H L' q \<and> live s' L' q = live s L q" if "q \<in> P" "q \<noteq> p" for q
    using other_pool [OF inv that g op ord nk [OF that(1)] touch] by blast
  moreover have "homes_ok (kmm s') H L' P"
  proof (rule homes_ok_mono [OF slab_invD(4) [OF inv]])
    show "mem_zone (kmm s') = mem_zone (kmm s)" using g by (simp add: same_geom_def)
    have "lent H L' 0 \<subseteq> insert k (lent H L1 0)" by (auto simp: lent_def L'_def split: if_splits)
    moreover have "free_set L' 0 = free_set L1 0" by (intro free_set_same) (simp add: same_levels_def L'_def)
    ultimately show "j \<notin> free_set L' 0 \<and> j \<notin> lent H L' 0" if "j \<notin> free_set L 0" "j \<notin> lent H L 0" for j
      using that len1 al(5) kf(1) by auto
  qed
  ultimately have inv': "slab_inv s' H L' P"
    using zi' zg same_geom_simps(4) [OF g] unfolding slab_inv_def by blast
  have u1: "u - 1 < ?n" using ub by simp
  note oa = object_address [OF inv ok kt u1]
  have "page_objs s' p j = page_objs s p j" if "PgList (0, j) \<in> pool_nodes L p" for j
    using old [OF that] by (auto simp: page_objs_def same_geom_simps [OF g])
  then have lv: "live s' L' p = page_objs s' p k \<union> live s L p"
    unfolding live_eq pn by auto
  have "?A + (u - 1) * ?o \<in> page_objs s' p k"
    using new(1) u1 by (auto simp: page_objs_def same_geom_simps [OF g])
  moreover have "?A + (u - 1) * ?o \<notin> live s L p"
  proof
    assume "?A + (u - 1) * ?o \<in> live s L p"
    then obtain j b where jb: "PgList (0, j) \<in> pool_nodes L p" "b < ?n" "?A + (u - 1) * ?o = page_base (kmm s) j + b * ?o"
      by (auto simp: live_def)
    then show False using object_unique [OF ok u1 jb(2) jb(3)] nk [OF p] by auto
  qed
  ultimately have gt: "got s L s' L' P p (of_nat ?A + of_nat ((u - 1) * ?o))"
    using oa oq lv unfolding got_def by auto
  have sa: "slice_alloc s p = Some (s', Some (of_nat ?A + of_nat ((u - 1) * ?o)))"
    using o(1) klists_empty [OF zone_inv_klists [OF zi] pool_okD(1) [OF ok]] em al(1) pa(1)
    by (simp add: slice_alloc_def alloc_pages_def NUM_ZONES_def nobjs_of_def [symmetric] Let_def s'_def w_def u_def)
  show thesis
  proof (rule that)
    show "L' (PagesActive p) = [PgList (0, k)]" by (simp add: L'_def)
  qed (fact kt g inv' sa [unfolded u_def] gt [unfolded u_def] ws [unfolded w_def u_def])+
qed

lemma alloc_fresh:
  assumes inv: "slab_inv s H L P" and p: "p \<in> P" and em: "L (PagesActive p) = []"
    and fl: "find_level (kmm s) 0 0 = Some i"
  shows "\<exists>s' a L'. slice_alloc s p = Some (s', Some a) \<and> slab_inv s' H L' P \<and> got s L s' L' P p a"
  by (rule alloc_fresh_page [OF assms]) blast

lemma alloc_nopage:
  assumes inv: "slab_inv s H L P" and p: "p \<in> P" and em: "L (PagesActive p) = []"
    and fl: "find_level (kmm s) 0 0 = None"
  shows "slice_alloc s p = Some (s, None)"
proof -
  note ok = slab_invD(3) [OF inv p] and zi = slab_invD(1) [OF inv]
  show ?thesis
    using pool_okD(3) [OF ok] klists_empty [OF zone_inv_klists [OF zi] pool_okD(1) [OF ok]] em
      alloc_pages_zone_none [OF zi fl]
    by (simp add: slice_alloc_def alloc_pages_def NUM_ZONES_def Let_def)
qed

section \<open>Release\<close>

lemma find_page_from_list:
  assumes "kseg (lists m) n xs l" and "l \<notin> set xs" and "\<forall>x\<in>set xs. \<exists>j. x = PgList (0, j)"
  shows "find_page_from m l a (next (lists m) n) =
    Some (map_option (\<lambda>x. case x of PgList pg \<Rightarrow> pg | _ \<Rightarrow> (0, 0))
      (find (\<lambda>x. case x of PgList pg \<Rightarrow> page_to_addr m pg = a | _ \<Rightarrow> False) xs))"
  using assms
proof (induction xs arbitrary: n)
  case Nil
  then show ?case by (simp add: find_page_from.simps)
next
  case (Cons x xs)
  then obtain j where x: "x = PgList (0, j)" by auto
  have nx: "next (lists m) n = x" "kseg (lists m) x xs l" using Cons.prems(1) by auto
  show ?case
    using Cons nx x by (subst find_page_from.simps) auto
qed

lemma find_page_ring:
  assumes kl: "klist (lists m) l xs" and xs: "\<forall>x\<in>set xs. \<exists>j<total_pages (mem_zone m 0). x = PgList (0, j)"
    and m: "zone_geom m" "zone_pages_ok m 0" and k: "k < total_pages (mem_zone m 0)"
  shows "find_page m l (of_nat (page_base m k)) = Some (if PgList (0, k) \<in> set xs then Some (0, k) else None)"
proof -
  let ?f = "\<lambda>x. case x of PgList pg \<Rightarrow> page_to_addr m pg = of_nat (page_base m k) | _ \<Rightarrow> False"
  have eq: "?f x \<longleftrightarrow> x = PgList (0, k)" if x: "x \<in> set xs" for x
  proof -
    obtain j where j: "j < total_pages (mem_zone m 0)" "x = PgList (0, j)" using xs x by blast
    have "page_to_addr m (0, j) = of_nat (page_base m k) \<longleftrightarrow> page_base m j = page_base m k"
      using page_addr(1,2) [OF m j(1)] page_addr(1,2) [OF m k] by metis
    then show ?thesis using j(2) page_base_inj by simp
  qed
  have "find ?f xs = (if PgList (0, k) \<in> set xs then Some (PgList (0, k)) else None)"
  proof (cases "PgList (0, k) \<in> set xs")
    case True
    then obtain y where "find ?f xs = Some y" using eq by (metis (no_types, lifting) find_None_iff not_None_eq)
    moreover from this have "?f y" "y \<in> set xs" by (auto simp: find_Some_iff)
    ultimately show ?thesis using True eq by simp
  next
    case False
    then show ?thesis using eq by (auto simp: find_None_iff)
  qed
  moreover have "\<forall>x\<in>set xs. \<exists>j. x = PgList (0, j)" using xs by blast
  ultimately show ?thesis
    using find_page_from_list [of m l xs l "of_nat (page_base m k)"] kl
    by (auto simp: find_page_def klist_def)
qed

lemma NOPAGE_MASK_eq: "NOPAGE_MASK = NOT (mask 12)"
  by (simp add: NOPAGE_MASK_def PAGE_MASK_def mask_eq_exp_minus_1)

lemma object_page:
  assumes "unat sl = A + d" and "A mod 4096 = 0" and "d < 4096"
  shows "sl AND NOPAGE_MASK = of_nat A" and "unat (sl - (sl AND NOPAGE_MASK)) = d"
proof -
  have "(A + d) div 4096 * 4096 = A" using assms(2,3) by (auto simp: mod_0_imp_dvd)
  then have u: "unat (sl AND NOPAGE_MASK) = A"
    using and_not_mask_div [of sl 12] by (simp add: NOPAGE_MASK_eq assms(1))
  then show "sl AND NOPAGE_MASK = of_nat A" by auto
  have "unat (sl AND NOPAGE_MASK) \<le> unat sl" using u assms(1) by simp
  then show "unat (sl - (sl AND NOPAGE_MASK)) = d" using u assms(1) by (simp add: unat_sub word_le_nat_alt)
qed

lemma ps_lost:
  assumes st: "page_step s s' H L L' P p k" and b: "b < nobjs_of s p" "pbit s p k b"
    and bits: "\<And>c. c < nobjs_of s p \<Longrightarrow> pbit s' p k c \<longleftrightarrow> c \<noteq> b \<and> pbit s p k c"
  shows "live s' L' p = live s L p - {page_base (kmm s) k + b * obj_size (pools s p)}"
proof -
  note ok = ps_ok [OF st]
  let ?a = "page_base (kmm s) k + b * obj_size (pools s p)"
  have new: "page_objs s' p k = page_objs s p k - {?a}"
    using bits object_unique [OF ok _ b(1), of _ "kmm s" k k]
    by (auto simp: page_objs_def same_geom_simps [OF ps_geom [OF st]])
  have "page_objs s p k \<subseteq> live s L p" using ps_k [OF st] by (auto simp: live_eq)
  moreover have "?a \<in> page_objs s p k" using b by (auto simp: page_objs_def)
  ultimately show ?thesis unfolding ps_live [OF st] new by blast
qed

lemma slice_free_spec:
  assumes inv: "slab_inv s H L P" and p: "p \<in> P" and a: "unat sl \<in> live s L p"
  shows "\<exists>s' L'. slice_free s sl p = Some s' \<and> slab_inv s' H L' P \<and> live s' L' p = live s L p - {unat sl} \<and>
    (\<forall>q\<in>P - {p}. live s' L' q = live s L q)"
proof -
  note ok = slab_invD(3) [OF inv p] and zi = slab_invD(1) [OF inv] and zg = slab_invD(2) [OF inv]
  note kl = zone_inv_klists [OF zi] and zp = zone_inv_pages [OF zi]
  let ?o = "obj_size (pools s p)" and ?n = "nobjs_of s p"
  obtain k b where kb: "unat sl = page_base (kmm s) k + b * ?o" "PgList (0, k) \<in> pool_nodes L p" "b < ?n" "pbit s p k b"
    using a by (auto simp: live_def)
  have k: "k < total_pages (mem_zone (kmm s) 0)" using pool_okD(4) [OF ok kb(2)] by auto
  let ?A = "page_base (kmm s) k"
  let ?d = "bmask_at (of_nat ?A) ?n"
  have n4: "?n \<le> 4096" by (rule nobjs_bounds(2) [OF ok])
  have bo: "b * ?o < 4096"
    using object_address(3) [OF inv ok k kb(3)] pool_okD(3) [OF ok] unfolding PAGE_SIZE_def by linarith
  have m0: "?A mod 4096 = 0" using page_base_mod [OF zg, of k] by (simp add: PAGE_SIZE_def)
  note pg1 = object_page(1) [OF kb(1) m0 bo]
  have "unat (sl - of_nat ?A) = b * ?o" using object_page(2) [OF kb(1) m0 bo] unfolding pg1 .
  then have pg: "sl AND NOPAGE_MASK = of_nat ?A" "unat (sl - of_nat ?A) div ?o = b"
    using pg1 pool_okD(3) [OF ok] by simp_all
  define w where "w = bitmap_bit_clear ?d b (wmem s)"
  have nodes: "\<forall>x\<in>set (L l). \<exists>j<total_pages (mem_zone (kmm s) 0). x = PgList (0, j)" if "l = PagesActive p \<or> l = PagesInactive p" for l
    using that pool_okD(4) [OF ok] by (auto simp: pool_nodes_def)
  have fpI: "find_page (kmm s) (PagesInactive p) (of_nat ?A) = Some (if PgList (0, k) \<in> set (L (PagesInactive p)) then Some (0, k) else None)"
    by (rule find_page_ring [OF klistsD [OF kl pool_okD(2) [OF ok]] nodes zg zp k]) simp
  have fpA: "find_page (kmm s) (PagesActive p) (of_nat ?A) = Some (if PgList (0, k) \<in> set (L (PagesActive p)) then Some (0, k) else None)"
    by (rule find_page_ring [OF klistsD [OF kl pool_okD(1) [OF ok]] nodes zg zp k]) simp
  define inact where "inact \<longleftrightarrow> PgList (0, k) \<in> set (L (PagesInactive p))"
  define h' where "h' = (if inact then klist0_append (PgList (0, k)) (PagesActive p) (klist0_unlink (PgList (0, k)) (lists (kmm s))) else lists (kmm s))"
  define s' where "s' = set_lists h' (s\<lparr>wmem := w\<rparr>)"
  obtain xs ys where xy: "inact \<Longrightarrow> L (PagesInactive p) = xs @ PgList (0, k) # ys"
    unfolding inact_def by (meson split_list)
  define L' where "L' = (if inact then L(PagesInactive p := xs @ ys, PagesActive p := PgList (0, k) # L (PagesActive p)) else L)"
  have eq: "slice_free s sl p = Some s'"
    using pool_okD(3) [OF ok] pg fpI fpA kb(2)
    by (auto simp: slice_free_def nobjs_of_def [symmetric] Let_def s'_def h'_def inact_def w_def set_lists_def pool_nodes_def)
  have g: "same_geom s s'" by (simp add: same_geom_def s'_def set_lists_def)
  have ws: "wmem s' = w" by (simp add: s'_def set_lists_def)
  have bits: "pbit s' p k c \<longleftrightarrow> c \<noteq> b \<and> pbit s p k c" if "c < ?n" for c
    unfolding pbit_def same_geom_simps(1,2) [OF g] ws w_def using that kb(3) n4 by (intro bm_clear) simp_all
  have nH: "PgList (0, k) \<notin> H" by (rule zone_inv_heads [OF zi])
  have kl': "klists h' H L'"
    using kl klists_move [OF kl pool_okD(2,1) [OF ok] _ xy nH] by (simp add: h'_def L'_def)
  have st: "page_step s s' H L L' P p k"
    unfolding page_step_def
  proof (intro conjI allI impI)
    show "\<exists>h. kmm s' = (kmm s)\<lparr>lists := h\<rparr>" by (simp add: s'_def set_lists_def) blast
    show "klists (lists (kmm s')) H L'" using kl' by (simp add: s'_def set_lists_def)
    show "wmem s' x = wmem s x" if "x \<notin> tail1 ?A" for x
      unfolding ws w_def using bit_set_touches(2) [OF page_addr(3) [OF zg zp k] n4 kb(3) that] .
    show "\<exists>c<?n. \<not> pbit s' p k c" using bits [OF kb(3)] kb(3) by blast
    show "pbit s' p k c" if "PgList (0, k) \<in> set (L' (PagesInactive p))" for c
      using that xy klist_distinct [OF klistsD [OF kl pool_okD(2) [OF ok]]] inact_def
      by (auto simp: L'_def split: if_splits)
  qed (use inv p g kb(2) xy in \<open>auto simp: L'_def pool_nodes_def\<close>)
  show ?thesis
    using eq ps_slab_inv [OF st] ps_lost [OF st kb(3,4) bits] ps_pools_q(2) [OF st] kb(1) by auto
qed

section \<open>Creating a pool\<close>

lemma klists_two_init:
  assumes kl: "klists h H L" and ab: "a \<noteq> b" and out: "\<And>l. l \<in> H \<Longrightarrow> a \<notin> ring L l \<and> b \<notin> ring L l"
  shows "klists (KLIST0_INIT a (KLIST0_INIT b h)) (insert a (insert b H)) (L(b := [], a := []))"
proof (rule klists_init)
  show "klists (KLIST0_INIT b h) (insert b H) (L(b := []))"
    using kl out by (rule klists_init [OF _ conjunct2])
  show "a \<notin> ring (L(b := [])) l" if "l \<in> insert b H" for l
    using that ab out [of l] by (cases "l = b") (simp_all add: ring_def)
qed

lemma head_not_in_rings:
  assumes inv: "slab_inv s H L P" and c: "c \<notin> H" "\<And>x. c \<noteq> PgList x" and l: "l \<in> H"
  shows "c \<notin> ring L l"
proof -
  have H: "H = levels 0 \<union> PagesActive ` P \<union> PagesInactive ` P"
    using slab_invD(4) [OF inv] by (simp add: homes_ok_def)
  have "\<exists>x. n = PgList x" if n: "n \<in> set (L l)" for n
  proof (cases "l \<in> levels 0")
    case True
    then obtain i where i: "l = Level 0 i" "i < MAX_ORDER" by (auto simp: levels_def)
    then show ?thesis
      using members_okD [OF zone_inv_members [OF slab_invD(1) [OF inv]] i(2), of n] n by blast
  next
    case False
    then obtain q where q: "q \<in> P" "l = PagesActive q \<or> l = PagesInactive q" using l H by blast
    then have "n \<in> pool_nodes L q" using n by (auto simp: pool_nodes_def)
    then show ?thesis using pool_okD(4) [OF slab_invD(3) [OF inv q(1)]] by blast
  qed
  then show ?thesis using c l by (auto simp: ring_def)
qed

lemma page_nodes_kept:
  assumes "page_nodes_ok m N" and "mem_zone m' = mem_zone m" and "orders_kept m m' A"
    and "\<And>k. PgList (0, k) \<in> N \<Longrightarrow> k \<notin> A"
  shows "page_nodes_ok m' N"
  using assms unfolding page_nodes_ok_def orders_kept_def by metis

lemma slice_pool_create_spec:
  assumes inv: "slab_inv s H L P" and o: "0 < osz" "osz \<le> PAGE_SIZE div 2 - 4" and fl: "find_level (kmm s) 0 0 = Some i"
    and b0: "unat (base (mem_zone (kmm s) 0)) \<noteq> 0"
  shows "\<exists>s' pg H' L'. slice_pool_create s 0 osz = Some (s', Some pg) \<and> slab_inv s' H' L' (insert pg P) \<and> pg \<notin> P \<and>
    live s' L' pg = {} \<and> (\<forall>q\<in>P. live s' L' q = live s L q) \<and> obj_size (pools s' pg) = osz \<and>
    L' (PagesActive pg) = [] \<and> (\<exists>k. free_set L' 0 = free_set L 0 - {k}) \<and> mem_zone (kmm s') = mem_zone (kmm s)"
proof -
  note zi = slab_invD(1) [OF inv] and zg = slab_invD(2) [OF inv] and hm = slab_invD(4) [OF inv]
  have H: "H = levels 0 \<union> PagesActive ` P \<union> PagesInactive ` P" using hm by (simp add: homes_ok_def)
  obtain m1 k L1 where al: "alloc_pages_zone (kmm s) 0 0 = Some (m1, Some (0, k))" "zone_inv m1 H L1 0"
      "pile_ok (kmm s) 0 0 k" "pile_pages 0 k \<subseteq> free_set L 0" "free_set L1 0 = free_set L 0 - pile_pages 0 k"
      "pg_order (p_pool m1 (0, k)) = 0" "off_levels 0 L L1" "mm_same (kmm s) m1 0 (free_set L 0)"
    using alloc_pages_zone_some [OF zi fl] by blast
  have kf: "k \<in> free_set L 0" "k \<notin> free_set L1 0" using al(4,5) by (auto simp: pile_pages_def)
  have kt: "k < total_pages (mem_zone (kmm s) 0)" using al(3) by (simp add: pile_ok_def)
  have len1: "lent H L1 0 = lent H L 0" by (rule off_levels_lent [OF al(7)])
  have mz: "mem_zone m1 = mem_zone (kmm s)" using al(8) by (simp add: mm_same_def)
  have pb: "page_base m1 = page_base (kmm s)" by (simp add: page_base_def mz fun_eq_iff)
  define pg :: u32 where "pg = of_nat (page_base (kmm s) k)"
  have pa: "page_to_addr m1 (0, k) = pg" "unat pg = page_base (kmm s) k" "pg \<noteq> 0"
  proof -
    have g1: "zone_geom m1" using zg by (simp add: zone_geom_def mz)
    show e: "page_to_addr m1 (0, k) = pg" "unat pg = page_base (kmm s) k"
      using page_addr(1,2) [OF g1 zone_inv_pages [OF al(2)]] kt by (simp_all add: mz pb pg_def)
    show "pg \<noteq> 0" using e(2) b0 by (metis add_is_0 page_base_def unat_0)
  qed
  have pP: "pg \<notin> P"
  proof
    assume "pg \<in> P"
    then obtain j where j: "j < total_pages (mem_zone (kmm s) 0)" "pg = of_nat (page_base (kmm s) j)" "j \<notin> free_set L 0"
      using hm by (auto simp: homes_ok_def)
    have "unat pg = page_base (kmm s) j"
      using page_addr(1,2) [OF zg zone_inv_pages [OF zi] j(1)] j(2) by simp
    then show False using pa(2) page_base_inj j(3) kf(1) by metis
  qed
  define H' where "H' = insert (PagesActive pg) (insert (PagesInactive pg) H)"
  define L' where "L' = L1(PagesInactive pg := [], PagesActive pg := [])"
  define h where "h = KLIST0_INIT (PagesActive pg) (KLIST0_INIT (PagesInactive pg) (lists m1))"
  define s' where "s' = s\<lparr>kmm := m1\<lparr>lists := h\<rparr>, pools := (pools s)(pg := \<lparr>obj_size = osz, sp_flags = 0\<rparr>),
      swamp := klist0_append (SliceList pg) Swamp (KLIST0_INIT (SliceList pg) (swamp s))\<rparr>"
  have eq: "slice_pool_create s 0 osz = Some (s', Some pg)"
    using o(2) al(1) pa(1,3)
    by (simp add: slice_pool_create_def get_pages_def alloc_pages_def NUM_ZONES_def Let_def s'_def h_def)
  have newH: "PagesActive pg \<notin> H" "PagesInactive pg \<notin> H" using pP by (auto simp: H levels_def)
  have L1: "L1 l = L l" if "l \<notin> levels 0" for l using al(7) that by (simp add: off_levels_def)
  have ring1: "c \<notin> ring L1 l" if "c \<notin> H" "\<And>x. c \<noteq> PgList x" "l \<in> H" for c l
  proof (cases "l \<in> levels 0")
    case True
    then obtain i where i: "l = Level 0 i" "i < MAX_ORDER" by (auto simp: levels_def)
    show ?thesis using members_okD [OF zone_inv_members [OF al(2)] i(2)] that i(1) by (auto simp: ring_def)
  next
    case False
    then show ?thesis using head_not_in_rings [OF inv that] by (simp add: ring_def L1)
  qed
  have kl': "klists h H' L'"
    unfolding h_def H'_def L'_def using newH ring1 by (intro klists_two_init [OF zone_inv_klists [OF al(2)]]) auto
  have same: "L' l = L1 l" if "l \<in> H" for l using that newH by (auto simp: L'_def)
  have lent': "lent H' L' 0 = lent H L 0"
  proof -
    have "(\<exists>l\<in>H' - levels 0. PgList (0, m) \<in> set (L' l)) \<longleftrightarrow> (\<exists>l\<in>H - levels 0. PgList (0, m) \<in> set (L1 l))" for m
    proof -
      have "L' (PagesActive pg) = []" "L' (PagesInactive pg) = []" by (simp_all add: L'_def)
      then have "l \<in> H" if "l \<in> H'" "PgList (0, m) \<in> set (L' l)" for l
        using that unfolding H'_def by (metis empty_iff empty_set insertE)
      then show ?thesis using same unfolding H'_def by (metis DiffD1 DiffD2 DiffI insertCI)
    qed
    then show ?thesis using len1 by (simp add: lent_def)
  qed
  have sl: "same_levels 0 L1 L'" by (simp add: same_levels_def L'_def)
  have zi': "zone_inv (kmm s') H' L' 0"
    using zone_inv_grow [OF al(2) sl kl'] zone_inv_heads [OF zi] zone_inv_lent [OF al(2)] lent' len1
    by (auto simp: s'_def H'_def)
  have q: "pool_ok s' H' L' q \<and> live s' L' q = live s L q" if qP: "q \<in> P" for q
  proof -
    note ok = slab_invD(3) [OF inv qP]
    have ne: "q \<noteq> pg" using pP qP by blast
    have qH: "PagesActive q \<in> H" "PagesInactive q \<in> H" using pool_okD(1,2) [OF ok] .
    have Lq: "L' (PagesActive q) = L (PagesActive q)" "L' (PagesInactive q) = L (PagesInactive q)"
      using same [OF qH(1)] same [OF qH(2)] L1 by (auto simp: levels_def)
    have nq: "nobjs_of s' q = nobjs_of s q" "pools s' q = pools s q" using ne by (simp_all add: nobjs_of_def s'_def)
    have kw: "page_base (kmm s') = page_base (kmm s)" "wmem s' = wmem s"
      by (simp_all add: s'_def page_base_def mz fun_eq_iff)
    have pbq: "pbit s' q = pbit s q" by (simp add: pbit_def nq kw fun_eq_iff)
    have "page_nodes_ok (kmm s') (pool_nodes L q)"
    proof (rule page_nodes_kept)
      show "page_nodes_ok (kmm s) (pool_nodes L q)" using ok by (simp add: pool_ok_def)
      show "mem_zone (kmm s') = mem_zone (kmm s)" by (simp add: s'_def mz)
      show "orders_kept (kmm s) (kmm s') (free_set L 0)" using al(8) by (simp add: orders_kept_def s'_def mm_same_def)
      show "j \<notin> free_set L 0" if "PgList (0, j) \<in> pool_nodes L q" for j
        using pool_node_lent [OF that ok] zone_inv_lent [OF zi] by blast
    qed
    then show ?thesis
      using ok by (simp add: pool_ok_def H'_def pool_nodes_def Lq nq pbq live_def kw)
  qed
  have "pool_ok s' H' L' pg" using o by (simp add: pool_ok_def H'_def L'_def pool_nodes_def page_nodes_ok_def s'_def)
  moreover have "homes_ok (kmm s') H' L' (insert pg P)"
    unfolding homes_ok_def
  proof (intro conjI ballI)
    show "H' = levels 0 \<union> PagesActive ` insert pg P \<union> PagesInactive ` insert pg P" by (auto simp: H'_def H)
    have F: "free_set L' 0 = free_set L 0 - {k}" using free_set_same [OF sl] al(5) by (auto simp: pile_pages_def)
    have mz': "mem_zone (kmm s') = mem_zone (kmm s)" "page_base (kmm s') = page_base (kmm s)"
      by (simp_all add: s'_def mz page_base_def fun_eq_iff)
    show "\<exists>j<total_pages (mem_zone (kmm s') 0). r = of_nat (page_base (kmm s') j) \<and> j \<notin> free_set L' 0 \<and> j \<notin> lent H' L' 0"
      if "r \<in> insert pg P" for r
    proof (cases "r = pg")
      case True
      then show ?thesis using kt zone_inv_lent [OF zi] kf(1) by (intro exI [of _ k]) (auto simp: mz' F lent' pg_def)
    next
      case False
      then show ?thesis using that hm by (auto simp: homes_ok_def mz' F lent')
    qed
  qed
  ultimately have "slab_inv s' H' L' (insert pg P)"
    using zi' zg q by (auto simp: slab_inv_def s'_def zone_geom_def mz)
  moreover have "live s' L' pg = {}" by (simp add: live_def pool_nodes_def L'_def)
  moreover have "obj_size (pools s' pg) = osz" by (simp add: s'_def)
  moreover have "L' (PagesActive pg) = []" by (simp add: L'_def)
  moreover have "mem_zone (kmm s') = mem_zone (kmm s)" by (simp add: s'_def mz)
  moreover have "free_set L' 0 = free_set L 0 - {k}" using free_set_same [OF sl] al(5) by (auto simp: pile_pages_def)
  ultimately show ?thesis
    using eq pP q by (intro exI [of _ s'] exI [of _ pg] exI [of _ H'] exI [of _ L']) auto
qed

section \<open>The contract of an object pool\<close>

text \<open>
  What a client of one pool relies on: allocation returns and hands out an address that is not in
  use unless the pool is exhausted, release of an address in use returns and frees exactly that one.
\<close>

locale object_pool =
  fixes ok :: "'s \<Rightarrow> bool" and used :: "'s \<Rightarrow> nat set" and exhausted :: "'s \<Rightarrow> bool"
    and alloc :: "'s \<Rightarrow> ('s \<times> u32 option) option" and release :: "'s \<Rightarrow> u32 \<Rightarrow> 's option"
  assumes alloc_law: "ok s \<Longrightarrow> \<exists>s' r. alloc s = Some (s', r) \<and> ok s' \<and> (r = None \<longleftrightarrow> exhausted s) \<and>
      (case r of None \<Rightarrow> used s' = used s | Some a \<Rightarrow> unat a \<notin> used s \<and> unat a \<in> used s' \<and> used s \<subseteq> used s')"
    and release_law: "ok s \<Longrightarrow> unat a \<in> used s \<Longrightarrow> \<exists>s'. release s a = Some s' \<and> ok s' \<and> used s' = used s - {unat a}"
begin

fun alloc_many :: "nat \<Rightarrow> 's \<Rightarrow> ('s \<times> u32 option list) option" where
  "alloc_many 0 s = Some (s, [])"
| "alloc_many (Suc n) s = do { (s1, r) \<leftarrow> alloc s; (s2, rs) \<leftarrow> alloc_many n s1; Some (s2, r # rs) }"

text \<open>Any number of allocations in a row return, and the addresses they give are pairwise distinct.\<close>

lemma alloc_many_distinct:
  assumes "ok s"
  shows "\<exists>s' rs. alloc_many n s = Some (s', rs) \<and> ok s' \<and> length rs = n \<and>
    distinct [unat a. Some a \<leftarrow> rs] \<and> set [unat a. Some a \<leftarrow> rs] \<subseteq> used s' - used s \<and> used s \<subseteq> used s'"
  using assms
proof (induction n arbitrary: s)
  case 0
  then show ?case by simp
next
  case (Suc n)
  obtain s1 r where r: "alloc s = Some (s1, r)" "ok s1"
      "case r of None \<Rightarrow> used s1 = used s | Some a \<Rightarrow> unat a \<notin> used s \<and> unat a \<in> used s1 \<and> used s \<subseteq> used s1"
    using alloc_law [OF Suc.prems] by blast
  obtain s2 rs where rs: "alloc_many n s1 = Some (s2, rs)" "ok s2" "length rs = n" "distinct [unat a. Some a \<leftarrow> rs]"
      "set [unat a. Some a \<leftarrow> rs] \<subseteq> used s2 - used s1" "used s1 \<subseteq> used s2"
    using Suc.IH [OF r(2)] by blast
  show ?case
  proof (cases r)
    case None
    then show ?thesis using r rs by auto
  next
    case (Some a)
    then show ?thesis using r rs by (intro exI [of _ s2] exI [of _ "r # rs"]) auto
  qed
qed

lemma alloc_release_used:
  assumes "ok s" and "alloc s = Some (s', Some a)"
  shows "\<exists>s''. release s' a = Some s'' \<and> ok s'' \<and> used s \<subseteq> used s'' \<and> unat a \<notin> used s''"
proof -
  have "ok s'" "unat a \<notin> used s" "unat a \<in> used s'" "used s \<subseteq> used s'"
    using alloc_law [OF assms(1)] assms(2) by auto
  then show ?thesis using release_law [of s' a] by blast
qed

end

definition slab_ok :: "u32 set \<Rightarrow> slab \<Rightarrow> bool" where
  "slab_ok P s \<longleftrightarrow> (\<exists>H L. slab_inv s H L P)"

text \<open>The addresses in use, read off the lists of the pool and the bitmaps.\<close>

definition slab_used :: "u32 \<Rightarrow> slab \<Rightarrow> nat set" where
  "slab_used p s = {page_base (kmm s) k + b * obj_size (pools s p) | k b.
     (\<exists>l\<in>{PagesActive p, PagesInactive p}. \<exists>ns. klist0_for_each (lists (kmm s)) l = Some ns \<and> PgList (0, k) \<in> set ns) \<and>
     b < nobjs_of s p \<and> pbit s p k b}"

lemma slab_used_eq:
  assumes inv: "slab_inv s H L P" and p: "p \<in> P"
  shows "slab_used p s = live s L p"
proof -
  note fe = klists_for_each [OF zone_inv_klists [OF slab_invD(1) [OF inv]]]
  have "(\<exists>l\<in>{PagesActive p, PagesInactive p}. \<exists>ns. klist0_for_each (lists (kmm s)) l = Some ns \<and> PgList (0, k) \<in> set ns)
      \<longleftrightarrow> PgList (0, k) \<in> pool_nodes L p" for k
    using fe [OF pool_okD(1) [OF slab_invD(3) [OF inv p]]] fe [OF pool_okD(2) [OF slab_invD(3) [OF inv p]]]
    by (simp add: pool_nodes_def)
  then show ?thesis by (simp add: slab_used_def live_def)
qed

lemma slice_alloc_geom:
  assumes inv: "slab_inv s H L P" and p: "p \<in> P" and a: "slice_alloc s p = Some (s', r)"
  shows "same_geom s s'"
proof (cases "L (PagesActive p) = []")
  case em: True
  show ?thesis
  proof (cases "find_level (kmm s) 0 0")
    case None
    then show ?thesis using alloc_nopage [OF inv p em] a by (simp add: same_geom_def)
  next
    case (Some i)
    show ?thesis by (rule alloc_fresh_page [OF inv p em Some]) (use a in simp)
  qed
next
  case False
  show ?thesis by (rule alloc_lowest [OF inv p False]) (use a in simp)
qed

text \<open>
  A pool is exhausted when every object of its pages is in use and no level of the zone has a free page.
\<close>

definition exhausted :: "u32 \<Rightarrow> slab \<Rightarrow> bool" where
  "exhausted p s \<longleftrightarrow>
    (\<forall>l\<in>{PagesActive p, PagesInactive p}. \<forall>ns k b. klist0_for_each (lists (kmm s)) l = Some ns \<longrightarrow>
       PgList (0, k) \<in> set ns \<longrightarrow> b < nobjs_of s p \<longrightarrow> pbit s p k b) \<and>
    (\<forall>i<MAX_ORDER. klist0_empty (Level 0 i) (lists (kmm s)))"

lemma exhausted_eq:
  assumes inv: "slab_inv s H L P" and p: "p \<in> P"
  shows "exhausted p s \<longleftrightarrow> L (PagesActive p) = [] \<and> find_level (kmm s) 0 0 = None"
proof -
  note ok = slab_invD(3) [OF inv p] and zi = slab_invD(1) [OF inv]
  note kl = zone_inv_klists [OF zi]
  note fe = klists_for_each [OF kl pool_okD(1) [OF ok]] klists_for_each [OF kl pool_okD(2) [OF ok]]
  have "Level 0 i \<in> H" if "i < MAX_ORDER" for i using slab_invD(4) [OF inv] that by (auto simp: homes_ok_def levels_def)
  then have lv: "(\<forall>i<MAX_ORDER. klist0_empty (Level 0 i) (lists (kmm s))) \<longleftrightarrow> (\<forall>i<MAX_ORDER. L (Level 0 i) = [])"
    using klists_empty [OF kl] by auto
  have pg: "\<exists>k. n = PgList (0, k)" if "n \<in> set (L (PagesActive p))" for n
    using pool_okD(4) [OF ok, of n] that by (auto simp: pool_nodes_def)
  have "(\<forall>l\<in>{PagesActive p, PagesInactive p}. \<forall>ns k b. klist0_for_each (lists (kmm s)) l = Some ns \<longrightarrow>
       PgList (0, k) \<in> set ns \<longrightarrow> b < nobjs_of s p \<longrightarrow> pbit s p k b) \<longleftrightarrow> L (PagesActive p) = []"
    (is "?full \<longleftrightarrow> _")
  proof
    assume f: ?full
    show "L (PagesActive p) = []"
    proof (rule ccontr)
      assume "L (PagesActive p) \<noteq> []"
      then obtain k where k: "PgList (0, k) \<in> set (L (PagesActive p))" using pg hd_in_set by metis
      then obtain b where "b < nobjs_of s p" "\<not> pbit s p k b" using pool_okD(5) [OF ok] by blast
      then show False using f fe(1) k by simp
    qed
  next
    assume "L (PagesActive p) = []"
    then show ?full using fe pool_okD(6) [OF ok] by auto
  qed
  then show ?thesis
    using find_level_spec [OF zi, of 0] lv by (auto simp: exhausted_def split: option.splits)
qed

lemma slice_alloc_spec:
  assumes inv: "slab_inv s H L P" and p: "p \<in> P"
  shows "\<exists>s' r L'. slice_alloc s p = Some (s', r) \<and> slab_inv s' H L' P \<and> (r = None \<longleftrightarrow> exhausted p s) \<and>
    (case r of None \<Rightarrow> s' = s \<and> L' = L | Some a \<Rightarrow> got s L s' L' P p a)"
proof (cases "L (PagesActive p) = []")
  case em: True
  show ?thesis
  proof (cases "find_level (kmm s) 0 0")
    case None
    then show ?thesis using alloc_nopage [OF inv p em] inv em exhausted_eq [OF inv p] by auto
  next
    case (Some i)
    then show ?thesis using alloc_fresh [OF inv p em] exhausted_eq [OF inv p] by fastforce
  qed
next
  case False
  then show ?thesis using alloc_active [OF inv p] exhausted_eq [OF inv p] by fastforce
qed

lemma slab_alloc_law:
  assumes "slab_ok P s" and "p \<in> P"
  shows "\<exists>s' r. slice_alloc s p = Some (s', r) \<and> slab_ok P s' \<and> (r = None \<longleftrightarrow> exhausted p s) \<and>
    (case r of
       None \<Rightarrow> s' = s
     | Some a \<Rightarrow> unat a \<notin> slab_used p s \<and> unat a \<in> slab_used p s' \<and> slab_used p s \<subseteq> slab_used p s' \<and>
         (\<forall>q\<in>P - {p}. slab_used q s' = slab_used q s) \<and>
         unat a mod PAGE_SIZE + obj_size (pools s p) \<le> PAGE_SIZE)"
proof -
  obtain H L where inv: "slab_inv s H L P" using assms(1) by (auto simp: slab_ok_def)
  obtain s' r L' where a: "slice_alloc s p = Some (s', r)" "slab_inv s' H L' P" "r = None \<longleftrightarrow> exhausted p s"
      "case r of None \<Rightarrow> s' = s \<and> L' = L | Some a \<Rightarrow> got s L s' L' P p a"
    using slice_alloc_spec [OF inv assms(2)] by blast
  have "slab_ok P s'" using a(2) by (auto simp: slab_ok_def)
  moreover have "slab_used q s = live s L q" "slab_used q s' = live s' L' q" if "q \<in> P" for q
    using slab_used_eq [OF inv that] slab_used_eq [OF a(2) that] by simp_all
  ultimately show ?thesis
    using a assms(2) by (cases r) (simp_all add: got_def)
qed

lemma slab_free_law:
  assumes "slab_ok P s" and "p \<in> P" and "unat a \<in> slab_used p s"
  shows "\<exists>s'. slice_free s a p = Some s' \<and> slab_ok P s' \<and> slab_used p s' = slab_used p s - {unat a} \<and>
    (\<forall>q\<in>P - {p}. slab_used q s' = slab_used q s)"
proof -
  obtain H L where inv: "slab_inv s H L P" using assms(1) by (auto simp: slab_ok_def)
  have "unat a \<in> live s L p" using assms(3) slab_used_eq [OF inv assms(2)] by simp
  then obtain s' L' where f: "slice_free s a p = Some s'" "slab_inv s' H L' P" "live s' L' p = live s L p - {unat a}"
      "\<forall>q\<in>P - {p}. live s' L' q = live s L q"
    using slice_free_spec [OF inv assms(2)] by blast
  have "slab_ok P s'" using f(2) by (auto simp: slab_ok_def)
  moreover have "slab_used q s = live s L q" "slab_used q s' = live s' L' q" if "q \<in> P" for q
    using slab_used_eq [OF inv that] slab_used_eq [OF f(2) that] by simp_all
  ultimately show ?thesis
    using f assms(2) by simp
qed

interpretation sp: object_pool "\<lambda>s. slab_ok P s \<and> p \<in> P" "slab_used p" "exhausted p" "\<lambda>s. slice_alloc s p" "\<lambda>s a. slice_free s a p" for P p
proof
  fix s
  assume "slab_ok P s \<and> p \<in> P"
  then show "\<exists>s' r. slice_alloc s p = Some (s', r) \<and> (slab_ok P s' \<and> p \<in> P) \<and> (r = None \<longleftrightarrow> exhausted p s) \<and>
      (case r of None \<Rightarrow> slab_used p s' = slab_used p s
       | Some a \<Rightarrow> unat a \<notin> slab_used p s \<and> unat a \<in> slab_used p s' \<and> slab_used p s \<subseteq> slab_used p s')"
    using slab_alloc_law [of P s p] by (elim conjE) (fastforce split: option.splits)
next
  fix s and a :: u32
  assume "slab_ok P s \<and> p \<in> P" and "unat a \<in> slab_used p s"
  then show "\<exists>s'. slice_free s a p = Some s' \<and> (slab_ok P s' \<and> p \<in> P) \<and> slab_used p s' = slab_used p s - {unat a}"
    using slab_free_law [of P s p a] by blast
qed

section \<open>Properties of the slice pools\<close>

text \<open>A concrete state: a zone of 100 pages and no pools yet.\<close>

definition boot_slab :: slab where
  "boot_slab = \<lparr>kmm = mem_zone_init 0 boot_state, wmem = \<lambda>_. 0, pools = \<lambda>_. \<lparr>obj_size = 0, sp_flags = 0\<rparr>,
     swamp = KLIST0_INIT Swamp \<lparr>prev = id, next = id\<rparr>\<rparr>"

lemma boot_slab_inv: "\<exists>L. slab_inv boot_slab (levels 0) L {} \<and> free_set L 0 = {1..<100}"
proof -
  have "zone_clear boot_state {} (\<lambda>_. []) 0" by (simp add: zone_clear_def klists_def)
  then obtain L where L: "zone_inv (mem_zone_init 0 boot_state) ({} \<union> levels 0) L 0"
      "free_set L 0 = {consumed_pages (total_pages (mem_zone boot_state 0))..<total_pages (mem_zone boot_state 0)}"
    using mem_zone_init_spec by blast
  have "free_set L 0 = {1..<100}" using L(2) by (simp add: boot_state_def consumed_pages_def SIZEOF_PAGE_def PAGE_SIZE_def)
  moreover have "slab_inv boot_slab (levels 0) L {}"
    using L(1) by (simp add: slab_inv_def boot_slab_def homes_ok_def zone_geom_def mem_zone_init_frame)
      (simp add: boot_state_def PAGE_SIZE_def)
  ultimately show ?thesis by blast
qed

lemma free_find_level:
  assumes inv: "zone_inv s H L z" and "k \<in> free_set L z"
  shows "\<exists>i. find_level s z 0 = Some i"
proof (rule ccontr)
  assume "\<not> ?thesis"
  then have "\<forall>m. m < MAX_ORDER \<longrightarrow> L (Level z m) = []"
    using find_level_spec [OF inv, of 0] by (auto split: option.splits)
  then have "piles L z = {}" by (auto simp: piles_def)
  then show False using assms(2) by (simp add: free_set_def)
qed

lemma boot_pool_sized:
  assumes osz: "0 < osz" "osz \<le> 2044"
  shows "\<exists>s pg H L. slice_pool_create boot_slab 0 osz = Some (s, Some pg) \<and> slab_inv s H L {pg} \<and> obj_size (pools s pg) = osz \<and>
    L (PagesActive pg) = [] \<and> (\<exists>i. find_level (kmm s) 0 0 = Some i) \<and> \<not> exhausted pg s \<and> wmem s = (\<lambda>_. 0) \<and>
    base (mem_zone (kmm s) 0) \<noteq> 0"
proof -
  obtain L where L: "slab_inv boot_slab (levels 0) L {}" "free_set L 0 = {1..<100}" using boot_slab_inv by blast
  then obtain i where i: "find_level (kmm boot_slab) 0 0 = Some i"
    using free_find_level [OF slab_invD(1) [OF L(1)], of 1] by auto
  have b0: "unat (base (mem_zone (kmm boot_slab) 0)) \<noteq> 0"
    by (simp add: boot_slab_def mem_zone_init_frame) (simp add: boot_state_def)
  then obtain s pg H' L' k where c: "slice_pool_create boot_slab 0 osz = Some (s, Some pg)" "slab_inv s H' L' (insert pg {})"
      "obj_size (pools s pg) = osz" "L' (PagesActive pg) = []" "free_set L' 0 = free_set L 0 - {k}"
      "mem_zone (kmm s) = mem_zone (kmm boot_slab)"
    using slice_pool_create_spec [OF L(1) _ _ i, of osz] osz by (auto simp: PAGE_SIZE_def)
  have "1 \<in> free_set L' 0 \<or> 2 \<in> free_set L' 0" using c(5) L(2) by auto
  then have fl: "\<exists>i. find_level (kmm s) 0 0 = Some i" using free_find_level [OF slab_invD(1) [OF c(2)]] by blast
  then have "\<not> exhausted pg s" using exhausted_eq [OF c(2), of pg] by auto
  moreover have "wmem s = (\<lambda>_. 0)"
    using c(1) by (auto simp: slice_pool_create_def boot_slab_def Let_def split: Option.bind_splits if_splits prod.splits)
  moreover have "base (mem_zone (kmm s) 0) \<noteq> 0" using b0 c(6) by (auto simp: unat_eq_zero)
  ultimately show ?thesis using c fl by blast
qed

lemma boot_pool_inv:
  "\<exists>s pg H L. slice_pool_create boot_slab 0 32 = Some (s, Some pg) \<and> slab_inv s H L {pg} \<and> obj_size (pools s pg) = 32 \<and>
    L (PagesActive pg) = [] \<and> (\<exists>i. find_level (kmm s) 0 0 = Some i)"
  using boot_pool_sized [of 32] by (simp, blast)

text \<open>
  C16. \<^verbatim>\<open>slice_alloc\<close> always returns (its \<^verbatim>\<open>bug_on\<close> is never reached) and keeps the pools well formed.
  It returns NULL exactly when every object of the pool is in use and the zone has no free page, and then nothing
  changes.  Otherwise it hands out an object: the address was not in use and now is, no address in use before is
  lost, the other pools are untouched, and the object lies within its page.
\<close>

theorem slice_alloc_correct:
  assumes "slab_ok P s" and "p \<in> P"
  shows "\<exists>s' r. slice_alloc s p = Some (s', r) \<and> slab_ok P s' \<and> (r = None \<longleftrightarrow> exhausted p s) \<and>
    (case r of
       None \<Rightarrow> s' = s
     | Some a \<Rightarrow> unat a \<notin> slab_used p s \<and> unat a \<in> slab_used p s' \<and> slab_used p s \<subseteq> slab_used p s' \<and>
         (\<forall>q\<in>P - {p}. slab_used q s' = slab_used q s) \<and>
         unat a mod PAGE_SIZE + obj_size (pools s p) \<le> PAGE_SIZE)"
  using assms by (rule slab_alloc_law)

theorem slice_alloc_correct_witness:
  "\<exists>s pg s' a. slice_pool_create boot_slab 0 32 = Some (s, Some pg) \<and> slice_alloc s pg = Some (s', Some a) \<and> slab_ok {pg} s' \<and>
    unat a \<notin> slab_used pg s \<and> unat a \<in> slab_used pg s'"
proof -
  obtain s pg where c: "slice_pool_create boot_slab 0 32 = Some (s, Some pg)" "slab_ok {pg} s" "\<not> exhausted pg s"
    using boot_pool_sized [of 32] by (auto simp: slab_ok_def)
  obtain s' r where a: "slice_alloc s pg = Some (s', r)" "slab_ok {pg} s'" "r = None \<longleftrightarrow> exhausted pg s"
      "case r of None \<Rightarrow> s' = s | Some a \<Rightarrow> unat a \<notin> slab_used pg s \<and> unat a \<in> slab_used pg s' \<and> slab_used pg s \<subseteq> slab_used pg s' \<and>
         (\<forall>q\<in>{pg} - {pg}. slab_used q s' = slab_used q s) \<and> unat a mod PAGE_SIZE + obj_size (pools s pg) \<le> PAGE_SIZE"
    using slice_alloc_correct [OF c(2), of pg] by blast
  then show ?thesis using c by (cases r) auto
qed

text \<open>
  C17. \<^verbatim>\<open>slice_free\<close> of an object in use returns, keeps the pools well formed, and takes exactly that
  address out of use.
\<close>

theorem slice_free_correct:
  assumes "slab_ok P s" and "p \<in> P" and "unat a \<in> slab_used p s"
  shows "\<exists>s'. slice_free s a p = Some s' \<and> slab_ok P s' \<and> slab_used p s' = slab_used p s - {unat a} \<and>
    (\<forall>q\<in>P - {p}. slab_used q s' = slab_used q s)"
  using assms by (rule slab_free_law)

lemma boot_object:
  "\<exists>s pg s1 a. slice_pool_create boot_slab 0 32 = Some (s, Some pg) \<and> slice_alloc s pg = Some (s1, Some a) \<and>
    slab_ok {pg} s1 \<and> unat a \<in> slab_used pg s1"
proof -
  obtain s pg H L i where c: "slice_pool_create boot_slab 0 32 = Some (s, Some pg)" "slab_inv s H L {pg}"
      "L (PagesActive pg) = []" "find_level (kmm s) 0 0 = Some i"
    using boot_pool_inv by blast
  obtain s1 a L' where "slice_alloc s pg = Some (s1, Some a)" "slab_inv s1 H L' {pg}" "got s L s1 L' {pg} pg a"
    using alloc_fresh [OF c(2) _ c(3,4)] by auto
  then show ?thesis using c(1) slab_used_eq [of s1 H L' "{pg}" pg] by (auto simp: slab_ok_def got_def)
qed

text \<open>The pool has more objects after the first, and its zone does not start at address 0.\<close>

lemma boot_object_more:
  "\<exists>p s1. \<exists>a :: u32. slab_ok {p} s1 \<and> unat a \<in> slab_used p s1 \<and> \<not> exhausted p s1 \<and> base (mem_zone (kmm s1) 0) \<noteq> (0 :: u32)"
proof -
  obtain s p H L i where c: "slice_pool_create boot_slab 0 32 = Some (s, Some p)" "slab_inv s H L {p}"
      "L (PagesActive p) = []" "find_level (kmm s) 0 0 = Some i" "base (mem_zone (kmm s) 0) \<noteq> 0"
    using boot_pool_sized [of 32] by (simp, blast)
  obtain s1 a k L' where a: "L' (PagesActive p) = [PgList (0, k)]" "same_geom s s1" "slab_inv s1 H L' {p}" "got s L s1 L' {p} p a"
    by (rule alloc_fresh_page [OF c(2) _ c(3,4)]) blast+
  have "\<not> exhausted p s1" using exhausted_eq [OF a(3), of p] a(1) by simp
  moreover have "unat a \<in> slab_used p s1" using a(4) slab_used_eq [OF a(3), of p] by (simp add: got_def)
  moreover have "base (mem_zone (kmm s1) 0) \<noteq> 0" using a(2) c(5) by (simp add: same_geom_def)
  moreover have "slab_ok {p} s1" using a(3) by (auto simp: slab_ok_def)
  ultimately show ?thesis by blast
qed

theorem slice_free_correct_witness:
  "\<exists>s pg s1 a s2. slice_pool_create boot_slab 0 32 = Some (s, Some pg) \<and> slice_alloc s pg = Some (s1, Some a) \<and>
    slice_free s1 a pg = Some s2 \<and> unat a \<notin> slab_used pg s2"
proof -
  obtain s pg s1 a where o: "slice_pool_create boot_slab 0 32 = Some (s, Some pg)" "slice_alloc s pg = Some (s1, Some a)"
      "slab_ok {pg} s1" "unat a \<in> slab_used pg s1"
    using boot_object by blast
  then show ?thesis using slice_free_correct [of "{pg}" s1 pg a] by blast
qed

fun slice_alloc_many :: "nat \<Rightarrow> u32 \<Rightarrow> slab \<Rightarrow> (slab \<times> u32 option list) option" where
  "slice_alloc_many 0 p s = Some (s, [])"
| "slice_alloc_many (Suc n) p s = do {
     (s1, r) \<leftarrow> slice_alloc s p; (s2, rs) \<leftarrow> slice_alloc_many n p s1; Some (s2, r # rs) }"

lemma slice_alloc_many_eq: "slice_alloc_many n p s = sp.alloc_many p n s"
  by (induction n arbitrary: s) simp_all

text \<open>
  C18. Any number of successive \<^verbatim>\<open>slice_alloc\<close> calls on a pool return, and the objects they hand out
  have pairwise distinct addresses, none of which was in use before.
\<close>

theorem slice_alloc_many_distinct:
  assumes "slab_ok P s" and "p \<in> P"
  shows "\<exists>s' rs. slice_alloc_many n p s = Some (s', rs) \<and> slab_ok P s' \<and> length rs = n \<and>
    distinct [unat a. Some a \<leftarrow> rs] \<and> set [unat a. Some a \<leftarrow> rs] \<inter> slab_used p s = {}"
proof -
  have "slab_ok P s \<and> p \<in> P" using assms by simp
  from sp.alloc_many_distinct [OF this, of n] show ?thesis
    unfolding slice_alloc_many_eq by blast
qed

theorem slice_alloc_many_distinct_witness:
  "\<exists>s pg s' rs. slice_pool_create boot_slab 0 32 = Some (s, Some pg) \<and>
    slice_alloc_many 200 pg s = Some (s', rs) \<and> length rs = 200 \<and> distinct [unat a. Some a \<leftarrow> rs]"
proof -
  obtain s pg where "slice_pool_create boot_slab 0 32 = Some (s, Some pg)" "slab_ok {pg} s"
    using boot_pool_inv by (auto simp: slab_ok_def)
  then show ?thesis using slice_alloc_many_distinct [of "{pg}" s pg 200] by blast
qed

section \<open>What the bitmap of a fresh page holds\<close>

text \<open>
  The objects of the first active page are handed out in the order of their numbers: an object that is not in use
  comes after as many others as there are unused ones below it.
\<close>

lemma alloc_reaches_bit:
  assumes "slab_inv s H L P" and "p \<in> P" and "L (PagesActive p) = PgList (0, k) # ns" and "b < nobjs_of s p" and "\<not> pbit s p k b"
    and "card {c. c < b \<and> \<not> pbit s p k c} = n"
  shows "\<exists>s' rs. slice_alloc_many (Suc n) p s = Some (s', rs) \<and>
    last rs = Some (of_nat (page_base (kmm s) k) + of_nat (b * obj_size (pools s p))) \<and> rs \<noteq> []"
  using assms
proof (induction n arbitrary: s L)
  case 0
  from 0(3) have ne: "L (PagesActive p) \<noteq> []" by simp
  have low: "\<forall>c<b. pbit s p k c" using 0(6) by auto
  obtain s' c k' where a: "hd (L (PagesActive p)) = PgList (0, k')" "\<not> pbit s p k' c" "\<forall>d<c. pbit s p k' d"
      "slice_alloc s p = Some (s', Some (of_nat (page_base (kmm s) k') + of_nat (c * obj_size (pools s p))))"
    by (rule alloc_lowest [OF 0(1,2) ne]) blast
  have k: "k' = k" using a(1) 0(3) by simp
  have "c = b" using a(2,3) low 0(5) k by (meson linorder_neqE_nat)
  then show ?case using a(4) k by simp
next
  case (Suc n)
  from Suc.prems(3) have ne: "L (PagesActive p) \<noteq> []" by simp
  obtain s1 c k' L1 where a: "hd (L (PagesActive p)) = PgList (0, k')" "\<not> pbit s p k' c" "\<forall>d<c. pbit s p k' d"
      "slice_alloc s p = Some (s1, Some (of_nat (page_base (kmm s) k') + of_nat (c * obj_size (pools s p))))"
      "slab_inv s1 H L1 P" "same_geom s s1" "\<forall>d<nobjs_of s p. pbit s1 p k' d \<longleftrightarrow> d = c \<or> pbit s p k' d"
      "(\<exists>d<nobjs_of s p. \<not> pbit s1 p k' d) \<longrightarrow> L1 = L"
    by (rule alloc_lowest [OF Suc.prems(1,2) ne]) blast
  have k: "k' = k" using a(1) Suc.prems(3) by simp
  have "{c. c < b \<and> \<not> pbit s p k c} \<noteq> {}" using Suc.prems(6) by (metis card.empty nat.distinct(1))
  then obtain d where "d < b" "\<not> pbit s p k d" by blast
  then have cb: "c < b" using a(3) k by (meson le_less_trans not_le_imp_less)
  have nb: "\<not> pbit s1 p k b" using a(7) Suc.prems(4,5) cb k by simp
  then have L1: "L1 (PagesActive p) = PgList (0, k) # ns" using a(8) Suc.prems(3,4) k by auto
  have "{d. d < b \<and> \<not> pbit s1 p k d} = {d. d < b \<and> \<not> pbit s p k d} - {c}" using a(7) Suc.prems(4) k by auto
  moreover have "c \<in> {d. d < b \<and> \<not> pbit s p k d}" using cb a(2) k by simp
  ultimately have cd: "card {d. d < b \<and> \<not> pbit s1 p k d} = n" using Suc.prems(6) by simp
  obtain s' rs where rs: "slice_alloc_many (Suc n) p s1 = Some (s', rs)"
      "last rs = Some (of_nat (page_base (kmm s1) k) + of_nat (b * obj_size (pools s1 p)))" "rs \<noteq> []"
    using Suc.IH [OF a(5) Suc.prems(2) L1 _ nb cd] Suc.prems(4) same_geom_simps [OF a(6)] by metis
  have "slice_alloc_many (Suc (Suc n)) p s =
      Some (s', Some (of_nat (page_base (kmm s) k') + of_nat (c * obj_size (pools s p))) # rs)"
    using a(4) rs(1) by (simp del: slice_alloc_many.simps(2) add: slice_alloc_many.simps(2) [of "Suc n"])
  then show ?case using rs(2,3) same_geom_simps [OF a(6)] by simp
qed

text \<open>On a fresh page of 12-byte objects the bits 337 to 340, of objects that do not fit, are what the page held before.\<close>

lemma fresh_bits_12:
  assumes "337 \<le> b" and "b < 341"
  shows "bm d (new_bitmap d 341 (usable 341 12) m) b \<longleftrightarrow> bm d m b"
proof -
  have u: "usable 341 12 = 337" by (simp add: usable_def BITMAP_SIZE_eq PAGE_SIZE_def)
  then show ?thesis
    unfolding new_bitmap_def using assms
    by (subst bm_set) (auto simp: bm_zero bm_fill zeroed_def filled_def)
qed

lemma slice_writes_past_page:
  "new_bitmap (bmask_at a (PAGE_SIZE div 8)) (PAGE_SIZE div 8) (usable (PAGE_SIZE div 8) 8) m (a + of_nat PAGE_SIZE) = NOT 0"
proof -
  let ?d = "bmask_at a 512"
  have n: "PAGE_SIZE div 8 = 512" by (simp add: PAGE_SIZE_def)
  have u: "usable 512 8 = 504" by (simp add: usable_def BITMAP_SIZE_eq PAGE_SIZE_def)
  have w: "word_at ?d 16 = a + of_nat PAGE_SIZE" by (simp add: word_at_def bmask_at_def BITMAP_SIZE_eq)
  have ne: "word_at ?d i \<noteq> word_at ?d 16" if "i < 16" for i
    using that by (simp add: word_at_eq_iff)
  have "bitmap_fill ?d 512 m (word_at ?d 16) = NOT 0"
    using ne by (subst bitmap_fill_spec) auto
  moreover have "bitmap_zero ?d 504 m' (word_at ?d 16) = m' (word_at ?d 16)" for m'
  proof -
    have "word_at ?d 16 \<notin> word_at ?d ` {..<15}"
    proof
      assume "word_at ?d 16 \<in> word_at ?d ` {..<15}"
      then obtain i where "i < 15" "word_at ?d 16 = word_at ?d i" by auto
      then show False using ne [of i] by simp
    qed
    then show ?thesis using ne [of 0] by (auto simp: bitmap_zero_def BITS_PER_LONG_def Let_def zero_words_spec)
  qed
  ultimately show ?thesis
    using ne [of 15] unfolding n u w [symmetric] new_bitmap_def
    by (simp add: bitmap_bit_set_def BITS_PER_LONG_def Let_def)
qed

lemma alloc_overlaps_bitmap:
  assumes inv: "slab_inv s H L P" and p: "p \<in> P" and ac: "L (PagesActive p) = [PgList (0, k)]" and o: "obj_size (pools s p) = 12"
    and b: "337 \<le> b" "b < 341" "\<not> pbit s p k b"
  shows "\<exists>n\<le>341. \<exists>s2 rs. slice_alloc_many n p s = Some (s2, rs) \<and> rs \<noteq> [] \<and>
    last rs = Some (of_nat (page_base (kmm s) k) + of_nat (b * 12)) \<and> b * 12 + 12 > PAGE_SIZE - BITMAP_SIZE 341"
proof -
  have n: "b < nobjs_of s p" using b(2) o by (simp add: nobjs_of_def PAGE_SIZE_def)
  have "card {c. c < b \<and> \<not> pbit s p k c} \<le> card {..<b}" by (intro card_mono) auto
  then have "Suc (card {c. c < b \<and> \<not> pbit s p k c}) \<le> 341" using b(2) by simp
  moreover have "b * 12 + 12 > PAGE_SIZE - BITMAP_SIZE 341" using b(1) by (simp add: PAGE_SIZE_def BITMAP_SIZE_eq)
  ultimately show ?thesis using alloc_reaches_bit [OF inv p ac n b(3) refl] unfolding o by blast
qed



end
