(* ===== verification/Galloc.thy ===== *)
theory Galloc
  imports Slice_Props
begin

text \<open>
  \<^verbatim>\<open>kernel/galloc.c\<close>, \<^verbatim>\<open>include/galloc.h\<close>: the general allocator.  Small chunks come from nine slice
  pools, larger ones from the page allocator; a one-word header in front of the chunk says which.
\<close>

section \<open>Data\<close>

record gheap =
  slab :: slab
  galloc_sp :: "nat \<Rightarrow> u32"

definition GALLOC_MIN_CHUNK :: nat where
  "GALLOC_MIN_CHUNK = 4"

definition NPOOLS :: nat where
  "NPOOLS = 9"

text \<open>\<open>sizeof(struct chunk_info)\<close> is 4.\<close>

definition CI_SIZE :: nat where
  "CI_SIZE = unat (roundup_l2 4 (of_nat GALLOC_MIN_CHUNK))"

definition POOL_SIZE :: "nat \<Rightarrow> nat" where
  "POOL_SIZE i = GALLOC_MIN_CHUNK * 2 ^ i + CI_SIZE"

datatype chunk_origin = FROM_SLICE | FROM_PAGES

fun origin_byte :: "chunk_origin \<Rightarrow> u32" where
  "origin_byte FROM_SLICE = 0"
| "origin_byte FROM_PAGES = 1"

text \<open>The header: origin in the low byte, an unused byte, the pool or the order in the upper half.\<close>

definition set_chunk_info :: "u32 \<Rightarrow> chunk_origin \<Rightarrow> nat \<Rightarrow> words \<Rightarrow> words" where
  "set_chunk_info ci org i m =
    m(ci := (m ci AND 0xff00) OR origin_byte org OR push_bit 16 (of_nat i))"

definition ci_origin :: "u32 \<Rightarrow> u32" where
  "ci_origin w = w AND 0xff"

definition ci_info :: "u32 \<Rightarrow> nat" where
  "ci_info w = unat (drop_bit 16 w)"

definition with_wmem :: "(words \<Rightarrow> words) \<Rightarrow> slab \<Rightarrow> slab" where
  "with_wmem f s = s\<lparr>wmem := f (wmem s)\<rparr>"

section \<open>Operations\<close>

definition galloc_from_slice :: "gheap \<Rightarrow> u32 \<Rightarrow> u32 \<Rightarrow> (gheap \<times> u32 option) option" where
  "galloc_from_slice g flags sz = do {
     let i = log2 (sz div of_nat GALLOC_MIN_CHUNK);
     if i > NPOOLS then Some (g, None)
     else if i \<ge> NPOOLS then None
     else do {
       (s, r) \<leftarrow> slice_alloc (slab g) (galloc_sp g i);
       (case r of
          None \<Rightarrow> Some (g\<lparr>slab := s\<rparr>, None)
        | Some ci \<Rightarrow> Some (g\<lparr>slab := with_wmem (set_chunk_info ci FROM_SLICE i) s\<rparr>, Some (ci + 4)))
     }
   }"

definition galloc_from_pages :: "gheap \<Rightarrow> u32 \<Rightarrow> u32 \<Rightarrow> (gheap \<times> u32 option) option" where
  "galloc_from_pages g flags sz = do {
     let i = log2 (INPAGES (sz + of_nat CI_SIZE));
     (m, ci) \<leftarrow> get_pages (kmm (slab g)) flags i;
     let s = (slab g)\<lparr>kmm := m\<rparr>;
     if ci = 0 then Some (g\<lparr>slab := s\<rparr>, None)
     else Some (g\<lparr>slab := with_wmem (set_chunk_info ci FROM_PAGES i) s\<rparr>, Some (ci + 4))
   }"

definition galloc :: "gheap \<Rightarrow> u32 \<Rightarrow> u32 \<Rightarrow> (gheap \<times> u32 option) option" where
  "galloc g flags sz = do {
     let sz = (if sz = 0 then of_nat GALLOC_MIN_CHUNK else sz);
     let sz = roundup_l2 sz (of_nat GALLOC_MIN_CHUNK);
     (g1, r) \<leftarrow> galloc_from_slice g flags sz;
     (case r of
        Some a \<Rightarrow> Some (g1, Some a)
      | None \<Rightarrow> galloc_from_pages g1 flags sz)
   }"

definition gfree :: "gheap \<Rightarrow> u32 \<Rightarrow> gheap option" where
  "gfree g chunk = do {
     let ci = chunk - 4;
     let w = wmem (slab g) ci;
     if ci_origin w = origin_byte FROM_SLICE then
       (if ci_info w \<ge> NPOOLS then None
        else map_option (\<lambda>s. g\<lparr>slab := s\<rparr>) (slice_free (slab g) ci (galloc_sp g (ci_info w))))
     else if ci_origin w = origin_byte FROM_PAGES then
       map_option (\<lambda>m. g\<lparr>slab := (slab g)\<lparr>kmm := m\<rparr>\<rparr>) (put_pages (kmm (slab g)) ci)
     else bug
   }"

text \<open>\<^verbatim>\<open>panic\<close> does not return.\<close>

fun galloc_init_from :: "nat list \<Rightarrow> gheap \<Rightarrow> gheap option" where
  "galloc_init_from [] g = Some g"
| "galloc_init_from (i # is) g = do {
     (s, r) \<leftarrow> slice_pool_create (slab g) 0 (POOL_SIZE i);
     (case r of
        None \<Rightarrow> None
      | Some pg \<Rightarrow> galloc_init_from is (g\<lparr>slab := s, galloc_sp := (galloc_sp g)(i := pg)\<rparr>))
   }"

definition galloc_init :: "gheap \<Rightarrow> gheap option" where
  "galloc_init g = galloc_init_from [0..<NPOOLS] g"

section \<open>Size classes\<close>

lemma CI_SIZE_eq [simp]: "CI_SIZE = 4"
  by (simp add: CI_SIZE_def roundup_l2_def GALLOC_MIN_CHUNK_def)

lemma POOL_SIZE_eq: "POOL_SIZE i = 4 * 2 ^ i + 4"
  by (simp add: POOL_SIZE_def GALLOC_MIN_CHUNK_def)

lemma size_class:
  assumes "0 < unat sz" and "unat sz mod 4 = 0"
  shows "log2 (sz div 4) \<le> k \<longleftrightarrow> unat sz \<le> 4 * 2 ^ k"
proof -
  obtain q where q: "unat sz = 4 * q" using assms(2) by (metis mod_0_imp_dvd dvdE)
  have u: "unat (sz div 4) = q" by (simp add: unat_div q)
  then have "sz div 4 \<noteq> 0" using assms(1) q by (metis mult_0_right nat_neq_iff unat_0)
  then show ?thesis using log2_le_iff [of "sz div 4" k] u q by simp
qed

lemma header_bits:
  "bit (origin_byte org) b \<Longrightarrow> b = 0"
  "bit (0xff :: u32) b \<longleftrightarrow> b < 8"
  "bit (0xff00 :: u32) b \<longleftrightarrow> 8 \<le> b \<and> b < 16"
proof -
  show "bit (origin_byte org) b \<Longrightarrow> b = 0" by (cases org) (auto simp: bit_1_iff)
  show m: "bit (0xff :: u32) b \<longleftrightarrow> b < 8" for b
    using bit_mask_iff [of 8 b, where ?'a = "32 word"] by (simp add: mask_eq_exp_minus_1) auto
  have "(0xff00 :: u32) = push_bit 8 0xff" by (simp add: push_bit_eq_mult)
  then have "bit (0xff00 :: u32) b \<longleftrightarrow> 8 \<le> b \<and> b < 32 \<and> b - 8 < 8"
    by (simp only: bit_push_bit_iff m) simp
  then show "bit (0xff00 :: u32) b \<longleftrightarrow> 8 \<le> b \<and> b < 16" by linarith
qed

lemma chunk_info_readback:
  assumes "i < 2 ^ 16"
  shows "ci_origin (set_chunk_info ci org i m ci) = origin_byte org" and "ci_info (set_chunk_info ci org i m ci) = i"
proof -
  let ?w = "(m ci AND 0xff00) OR origin_byte org OR push_bit 16 (of_nat i :: u32)"
  have "take_bit 16 i = i" using assms by (simp add: take_bit_nat_eq_self_iff)
  then have "take_bit 16 (of_nat i :: u32) = of_nat i" by (metis of_nat_take_bit)
  then have i16: "bit (of_nat i :: u32) b \<Longrightarrow> b < 16" for b by (metis bit_take_bit_iff)
  have w: "bit ?w b \<longleftrightarrow> bit (m ci) b \<and> 8 \<le> b \<and> b < 16 \<or> bit (origin_byte org) b \<or> 16 \<le> b \<and> b < 32 \<and> bit (of_nat i :: u32) (b - 16)" for b
    by (simp only: bit_or_iff bit_and_iff bit_push_bit_iff header_bits) simp
  have "bit (ci_origin ?w) b = bit (origin_byte org) b" for b
    unfolding ci_origin_def using header_bits(1) [of org b]
    by (simp only: bit_and_iff [of ?w] w header_bits(2)) auto
  then show "ci_origin (set_chunk_info ci org i m ci) = origin_byte org"
    by (simp add: set_chunk_info_def bit_eq_iff)
  have "bit (drop_bit 16 ?w) b = bit (of_nat i :: u32) b" for b
    using header_bits(1) [of org "16 + b"] i16 [of b] by (simp only: bit_drop_bit_eq comp_def w) auto
  then have "drop_bit 16 ?w = of_nat i" by (simp add: bit_eq_iff)
  then show "ci_info (set_chunk_info ci org i m ci) = i"
    using assms by (simp add: set_chunk_info_def ci_info_def unat_of_nat)
qed

section \<open>Writing headers into objects\<close>

text \<open>
  A header written below the bitmap of the page of its object changes neither the pools nor the objects
  in use.
\<close>

lemma pbit_header:
  assumes zg: "zone_geom (kmm s)" and k: "k < total_pages (mem_zone (kmm s) 0)" and n: "nobjs_of s q \<le> 4096" "b < nobjs_of s q"
    and ci: "unat ci = page_base (kmm s) j + d" "d < PAGE_SIZE" and d: "k = j \<Longrightarrow> d < PAGE_SIZE - BITMAP_SIZE (nobjs_of s q)"
  shows "pbit (with_wmem (set_chunk_info ci org i) s) q k b = pbit s q k b"
proof -
  let ?A = "page_base (kmm s) k" and ?w = "word_at (bmask_at (of_nat (page_base (kmm s) k)) (nobjs_of s q)) (b div 32)"
  have "Suc k * PAGE_SIZE \<le> total_pages (mem_zone (kmm s) 0) * PAGE_SIZE" using k by (intro mult_le_mono1) simp
  then have l: "?A + PAGE_SIZE < 2 ^ 32" using zg by (simp add: zone_geom_def page_base_def)
  have "(b + 32) div 32 \<le> (nobjs_of s q + 31) div 32" using n(2) by (intro div_le_mono) simp
  then have i: "b div 32 < (nobjs_of s q + 31) div 32" by simp
  have "ci \<noteq> ?w"
  proof
    assume e: "ci = ?w"
    have "ci \<in> tail ?A" using word_in_tail(2) [OF l n(1) i] e by simp
    then obtain c where "unat ci = ?A + c" "c < 4096"
      using le_Suc_ex [of ?A "unat ci"] by (auto simp: tail_def)
    then have "k = j" using offset_unique [of "kmm s" j d k c] ci by (auto simp: PAGE_SIZE_def)
    moreover have "unat ci = ?A + 4096 - BITMAP_SIZE (nobjs_of s q) + 4 * (b div 32)"
      using bmask_word [OF l n(1), of "b div 32"] i e by simp
    ultimately show False using d ci(1) BITMAP_SIZE_le [OF n(1)] by (simp add: PAGE_SIZE_def)
  qed
  then show ?thesis by (simp add: pbit_def bm_def with_wmem_def nobjs_of_def set_chunk_info_def BITS_PER_LONG_def)
qed

lemma header_keeps:
  assumes inv: "slab_inv s H L P" and p: "p \<in> P" and ci: "unat ci \<in> live s L p"
    and d: "unat ci mod PAGE_SIZE < PAGE_SIZE - BITMAP_SIZE (nobjs_of s p)"
  shows "slab_inv (with_wmem (set_chunk_info ci org i) s) H L P"
    and "q \<in> P \<Longrightarrow> live (with_wmem (set_chunk_info ci org i) s) L q = live s L q"
proof -
  let ?s = "with_wmem (set_chunk_info ci org i) s"
  have sg: "kmm ?s = kmm s" "pools ?s = pools s" "nobjs_of ?s q = nobjs_of s q" for q
    by (simp_all add: with_wmem_def nobjs_of_def)
  note okp = slab_invD(3) [OF inv p]
  obtain j c where j: "unat ci = page_base (kmm s) j + c * obj_size (pools s p)" "PgList (0, j) \<in> pool_nodes L p" "c < nobjs_of s p"
    using ci by (auto simp: live_def)
  have "j < total_pages (mem_zone (kmm s) 0)" using pool_okD(4) [OF okp j(2)] by auto
  note oa = object_address [OF inv okp this j(3)]
  have m: "unat ci mod PAGE_SIZE = c * obj_size (pools s p)" "c * obj_size (pools s p) < PAGE_SIZE"
    using oa j(1) pool_okD(3) [OF okp] by (auto simp del: unat_of_nat)
  have pb: "pbit ?s q k b = pbit s q k b" if "q \<in> P" "PgList (0, k) \<in> pool_nodes L q" "b < nobjs_of s q" for q k b
  proof -
    have ok: "pool_ok s H L q" by (rule slab_invD(3) [OF inv that(1)])
    have "q = p" if "k = j"
      using klists_member_unique [OF zone_inv_klists [OF slab_invD(1) [OF inv]], of _ _ "PgList (0, k)"]
        pool_okD(1,2) [OF ok] pool_okD(1,2) [OF okp] \<open>PgList (0, k) \<in> pool_nodes L q\<close> j(2) that
      by (fastforce simp: pool_nodes_def)
    moreover have "k < total_pages (mem_zone (kmm s) 0)" using pool_okD(4) [OF ok that(2)] by auto
    ultimately show ?thesis
      using pbit_header [OF slab_invD(2) [OF inv] _ nobjs_bounds(2) [OF ok] that(3) j(1) m(2)] d m(1) by auto
  qed
  have "pool_ok ?s H L q" if "q \<in> P" for q
  proof -
    note ok = slab_invD(3) [OF inv that]
    have "\<exists>b<nobjs_of s q. \<not> pbit ?s q k b" if "PgList (0, k) \<in> set (L (PagesActive q))" for k
      using pool_okD(5) [OF ok that] pb [OF \<open>q \<in> P\<close>, of k] that by (auto simp: pool_nodes_def)
    moreover have "pbit ?s q k b" if "PgList (0, k) \<in> set (L (PagesInactive q))" "b < nobjs_of s q" for k b
      using pool_okD(6) [OF ok that] pb [OF \<open>q \<in> P\<close>, of k b] that by (simp add: pool_nodes_def)
    ultimately show ?thesis using ok unfolding pool_ok_def sg by simp
  qed
  then show "slab_inv ?s H L P" using inv unfolding slab_inv_def sg by blast
  show "live ?s L q = live s L q" if "q \<in> P"
    using pb [OF that] unfolding live_def sg by blast
qed

lemma header_slab_ok:
  assumes "slab_ok P s" and "p \<in> P" and "unat ci \<in> slab_used p s"
    and "unat ci mod PAGE_SIZE < PAGE_SIZE - BITMAP_SIZE (nobjs_of s p)"
  shows "slab_ok P (with_wmem (set_chunk_info ci org i) s)"
    and "q \<in> P \<Longrightarrow> slab_used q (with_wmem (set_chunk_info ci org i) s) = slab_used q s"
proof -
  obtain H L where inv: "slab_inv s H L P" using assms(1) by (auto simp: slab_ok_def)
  have "unat ci \<in> live s L p" using assms(3) slab_used_eq [OF inv assms(2)] by simp
  note k = header_keeps [OF inv assms(2) this assms(4), where org = org and i = i]
  show "slab_ok P (with_wmem (set_chunk_info ci org i) s)" using k(1) by (auto simp: slab_ok_def)
  show "slab_used q (with_wmem (set_chunk_info ci org i) s) = slab_used q s" if "q \<in> P"
    using k(2) [OF that] slab_used_eq [OF k(1) that] slab_used_eq [OF inv that] by simp
qed

section \<open>Properties of the allocator\<close>

lemma mult4_le: "a mod 4 = 0 \<Longrightarrow> b mod 4 = 0 \<Longrightarrow> a < b + 4 \<Longrightarrow> a \<le> b" for a b :: nat
  by (auto elim!: dvdE simp: mod_eq_0_iff_dvd)

lemma rounded_size:
  assumes "unat sz \<le> 2 ^ 32 - 4"
  defines "r \<equiv> roundup_l2 (if sz = 0 then 4 else sz) 4"
  shows "unat r mod 4 = 0" and "unat sz \<le> unat r" and "unat r < unat sz + 4 \<or> sz = 0 \<and> unat r = 4" and "0 < unat r"
proof -
  define x where "x = (if sz = 0 then 4 else sz)"
  have x: "0 < unat x" "unat x \<le> 2 ^ 32 - 4" "unat sz \<le> unat x" "sz \<noteq> 0 \<Longrightarrow> unat x = unat sz" "sz = 0 \<Longrightarrow> unat x = 4"
    using assms(1) by (auto simp: x_def word_neq_0_conv word_less_nat_alt)
  have "unat (roundup_l2 x (2 ^ 2)) = (unat x + 2 ^ 2 - 1) div 2 ^ 2 * 2 ^ 2"
    using x(2) by (intro roundup_l2_pow) simp_all
  then have r: "unat r = (unat x + 3) div 4 * 4" by (simp add: r_def x_def)
  show "unat r mod 4 = 0" using r by simp
  have "(unat x + 3) div 4 * 4 + (unat x + 3) mod 4 = unat x + 3" by (rule div_mult_mod_eq)
  moreover have "(unat x + 3) mod 4 < 4" by simp
  ultimately have b: "unat x \<le> unat r" "unat r < unat x + 4" using r by linarith+
  show "unat sz \<le> unat r" "0 < unat r" using b x by linarith+
  show "unat r < unat sz + 4 \<or> sz = 0 \<and> unat r = 4" using b x r by (cases "sz = 0") auto
qed

lemma galloc_unfold:
  "galloc g flags sz = do {
     (g1, r) \<leftarrow> galloc_from_slice g flags (roundup_l2 (if sz = 0 then 4 else sz) 4);
     (case r of
        Some a \<Rightarrow> Some (g1, Some a)
      | None \<Rightarrow> galloc_from_pages g1 flags (roundup_l2 (if sz = 0 then 4 else sz) 4))
   }"
  by (simp add: galloc_def GALLOC_MIN_CHUNK_def Let_def)

text \<open>Requests that a pool of the table can serve.\<close>

lemma galloc_size_class:
  assumes "unat sz \<le> 1024"
  shows "\<exists>i<NPOOLS. unat sz + CI_SIZE \<le> POOL_SIZE i \<and> (\<forall>j<i. POOL_SIZE j < unat sz + CI_SIZE) \<and>
    (\<forall>g flags. galloc g flags sz = do {
       (s, r) \<leftarrow> slice_alloc (slab g) (galloc_sp g i);
       (case r of
          Some ci \<Rightarrow> Some (g\<lparr>slab := with_wmem (set_chunk_info ci FROM_SLICE i) s\<rparr>, Some (ci + 4))
        | None \<Rightarrow> galloc_from_pages (g\<lparr>slab := s\<rparr>) flags (roundup_l2 (if sz = 0 then 4 else sz) 4))
     })"
proof -
  define r where "r = roundup_l2 (if sz = 0 then 4 else sz) 4"
  define i where "i = log2 (r div 4)"
  have sz: "unat sz \<le> 2 ^ 32 - 4" using assms by simp
  note rs = rounded_size [OF sz, folded r_def]
  have r1024: "unat r \<le> 1024"
  proof -
    have "unat r < 1024 + 4" using rs(3) assms by auto
    then show ?thesis using mult4_le [of "unat r" 1024] rs(1) by simp
  qed
  have c: "i \<le> k \<longleftrightarrow> unat r \<le> 4 * 2 ^ k" for k unfolding i_def by (rule size_class [OF rs(4,1)])
  have i8: "i \<le> 8" using c [of 8] r1024 by simp
  have low: "4 * 2 ^ j < unat sz" if "j < i" for j
  proof -
    have "4 * 2 ^ j < unat r" using c [of j] that by simp
    moreover have "unat r mod 4 = 0" "(4 * 2 ^ j) mod (4::nat) = 0" using rs(1) by simp_all
    ultimately have "4 * 2 ^ j + 4 \<le> unat r" using mult4_le [of "unat r" "4 * 2 ^ j"] by linarith
    moreover have "(1::nat) \<le> 2 ^ j" by simp
    ultimately show ?thesis using rs(3) by linarith
  qed
  have "galloc g flags sz = do {
       (s, r') \<leftarrow> slice_alloc (slab g) (galloc_sp g i);
       (case r' of
          Some ci \<Rightarrow> Some (g\<lparr>slab := with_wmem (set_chunk_info ci FROM_SLICE i) s\<rparr>, Some (ci + 4))
        | None \<Rightarrow> galloc_from_pages (g\<lparr>slab := s\<rparr>) flags r)
     }" for g flags
    using i8 unfolding galloc_unfold r_def [symmetric]
    by (auto simp: galloc_from_slice_def GALLOC_MIN_CHUNK_def NPOOLS_def i_def Let_def split: Option.bind_split option.splits)
  moreover have "unat sz + CI_SIZE \<le> POOL_SIZE i" using c [of i] rs(2) by (simp add: POOL_SIZE_eq)
  moreover have "\<forall>j<i. POOL_SIZE j < unat sz + CI_SIZE" using low by (simp add: POOL_SIZE_eq)
  moreover have "i < NPOOLS" using i8 by (simp add: NPOOLS_def)
  ultimately show ?thesis unfolding r_def by blast
qed

text \<open>Larger requests.\<close>

lemma galloc_pool_overrun:
  assumes "1024 < unat sz" and "unat sz \<le> 2 ^ 32 - 4"
  shows "if unat sz \<le> 2048 then log2 (roundup_l2 sz 4 div 4) = NPOOLS \<and> galloc g flags sz = None
    else galloc g flags sz = galloc_from_pages g flags (roundup_l2 sz 4)"
proof -
  have nz: "sz \<noteq> 0" using assms(1) by auto
  define r where "r = roundup_l2 sz 4"
  note rs = rounded_size [OF assms(2)]
  have rs: "unat r mod 4 = 0" "unat sz \<le> unat r" "unat r < unat sz + 4" "0 < unat r"
    using rs nz by (simp_all add: r_def)
  have c: "log2 (r div 4) \<le> k \<longleftrightarrow> unat r \<le> 4 * 2 ^ k" for k by (rule size_class [OF rs(4,1)])
  have "log2 (roundup_l2 sz 4 div 4) = NPOOLS \<and> galloc g flags sz = None" if "unat sz \<le> 2048"
  proof -
    have "unat r \<le> 2048" using that rs(1,3) mult4_le [of "unat r" 2048] by simp
    then have "log2 (r div 4) = NPOOLS" using c [of 9] c [of 8] rs(2) assms(1) by (simp add: NPOOLS_def)
    then show ?thesis using nz
      by (simp add: galloc_unfold r_def [symmetric] galloc_from_slice_def GALLOC_MIN_CHUNK_def)
  qed
  moreover have "galloc g flags sz = galloc_from_pages g flags (roundup_l2 sz 4)" if "2048 < unat sz"
  proof -
    have "NPOOLS < log2 (r div 4)" using c [of 9] rs(2) that by (simp add: NPOOLS_def)
    then show ?thesis using nz
      by (simp add: galloc_unfold r_def [symmetric] galloc_from_slice_def GALLOC_MIN_CHUNK_def)
  qed
  ultimately show ?thesis by simp
qed



text \<open>
  C35. Freeing a chunk right after it came from a pool returns it to that pool: \<^verbatim>\<open>gfree\<close> finds the header that
  \<^verbatim>\<open>galloc_from_slice\<close> wrote, the pools stay well formed, the chunk is out of use again and no
  other object is lost.  The header must lie below the bitmap of its page.
\<close>

theorem galloc_gfree_roundtrip:
  assumes "slab_ok P (slab g)" and "\<forall>i<NPOOLS. galloc_sp g i \<in> P"
    and "galloc_from_slice g flags sz = Some (g1, Some a)"
    and "unat (a - 4) mod PAGE_SIZE < PAGE_SIZE - BITMAP_SIZE (nobjs_of (slab g1) (galloc_sp g (log2 (sz div 4))))"
  shows "\<exists>g2. gfree g1 a = Some g2 \<and> slab_ok P (slab g2) \<and> galloc_sp g2 = galloc_sp g \<and>
    (\<forall>q\<in>P. slab_used q (slab g) \<subseteq> slab_used q (slab g2)) \<and>
    unat (a - 4) \<notin> slab_used (galloc_sp g (log2 (sz div 4))) (slab g2)"
proof -
  define i where "i = log2 (sz div 4)"
  define p where "p = galloc_sp g i"
  define ci where "ci = a - 4"
  have i9: "i < NPOOLS" using assms(3) by (simp add: galloc_from_slice_def i_def GALLOC_MIN_CHUNK_def Let_def split: if_splits)
  then have p: "p \<in> P" using assms(2) by (simp add: p_def)
  obtain s1 where s1: "slice_alloc (slab g) p = Some (s1, Some ci)"
      "g1 = g\<lparr>slab := with_wmem (set_chunk_info ci FROM_SLICE i) s1\<rparr>"
    using assms(3) by (auto simp: galloc_from_slice_def GALLOC_MIN_CHUNK_def Let_def i_def p_def ci_def
      split: if_splits Option.bind_splits option.splits)
  let ?s = "with_wmem (set_chunk_info ci FROM_SLICE i) s1"
  have al: "slab_ok P s1" "unat ci \<notin> slab_used p (slab g)" "unat ci \<in> slab_used p s1" "slab_used p (slab g) \<subseteq> slab_used p s1"
      "\<forall>q\<in>P - {p}. slab_used q s1 = slab_used q (slab g)"
    using slab_alloc_law [OF assms(1) p] s1(1) by auto
  have "unat ci mod PAGE_SIZE < PAGE_SIZE - BITMAP_SIZE (nobjs_of s1 p)"
    using assms(4) by (simp add: s1(2) with_wmem_def nobjs_of_def ci_def p_def i_def)
  note hd = header_slab_ok [OF al(1) p al(3) this, where org = FROM_SLICE and i = i]
  have "unat ci \<in> slab_used p ?s" using hd(2) [OF p] al(3) by simp
  then obtain s2 where f: "slice_free ?s ci p = Some s2" "slab_ok P s2" "slab_used p s2 = slab_used p ?s - {unat ci}"
      "\<forall>q\<in>P - {p}. slab_used q s2 = slab_used q ?s"
    using slab_free_law [OF hd(1) p] by blast
  have rb: "ci_origin (wmem ?s ci) = origin_byte FROM_SLICE" "ci_info (wmem ?s ci) = i"
    using chunk_info_readback [of i ci FROM_SLICE "wmem s1"] i9 by (simp_all add: with_wmem_def NPOOLS_def)
  have "gfree g1 a = Some (g1\<lparr>slab := s2\<rparr>)"
    using f(1) rb i9 by (simp add: gfree_def s1(2) ci_def [symmetric] p_def)
  moreover have "slab_used q (slab g) \<subseteq> slab_used q s2" if "q \<in> P" for q
    using that f(3,4) hd(2) al(2,4,5) p by (cases "q = p") auto
  moreover have "unat ci \<notin> slab_used p s2" using f(3) by simp
  ultimately show ?thesis using f(2) s1(2) by (intro exI [of _ "g1\<lparr>slab := s2\<rparr>"]) (simp add: ci_def i_def p_def)
qed

lemma slice_alloc_pools: "slice_alloc s p = Some (s', r) \<Longrightarrow> pools s' = pools s"
  by (auto simp: slice_alloc_def Let_def set_lists_def bug_def
    split: Option.bind_splits option.splits list_node.splits if_splits prod.splits)

theorem galloc_gfree_roundtrip_witness:
  "\<exists>s pg. slice_pool_create boot_slab 0 32 = Some (s, Some pg) \<and>
    (\<exists>g1 a g2. galloc_from_slice \<lparr>slab = s, galloc_sp = \<lambda>_. pg\<rparr> 0 28 = Some (g1, Some a) \<and> gfree g1 a = Some g2 \<and>
       unat (a - 4) \<notin> slab_used pg (slab g2))"
proof -
  obtain s pg H L i where c: "slice_pool_create boot_slab 0 32 = Some (s, Some pg)" "slab_inv s H L {pg}"
      "obj_size (pools s pg) = 32" "L (PagesActive pg) = []" "find_level (kmm s) 0 0 = Some i"
    using boot_pool_inv by blast
  obtain s1 ci L' where al: "slice_alloc s pg = Some (s1, Some ci)" "got s L s1 L' {pg} pg ci"
    using alloc_fresh [OF c(2) _ c(4,5)] by auto
  let ?g = "\<lparr>slab = s, galloc_sp = \<lambda>_. pg\<rparr>"
  let ?g1 = "?g\<lparr>slab := with_wmem (set_chunk_info ci FROM_SLICE (log2 7)) s1\<rparr>"
  have "log2 7 < NPOOLS" using size_class [of 28 8] by (simp add: NPOOLS_def)
  then have fs: "galloc_from_slice ?g 0 28 = Some (?g1, Some (ci + 4))"
    using al(1) by (simp add: galloc_from_slice_def GALLOC_MIN_CHUNK_def)
  have "slab_ok {pg} (slab ?g)" using c(2) by (auto simp: slab_ok_def)
  moreover have "unat (ci + 4 - 4) mod PAGE_SIZE < PAGE_SIZE - BITMAP_SIZE (nobjs_of (slab ?g1) (galloc_sp ?g (log2 (28 div 4))))"
    using al(2) slice_alloc_pools [OF al(1)] c(3)
    by (simp add: got_def with_wmem_def nobjs_of_def BITMAP_SIZE_eq PAGE_SIZE_def)
  ultimately have "\<exists>g2. gfree ?g1 (ci + 4) = Some g2 \<and> unat (ci + 4 - 4) \<notin> slab_used (galloc_sp ?g (log2 (28 div 4))) (slab g2)"
    using galloc_gfree_roundtrip [of "{pg}" ?g 0 28 ?g1 "ci + 4"] fs by auto
  then show ?thesis using c(1) fs by auto
qed

end
