(* ===== verification/Vsnprintf.thy ===== *)
theory Vsnprintf
  imports Klib "HOL-Library.Signed_Division"
begin

text \<open>
  \<^verbatim>\<open>kernel/lib/vsnprintf.c\<close> and the printing core of \<^verbatim>\<open>kernel/textio.c\<close>: decimal and hexadecimal conversion and the
  format interpreter.

  The arguments are the 32-bit words of the \<^verbatim>\<open>va_list\<close>; taking one from an empty list faults.  The 12-byte
  conversion buffer \<^verbatim>\<open>sbuf\<close> is a list, and a write outside it faults.  A digit is read at \<^verbatim>\<open>digits[i]\<close> for whatever
  index the division leaves: inside the table it is the digit, outside it is the byte of memory there, given by
  \<open>around\<close> (for the format interpreter, the memory around the address \<open>v_digits\<close> that the linker chose for the table).
\<close>

section \<open>Numbers\<close>

definition digits :: "u8 list" where
  "digits = [48, 49, 50, 51, 52, 53, 54, 55, 56, 57, 65, 66, 67, 68, 69, 70]"

definition digit_at :: "(int \<Rightarrow> u8) \<Rightarrow> int \<Rightarrow> u8" where
  "digit_at around d = (if 0 \<le> d \<and> d < int (length digits) then digits ! nat d else around d)"

definition put_digit :: "(int \<Rightarrow> u8) \<Rightarrow> u8 list \<Rightarrow> int \<Rightarrow> int \<Rightarrow> u8 list option" where
  "put_digit around buf pos d =
    (if 0 \<le> pos \<and> pos < int (length buf) then Some (buf[nat pos := digit_at around d]) else None)"

partial_function (option) count_pos :: "int \<Rightarrow> int \<Rightarrow> int \<Rightarrow> int option" where
  "count_pos base l pos = (if l sdiv base \<noteq> 0 then count_pos base (l sdiv base) (pos + 1) else Some pos)"

partial_function (option) write_digits :: "(int \<Rightarrow> u8) \<Rightarrow> int \<Rightarrow> int \<Rightarrow> int \<Rightarrow> u8 list \<Rightarrow> u8 list option" where
  "write_digits around base i pos buf = do {
     buf1 \<leftarrow> put_digit around buf pos (i smod base);
     let i1 = i sdiv base;
     if i1 \<noteq> 0 then write_digits around base i1 (pos - 1) buf1 else Some buf1
   }"

text \<open>\<^verbatim>\<open>0 - i\<close> in a 32-bit \<^verbatim>\<open>long\<close> wraps for the smallest number.\<close>

definition neg32 :: "int \<Rightarrow> int" where
  "neg32 i = sint (- word_of_int i :: u32)"

definition sprint_int_signed :: "(int \<Rightarrow> u8) \<Rightarrow> u8 list \<Rightarrow> int \<Rightarrow> int \<Rightarrow> (u8 list \<times> int) option" where
  "sprint_int_signed around buf i base = do {
     let (buf1, pos, j) = (if i < 0 then (buf[0 := 45], 1, neg32 i) else (buf, 0, i));
     pos1 \<leftarrow> count_pos base i pos;
     buf2 \<leftarrow> write_digits around base j pos1 buf1;
     Some (buf2, pos1 + 1)
   }"

definition sprint_int_unsigned :: "(int \<Rightarrow> u8) \<Rightarrow> u8 list \<Rightarrow> u32 \<Rightarrow> int \<Rightarrow> (u8 list \<times> int) option" where
  "sprint_int_unsigned around buf i base = do {
     pos \<leftarrow> count_pos base (uint i) 0;
     buf1 \<leftarrow> write_digits around base (uint i) pos buf;
     Some (buf1, pos + 1)
   }"

section \<open>The format interpreter\<close>

record vsn =
  v_mem :: memory
  v_cur :: u32
  v_pos :: u32
  v_tag :: u8
  v_num :: int
  v_args :: "u32 list"
  v_digits :: u32

definition v_around :: "vsn \<Rightarrow> int \<Rightarrow> u8" where
  "v_around v d = v_mem v (v_digits v + word_of_int d)"

fun put_bytes :: "u32 \<Rightarrow> u8 list \<Rightarrow> memory \<Rightarrow> memory" where
  "put_bytes p [] m = m"
| "put_bytes p (b # bs) m = put_bytes (p + 1) bs (m(p := b))"

definition emit :: "u8 list \<Rightarrow> vsn \<Rightarrow> vsn" where
  "emit bs v = v\<lparr>v_mem := put_bytes (v_pos v) bs (v_mem v), v_pos := v_pos v + of_nat (length bs)\<rparr>"

definition va_arg :: "vsn \<Rightarrow> (u32 \<times> vsn) option" where
  "va_arg v = (case v_args v of [] \<Rightarrow> None | a # as \<Rightarrow> Some (a, v\<lparr>v_args := as\<rparr>))"

definition no_fill :: "vsn \<Rightarrow> vsn" where
  "no_fill v = v\<lparr>v_tag := 0, v_num := 0\<rparr>"

definition sbuf :: "u8 list" where
  "sbuf = replicate 12 0"

definition conv_signed :: "vsn \<Rightarrow> vsn option" where
  "conv_signed v = do {
     (a, v1) \<leftarrow> va_arg v;
     (b, n) \<leftarrow> sprint_int_signed (v_around v1) sbuf (sint a) 10;
     Some (no_fill (emit (take (nat n) b) v1))
   }"

definition conv_x :: "vsn \<Rightarrow> vsn option" where
  "conv_x v = do {
     (a, v1) \<leftarrow> va_arg v;
     (b, n) \<leftarrow> sprint_int_unsigned (v_around v1) sbuf a 16;
     let v2 = emit (replicate (nat (v_num v1 - n)) (v_tag v1)) v1;
     Some (no_fill (emit (take (nat n) b) v2))
   }"

definition conv_p :: "vsn \<Rightarrow> vsn option" where
  "conv_p v = do {
     (a, v1) \<leftarrow> va_arg v;
     (b, n) \<leftarrow> sprint_int_unsigned (v_around v1) sbuf a 16;
     let v2 = emit [48, 120] v1;
     let fill_num = 4 div 4;
     let v3 = emit (replicate (nat (fill_num - n)) 48) v2;
     Some (no_fill (emit (take (nat n) b) v3))
   }"

definition conv_c :: "vsn \<Rightarrow> vsn option" where
  "conv_c v = do { (a, v1) \<leftarrow> va_arg v; Some (emit [ucast a] v1) }"

definition conv_s :: "vsn \<Rightarrow> vsn option" where
  "conv_s v = do {
     (a, v1) \<leftarrow> va_arg v;
     if a = 0 \<or> v_mem v1 a = 0 then Some (emit [60, 110, 117, 108, 108, 62] v1)
     else do {
       n \<leftarrow> kstrlen (v_mem v1) a;
       Some (no_fill (v1\<lparr>v_mem := memory_copy (v_pos v1) a (unat n) (v_mem v1), v_pos := v_pos v1 + n\<rparr>))
     }
   }"

text \<open>
  From the label \<^verbatim>\<open>reswitch\<close> to the end of the switch.  The result \<open>None\<close> inside is the \<^verbatim>\<open>break\<close> out of the loop.
  (\<^verbatim>\<open>fmt_broken\<close> is only counted.)
\<close>

partial_function (option) reswitch :: "vsn \<Rightarrow> vsn option option" where
  "reswitch v =
    (if v_mem v (v_cur v) = 0 then Some None
     else
       (let v1 = v\<lparr>v_cur := v_cur v + 1\<rparr>;
            c = v_mem v (v_cur v1)
        in if 48 \<le> c \<and> c \<le> 57 then
             reswitch (if v_tag v1 = 0 then v1\<lparr>v_tag := c\<rparr>
                       else if v_num v1 = 0 then v1\<lparr>v_num := sint c - 48\<rparr>
                       else v1)
           else if c = 100 \<or> c = 108 then map_option Some (conv_signed v1)
           else if c = 120 then map_option Some (conv_x v1)
           else if c = 112 then map_option Some (conv_p v1)
           else if c = 99 then map_option Some (conv_c v1)
           else if c = 115 then map_option Some (conv_s v1)
           else Some (Some (no_fill v1))))"

partial_function (option) vsn_loop :: "u32 \<Rightarrow> u32 \<Rightarrow> vsn \<Rightarrow> (u32 \<times> vsn) option" where
  "vsn_loop fend old v = do {
     r \<leftarrow> kstrchr (v_mem v) (v_cur v) 37;
     (case r of
        None \<Rightarrow> Some (old, v)
      | Some cur \<Rightarrow> do {
          let n = cur - old;
          let v1 = v\<lparr>v_cur := cur, v_mem := memory_copy (v_pos v) old (unat n) (v_mem v), v_pos := v_pos v + n\<rparr>;
          w \<leftarrow> reswitch v1;
          (case w of
             None \<Rightarrow> Some (old, v1)
           | Some v2 \<Rightarrow>
               if v_cur v2 < fend then vsn_loop fend (v_cur v2 + 1) v2 else Some (v_cur v2 + 1, v2))
        })
   }"

text \<open>The \<^verbatim>\<open>size\<close> argument is not looked at.\<close>

definition vsnprintf :: "u32 \<Rightarrow> u32 \<Rightarrow> u32 \<Rightarrow> u32 \<Rightarrow> u32 list \<Rightarrow> memory \<Rightarrow> (memory \<times> u32) option" where
  "vsnprintf table buf sz format args m = do {
     n \<leftarrow> kstrlen m format;
     let fend = format + (n + 1);
     (old, v) \<leftarrow> vsn_loop fend format
       \<lparr>v_mem = m, v_cur = format, v_pos = buf, v_tag = 0, v_num = 0, v_args = args, v_digits = table\<rparr>;
     let k = fend - old;
     let m1 = memory_copy (v_pos v) old (unat k) (v_mem v);
     Some (m1, v_pos v + k - buf)
   }"

definition snprintf :: "u32 \<Rightarrow> u32 \<Rightarrow> u32 \<Rightarrow> u32 \<Rightarrow> u32 list \<Rightarrow> memory \<Rightarrow> (memory \<times> u32) option" where
  "snprintf table buf sz fmt args m = vsnprintf table buf sz fmt args m"

partial_function (option) print :: "(u8 \<Rightarrow> 'c \<Rightarrow> 'c) \<Rightarrow> memory \<Rightarrow> u32 \<Rightarrow> 'c \<Rightarrow> 'c option" where
  "print console_put_char m message con =
    (if m message \<noteq> 0 then print console_put_char m (message + 1) (console_put_char (m message) con) else Some con)"

definition kprintf ::
    "(u8 \<Rightarrow> 'c \<Rightarrow> 'c) \<Rightarrow> u32 \<Rightarrow> u32 \<Rightarrow> u32 \<Rightarrow> u32 \<Rightarrow> u32 list \<Rightarrow> memory \<Rightarrow> 'c \<Rightarrow> (memory \<times> 'c \<times> u32) option" where
  "kprintf console_put_char table buf OPT_KPRINTF_BUFSIZE fmt args m con = do {
     (m1, i) \<leftarrow> vsnprintf table buf OPT_KPRINTF_BUFSIZE fmt args m;
     con1 \<leftarrow> print console_put_char m1 buf con;
     Some (m1, con1, i)
   }"

section \<open>Number conversion\<close>

text \<open>The reference: the digits of a number, most significant first.\<close>

function numeral_of :: "nat \<Rightarrow> nat \<Rightarrow> u8 list" where
  "numeral_of b n = (if n < b \<or> b < 2 then [digits ! n] else numeral_of b (n div b) @ [digits ! (n mod b)])"
  by pat_completeness auto
termination
  by (relation "measure snd") auto

declare numeral_of.simps [simp del]

definition digit_value :: "u8 \<Rightarrow> nat" where
  "digit_value c = (if c < 58 then unat c - 48 else unat c - 55)"

definition numeral_value :: "nat \<Rightarrow> u8 list \<Rightarrow> nat" where
  "numeral_value b ds = foldl (\<lambda>a c. b * a + digit_value c) 0 ds"

lemma digit_value_digits: "d < 16 \<Longrightarrow> digit_value (digits ! d) = d"
proof -
  have "list_all (\<lambda>d. digit_value (digits ! d) = d) [0..<16]" by code_simp
  then show "d < 16 \<Longrightarrow> digit_value (digits ! d) = d" by (simp add: list_all_iff)
qed

lemma numeral_value_of: "2 \<le> b \<Longrightarrow> b \<le> 16 \<Longrightarrow> numeral_value b (numeral_of b n) = n"
proof (induction b n rule: numeral_of.induct)
  case (1 b n)
  show ?case
  proof (cases "n < b")
    case True
    then show ?thesis using "1.prems" by (simp add: numeral_of.simps [of b n] numeral_value_def digit_value_digits)
  next
    case False
    moreover have "n mod b < 16" using "1.prems" by (meson less_le_trans mod_less_divisor zero_less_numeral le_trans not_less le_0_eq)
    ultimately show ?thesis
      using 1 by (simp add: numeral_of.simps [of b n] numeral_value_def digit_value_digits)
  qed
qed

lemma numeral_of_nonempty [simp]: "numeral_of b n \<noteq> []"
  by (simp add: numeral_of.simps [of b n])

lemma numeral_of_length: "2 \<le> b \<Longrightarrow> n < b ^ k \<Longrightarrow> 0 < k \<Longrightarrow> length (numeral_of b n) \<le> k"
proof (induction k arbitrary: n)
  case (Suc k)
  show ?case
  proof (cases "n < b")
    case True
    then show ?thesis by (simp add: numeral_of.simps [of b n])
  next
    case False
    have "n div b < b ^ k" using Suc.prems by (simp add: less_mult_imp_div_less mult.commute)
    moreover have "0 < k" using Suc.prems False by (cases k) auto
    ultimately show ?thesis using Suc.IH [of "n div b"] Suc.prems(1) False by (simp add: numeral_of.simps [of b n])
  qed
qed simp

lemma sdiv_nat: "int n sdiv int b = int (n div b)" "int n smod int b = int (n mod b)"
    "(- int n) sdiv int b = - int (n div b)"
  by (simp_all add: signed_divide_int_def signed_modulo_int_def zdiv_int zmod_int sgn_if minus_mult_div_eq_mod)

lemma count_pos_nat:
  assumes "2 \<le> b"
  shows "count_pos (int b) (int n) pos = Some (pos + int (length (numeral_of b n)) - 1)"
    and "count_pos (int b) (- int n) pos = Some (pos + int (length (numeral_of b n)) - 1)"
  using assms
proof (induction b n arbitrary: pos rule: numeral_of.induct)
  case (1 b n)
  {
    case 1
    then show ?case
      using "1.IH"(1) [of "pos + 1"] by (cases "n < b") (simp_all add: count_pos.simps [of "int b" "int n"] sdiv_nat div_greater_zero_iff numeral_of.simps [of b n])
  next
    case 2
    then show ?case
      using "1.IH"(2) [of "pos + 1"] by (cases "n < b") (simp_all add: count_pos.simps [of "int b" "- int n"] sdiv_nat div_greater_zero_iff numeral_of.simps [of b n])
  }
qed

lemma put_digit_nat:
  "p < length buf \<Longrightarrow> d < 16 \<Longrightarrow> put_digit around buf (int p) (int d) = Some (buf[p := digits ! d])"
  by (simp add: put_digit_def digit_at_def digits_def)

lemma write_digits_nat:
  assumes "2 \<le> b" and "b \<le> 16"
  shows "p < length buf \<Longrightarrow> length (numeral_of b n) \<le> Suc p \<Longrightarrow>
    write_digits around (int b) (int n) (int p) buf =
      Some (take (Suc p - length (numeral_of b n)) buf @ numeral_of b n @ drop (Suc p) buf)"
  using assms
proof (induction b n arbitrary: p buf rule: numeral_of.induct)
  case (1 b n)
  have m: "n mod b < 16" using "1.prems"(3,4) by (intro less_le_trans [OF mod_less_divisor]) auto
  have step: "write_digits around (int b) (int n) (int p) buf =
      (if n div b \<noteq> 0 then write_digits around (int b) (int (n div b)) (int p - 1) (buf[p := digits ! (n mod b)])
       else Some (buf[p := digits ! (n mod b)]))"
    using put_digit_nat [OF "1.prems"(1) m] by (subst write_digits.simps) (simp add: sdiv_nat)
  show ?case
  proof (cases "n < b")
    case True
    then show ?thesis using step "1.prems"(1) by (simp add: numeral_of.simps [of b n] upd_conv_take_nth_drop)
  next
    case False
    then have nz: "n div b \<noteq> 0" using "1.prems"(3) by (simp add: div_eq_0_iff)
    have num: "numeral_of b n = numeral_of b (n div b) @ [digits ! (n mod b)]"
      using False "1.prems"(3) by (simp add: numeral_of.simps [of b n])
    obtain q where q: "p = Suc q"
      using "1.prems"(2) num by (cases p) auto
    have "write_digits around (int b) (int (n div b)) (int q) (buf[p := digits ! (n mod b)]) =
        Some (take (Suc q - length (numeral_of b (n div b))) (buf[p := digits ! (n mod b)]) @
          numeral_of b (n div b) @ drop (Suc q) (buf[p := digits ! (n mod b)]))"
      using "1.prems" False num q by (intro "1.IH") auto
    then show ?thesis
      using step nz num q "1.prems"(1) by (simp add: upd_conv_take_nth_drop)
  qed
qed

lemma sprint_unsigned_numeral:
  assumes "2 \<le> b" and "b \<le> 16" and "length (numeral_of b (unat i)) \<le> length buf"
  shows "sprint_int_unsigned around buf i (int b) =
    Some (numeral_of b (unat i) @ drop (length (numeral_of b (unat i))) buf, int (length (numeral_of b (unat i))))"
proof -
  let ?k = "length (numeral_of b (unat i))"
  obtain p where p: "?k = Suc p" by (metis length_0_conv not0_implies_Suc numeral_of_nonempty)
  have "count_pos (int b) (uint i) 0 = Some (int p)"
    using count_pos_nat(1) [OF assms(1), of "unat i" 0] p by simp
  moreover have "write_digits around (int b) (uint i) (int p) buf = Some (numeral_of b (unat i) @ drop ?k buf)"
    using write_digits_nat [OF assms(1,2), of p buf "unat i"] assms(3) p by simp
  ultimately show ?thesis by (simp add: sprint_int_unsigned_def p)
qed

lemma sprint_signed_numeral:
  assumes "- (2 ^ 31) < i" and "i < 2 ^ 31"
    and len: "length ((if i < 0 then [45] else []) @ numeral_of 10 (nat \<bar>i\<bar>)) \<le> length buf"
  defines "s \<equiv> (if i < 0 then [45] else []) @ numeral_of 10 (nat \<bar>i\<bar>)"
  shows "sprint_int_signed around buf i 10 = Some (s @ drop (length s) buf, int (length s))"
proof (cases "i < 0")
  case True
  let ?n = "nat \<bar>i\<bar>"
  have neg: "neg32 i = int ?n"
  proof -
    have "neg32 i = sint (word_of_int (- i) :: u32)" by (simp add: neg32_def)
    also have "\<dots> = - i" using assms(1) True unfolding sint_sbintrunc' by (intro signed_take_bit_int_eq_self) simp_all
    finally show ?thesis using True by simp
  qed
  have "count_pos 10 i 1 = Some (int (length (numeral_of 10 ?n)))"
    using count_pos_nat(2) [of 10 ?n 1] True by simp
  moreover have "write_digits around 10 (int ?n) (int (length (numeral_of 10 ?n))) (buf[0 := 45]) =
      Some (45 # numeral_of 10 ?n @ drop (Suc (length (numeral_of 10 ?n))) buf)"
  proof -
    obtain x xs where buf: "buf = x # xs" using len True by (cases buf) auto
    then show ?thesis using write_digits_nat [of 10 "length (numeral_of 10 ?n)" "45 # xs" ?n] len True by simp
  qed
  ultimately show ?thesis using True by (simp add: sprint_int_signed_def neg s_def)
next
  case False
  obtain p where p: "length (numeral_of 10 (nat i)) = Suc p" by (metis length_0_conv not0_implies_Suc numeral_of_nonempty)
  have "count_pos 10 i 0 = Some (int p)"
    using count_pos_nat(1) [of 10 "nat i" 0] p False by simp
  moreover have "write_digits around 10 i (int p) buf = Some (numeral_of 10 (nat i) @ drop (Suc p) buf)"
    using write_digits_nat [of 10 p buf "nat i"] len p False by simp
  ultimately show ?thesis using False by (simp add: sprint_int_signed_def s_def p)
qed

text \<open>
  Hexadecimal and decimal conversion agree with the reference: \<^verbatim>\<open>sprint_int_unsigned\<close> returns for every 32-bit
  number, stays inside the 12-byte buffer, and leaves the digits of the number there, most
  significant first, and their count.
\<close>

lemma sprint_unsigned_reference:
  assumes "b = 10 \<or> b = 16"
  shows "\<exists>ds. sprint_int_unsigned around sbuf i (int b) = Some (ds @ drop (length ds) sbuf, int (length ds)) \<and>
    ds = numeral_of b (unat i) \<and> numeral_value b ds = unat i \<and> length ds \<le> 10"
proof -
  have "unat i < 10 ^ 10" "unat i < 16 ^ 10" using unat_less32 [of i] by simp_all
  then have "length (numeral_of b (unat i)) \<le> 10" using assms by (auto intro: numeral_of_length)
  then show ?thesis
    using assms sprint_unsigned_numeral [of b i sbuf] numeral_value_of [of b "unat i"] by (auto simp: sbuf_def)
qed

text \<open>
  \<open>-2147483648\<close> stays negative when it is negated, so every remainder is negative: the bytes written are those in
  front of the digit table.
\<close>

lemma write_digits_least:
  assumes len: "length sbuf' = 11"
  shows "write_digits around 10 (- 2147483648) 10 (45 # sbuf') =
    Some (45 # map (\<lambda>d. around (- d)) [2, 1, 4, 7, 4, 8, 3, 6, 4, 8] @ drop 10 sbuf')"
proof -
  obtain a0 a1 a2 a3 a4 a5 a6 a7 a8 a9 a10 where s: "sbuf' = [a0, a1, a2, a3, a4, a5, a6, a7, a8, a9, a10]"
    using len by (auto simp: numeral_eq_Suc length_Suc_conv)
  show ?thesis
    by (simp add: s put_digit_def digit_at_def signed_divide_int_def signed_modulo_int_def
        write_digits.simps [of _ _ "- 2147483648"] write_digits.simps [of _ _ "- 214748364"] write_digits.simps [of _ _ "- 21474836"]
        write_digits.simps [of _ _ "- 2147483"] write_digits.simps [of _ _ "- 214748"] write_digits.simps [of _ _ "- 21474"]
        write_digits.simps [of _ _ "- 2147"] write_digits.simps [of _ _ "- 214"] write_digits.simps [of _ _ "- 21"]
        write_digits.simps [of _ _ "- 2"])
qed

text \<open>
  C37. Signed conversion returns for every 32-bit number.  It leaves the sign and the digits of the absolute value,
  within 11 bytes, for every number but the smallest: for \<open>-2147483648\<close> the negation wraps and the ten characters
  after the sign are not digits but the bytes at the indices \<open>-2, -1, -4, -7, -4, -8, -3, -6, -4, -8\<close>, in front of the
  digit table.
\<close>

theorem sprint_signed_reference:
  assumes "- (2 ^ 31) \<le> i" and "i < 2 ^ 31"
  shows "sprint_int_signed around sbuf i 10 =
    (let s = (if i = - (2 ^ 31) then 45 # map (\<lambda>d. around (- d)) [2, 1, 4, 7, 4, 8, 3, 6, 4, 8]
              else (if i < 0 then [45] else []) @ numeral_of 10 (nat \<bar>i\<bar>))
     in Some (s @ drop (length s) sbuf, int (length s))) \<and>
    length (numeral_of 10 (nat \<bar>i\<bar>)) \<le> 10"
proof -
  have len: "length (numeral_of 10 (nat \<bar>i\<bar>)) \<le> 10" using assms by (intro numeral_of_length) auto
  show ?thesis
  proof (cases "i = - (2 ^ 31)")
    case True
    have "neg32 i = - 2147483648" by (simp add: neg32_def True)
    moreover have "count_pos 10 i 1 = Some 10"
      using count_pos_nat(2) [of 10 "2 ^ 31" 1] by (simp add: True numeral_of.simps)
    moreover have s0: "sbuf[0 := 45] = 45 # replicate 11 0" "drop 11 sbuf = [0]" by (simp_all add: sbuf_def numeral_eq_Suc)
    moreover have "drop 10 (replicate 11 0) = [0 :: u8]" by (simp add: numeral_eq_Suc)
    ultimately have "sprint_int_signed around sbuf i 10 =
        Some (45 # map (\<lambda>d. around (- d)) [2, 1, 4, 7, 4, 8, 3, 6, 4, 8] @ [0], 11)"
      using True write_digits_least [of "replicate 11 0" around] by (simp add: sprint_int_signed_def)
    then show ?thesis using True len by (simp add: sbuf_def)
  next
    case False
    then show ?thesis using sprint_signed_numeral [of i sbuf around] assms len by (auto simp: sbuf_def Let_def)
  qed
qed

theorem sprint_signed_reference_witness:
  "(\<exists>b. sprint_int_signed (\<lambda>d. 7) sbuf (-42) 10 = Some ([45, 52, 50] @ b, 3)) \<and>
    sprint_int_signed (\<lambda>d. 7) sbuf (- (2 ^ 31)) 10 = Some ([45, 7, 7, 7, 7, 7, 7, 7, 7, 7, 7, 0], 11)"
  using sprint_signed_reference [of "-42" "\<lambda>d. 7"] sprint_signed_reference [of "- (2 ^ 31)" "\<lambda>d. 7"]
  by (simp add: numeral_of.simps digits_def sbuf_def)

text \<open>
  C38. A non-empty format without a percent sign is copied to the buffer with its terminator, whatever the \<^verbatim>\<open>size\<close>
  argument says, and the returned count includes the terminator.  The empty format is not: \<^verbatim>\<open>kstrlen\<close> skips its
  terminator, so the string that happens to follow it in memory is copied and counted too.
\<close>

theorem vsnprintf_plain:
  assumes "cstr m format xs" and "37 \<notin> set xs" and "length xs < 2 ^ 32 - 1"
    and "cstr m (format + 1) ys" and "length ys < 2 ^ 32 - 2"
  shows "vsnprintf table buf sz format args m =
    (if xs = [] then Some (memory_copy buf format (length ys + 2) m, of_nat (length ys + 2))
     else Some (memory_copy buf format (length xs + 1) m, of_nat (length xs + 1)))"
proof -
  have n: "kstrlen m format = Some (of_nat (if xs = [] then length ys + 1 else length xs))"
    using assms(1,4) kstrlen_cstr [of m format "hd xs" "tl xs"] kstrlen_after_empty [of m format ys] by (cases xs) auto
  have c: "kstrchr m format 37 = Some None" using kstrchr_cstr [OF assms(1), of 37] assms(2) by simp
  have u: "unat (of_nat (length xs) + 1 :: u32) = length xs + 1" "unat (of_nat (length ys) + 2 :: u32) = length ys + 2"
    using unat_of_nat32 [of "length xs + 1"] unat_of_nat32 [of "length ys + 2"] assms(3,5) by (simp_all add: add.commute)
  show ?thesis
  proof (cases "xs = []")
    case True
    then have "kstrlen m format = Some (of_nat (length ys) + 1)" using n by (simp add: add.commute)
    then show ?thesis using True u(2) by (simp add: vsnprintf_def vsn_loop.simps c add.assoc)
  next
    case False
    then show ?thesis using u(1) n by (simp add: vsnprintf_def vsn_loop.simps c)
  qed
qed

theorem vsnprintf_plain_witness:
  "vsnprintf 50 100 0 0 [] (\<lambda>a. if a = 0 then 79 else if a = 1 then 75 else 0) =
    Some (memory_copy 100 0 3 (\<lambda>a. if a = 0 then 79 else if a = 1 then 75 else 0), 3) \<and>
   vsnprintf 50 100 0 0 [] (\<lambda>a. if a = 1 then 75 else 0) = Some (memory_copy 100 0 3 (\<lambda>a. if a = 1 then 75 else 0), 3)"
  using vsnprintf_plain [of "\<lambda>a. if a = 0 then 79 else if a = 1 then 75 else 0" 0 "[79, 75]" "[75]" 50 100 0 "[]"]
    vsnprintf_plain [of "\<lambda>a. if a = 1 then 75 else 0" 0 "[]" "[75]" 50 100 0 "[]"]
  by (simp add: numeral_3_eq_3)

end
