(* ===== verification/Arch_I386.thy ===== *)
theory Arch_I386
  imports Koo_Base
begin

text \<open>
  The hardware-facing parts of \<^verbatim>\<open>arch/i386\<close>: port input and output (\<^verbatim>\<open>include/i386/asm.h\<close>), the interrupt
  controller (\<^verbatim>\<open>pic.c\<close>), the early serial and VGA consoles (\<^verbatim>\<open>serial_console.c\<close>, \<^verbatim>\<open>vga_console.c\<close>,
  \<^verbatim>\<open>console.c\<close>), the descriptor tables (\<^verbatim>\<open>segments.c\<close>, \<^verbatim>\<open>include/i386/segments.h\<close>) and the gates set up by
  \<^verbatim>\<open>irq.c\<close> and \<^verbatim>\<open>trap.c\<close>.

  Devices are not part of the program: an output is appended to a log, and the byte an input returns
  is given by an oracle that depends on the port and on how many inputs were made before.
\<close>

section \<open>Port input and output\<close>

record io =
  io_read :: "nat \<Rightarrow> u16 \<Rightarrow> u8"
  io_reads :: nat
  io_log :: "(u16 \<times> u8) list"

definition inb :: "u16 \<Rightarrow> io \<Rightarrow> io \<times> u8" where
  "inb port d = (d\<lparr>io_reads := Suc (io_reads d)\<rparr>, io_read d (io_reads d) port)"

definition outb :: "u16 \<Rightarrow> u8 \<Rightarrow> io \<Rightarrow> io" where
  "outb port data d = d\<lparr>io_log := io_log d @ [(port, data)]\<rparr>"

section \<open>The interrupt controller\<close>

definition PIC1_BASE_PORT :: u16 where "PIC1_BASE_PORT = 0x20"
definition PIC2_BASE_PORT :: u16 where "PIC2_BASE_PORT = 0x2A"
definition PIC_EOI :: u8 where "PIC_EOI = 0x20"

record pic =
  pic1_mask :: u8
  pic2_mask :: u8
  pic_io :: io

definition pic_outb :: "u16 \<Rightarrow> u8 \<Rightarrow> pic \<Rightarrow> pic" where
  "pic_outb port data p = p\<lparr>pic_io := outb port data (pic_io p)\<rparr>"

definition pic_clear :: "pic \<Rightarrow> pic" where
  "pic_clear p =
    (let p1 = pic_outb PIC1_BASE_PORT 0x11 p;
         p2 = pic_outb PIC2_BASE_PORT 0x11 p1;
         p3 = pic_outb (PIC1_BASE_PORT + 1) 0x20 p2;
         p4 = pic_outb (PIC2_BASE_PORT + 1) 0x28 p3;
         p5 = pic_outb (PIC1_BASE_PORT + 1) 0x04 p4;
         p6 = pic_outb (PIC2_BASE_PORT + 1) 0x02 p5;
         p7 = pic_outb (PIC1_BASE_PORT + 1) 0x01 p6;
         p8 = pic_outb (PIC2_BASE_PORT + 1) 0x01 p7;
         p9 = pic_outb (PIC1_BASE_PORT + 1) 0xFF p8;
         p10 = pic_outb (PIC2_BASE_PORT + 1) 0xFF p9
     in p10\<lparr>pic1_mask := 0xFF, pic2_mask := 0xFF\<rparr>)"

definition pic_mask_interrupt :: "u32 \<Rightarrow> pic \<Rightarrow> pic" where
  "pic_mask_interrupt number p =
    (if number > 15 then p
     else if number > 7 then
       (let tmp = push_bit (unat (number - 8)) 1;
            p1 = p\<lparr>pic2_mask := pic2_mask p OR tmp\<rparr>
        in pic_outb (PIC2_BASE_PORT + 1) (pic2_mask p1) p1)
     else
       (let tmp = push_bit (unat number) 1;
            p1 = p\<lparr>pic1_mask := pic1_mask p OR tmp\<rparr>
        in pic_outb (PIC1_BASE_PORT + 1) (pic1_mask p1) p1))"

definition pic_unmask_interrupt :: "u32 \<Rightarrow> pic \<Rightarrow> pic" where
  "pic_unmask_interrupt number p =
    (if number > 15 then p
     else if number > 7 then
       (let tmp = NOT (push_bit (unat (number - 8)) 1);
            p1 = p\<lparr>pic2_mask := pic2_mask p AND tmp\<rparr>
        in pic_outb (PIC2_BASE_PORT + 1) (pic2_mask p1) p1)
     else
       (let tmp = NOT (push_bit (unat number) 1);
            p1 = p\<lparr>pic1_mask := pic1_mask p AND tmp\<rparr>
        in pic_outb (PIC1_BASE_PORT + 1) (pic1_mask p1) p1))"

definition pic_do_eoi :: "u32 \<Rightarrow> pic \<Rightarrow> pic" where
  "pic_do_eoi number p =
    (if number > 15 then p
     else (let p1 = pic_outb PIC1_BASE_PORT PIC_EOI p
           in if number \<ge> 8 then pic_outb PIC2_BASE_PORT PIC_EOI p1 else p1))"

section \<open>Early consoles\<close>

definition SERIO_1_BASE :: u16 where "SERIO_1_BASE = 0x3F8"

definition early_serial_init :: "io \<Rightarrow> io" where
  "early_serial_init d =
    outb (SERIO_1_BASE + 4) 0x00
      (outb (SERIO_1_BASE + 1) 0x00
        (outb (SERIO_1_BASE + 3) 0x03
          (outb (SERIO_1_BASE + 1) 0
            (outb (SERIO_1_BASE + 0) 12
              (outb (SERIO_1_BASE + 3) 0x80 d)))))"

definition early_serial_put_char :: "u8 \<Rightarrow> io \<Rightarrow> io" where
  "early_serial_put_char c d = outb SERIO_1_BASE c d"

text \<open>The video buffer is memory from \<^verbatim>\<open>VGA_BASE\<close> on, addressed here by the offset from it.\<close>

definition VGA_LINES :: nat where "VGA_LINES = 25"
definition VGA_COLUMNS :: nat where "VGA_COLUMNS = 80"

record vga =
  vga_color :: u8
  vga_buf :: "nat \<Rightarrow> u8"
  vga_io :: io

fun scroll_copy :: "nat \<Rightarrow> nat \<Rightarrow> (nat \<Rightarrow> u8) \<Rightarrow> nat \<Rightarrow> u8" where
  "scroll_copy t 0 b = b"
| "scroll_copy t (Suc n) b = scroll_copy (Suc t) n (b(t := b (VGA_COLUMNS * 2 + t)))"

fun scroll_clear :: "nat \<Rightarrow> nat \<Rightarrow> (nat \<Rightarrow> u8) \<Rightarrow> nat \<Rightarrow> u8" where
  "scroll_clear t 0 b = b"
| "scroll_clear t (Suc n) b =
    scroll_clear (t + 2) n (b(VGA_COLUMNS * (VGA_LINES - 1) * 2 + t := 0))"

definition vga_scroll :: "vga \<Rightarrow> vga" where
  "vga_scroll v =
    v\<lparr>vga_buf := scroll_clear 0 VGA_COLUMNS (scroll_copy 0 (VGA_COLUMNS * (VGA_LINES - 1) * 2) (vga_buf v))\<rparr>"

definition vga_set_cursor :: "u16 \<Rightarrow> io \<Rightarrow> io" where
  "vga_set_cursor cursor d =
    outb 0x3D5 (ucast (drop_bit 8 cursor)) (outb 0x3D4 14 (outb 0x3D5 (ucast cursor) d))"

definition vga_get_cursor :: "io \<Rightarrow> io \<times> u16" where
  "vga_get_cursor d =
    (let d1 = outb 0x3D4 14 d;
         (d2, hi) = inb 0x3D5 d1;
         d3 = outb 0x3D4 15 d2;
         (d4, lo) = inb 0x3D5 d3
     in (d4, push_bit 8 (ucast hi) OR ucast lo))"

definition early_vga_init :: "vga \<Rightarrow> vga" where
  "early_vga_init v = v\<lparr>vga_color := 0x0f\<rparr>"

definition vga_setcolor :: "u8 \<Rightarrow> vga \<Rightarrow> vga" where
  "vga_setcolor c v = v\<lparr>vga_color := c\<rparr>"

definition early_vga_put_char :: "u8 \<Rightarrow> vga \<Rightarrow> vga" where
  "early_vga_put_char c v =
    (let (d, cursor) = vga_get_cursor (vga_io v);
         v1 = v\<lparr>vga_io := d\<rparr>;
         (v2, cursor') =
           (if c = 10 then
              (if unat cursor < VGA_COLUMNS * (VGA_LINES - 1)
               then (v1, cursor - cursor mod of_nat VGA_COLUMNS + of_nat VGA_COLUMNS)
               else (vga_scroll v1, cursor - cursor mod of_nat VGA_COLUMNS))
            else
              (let (v3, cur) =
                 (if unat cursor = VGA_LINES * VGA_COLUMNS
                  then (vga_scroll v1, cursor - of_nat VGA_COLUMNS) else (v1, cursor));
                   b1 = (vga_buf v3)(unat cur * 2 := c);
                   b2 = b1(unat cur * 2 + 1 := vga_color v3)
               in (v3\<lparr>vga_buf := b2\<rparr>, cur + 1)))
     in v2\<lparr>vga_io := vga_set_cursor cursor' (vga_io v2)\<rparr>)"

text \<open>The two options of the build choose which early consoles are used.\<close>

record console_opts =
  OPT_EARLY_SERIAL_CONSOLE :: bool
  OPT_EARLY_VGA_CONSOLE :: bool

definition early_console_init :: "console_opts \<Rightarrow> vga \<Rightarrow> vga" where
  "early_console_init opt v =
    (let v1 = (if OPT_EARLY_SERIAL_CONSOLE opt then v\<lparr>vga_io := early_serial_init (vga_io v)\<rparr> else v)
     in if OPT_EARLY_VGA_CONSOLE opt then early_vga_init v1 else v1)"

definition console_put_char :: "console_opts \<Rightarrow> u8 \<Rightarrow> vga \<Rightarrow> vga" where
  "console_put_char opt c v =
    (let v1 = (if OPT_EARLY_SERIAL_CONSOLE opt then v\<lparr>vga_io := early_serial_put_char c (vga_io v)\<rparr> else v)
     in if OPT_EARLY_VGA_CONSOLE opt then early_vga_put_char c v1 else v1)"

section \<open>Segments and gates\<close>

definition KERN_CODE :: u16 where "KERN_CODE = 0x08"
definition KERN_DATA :: u16 where "KERN_DATA = 0x10"
definition TSS :: u32 where "TSS = 0x28"
definition GDT_ENTRIES :: nat where "GDT_ENTRIES = 7"
definition IDT_ENTRIES :: nat where "IDT_ENTRIES = 256"

record segdesc =
  sd_size :: u16
  base_low :: u16
  base_mid :: u8
  sd_attr :: u16
  base_high :: u8

record gatedesc =
  off_low :: u16
  selector :: u16
  gd_reserved :: u8
  gd_attr :: u8
  off_high :: u16

definition SD_SYSTEM :: u16 where "SD_SYSTEM = 0x0010"
definition SD_PRESENT_MASK :: u16 where "SD_PRESENT_MASK = 0x0080"
definition SD_DFL32_MASK :: u16 where "SD_DFL32_MASK = 0x4000"
definition SD_GRAN_MASK :: u16 where "SD_GRAN_MASK = 0x8000"
definition GD_PRESENT_MASK :: u8 where "GD_PRESENT_MASK = 0x80"

definition SD_ATTRS :: "u8 \<Rightarrow> u8 \<Rightarrow> u16" where
  "SD_ATTRS type priv =
    SD_SYSTEM OR push_bit 1 (ucast type) OR push_bit 5 (ucast priv) OR SD_PRESENT_MASK OR SD_DFL32_MASK OR SD_GRAN_MASK"

definition SD_SYSATTRS :: "u8 \<Rightarrow> u8 \<Rightarrow> u16" where
  "SD_SYSATTRS type priv = ucast type OR push_bit 5 (ucast priv) OR SD_PRESENT_MASK OR SD_DFL32_MASK"

definition GD_ATTRS :: "u8 \<Rightarrow> u8 \<Rightarrow> u8" where
  "GD_ATTRS type priv = type OR push_bit 5 priv OR GD_PRESENT_MASK"

definition GT_FREE_TSS :: u8 where "GT_FREE_TSS = 0x09"
definition GT_INT :: u8 where "GT_INT = 0x0e"
definition GT_TRAP :: u8 where "GT_TRAP = 0x0f"
definition DPL_KERN :: u8 where "DPL_KERN = 0"
definition DPL_USER :: u8 where "DPL_USER = 3"

type_synonym gdt = "nat \<Rightarrow> segdesc"
type_synonym idt = "nat \<Rightarrow> gatedesc"

definition segdesc_init :: "u32 \<Rightarrow> u32 \<Rightarrow> u32 \<Rightarrow> u8 \<Rightarrow> u8 \<Rightarrow> gdt \<Rightarrow> gdt" where
  "segdesc_init idx base sz type priv s =
    (let n = unat (drop_bit 3 idx)
     in s(n := \<lparr>sd_size = ucast sz, base_low = ucast base, base_mid = ucast (drop_bit 16 base),
          sd_attr = ucast (drop_bit 8 (sz AND 0x0f0000)) OR SD_ATTRS type priv,
          base_high = ucast (drop_bit 24 base)\<rparr>))"

definition syssegdesc_init :: "u32 \<Rightarrow> u32 \<Rightarrow> u32 \<Rightarrow> u8 \<Rightarrow> u8 \<Rightarrow> gdt \<Rightarrow> gdt" where
  "syssegdesc_init idx base sz type priv s =
    (let n = unat (drop_bit 3 idx)
     in s(n := \<lparr>sd_size = ucast sz, base_low = ucast base, base_mid = ucast (drop_bit 16 base),
          sd_attr = ucast (drop_bit 8 (sz AND 0x0f0000)) OR SD_SYSATTRS type priv,
          base_high = ucast (drop_bit 24 base)\<rparr>))"

definition gatedesc_init :: "u32 \<Rightarrow> u32 \<Rightarrow> u8 \<Rightarrow> u8 \<Rightarrow> idt \<Rightarrow> idt" where
  "gatedesc_init idx offset type priv g =
    (let n = unat (drop_bit 3 idx)
     in g(n := (g n)\<lparr>selector := KERN_CODE, off_low := ucast offset, off_high := ucast (drop_bit 16 offset),
          gd_attr := GD_ATTRS type priv\<rparr>))"

definition intgate_init :: "u32 \<Rightarrow> u32 \<Rightarrow> idt \<Rightarrow> idt" where
  "intgate_init num handler = gatedesc_init (push_bit 3 num) handler GT_INT DPL_USER"

definition sysgate_init :: "u32 \<Rightarrow> u32 \<Rightarrow> idt \<Rightarrow> idt" where
  "sysgate_init num handler = gatedesc_init (push_bit 3 num) handler GT_TRAP DPL_USER"

definition trapgate_init :: "u32 \<Rightarrow> u32 \<Rightarrow> idt \<Rightarrow> idt" where
  "trapgate_init num handler = gatedesc_init (push_bit 3 num) handler GT_TRAP DPL_KERN"

text \<open>\<open>sizeof(struct tss_segment)\<close> and the offset of its \<^verbatim>\<open>iomap\<close>: 25 words, two half-words, 2048 bytes.\<close>

definition IOPERMSZ :: nat where "IOPERMSZ = 2048"

record tss_segment =
  esp0 :: u32
  ss0 :: u32
  iobase :: u16
  iomap :: "nat \<Rightarrow> u8"

definition init_root_tss :: "u32 \<Rightarrow> gdt \<Rightarrow> tss_segment \<Rightarrow> gdt \<times> tss_segment" where
  "init_root_tss root_tss g t =
    (let t1 = t\<lparr>ss0 := ucast KERN_DATA, iobase := 104, iomap := (iomap t)(IOPERMSZ - 1 := 0xff)\<rparr>
     in (syssegdesc_init TSS root_tss (104 + of_nat IOPERMSZ) GT_FREE_TSS DPL_KERN g, t1))"

text \<open>The entry stubs of \<^verbatim>\<open>asm/irq.S\<close> and \<^verbatim>\<open>asm/interrupt.S\<close> are addresses.\<close>

definition interrupts_init :: "(nat \<Rightarrow> u32) \<Rightarrow> pic \<Rightarrow> idt \<Rightarrow> pic \<times> idt" where
  "interrupts_init irq_pre_handler p g =
    (pic_clear p, fold (\<lambda>i. intgate_init (of_nat (32 + i)) (irq_pre_handler i)) [0..<16] g)"

definition trap_init :: "u32 \<Rightarrow> u32 \<Rightarrow> u32 \<Rightarrow> u32 \<Rightarrow> idt \<Rightarrow> idt" where
  "trap_init ud2_entry general_protection pf_entry sys_call_entry g =
    intgate_init 0x40 sys_call_entry
      (trapgate_init 14 pf_entry
        (trapgate_init 13 general_protection
          (trapgate_init 6 ud2_entry g)))"

text \<open>
  The dumps, as the list of what they print.  \<^verbatim>\<open>gdt_dump\<close> takes the size from \<open>s->size\<close> and \<open>s->attr\<close>, the
  first entry, in every line.
\<close>

definition gdt_dump :: "gdt \<Rightarrow> (u32 \<times> u32 \<times> u16) list" where
  "gdt_dump s =
    map (\<lambda>i. (ucast (sd_size (s 0)) OR push_bit 8 (ucast (sd_attr (s 0)) AND 0x0f00),
              ucast (base_low (s i)) OR push_bit 16 (ucast (base_mid (s i))) OR push_bit 24 (ucast (base_high (s i))),
              sd_attr (s i))) [0..<GDT_ENTRIES]"

definition idt_dump :: "idt \<Rightarrow> (u16 \<times> u32 \<times> u8) list" where
  "idt_dump g =
    map (\<lambda>i. (selector (g i), ucast (off_low (g i)) OR push_bit 16 (ucast (off_high (g i))), gd_attr (g i)))
      [0..<IDT_ENTRIES]"

section \<open>Descriptors\<close>

lemma bytes_of_base:
  "ucast (ucast b :: u16) OR push_bit 16 (ucast (ucast (drop_bit 16 b) :: u8)) OR
   push_bit 24 (ucast (ucast (drop_bit 24 b) :: u8)) = (b :: u32)"
proof (rule bit_word_eqI)
  fix n
  assume "n < LENGTH(32)"
  then show "bit (ucast (ucast b :: u16) OR push_bit 16 (ucast (ucast (drop_bit 16 b) :: u8)) OR
      push_bit 24 (ucast (ucast (drop_bit 24 b) :: u8)) :: u32) n = bit b n"
    by (cases "24 \<le> n") (auto simp: bit_simps not_less)
qed

lemma halves_of_offset:
  "ucast (ucast b :: u16) OR push_bit 16 (ucast (ucast (drop_bit 16 b) :: u16)) = (b :: u32)"
  by (rule bit_word_eqI) (auto simp: bit_simps not_less)

lemma bit_numeral_mask: "bit (0xfffff :: u32) n \<longleftrightarrow> n < 20" "bit (0x0f0000 :: u32) n \<longleftrightarrow> 16 \<le> n \<and> n < 20"
    "bit (0x0f00 :: u32) n \<longleftrightarrow> 8 \<le> n \<and> n < 12"
proof -
  have 1: "(0xfffff :: u32) = mask 20" "(0x0f0000 :: u32) = push_bit 16 (mask 4)" "(0x0f00 :: u32) = push_bit 8 (mask 4)"
    by (simp_all add: mask_eq_exp_minus_1 push_bit_eq_mult)
  show "bit (0xfffff :: u32) n \<longleftrightarrow> n < 20" "bit (0x0f0000 :: u32) n \<longleftrightarrow> 16 \<le> n \<and> n < 20"
      "bit (0x0f00 :: u32) n \<longleftrightarrow> 8 \<le> n \<and> n < 12"
    unfolding 1 by (auto simp: bit_simps)
qed

lemma attrs_high: "type < 8 \<Longrightarrow> priv < 4 \<Longrightarrow> 8 \<le> n \<Longrightarrow> n < 12 \<Longrightarrow> \<not> bit (SD_ATTRS type priv) n"
proof -
  assume a: "type < 8" "priv < 4" and n: "8 \<le> n" "n < 12"
  have "take_bit 3 (unat type) = unat type" "take_bit 2 (unat priv) = unat priv"
    using a by (simp_all add: take_bit_nat_eq_self_iff word_less_nat_alt)
  then have "bit (unat type) k \<Longrightarrow> k < 3" "bit (unat priv) k \<Longrightarrow> k < 2" for k by (metis bit_take_bit_iff)+
  then have "bit type k \<Longrightarrow> k < 3" "bit priv k \<Longrightarrow> k < 2" for k by (simp_all add: bit_unsigned_iff)
  then have "\<not> bit (push_bit 1 (ucast type) :: u16) n" "\<not> bit (push_bit 5 (ucast priv) :: u16) n"
    using n by (fastforce simp only: bit_push_bit_iff bit_unsigned_iff)+
  moreover have "n = 8 \<or> n = 9 \<or> n = 10 \<or> n = 11" using n by auto
  then have "\<not> bit (SD_SYSTEM OR SD_PRESENT_MASK OR SD_DFL32_MASK OR SD_GRAN_MASK) n"
    by (auto simp: SD_SYSTEM_def SD_PRESENT_MASK_def SD_DFL32_MASK_def SD_GRAN_MASK_def)
  ultimately show ?thesis by (simp only: SD_ATTRS_def bit_or_iff) blast
qed

lemma size_of_attr:
  assumes "type < 8" and "priv < 4"
  shows "ucast (ucast (sz :: u32) :: u16) OR
    push_bit 8 (ucast (ucast (drop_bit 8 (sz AND 0x0f0000)) OR SD_ATTRS type priv) AND 0x0f00) = sz AND 0xfffff"
proof (rule bit_word_eqI)
  fix n
  assume "n < LENGTH(32)"
  have h: "n < 20 \<Longrightarrow> 16 \<le> n \<Longrightarrow> \<not> bit (SD_ATTRS type priv) (n - 8)" using attrs_high [OF assms, of "n - 8"] by simp
  show "bit (ucast (ucast sz :: u16) OR
      push_bit 8 (ucast (ucast (drop_bit 8 (sz AND 0x0f0000)) OR SD_ATTRS type priv) AND 0x0f00) :: u32) n = bit (sz AND 0xfffff) n"
    using h \<open>n < LENGTH(32)\<close> by (cases "16 \<le> n") (auto simp: bit_simps bit_numeral_mask simp del: bit_numeral_word_iff)
qed

text \<open>
  A segment descriptor written by \<^verbatim>\<open>segdesc_init\<close> gives back its base address in \<^verbatim>\<open>gdt_dump\<close>, for every entry.  The
  size is printed from entry 0 in every line, so it is the written one (20 bits of it) only for entry 0.
\<close>

lemma segdesc_dump:
  assumes "n < GDT_ENTRIES" and "type < 8" and "priv < 4"
  shows "fst (snd (gdt_dump (segdesc_init (8 * of_nat n) base sz type priv g) ! n)) = base \<and>
    fst (gdt_dump (segdesc_init (8 * of_nat n) base sz type priv g) ! n) =
      (if n = 0 then sz AND 0xfffff else fst (gdt_dump g ! 0))"
proof -
  have "unat (drop_bit 3 (8 * of_nat n :: u32)) = n"
    using assms(1) by (simp add: unat_drop_bit_eq drop_bit_eq_div unat_word_ariths unat_of_nat GDT_ENTRIES_def)
  then show ?thesis
    using assms(1) size_of_attr [OF assms(2,3)] bytes_of_base
    by (auto simp: gdt_dump_def segdesc_init_def Let_def GDT_ENTRIES_def)
qed

section \<open>The VGA console\<close>

lemma scroll_copy_outside: "t + n \<le> k \<Longrightarrow> scroll_copy t n b k = b k"
  by (induction n arbitrary: t b) simp_all

lemma scroll_clear_outside: "VGA_COLUMNS * (VGA_LINES - 1) * 2 + t + 2 * n \<le> k \<Longrightarrow> scroll_clear t n b k = b k"
  by (induction n arbitrary: t b) simp_all

lemma vga_scroll_outside: "4000 \<le> k \<Longrightarrow> vga_buf (vga_scroll v) k = vga_buf v k"
  by (simp add: vga_scroll_def VGA_COLUMNS_def VGA_LINES_def scroll_clear_outside scroll_copy_outside)

lemma vga_scroll_simps [simp]: "vga_io (vga_scroll v) = vga_io v" "vga_color (vga_scroll v) = vga_color v"
  by (simp_all add: vga_scroll_def)

text \<open>
  C36. With the cursor on the screen or just behind its last cell, \<^verbatim>\<open>early_vga_put_char\<close> writes inside the 4000
  bytes of the video buffer only, leaves such a cursor again, and a character other than newline
  ends up in the cell in front of the new cursor, in the current colour.
\<close>

theorem vga_put_char_bounds:
  assumes "vga_get_cursor (vga_io v) = (d, cursor)" and "unat cursor \<le> 2000"
  shows "\<exists>cursor'. vga_io (early_vga_put_char c v) = vga_set_cursor cursor' d \<and> unat cursor' \<le> 2000 \<and>
    (\<forall>k\<ge>4000. vga_buf (early_vga_put_char c v) k = vga_buf v k) \<and>
    (c \<noteq> 10 \<longrightarrow> 0 < unat cursor' \<and> vga_buf (early_vga_put_char c v) (2 * (unat cursor' - 1)) = c \<and>
       vga_buf (early_vga_put_char c v) (2 * (unat cursor' - 1) + 1) = vga_color v)"
proof (cases "c = 10")
  case True
  have m: "unat (cursor mod 80) = unat cursor mod 80" by (simp add: unat_mod)
  have le: "cursor mod 80 \<le> cursor" by (simp add: word_le_nat_alt m)
  have s: "unat (cursor - cursor mod 80) = unat cursor - unat cursor mod 80" using le m by (simp add: unat_sub)
  have ex: "early_vga_put_char 10 v =
      (if unat cursor < 1920 then v\<lparr>vga_io := vga_set_cursor (cursor - cursor mod 80 + 80) d\<rparr>
       else (vga_scroll v)\<lparr>vga_io := vga_set_cursor (cursor - cursor mod 80) d\<rparr>)"
    using assms(1) by (simp add: early_vga_put_char_def VGA_COLUMNS_def VGA_LINES_def vga_scroll_def Let_def)
  have "unat (cursor - cursor mod 80 + 80) = unat cursor - unat cursor mod 80 + 80" if "unat cursor < 1920"
    using that by (simp add: unat_word_ariths s del: unat_sub)
  then show ?thesis using True assms(2) s by (cases "unat cursor < 1920") (auto simp: ex vga_scroll_outside)
next
  case False
  define v3 where "v3 = (if unat cursor = 2000 then vga_scroll v else v)"
  define cur where "cur = (if unat cursor = 2000 then cursor - 80 else cursor)"
  have cur: "unat cur < 2000" using assms(2) by (auto simp: cur_def unat_sub word_le_nat_alt)
  have ex: "early_vga_put_char c v =
      v3\<lparr>vga_buf := (vga_buf v3)(unat cur * 2 := c, unat cur * 2 + 1 := vga_color v3), vga_io := vga_set_cursor (cur + 1) d\<rparr>"
    using assms(1) False
    by (simp add: early_vga_put_char_def VGA_COLUMNS_def VGA_LINES_def vga_scroll_def Let_def v3_def cur_def)
  have c1: "unat (cur + 1) = unat cur + 1" using cur by (simp add: unat_word_ariths)
  show ?thesis
    using cur c1 False by (auto simp: ex v3_def vga_scroll_outside mult.commute)
qed

theorem vga_put_char_bounds_witness:
  "let v = \<lparr>vga_color = 7, vga_buf = \<lambda>_. 0, vga_io = \<lparr>io_read = \<lambda>n _. if n = 0 then 7 else 0xd0, io_reads = 0, io_log = []\<rparr>\<rparr>
   in \<exists>cursor' d. vga_io (early_vga_put_char 65 v) = vga_set_cursor cursor' d \<and> unat cursor' \<le> 2000"
proof -
  let ?v = "\<lparr>vga_color = 7, vga_buf = \<lambda>_. 0, vga_io = \<lparr>io_read = \<lambda>n _. if n = 0 then 7 else 0xd0, io_reads = 0, io_log = []\<rparr>\<rparr>"
  obtain d where "vga_get_cursor (vga_io ?v) = (d, 2000)"
    by (simp add: vga_get_cursor_def inb_def outb_def)
  then show ?thesis using vga_put_char_bounds [of ?v d 2000 65] by (auto simp: Let_def)
qed

end
