(* ===== verification/Kernel.thy ===== *)
theory Kernel
  imports Galloc Vsnprintf Arch_I386
begin

text \<open>
  The data of the kernel proper: the structures of \<^verbatim>\<open>include/*.h\<close> as records, the global variables as fields of one state
  \<open>kernel\<close>, and the calls into the allocators lifted to that state.

  A structure is known by its address, a 32-bit word with 0 for \<^verbatim>\<open>NULL\<close>; the state maps addresses to
  contents, one map per structure type.  Its list nodes are values of \<open>knode\<close>, one constructor per
  embedded \<^verbatim>\<open>struct klist0_node\<close>, so \<^verbatim>\<open>klist0_entry\<close> is pattern matching.  Character arrays and buffers live in the
  byte memory at the address of their structure plus the offset of the field; bitmaps, allocator
  headers, stacks and page tables live in the word memory of the allocators.  Function pointers are
  values of enumeration types.  The addresses that the linker gives to statically allocated
  structures and to string literals (\<open>Lit\<close>), and those of local arrays (\<open>Local\<close>), are the function \<open>syms\<close>.
\<close>

section \<open>Constants\<close>

definition ENOENT :: int where "ENOENT = 2"
definition EIO :: int where "EIO = 5"
definition ENOEXEC :: int where "ENOEXEC = 8"
definition EBADF :: int where "EBADF = 9"
definition EAGAIN :: int where "EAGAIN = 11"
definition EBUSY :: int where "EBUSY = 16"
definition ENODEV :: int where "ENODEV = 19"
definition ENOTDIR :: int where "ENOTDIR = 20"
definition EINVAL :: int where "EINVAL = 22"
definition ENOSYS :: int where "ENOSYS = 78"

definition FILENAME_MAX :: nat where "FILENAME_MAX = 256"
definition FS_MAX_FDS :: int where "FS_MAX_FDS = 256"
definition THREAD_NAME_LEN :: nat where "THREAD_NAME_LEN = 32"

definition THREAD_RUNNABLE :: u32 where "THREAD_RUNNABLE = 1"
definition THREAD_NEW :: u32 where "THREAD_NEW = 2"

definition SCHED_MAX_QUANTUM :: u32 where "SCHED_MAX_QUANTUM = 100"

section \<open>Lists and locks\<close>

datatype tqid =
    RqQueue | ThreadList | WakeList u32 | MutexSleepers u32 | MsgTq u32 | MsgSleepers | MpipeTq u32 | SerialTq | KbdTq | TmpQ

datatype knode =
    Kthreads u32 | Krunq u32 | TqThreads tqid | TFiles u32 | TMbox u32
  | IntervalList u32 | Future
  | KqPages u32 | KqPage u32
  | SBlocks u32 | SIlist u32 | SuperblockList
  | ISblist u32 | IDent u32 | IChildren u32 | AnonInodes
  | DIdlist u32 | DSiblings u32
  | FTlist u32 | MList u32 | MountList | DList u32 | Devices | VeSibling u32 | MMbox u32

datatype lockid = TqLock tqid | FutureLock

section \<open>Threads and schedulers\<close>

datatype nsptr = RootNs

record thread =
  krunq_head :: "tqid option"
  quantum :: u32
  last_tick :: u64
  prio :: u16
  stack_base :: u32
  esp :: u32
  t_map :: u32
  pid :: u32
  state :: u32
  t_ns :: nsptr
  last_fd :: int
  fdset :: words

text \<open>Offsets and sizes in the i386 layout; \<^verbatim>\<open>fdset\<close> is an array of 32 longs.\<close>

definition SIZEOF_THREAD :: u32 where "SIZEOF_THREAD = 240"
definition T_NAME :: u32 where "T_NAME = 56"

datatype sched_fn =
    Sched0_enqueue | Sched0_dequeue | Sched0_tick | Sched0_yield | Sched0_schedule | Sched0_start | Sched0_stop
  | Sched0_init | Sched0_exit

record cpu_scheduler =
  sc_name :: "string option"
  sc_enqueue :: "sched_fn option"
  sc_dequeue :: "sched_fn option"
  sc_tick :: "sched_fn option"
  sc_yield :: "sched_fn option"
  sc_schedule :: "sched_fn option"
  sc_start :: "sched_fn option"
  sc_stop :: "sched_fn option"
  sc_init :: "sched_fn option"
  sc_exit :: "sched_fn option"

record cpu =
  cpu_esp :: u32
  eflags :: u32
  cr0 :: u32
  cr2 :: u32
  cr3 :: u32
  tss_esp0 :: u32

section \<open>Memory areas\<close>

record mem_area =
  m_start :: u32
  m_end :: u32
  m_sizelim :: u32
  m_pages :: u32
  m_users :: u32
  m_prot :: u32
  m_flags :: u32
  m_original :: u32
  m_map :: u32

record mapping =
  m_pgdir :: u32
  m_pgtable :: u32
  m_mma :: "nat \<Rightarrow> u32"
  m_nmma :: u32

record vm =
  mmas :: "u32 \<Rightarrow> mem_area"
  mappings :: "u32 \<Rightarrow> mapping"
  mma_pool :: u32
  phys_pgs :: u32
  dfault :: nat
  fault_code :: u32

section \<open>Queues and drivers\<close>

record kqueue_t =
  kq_count :: u32

record kqueue_page =
  kp_base :: u32
  kp_count :: int

datatype irq_fn = Timer_interrupt_handler | Serial_8250_intr | Pckbd_intr

record drv =
  kqueues :: "u32 \<Rightarrow> kqueue_t"
  kq_pages :: "u32 \<Rightarrow> kqueue_page"
  kqueue_sp :: u32
  read_queue :: u32
  write_queue :: u32
  key_buf :: "u8 list"
  read_idx :: u32
  write_idx :: u32
  users :: u32
  sysrq_acq :: int
  kpic :: pic
  irq_handler_table :: "nat \<Rightarrow> irq_fn option"

section \<open>File systems\<close>

datatype fops = Generic_fops | Virtfs_fops | Mpipe_fops | Pckbd_fops | Serial_8250_fops
datatype iops = Generic_iops | Virtfs_iops
datatype sops = Generic_sbops | Virtfs_sops
datatype veops = Veops_nop | Veops_proc | Veops_dev

record superblock =
  s_root :: u32
  s_magic :: u32
  s_inodes :: u32
  s_dev :: u32
  s_flags :: u32
  s_ops :: sops
  s_iops :: "iops option"

record inode =
  i_sb :: u32
  i_mount :: u32
  i_private :: u32
  i_state :: u32
  i_ino :: u32
  i_refcnt :: u32
  i_mode :: u32
  i_dev :: u32
  i_size :: u32
  i_nlinks :: u32
  i_uid :: u32
  i_gid :: u32
  i_atime :: u32
  i_ctime :: u32
  i_mtime :: u32
  i_ctl :: u32
  i_pages :: "nat \<Rightarrow> pageptr option"
  i_filled :: u32
  i_parent :: u32
  i_ops :: iops
  i_fops :: "fops option"

record direntry =
  d_inode :: u32
  d_refcnt :: u32

record kfile =
  f_sb :: u32
  f_inode :: u32
  f_ops :: "fops option"
  f_offset :: int
  f_fd :: int

record mount =
  m_sb :: u32
  m_inode :: u32

record device =
  d_dev :: u32
  d_flags :: u32
  d_fops :: fops

record virtfs_entry =
  ve_mode :: u32
  ve_dev :: u32
  ve_flags :: u32
  ve_inode :: u32
  ve_child :: u32
  ve_ops :: veops

record message =
  m_sender :: u32
  m_msg_flags :: u32
  m_buf :: u32
  m_len :: u32

datatype mpipe_state = MC_CLOSED | MC_OPENED | MC_READ_FROM | MC_WRITTEN_TO

record mpipe_ctl =
  mc_buf :: u32
  mc_len :: u32
  mc_state :: mpipe_state

record namespace =
  n_inode :: u32
  n_dent :: u32

record fs =
  superblocks :: "u32 \<Rightarrow> superblock"
  generic_read_inode :: bool
  inodes :: "u32 \<Rightarrow> inode"
  dents :: "u32 \<Rightarrow> direntry"
  files :: "u32 \<Rightarrow> kfile"
  mounts :: "u32 \<Rightarrow> mount"
  mount_pool :: u32
  devs :: "u32 \<Rightarrow> device"
  root_ns :: namespace
  add_entry_ino :: u32
  ves :: "u32 \<Rightarrow> virtfs_entry"
  ve_pool :: u32
  msgs :: "u32 \<Rightarrow> message"
  msg_pool :: u32
  mpipes :: "u32 \<Rightarrow> mpipe_ctl"
  mpipe_pool :: u32

text \<open>\<open>generic_read_inode\<close> says whether \<^verbatim>\<open>generic_sbops.read_inode\<close> has been set (by \<^verbatim>\<open>fs_init\<close>).\<close>

section \<open>The state\<close>

datatype sym =
    Root_map | Virtfs_tree | Ve_dot | Virtfs_srv | Ve_srv | Ve_omg | Ve_wtf | Ve_lol | Ve_proc | Ve_dev
  | Pckbd_dev | Serial_8250_dev | User_thread | Forker | Kernel_main_thread | Rootfs_start | Rootfs_end
  | Local string | Lit string

record kernel =
  heap :: gheap
  bytes :: memory
  nodes :: "knode klist0_node"
  syms :: "sym \<Rightarrow> u32"
  debug_spinlocks :: bool
  locks :: "lockid \<Rightarrow> u32"
  kcpu :: cpu
  threads :: "u32 \<Rightarrow> thread"
  next_pid :: u32
  reg_sched :: "cpu_scheduler option"
  sched_active :: bool
  need_reschedule :: u32
  next_thread :: u32
  jiffies :: u64
  mach_state_running :: bool
  mutex_locks :: "u32 \<Rightarrow> u32"
  ticks_left :: "u32 \<Rightarrow> u32"
  interval_pool :: u32
  kvm :: vm
  kdrv :: drv
  kfs :: fs

section \<open>Memory access and allocation\<close>

definition kmm_of :: "kernel \<Rightarrow> mm" where
  "kmm_of s = kmm (slab (heap s))"

definition set_slab :: "slab \<Rightarrow> kernel \<Rightarrow> kernel" where
  "set_slab sl s = s\<lparr>heap := (heap s)\<lparr>slab := sl\<rparr>\<rparr>"

definition set_kmm :: "mm \<Rightarrow> kernel \<Rightarrow> kernel" where
  "set_kmm m s = set_slab ((slab (heap s))\<lparr>kmm := m\<rparr>) s"

definition load_word :: "kernel \<Rightarrow> u32 \<Rightarrow> u32" where
  "load_word s a = wmem (slab (heap s)) a"

definition store_word :: "u32 \<Rightarrow> u32 \<Rightarrow> kernel \<Rightarrow> kernel" where
  "store_word a v s = set_slab ((slab (heap s))\<lparr>wmem := (wmem (slab (heap s)))(a := v)\<rparr>) s"

definition k_slice_pool_create :: "kernel \<Rightarrow> nat \<Rightarrow> (kernel \<times> u32) option" where
  "k_slice_pool_create s osz = do {
     (sl, r) \<leftarrow> slice_pool_create (slab (heap s)) 0 osz;
     (case r of None \<Rightarrow> bug | Some p \<Rightarrow> Some (set_slab sl s, p))
   }"

definition k_slice_alloc :: "kernel \<Rightarrow> u32 \<Rightarrow> (kernel \<times> u32) option" where
  "k_slice_alloc s pool = do {
     (sl, r) \<leftarrow> slice_alloc (slab (heap s)) pool;
     Some (set_slab sl s, case r of None \<Rightarrow> 0 | Some a \<Rightarrow> a)
   }"

definition k_slice_free :: "kernel \<Rightarrow> u32 \<Rightarrow> u32 \<Rightarrow> kernel option" where
  "k_slice_free s a pool = map_option (\<lambda>sl. set_slab sl s) (slice_free (slab (heap s)) a pool)"

definition k_galloc :: "kernel \<Rightarrow> u32 \<Rightarrow> (kernel \<times> u32) option" where
  "k_galloc s sz = do {
     (g, r) \<leftarrow> galloc (heap s) 0 sz;
     Some (s\<lparr>heap := g\<rparr>, case r of None \<Rightarrow> 0 | Some a \<Rightarrow> a)
   }"

definition k_gfree :: "kernel \<Rightarrow> u32 \<Rightarrow> kernel option" where
  "k_gfree s a = map_option (\<lambda>g. s\<lparr>heap := g\<rparr>) (gfree (heap s) a)"

definition k_get_pages :: "kernel \<Rightarrow> u32 \<Rightarrow> nat \<Rightarrow> (kernel \<times> u32) option" where
  "k_get_pages s flags order = do { (m, a) \<leftarrow> get_pages (kmm_of s) flags order; Some (set_kmm m s, a) }"

definition k_put_pages :: "kernel \<Rightarrow> u32 \<Rightarrow> kernel option" where
  "k_put_pages s a = map_option (\<lambda>m. set_kmm m s) (put_pages (kmm_of s) a)"

definition k_memory_copy :: "u32 \<Rightarrow> u32 \<Rightarrow> nat \<Rightarrow> kernel \<Rightarrow> kernel" where
  "k_memory_copy dest src n s = s\<lparr>bytes := memory_copy dest src n (bytes s)\<rparr>"

definition set_nodes :: "(knode klist0_node \<Rightarrow> knode klist0_node) \<Rightarrow> kernel \<Rightarrow> kernel" where
  "set_nodes f s = s\<lparr>nodes := f (nodes s)\<rparr>"

definition set_thread :: "u32 \<Rightarrow> (thread \<Rightarrow> thread) \<Rightarrow> kernel \<Rightarrow> kernel" where
  "set_thread t f s = s\<lparr>threads := (threads s)(t := f (threads s t))\<rparr>"

definition set_cpu :: "(cpu \<Rightarrow> cpu) \<Rightarrow> kernel \<Rightarrow> kernel" where
  "set_cpu f s = s\<lparr>kcpu := f (kcpu s)\<rparr>"

definition set_vm :: "(vm \<Rightarrow> vm) \<Rightarrow> kernel \<Rightarrow> kernel" where
  "set_vm f s = s\<lparr>kvm := f (kvm s)\<rparr>"

definition set_drv :: "(drv \<Rightarrow> drv) \<Rightarrow> kernel \<Rightarrow> kernel" where
  "set_drv f s = s\<lparr>kdrv := f (kdrv s)\<rparr>"

definition set_fs :: "(fs \<Rightarrow> fs) \<Rightarrow> kernel \<Rightarrow> kernel" where
  "set_fs f s = s\<lparr>kfs := f (kfs s)\<rparr>"

lemmas kset_defs = set_nodes_def set_thread_def set_cpu_def set_vm_def set_drv_def set_fs_def set_slab_def set_kmm_def

end
