(* ===== verification/Debug_Tools.thy ===== *)
theory Debug_Tools
  imports Klib
begin

text \<open>
  \<^verbatim>\<open>kernel/debug/profile.c\<close>, \<^verbatim>\<open>kernel/debug/sysrq.c\<close> and \<^verbatim>\<open>kernel/symtab.c\<close>: the function-call profiler, the debug
  keys, and the symbol table lookup.

  The triggers (\<^verbatim>\<open>triggers.c\<close>, written by the user) and the symbol table (generated by \<^verbatim>\<open>tools/symtab.sh\<close>) are
  parameters, and so are the size of the event log (\<^verbatim>\<open>OPT_EVENTLOG_SIZE\<close>) and the clock.  What the
  profiler prints is recorded in \<open>prof_out\<close>.
\<close>

section \<open>Profiler\<close>

record prof_event =
  ev_function :: u32
  ev_call_site :: u32
  ev_time :: u32
  ev_type :: u8

record prof_trigger =
  tr_function :: u32
  tr_flags :: u32
  tr_type :: u8

definition PROF_ENTRY :: u8 where "PROF_ENTRY = 0"
definition PROF_EXIT :: u8 where "PROF_EXIT = 1"
definition PROF_DUMP :: u32 where "PROF_DUMP = 1"
definition PROF_START :: u32 where "PROF_START = 2"
definition PROF_STOP :: u32 where "PROF_STOP = 4"

datatype prof_mode = PROFILER_BOOTUP | PROFILER_STOPPED | PROFILER_RUNNING | PROFILER_NEEDFLUSH | PROFILER_BUSY

datatype prof_line = Line u32 u32 string u32

record profiler =
  events :: "nat \<Rightarrow> prof_event"
  prof_top :: nat
  mode :: prof_mode
  bootup_fn :: u32
  prof_out :: "prof_line list"

definition event_line :: "prof_event \<Rightarrow> prof_line" where
  "event_line e = Line (ev_time e) (ev_call_site e) (if ev_type e = 1 then ''enters'' else ''leaves'') (ev_function e)"

definition dump_events :: "nat \<Rightarrow> profiler \<Rightarrow> profiler" where
  "dump_events t p = p\<lparr>prof_out := prof_out p @ map (\<lambda>i. event_line (events p i)) [0..<t]\<rparr>"

definition flush_events :: "profiler \<Rightarrow> profiler" where
  "flush_events p = (dump_events (prof_top p) p)\<lparr>prof_top := 0\<rparr>"

fun trigger_scan :: "prof_trigger list \<Rightarrow> u32 \<Rightarrow> u32 \<Rightarrow> u8 \<Rightarrow> profiler \<Rightarrow> bool \<times> profiler" where
  "trigger_scan [] flag func type p = (False, p)"
| "trigger_scan (t # ts) flag func type p =
    (if tr_type t = type \<and> tr_function t = func \<and> tr_flags t AND flag \<noteq> 0
     then (True, if tr_flags t AND PROF_DUMP \<noteq> 0 then flush_events p else p)
     else trigger_scan ts flag func type p)"

definition start_trigger :: "prof_trigger list \<Rightarrow> u32 \<Rightarrow> u8 \<Rightarrow> profiler \<Rightarrow> bool \<times> profiler" where
  "start_trigger ts = trigger_scan ts PROF_START"

definition stop_trigger :: "prof_trigger list \<Rightarrow> u32 \<Rightarrow> u8 \<Rightarrow> profiler \<Rightarrow> bool \<times> profiler" where
  "stop_trigger ts = trigger_scan ts PROF_STOP"

definition log_event :: "nat \<Rightarrow> u32 \<Rightarrow> u32 \<Rightarrow> u32 \<Rightarrow> u8 \<Rightarrow> profiler \<Rightarrow> profiler" where
  "log_event PROFBUF_MAX now this_fn call_site type p =
    (if prof_top p < PROFBUF_MAX then
       (let e = \<lparr>ev_function = this_fn, ev_call_site = call_site, ev_time = now, ev_type = type\<rparr>;
            p1 = p\<lparr>events := (events p)(prof_top p := e), prof_top := prof_top p + 1\<rparr>
        in if prof_top p1 = PROFBUF_MAX then p1\<lparr>mode := PROFILER_NEEDFLUSH\<rparr> else p1)
     else p\<lparr>mode := PROFILER_NEEDFLUSH\<rparr>)"

text \<open>
  The cases of the switch in \<^verbatim>\<open>do_profile\<close>: the running part, the stopped part, which may jump back to the switch in
  running mode, and the switch itself.
\<close>

definition profile_running :: "nat \<Rightarrow> prof_trigger list \<Rightarrow> u32 \<Rightarrow> u32 \<Rightarrow> u32 \<Rightarrow> u8 \<Rightarrow> profiler \<Rightarrow> profiler" where
  "profile_running bufmax ts now this_fn call_site type p =
    (let p1 = log_event bufmax now this_fn call_site type p;
         p2 = (if mode p1 = PROFILER_NEEDFLUSH then flush_events p1 else p1);
         (hit, p3) = stop_trigger ts this_fn type p2
     in if hit then p3\<lparr>mode := PROFILER_STOPPED\<rparr> else p3)"

definition profile_stopped :: "nat \<Rightarrow> prof_trigger list \<Rightarrow> u32 \<Rightarrow> u32 \<Rightarrow> u32 \<Rightarrow> u8 \<Rightarrow> profiler \<Rightarrow> profiler" where
  "profile_stopped bufmax ts now this_fn call_site type p =
    (let (hit, p1) = start_trigger ts this_fn type p
     in if hit then profile_running bufmax ts now this_fn call_site type (p1\<lparr>mode := PROFILER_RUNNING\<rparr>) else p1)"

definition do_profile :: "nat \<Rightarrow> prof_trigger list \<Rightarrow> bool \<Rightarrow> u32 \<Rightarrow> u32 \<Rightarrow> u32 \<Rightarrow> u8 \<Rightarrow> profiler \<Rightarrow> profiler" where
  "do_profile bufmax ts running now this_fn call_site type p =
    (case mode p of
       PROFILER_BUSY \<Rightarrow> p
     | PROFILER_BOOTUP \<Rightarrow>
         if running then profile_stopped bufmax ts now this_fn call_site type (p\<lparr>mode := PROFILER_STOPPED\<rparr>)
         else p\<lparr>bootup_fn := bootup_fn p + (if type = PROF_ENTRY then 1 else 0)\<rparr>
     | PROFILER_STOPPED \<Rightarrow> profile_stopped bufmax ts now this_fn call_site type p
     | PROFILER_NEEDFLUSH \<Rightarrow> profile_running bufmax ts now this_fn call_site type (flush_events p)
     | PROFILER_RUNNING \<Rightarrow> profile_running bufmax ts now this_fn call_site type p)"

definition cyg_profile_func_enter :: "nat \<Rightarrow> prof_trigger list \<Rightarrow> bool \<Rightarrow> u32 \<Rightarrow> u32 \<Rightarrow> u32 \<Rightarrow> profiler \<Rightarrow> profiler" where
  "cyg_profile_func_enter bufmax ts running now this_fn call_site = do_profile bufmax ts running now this_fn call_site PROF_ENTRY"

definition cyg_profile_func_exit :: "nat \<Rightarrow> prof_trigger list \<Rightarrow> bool \<Rightarrow> u32 \<Rightarrow> u32 \<Rightarrow> u32 \<Rightarrow> profiler \<Rightarrow> profiler" where
  "cyg_profile_func_exit bufmax ts running now this_fn call_site = do_profile bufmax ts running now this_fn call_site PROF_EXIT"

section \<open>Debug keys\<close>

text \<open>\<open>char\<close> is signed in the i386 build, so the argument is compared as the number \<open>sint n\<close>.\<close>

definition LIST_CURRENT :: u32 where "LIST_CURRENT = 1"
definition LIST_BACKTRACE :: u32 where "LIST_BACKTRACE = 2"
definition LIST_MAPPING :: u32 where "LIST_MAPPING = 4"

datatype sysrq_action = NoAction | DumpInodes | ListThreads u32 | FlushEvents | Usage

definition sysrq_key :: "bool \<Rightarrow> u8 \<Rightarrow> sysrq_action" where
  "sysrq_key OPT_INSTRUMENT_PROFILER n =
    (if n = 102 then DumpInodes
     else if n = 109 then ListThreads (LIST_MAPPING OR LIST_BACKTRACE OR LIST_CURRENT)
     else if n = 80 then ListThreads (LIST_BACKTRACE OR LIST_CURRENT)
     else if n = 112 then ListThreads LIST_CURRENT
     else if n = 77 then ListThreads (LIST_MAPPING OR LIST_BACKTRACE)
     else if n = 84 then ListThreads LIST_BACKTRACE
     else if n = 116 then ListThreads 0
     else if OPT_INSTRUMENT_PROFILER \<and> (n = 121 \<or> n = 89) then FlushEvents
     else Usage)"

definition sysrq_hit :: "bool \<Rightarrow> u8 \<Rightarrow> int \<Rightarrow> int \<times> sysrq_action \<times> int" where
  "sysrq_hit opt n sysrq_acq =
    (if sint n = 0xff then (sysrq_acq + 1, NoAction, 1)
     else if sysrq_acq \<noteq> 0 then (0, sysrq_key opt n, 1)
     else (sysrq_acq, NoAction, 0))"

section \<open>Symbol table\<close>

record symbol =
  sym_addr :: u32
  sym_size :: u32
  sym_name :: u32

definition SYMTAB_IS_HIT :: "symbol \<Rightarrow> u32 \<Rightarrow> bool" where
  "SYMTAB_IS_HIT sy addr \<longleftrightarrow> sym_addr sy \<le> addr \<and> sym_addr sy + sym_size sy \<ge> addr"

fun symtab_scan :: "symbol list \<Rightarrow> u32 \<Rightarrow> nat \<Rightarrow> nat" where
  "symtab_scan [] addr i = 0"
| "symtab_scan (sy # sys) addr i = (if SYMTAB_IS_HIT sy addr then i else symtab_scan sys addr (Suc i))"

definition symtab_lookup_addr :: "symbol list \<Rightarrow> u32 \<Rightarrow> u32 \<Rightarrow> u32 \<Rightarrow> nat" where
  "symtab_lookup_addr symbol_table start_addr end_addr addr =
    (if addr < start_addr \<or> addr > end_addr then 0 else symtab_scan symbol_table addr 0)"

fun symtab_name_scan :: "memory \<Rightarrow> symbol list \<Rightarrow> u32 \<Rightarrow> nat \<Rightarrow> nat option" where
  "symtab_name_scan m [] name i = Some 0"
| "symtab_name_scan m (sy # sys) name i = do {
     r \<leftarrow> kstrcmp m (sym_name sy) name;
     if r = 0 then Some i else symtab_name_scan m sys name (Suc i)
   }"

definition symtab_lookup_name :: "memory \<Rightarrow> symbol list \<Rightarrow> u32 \<Rightarrow> nat option" where
  "symtab_lookup_name m symbol_table name = symtab_name_scan m symbol_table name 0"

section \<open>The profiler as a trace\<close>

text \<open>
  The specification: a profiler is idle, logging, counting the calls of the boot phase or busy, and its log is one list of
  lines.  The buffer and the mode \<^verbatim>\<open>PROFILER_NEEDFLUSH\<close> are implementation.
\<close>

datatype trace_state = Boot u32 | Idle | Logging | Busy

fun trace_state_of :: "prof_mode \<Rightarrow> u32 \<Rightarrow> trace_state" where
  "trace_state_of PROFILER_BOOTUP n = Boot n"
| "trace_state_of PROFILER_STOPPED n = Idle"
| "trace_state_of PROFILER_RUNNING n = Logging"
| "trace_state_of PROFILER_NEEDFLUSH n = Logging"
| "trace_state_of PROFILER_BUSY n = Busy"

definition buffered :: "profiler \<Rightarrow> prof_line list" where
  "buffered p = map (\<lambda>i. event_line (events p i)) [0..<prof_top p]"

definition prof_abs :: "profiler \<Rightarrow> trace_state \<times> prof_line list" where
  "prof_abs p = (trace_state_of (mode p) (bootup_fn p), prof_out p @ buffered p)"

definition has_trigger :: "prof_trigger list \<Rightarrow> u32 \<Rightarrow> u32 \<Rightarrow> u8 \<Rightarrow> bool" where
  "has_trigger ts flag func type \<longleftrightarrow> (\<exists>t\<in>set ts. tr_type t = type \<and> tr_function t = func \<and> tr_flags t AND flag \<noteq> 0)"

definition trace_log :: "prof_trigger list \<Rightarrow> u32 \<Rightarrow> u32 \<Rightarrow> u32 \<Rightarrow> u8 \<Rightarrow> prof_line list \<Rightarrow> trace_state \<times> prof_line list" where
  "trace_log ts now f cs ty tr =
    (if has_trigger ts PROF_STOP f ty then Idle else Logging,
     tr @ [Line now cs (if ty = 1 then ''enters'' else ''leaves'') f])"

definition trace_idle :: "prof_trigger list \<Rightarrow> u32 \<Rightarrow> u32 \<Rightarrow> u32 \<Rightarrow> u8 \<Rightarrow> prof_line list \<Rightarrow> trace_state \<times> prof_line list" where
  "trace_idle ts now f cs ty tr = (if has_trigger ts PROF_START f ty then trace_log ts now f cs ty tr else (Idle, tr))"

fun trace_step :: "prof_trigger list \<Rightarrow> bool \<Rightarrow> u32 \<Rightarrow> u32 \<Rightarrow> u32 \<Rightarrow> u8 \<Rightarrow> trace_state \<times> prof_line list \<Rightarrow> trace_state \<times> prof_line list" where
  "trace_step ts running now f cs ty (Busy, tr) = (Busy, tr)"
| "trace_step ts running now f cs ty (Boot n, tr) =
    (if running then trace_idle ts now f cs ty tr else (Boot (n + (if ty = PROF_ENTRY then 1 else 0)), tr))"
| "trace_step ts running now f cs ty (Idle, tr) = trace_idle ts now f cs ty tr"
| "trace_step ts running now f cs ty (Logging, tr) = trace_log ts now f cs ty tr"

lemma flush_abs [simp]:
  "prof_out (flush_events p) = prof_out p @ buffered p" "prof_top (flush_events p) = 0"
  "mode (flush_events p) = mode p" "bootup_fn (flush_events p) = bootup_fn p" "buffered (flush_events p) = []"
  by (simp_all add: flush_events_def dump_events_def buffered_def)

lemma trigger_scan_abs:
  "trigger_scan ts flag f ty p = (hit, p') \<Longrightarrow>
    hit = has_trigger ts flag f ty \<and> prof_out p' @ buffered p' = prof_out p @ buffered p \<and> mode p' = mode p \<and>
    bootup_fn p' = bootup_fn p \<and> prof_top p' \<le> prof_top p"
  by (induction ts) (auto simp: has_trigger_def split: if_splits)

lemma log_event_abs:
  assumes "prof_top p < bufmax" and "mode p \<in> {PROFILER_RUNNING, PROFILER_NEEDFLUSH}"
  shows "prof_out (log_event bufmax now f cs ty p) @ buffered (log_event bufmax now f cs ty p) =
      prof_out p @ buffered p @ [Line now cs (if ty = 1 then ''enters'' else ''leaves'') f]"
    and "mode (log_event bufmax now f cs ty p) \<in> {PROFILER_RUNNING, PROFILER_NEEDFLUSH}"
    and "prof_top (log_event bufmax now f cs ty p) = bufmax \<Longrightarrow> mode (log_event bufmax now f cs ty p) = PROFILER_NEEDFLUSH"
    and "prof_top (log_event bufmax now f cs ty p) \<le> bufmax"
  using assms by (auto simp: log_event_def buffered_def event_line_def Let_def)

lemma profile_running_abs:
  assumes "prof_top p < bufmax" and "mode p \<in> {PROFILER_RUNNING, PROFILER_NEEDFLUSH}"
  shows "prof_abs (profile_running bufmax ts now f cs ty p) = trace_log ts now f cs ty (prof_out p @ buffered p)"
    and "prof_top (profile_running bufmax ts now f cs ty p) < bufmax"
proof -
  define p1 where "p1 = log_event bufmax now f cs ty p"
  define p2 where "p2 = (if mode p1 = PROFILER_NEEDFLUSH then flush_events p1 else p1)"
  obtain hit p3 where st: "stop_trigger ts f ty p2 = (hit, p3)" by fastforce
  have e: "profile_running bufmax ts now f cs ty p = (if hit then p3\<lparr>mode := PROFILER_STOPPED\<rparr> else p3)"
    using st by (simp add: profile_running_def p1_def [symmetric] p2_def [symmetric])
  note l = log_event_abs [OF assms, of now f cs ty, folded p1_def]
  note t = trigger_scan_abs [OF st [unfolded stop_trigger_def]]
  have o2: "prof_out p2 @ buffered p2 = prof_out p1 @ buffered p1" by (simp add: p2_def)
  have m: "mode p3 \<in> {PROFILER_RUNNING, PROFILER_NEEDFLUSH}" using t l(2) by (auto simp: p2_def)
  have "trace_state_of (mode p3) n = Logging" for n using m by auto
  moreover have "buffered (p\<lparr>mode := x\<rparr>) = buffered p" for p x by (simp add: buffered_def)
  ultimately show "prof_abs (profile_running bufmax ts now f cs ty p) = trace_log ts now f cs ty (prof_out p @ buffered p)"
    using t o2 l(1) by (simp add: prof_abs_def e trace_log_def)
  have "prof_top p2 < bufmax" using l(3,4) assms(1) by (cases "prof_top p1 = bufmax") (auto simp: p2_def)
  then show "prof_top (profile_running bufmax ts now f cs ty p) < bufmax" using t by (auto simp: e)
qed

lemma profile_stopped_abs:
  assumes "prof_top p < bufmax" and "mode p = PROFILER_STOPPED"
  shows "prof_abs (profile_stopped bufmax ts now f cs ty p) = trace_idle ts now f cs ty (prof_out p @ buffered p)"
    and "prof_top (profile_stopped bufmax ts now f cs ty p) < bufmax"
proof -
  obtain hit p1 where st: "start_trigger ts f ty p = (hit, p1)" by fastforce
  note t = trigger_scan_abs [OF st [unfolded start_trigger_def]]
  let ?p = "p1\<lparr>mode := PROFILER_RUNNING\<rparr>"
  have top: "prof_top p1 < bufmax" using t assms(1) by auto
  have b: "prof_out ?p @ buffered ?p = prof_out p @ buffered p" using t by (simp add: buffered_def)
  have r: "prof_abs (profile_running bufmax ts now f cs ty ?p) = trace_log ts now f cs ty (prof_out p @ buffered p)"
    using profile_running_abs(1) [of ?p bufmax ts now f cs ty] top unfolding b by simp
  have r2: "prof_top (profile_running bufmax ts now f cs ty ?p) < bufmax"
    using profile_running_abs(2) [of ?p bufmax ts now f cs ty] top by simp
  have e: "profile_stopped bufmax ts now f cs ty p = (if hit then profile_running bufmax ts now f cs ty ?p else p1)"
    using st by (simp add: profile_stopped_def)
  show "prof_abs (profile_stopped bufmax ts now f cs ty p) = trace_idle ts now f cs ty (prof_out p @ buffered p)"
    using t assms(2) r by (cases hit) (simp_all add: e trace_idle_def, simp add: prof_abs_def)
  show "prof_top (profile_stopped bufmax ts now f cs ty p) < bufmax" using r2 top by (simp add: e)
qed

lemma do_profile_abs:
  assumes "prof_top p < bufmax"
  shows "prof_abs (do_profile bufmax ts running now f cs ty p) = trace_step ts running now f cs ty (prof_abs p)"
    and "prof_top (do_profile bufmax ts running now f cs ty p) < bufmax"
proof -
  have b: "buffered (p\<lparr>mode := x\<rparr>) = buffered p" "buffered (p\<lparr>bootup_fn := y\<rparr>) = buffered p" for x y
    by (simp_all add: buffered_def)
  show "prof_abs (do_profile bufmax ts running now f cs ty p) = trace_step ts running now f cs ty (prof_abs p)"
    using profile_stopped_abs(1) [of p] profile_stopped_abs(1) [of "p\<lparr>mode := PROFILER_STOPPED\<rparr>"]
      profile_running_abs(1) [of p] profile_running_abs(1) [of "flush_events p"] assms
    by (cases "mode p") (simp_all add: do_profile_def prof_abs_def b)
  show "prof_top (do_profile bufmax ts running now f cs ty p) < bufmax"
    using profile_stopped_abs(2) [of p] profile_stopped_abs(2) [of "p\<lparr>mode := PROFILER_STOPPED\<rparr>"]
      profile_running_abs(2) [of p] profile_running_abs(2) [of "flush_events p"] assms
    by (cases "mode p") (simp_all add: do_profile_def)
qed

text \<open>
  C39. The profiler refines its trace: with room in the buffer, every instrumented call does on the trace (printed lines
  followed by buffered ones) exactly what the specification does, so no event is lost, duplicated or
  reordered by the buffering, and there is room in the buffer again afterwards.
\<close>

theorem do_profile_refines:
  assumes "prof_top p < bufmax"
  shows "prof_abs (do_profile bufmax ts running now f cs ty p) = trace_step ts running now f cs ty (prof_abs p) \<and>
    prof_top (do_profile bufmax ts running now f cs ty p) < bufmax"
  using do_profile_abs [OF assms] by blast

theorem do_profile_refines_witness:
  "let p = \<lparr>events = \<lambda>_. \<lparr>ev_function = 0, ev_call_site = 0, ev_time = 0, ev_type = 0\<rparr>, prof_top = 0, mode = PROFILER_RUNNING,
      bootup_fn = 0, prof_out = []\<rparr>
   in prof_abs (do_profile 2 [] True 7 100 200 0 p) = (Logging, [Line 7 200 ''leaves'' 100])"
  using do_profile_refines [of "\<lparr>events = \<lambda>_. \<lparr>ev_function = 0, ev_call_site = 0, ev_time = 0, ev_type = 0\<rparr>, prof_top = 0,
      mode = PROFILER_RUNNING, bootup_fn = 0, prof_out = []\<rparr>" 2 "[]" True 7 100 200 0]
  by (simp add: Let_def prof_abs_def [of "\<lparr>events = _, prof_top = _, mode = _, bootup_fn = _, prof_out = _\<rparr>"]
    buffered_def [of "\<lparr>events = _, prof_top = _, mode = _, bootup_fn = _, prof_out = _\<rparr>"] trace_log_def has_trigger_def)

text \<open>
  The printed labels are exchanged: when a running profiler logs a function entry, the line says that the function
  leaves, and for an exit it says that it enters.  And once the buffer has been full, the profiler never
  goes back to \<^verbatim>\<open>PROFILER_RUNNING\<close> by itself: it stays in \<^verbatim>\<open>PROFILER_NEEDFLUSH\<close> and prints every event at once.
\<close>

lemma profiler_labels_and_flush:
  assumes "mode p = PROFILER_NEEDFLUSH" and "0 < bufmax" and "\<not> has_trigger ts PROF_STOP f PROF_ENTRY"
    and "\<not> has_trigger ts PROF_STOP f PROF_EXIT"
  shows "let p1 = cyg_profile_func_enter bufmax ts running now f cs p; p2 = cyg_profile_func_exit bufmax ts running now f cs p
    in prof_out p1 = prof_out p @ buffered p @ [Line now cs ''leaves'' f] \<and> mode p1 = PROFILER_NEEDFLUSH \<and> prof_top p1 = 0 \<and>
       prof_out p2 = prof_out p @ buffered p @ [Line now cs ''enters'' f] \<and> mode p2 = PROFILER_NEEDFLUSH \<and> prof_top p2 = 0"
proof -
  have *: "prof_out (do_profile bufmax ts running now f cs ty p) =
        prof_out p @ buffered p @ [Line now cs (if ty = 1 then ''enters'' else ''leaves'') f] \<and>
      mode (do_profile bufmax ts running now f cs ty p) = PROFILER_NEEDFLUSH \<and> prof_top (do_profile bufmax ts running now f cs ty p) = 0"
    if ns: "\<not> has_trigger ts PROF_STOP f ty" for ty
  proof -
    define p1 where "p1 = log_event bufmax now f cs ty (flush_events p)"
    have p1: "mode p1 = PROFILER_NEEDFLUSH" "prof_out p1 @ buffered p1 =
        prof_out p @ buffered p @ [Line now cs (if ty = 1 then ''enters'' else ''leaves'') f]"
      using assms(1,2) log_event_abs(1) [of "flush_events p" bufmax now f cs ty]
      by (simp_all add: p1_def log_event_def Let_def)
    have scan: "trigger_scan ts PROF_STOP f ty q = (False, q)" for q
      using ns by (induction ts) (auto simp: has_trigger_def)
    show ?thesis
      using assms(1) p1 by (simp add: do_profile_def profile_running_def stop_trigger_def scan p1_def [symmetric])
  qed
  show ?thesis
    using * [OF assms(3)] * [OF assms(4)]
    by (simp add: cyg_profile_func_enter_def cyg_profile_func_exit_def PROF_ENTRY_def PROF_EXIT_def)
qed

section \<open>Debug keys and symbols\<close>

lemma sint8_less: "sint (n :: u8) < 128"
  using sint_less [of n] by simp

text \<open>
  The debug keys never work in the i386 build, where \<^verbatim>\<open>char\<close> is signed: no argument equals \<^verbatim>\<open>0xff\<close>, so
  starting from the initial state every call returns 0, performs no action and leaves the state unchanged,
  for every sequence of characters, the code \<^verbatim>\<open>0xff\<close> included.
\<close>

lemma sysrq_never_hits:
  "fold (\<lambda>n (acq, log). let (acq', act, r) = sysrq_hit opt n acq in (acq', log @ [(act, r)])) ns (0, []) =
    (0, replicate (length ns) (NoAction, 0))"
proof -
  have "fold (\<lambda>n (acq, log). let (acq', act, r) = sysrq_hit opt n acq in (acq', log @ [(act, r)])) ns (0, log) =
      (0, log @ replicate (length ns) (NoAction, 0))" for log
  proof (induction ns arbitrary: log)
    case (Cons n ns)
    have "sint n \<noteq> 0xff" using sint8_less [of n] by simp
    then show ?case using Cons.IH by (simp add: sysrq_hit_def)
  qed simp
  then show ?thesis by simp
qed

end
