(* ===== verification/Sched.thy ===== *)
theory Sched
  imports Kernel Debug_Tools
begin

text \<open>
  Locks, thread queues, the scheduler and mutexes: \<^verbatim>\<open>include/i386/spinlock.h\<close>, \<^verbatim>\<open>include/spinlock.h\<close>,
  \<^verbatim>\<open>include/i386/irq.h\<close>, \<^verbatim>\<open>include/i386/atomic.h\<close>, \<^verbatim>\<open>include/thread.h\<close>, \<^verbatim>\<open>kernel/thread_queue.c\<close>, \<^verbatim>\<open>kernel/sched0.c\<close>,
  \<^verbatim>\<open>kernel/scheduler.c\<close>, \<^verbatim>\<open>include/mutex.h\<close>, and the context switch of \<^verbatim>\<open>arch/i386/thread.c\<close>.

  A function that gives up the processor in the middle and goes on afterwards takes a parameter
  \<open>others\<close>: what the rest of the system does between the switch away and the switch back.
\<close>

section \<open>Interrupt flag and spinlocks\<close>

definition EFLAGS_IF :: u32 where "EFLAGS_IF = 0x200"

definition local_irq_disable :: "kernel \<Rightarrow> kernel" where
  "local_irq_disable s = set_cpu (\<lambda>c. c\<lparr>eflags := eflags c AND NOT EFLAGS_IF\<rparr>) s"

definition local_irq_enable :: "kernel \<Rightarrow> kernel" where
  "local_irq_enable s = set_cpu (\<lambda>c. c\<lparr>eflags := eflags c OR EFLAGS_IF\<rparr>) s"

definition local_irq_save :: "kernel \<Rightarrow> kernel \<times> u32" where
  "local_irq_save s = (local_irq_disable s, eflags (kcpu s))"

definition local_irq_restore :: "u32 \<Rightarrow> kernel \<Rightarrow> kernel" where
  "local_irq_restore flags s = set_cpu (\<lambda>c. c\<lparr>eflags := flags\<rparr>) s"

definition spinlock_init :: "lockid \<Rightarrow> kernel \<Rightarrow> kernel" where
  "spinlock_init l s = (if debug_spinlocks s then s\<lparr>locks := (locks s)(l := 0)\<rparr> else s)"

definition spin_lock :: "lockid \<Rightarrow> kernel \<Rightarrow> kernel option" where
  "spin_lock l s =
    (if debug_spinlocks s then do {
       _ \<leftarrow> bug_on (locks s l \<noteq> 0);
       Some (s\<lparr>locks := (locks s)(l := locks s l + 1)\<rparr>)
     } else Some s)"

definition spin_unlock :: "lockid \<Rightarrow> kernel \<Rightarrow> kernel option" where
  "spin_unlock l s =
    (if debug_spinlocks s then do {
       _ \<leftarrow> bug_on (locks s l \<noteq> 1);
       Some (s\<lparr>locks := (locks s)(l := locks s l - 1)\<rparr>)
     } else Some s)"

definition spin_trylock :: "lockid \<Rightarrow> kernel \<Rightarrow> (kernel \<times> bool) option" where
  "spin_trylock l s =
    (if debug_spinlocks s then do {
       _ \<leftarrow> bug_on (locks s l \<noteq> 0 \<and> locks s l \<noteq> 1);
       if locks s l \<noteq> 0 then Some (s, False)
       else Some (s\<lparr>locks := (locks s)(l := locks s l + 1)\<rparr>, True)
     } else Some (s, True))"

definition spin_lock_irqsave :: "lockid \<Rightarrow> kernel \<Rightarrow> (kernel \<times> u32) option" where
  "spin_lock_irqsave l s = do {
     let (s1, flags) = local_irq_save s;
     s2 \<leftarrow> spin_lock l s1;
     Some (s2, flags)
   }"

definition spin_unlock_irqrestore :: "lockid \<Rightarrow> u32 \<Rightarrow> kernel \<Rightarrow> kernel option" where
  "spin_unlock_irqrestore l flags s = do {
     s1 \<leftarrow> spin_unlock l s;
     Some (local_irq_restore flags s1)
   }"

text \<open>The flags argument is passed by value, so the caller's copy is not set.\<close>

definition spin_trylock_irqsave :: "lockid \<Rightarrow> kernel \<Rightarrow> (kernel \<times> bool) option" where
  "spin_trylock_irqsave l s = do {
     let (s1, flags) = local_irq_save s;
     (s2, r) \<leftarrow> spin_trylock l s1;
     if \<not> r then Some (s2, False) else Some (local_irq_restore flags s2, True)
   }"

section \<open>Thread queues\<close>

definition SIZEOF_SPINLOCK :: "kernel \<Rightarrow> nat" where
  "SIZEOF_SPINLOCK s = (if debug_spinlocks s then 4 else 0)"

definition tq_init :: "tqid \<Rightarrow> kernel \<Rightarrow> kernel" where
  "tq_init q s = spinlock_init (TqLock q) (set_nodes (KLIST0_INIT (TqThreads q)) s)"

definition tq_is_empty :: "tqid \<Rightarrow> kernel \<Rightarrow> bool" where
  "tq_is_empty q s = klist0_empty (TqThreads q) (nodes s)"

definition tq__insert_head :: "u32 \<Rightarrow> tqid \<Rightarrow> kernel \<Rightarrow> kernel option" where
  "tq__insert_head t q s = do {
     _ \<leftarrow> bug_on (\<not> klist0_empty (Krunq t) (nodes s));
     (s1, r) \<leftarrow> spin_trylock (TqLock q) s;
     _ \<leftarrow> bug_on r;
     Some (set_thread t (\<lambda>th. th\<lparr>krunq_head := Some q\<rparr>) (set_nodes (klist0_append (Krunq t) (TqThreads q)) s1))
   }"

definition tq__insert_tail :: "u32 \<Rightarrow> tqid \<Rightarrow> kernel \<Rightarrow> kernel option" where
  "tq__insert_tail t q s = do {
     _ \<leftarrow> bug_on (\<not> klist0_empty (Krunq t) (nodes s));
     (s1, r) \<leftarrow> spin_trylock (TqLock q) s;
     _ \<leftarrow> bug_on r;
     Some (set_thread t (\<lambda>th. th\<lparr>krunq_head := Some q\<rparr>) (set_nodes (klist0_prepend (Krunq t) (TqThreads q)) s1))
   }"

definition tq__remove_thread :: "u32 \<Rightarrow> kernel \<Rightarrow> kernel option" where
  "tq__remove_thread t s = do {
     _ \<leftarrow> bug_on (krunq_head (threads s t) = None);
     _ \<leftarrow> bug_on (klist0_empty (Krunq t) (nodes s));
     Some (set_thread t (\<lambda>th. th\<lparr>krunq_head := None\<rparr>) (set_nodes (klist0_unlink (Krunq t)) s))
   }"

definition krunq_entry :: "knode \<Rightarrow> u32 option" where
  "krunq_entry n = (case n of Krunq t \<Rightarrow> Some t | _ \<Rightarrow> None)"

definition tq__remove_head :: "tqid \<Rightarrow> kernel \<Rightarrow> (kernel \<times> u32 option) option" where
  "tq__remove_head q s =
    (if \<not> klist0_empty (TqThreads q) (nodes s) then do {
       t \<leftarrow> krunq_entry (next (nodes s) (TqThreads q));
       s1 \<leftarrow> tq__remove_thread t s;
       Some (s1, Some t)
     } else Some (s, None))"

definition tq__remove_tail :: "tqid \<Rightarrow> kernel \<Rightarrow> (kernel \<times> u32 option) option" where
  "tq__remove_tail q s =
    (if \<not> klist0_empty (TqThreads q) (nodes s) then do {
       t \<leftarrow> krunq_entry (prev (nodes s) (TqThreads q));
       s1 \<leftarrow> tq__remove_thread t s;
       Some (s1, Some t)
     } else Some (s, None))"

definition tq_insert_head :: "u32 \<Rightarrow> tqid \<Rightarrow> kernel \<Rightarrow> kernel option" where
  "tq_insert_head t q s = do {
     (s1, flags) \<leftarrow> spin_lock_irqsave (TqLock q) s;
     s2 \<leftarrow> tq__insert_head t q s1;
     spin_unlock_irqrestore (TqLock q) flags s2
   }"

definition tq_insert_tail :: "u32 \<Rightarrow> tqid \<Rightarrow> kernel \<Rightarrow> kernel option" where
  "tq_insert_tail t q s = do {
     (s1, flags) \<leftarrow> spin_lock_irqsave (TqLock q) s;
     s2 \<leftarrow> tq__insert_tail t q s1;
     spin_unlock_irqrestore (TqLock q) flags s2
   }"

definition tq_remove_head :: "tqid \<Rightarrow> kernel \<Rightarrow> (kernel \<times> u32 option) option" where
  "tq_remove_head q s = do {
     (s1, flags) \<leftarrow> spin_lock_irqsave (TqLock q) s;
     (s2, t) \<leftarrow> tq__remove_head q s1;
     s3 \<leftarrow> spin_unlock_irqrestore (TqLock q) flags s2;
     Some (s3, t)
   }"

definition tq_remove_tail :: "tqid \<Rightarrow> kernel \<Rightarrow> (kernel \<times> u32 option) option" where
  "tq_remove_tail q s = do {
     (s1, flags) \<leftarrow> spin_lock_irqsave (TqLock q) s;
     (s2, t) \<leftarrow> tq__remove_tail q s1;
     s3 \<leftarrow> spin_unlock_irqrestore (TqLock q) flags s2;
     Some (s3, t)
   }"

definition tq_transfer_head_to_head :: "tqid \<Rightarrow> tqid \<Rightarrow> kernel \<Rightarrow> (kernel \<times> bool) option" where
  "tq_transfer_head_to_head from_q to_q s = do {
     let (s0, flags) = local_irq_save s;
     s1 \<leftarrow> spin_lock (TqLock from_q) s0;
     (s2, r) \<leftarrow> tq__remove_head from_q s1;
     s3 \<leftarrow> spin_unlock (TqLock from_q) s2;
     s6 \<leftarrow> (case r of
         None \<Rightarrow> Some s3
       | Some t \<Rightarrow> do {
           s4 \<leftarrow> spin_lock (TqLock to_q) s3;
           s5 \<leftarrow> tq__insert_head t to_q s4;
           spin_unlock (TqLock to_q) s5
         });
     Some (local_irq_restore flags s6, r \<noteq> None)
   }"

definition tq_transfer_head_to_tail :: "tqid \<Rightarrow> tqid \<Rightarrow> kernel \<Rightarrow> (kernel \<times> bool) option" where
  "tq_transfer_head_to_tail from_q to_q s = do {
     let (s0, flags) = local_irq_save s;
     s1 \<leftarrow> spin_lock (TqLock from_q) s0;
     (s2, r) \<leftarrow> tq__remove_head from_q s1;
     s3 \<leftarrow> spin_unlock (TqLock from_q) s2;
     s6 \<leftarrow> (case r of
         None \<Rightarrow> Some s3
       | Some t \<Rightarrow> do {
           s4 \<leftarrow> spin_lock (TqLock to_q) s3;
           s5 \<leftarrow> tq__insert_tail t to_q s4;
           spin_unlock (TqLock to_q) s5
         });
     Some (local_irq_restore flags s6, r \<noteq> None)
   }"

definition tq_transfer_tail_to_head :: "tqid \<Rightarrow> tqid \<Rightarrow> kernel \<Rightarrow> (kernel \<times> bool) option" where
  "tq_transfer_tail_to_head from_q to_q s = do {
     let (s0, flags) = local_irq_save s;
     s1 \<leftarrow> spin_lock (TqLock from_q) s0;
     (s2, r) \<leftarrow> tq__remove_tail from_q s1;
     s3 \<leftarrow> spin_unlock (TqLock from_q) s2;
     s6 \<leftarrow> (case r of
         None \<Rightarrow> Some s3
       | Some t \<Rightarrow> do {
           s4 \<leftarrow> spin_lock (TqLock to_q) s3;
           s5 \<leftarrow> tq__insert_head t to_q s4;
           spin_unlock (TqLock to_q) s5
         });
     Some (local_irq_restore flags s6, r \<noteq> None)
   }"

definition tq_transfer_tail_to_tail :: "tqid \<Rightarrow> tqid \<Rightarrow> kernel \<Rightarrow> (kernel \<times> bool) option" where
  "tq_transfer_tail_to_tail from_q to_q s = do {
     let (s0, flags) = local_irq_save s;
     s1 \<leftarrow> spin_lock (TqLock from_q) s0;
     (s2, r) \<leftarrow> tq__remove_tail from_q s1;
     s3 \<leftarrow> spin_unlock (TqLock from_q) s2;
     s6 \<leftarrow> (case r of
         None \<Rightarrow> Some s3
       | Some t \<Rightarrow> do {
           s4 \<leftarrow> spin_lock (TqLock to_q) s3;
           s5 \<leftarrow> tq__insert_tail t to_q s4;
           spin_unlock (TqLock to_q) s5
         });
     Some (local_irq_restore flags s6, r \<noteq> None)
   }"

section \<open>The running thread and the context switch\<close>

definition THREAD :: "u32 \<Rightarrow> u32" where
  "THREAD a = (a AND NOT (of_nat PAGE_SIZE - 1)) + of_nat PAGE_SIZE - SIZEOF_THREAD"

definition CURRENT :: "kernel \<Rightarrow> u32" where
  "CURRENT s = THREAD (cpu_esp (kcpu s))"

definition mapping_of :: "kernel \<Rightarrow> u32 \<Rightarrow> mapping" where
  "mapping_of s a = mappings (kvm s) a"

definition switch_map :: "u32 \<Rightarrow> u32 \<Rightarrow> kernel \<Rightarrow> kernel" where
  "switch_map from to s = set_cpu (\<lambda>c. c\<lparr>cr3 := m_pgdir (mapping_of s to)\<rparr>) s"

text \<open>
  \<^verbatim>\<open>do_thread_switch_context\<close>: the call pushes the return address, the routine replaces it by the flags, the code
  segment and the address, pushes the eight registers, stores the stack pointer and takes the new one,
  from which it pops the same eleven words.  The general registers and the return address are not modelled.
\<close>

definition do_thread_switch_context :: "u32 \<Rightarrow> u32 \<Rightarrow> kernel \<Rightarrow> kernel" where
  "do_thread_switch_context from to s =
    (let sp = cpu_esp (kcpu s);
         s1 = store_word (sp - 4) (eflags (kcpu s)) s;
         s2 = store_word (sp - 8) (ucast KERN_CODE) s1;
         s3 = set_thread from (\<lambda>th. th\<lparr>esp := sp - 44\<rparr>) s2;
         new = esp (threads s3 to)
     in set_cpu (\<lambda>c. c\<lparr>cpu_esp := new + 44, eflags := load_word s3 (new + 40)\<rparr>) s3)"

definition thread_switch_context :: "u32 \<Rightarrow> u32 \<Rightarrow> kernel \<Rightarrow> kernel" where
  "thread_switch_context from to s =
    (let s1 = set_cpu (\<lambda>c. c\<lparr>tss_esp0 := stack_base (threads s to)\<rparr>) s;
         s2 = (if t_map (threads s from) \<noteq> t_map (threads s to)
               then switch_map (t_map (threads s from)) (t_map (threads s to)) s1 else s1)
     in do_thread_switch_context from to s2)"

definition prepare_deffered_context_switch :: "u32 \<Rightarrow> kernel \<Rightarrow> kernel \<times> u32" where
  "prepare_deffered_context_switch curr_esp s =
    (let from = CURRENT s;
         to = next_thread s;
         s1 = (if t_map (threads s from) \<noteq> t_map (threads s to)
               then switch_map (t_map (threads s from)) (t_map (threads s to)) s else s);
         s2 = set_thread from (\<lambda>th. th\<lparr>esp := curr_esp\<rparr>) s1;
         s3 = set_cpu (\<lambda>c. c\<lparr>tss_esp0 := stack_base (threads s2 to)\<rparr>) s2
     in (s3, esp (threads s3 to)))"

section \<open>The trivial scheduler\<close>

definition sched0_enqueue :: "tqid \<Rightarrow> kernel \<Rightarrow> (kernel \<times> bool) option" where
  "sched0_enqueue from_q s = do {
     let to_q = RqQueue;
     let (s0, flags) = local_irq_save s;
     s1 \<leftarrow> spin_lock (TqLock from_q) s0;
     (s2, r) \<leftarrow> tq__remove_head from_q s1;
     s3 \<leftarrow> spin_unlock (TqLock from_q) s2;
     s7 \<leftarrow> (case r of
         None \<Rightarrow> Some s3
       | Some t \<Rightarrow> do {
           let s4 = set_thread t (\<lambda>th. th\<lparr>quantum := SCHED_MAX_QUANTUM\<rparr>) s3;
           s5 \<leftarrow> spin_lock (TqLock to_q) s4;
           s6 \<leftarrow> tq__insert_head t RqQueue s5;
           spin_unlock (TqLock to_q) s6
         });
     Some (local_irq_restore flags s7, r \<noteq> None)
   }"

definition sched0_dequeue :: "tqid \<Rightarrow> kernel \<Rightarrow> kernel option" where
  "sched0_dequeue to_q s = do {
     let from_q = RqQueue;
     let (s0, flags) = local_irq_save s;
     let current = CURRENT s0;
     _ \<leftarrow> bug_on (krunq_head (threads s0 current) \<noteq> Some from_q);
     s1 \<leftarrow> spin_lock (TqLock from_q) s0;
     s2 \<leftarrow> tq__remove_thread current s1;
     (s3, r) \<leftarrow> tq__remove_head from_q s2;
     (case r of
        None \<Rightarrow> bug
      | Some nxt \<Rightarrow> do {
          s4 \<leftarrow> tq__insert_tail nxt from_q s3;
          s5 \<leftarrow> spin_unlock (TqLock from_q) s4;
          let s6 = set_thread current (\<lambda>th. th\<lparr>quantum := SCHED_MAX_QUANTUM, last_tick := jiffies s5\<rparr>) s5;
          s7 \<leftarrow> spin_lock (TqLock to_q) s6;
          s8 \<leftarrow> tq__insert_tail current to_q s7;
          s9 \<leftarrow> spin_unlock (TqLock to_q) s8;
          Some (local_irq_restore flags s9)
        })
   }"

text \<open>The head of the run queue moves to its tail.\<close>

definition sched0_rotate :: "kernel \<Rightarrow> (kernel \<times> u32) option" where
  "sched0_rotate s = do {
     (s1, r) \<leftarrow> tq__remove_head RqQueue s;
     (case r of
        None \<Rightarrow> bug
      | Some nxt \<Rightarrow> do { s2 \<leftarrow> tq__insert_tail nxt RqQueue s1; Some (s2, nxt) })
   }"

definition sched0_tick :: "kernel \<Rightarrow> kernel option" where
  "sched0_tick s = do {
     let prv = CURRENT s;
     _ \<leftarrow> bug_on (tq_is_empty RqQueue s);
     let s1 = set_thread prv (\<lambda>th. th\<lparr>quantum := quantum th - 1\<rparr>) s;
     s5 \<leftarrow> (if quantum (threads s1 prv) = 0 then do {
         let s2 = set_thread prv (\<lambda>th. th\<lparr>quantum := SCHED_MAX_QUANTUM\<rparr>) s1;
         s3 \<leftarrow> spin_lock (TqLock RqQueue) s2;
         (s4, nxt) \<leftarrow> sched0_rotate s3;
         s5 \<leftarrow> spin_unlock (TqLock RqQueue) s4;
         Some (if prv \<noteq> nxt then s5\<lparr>need_reschedule := 1, next_thread := nxt\<rparr> else s5)
       } else Some s1);
     Some (set_thread prv (\<lambda>th. th\<lparr>last_tick := jiffies s5\<rparr>) s5)
   }"

definition sched0_yield :: "kernel \<Rightarrow> kernel option" where
  "sched0_yield s = do {
     let prv = CURRENT s;
     let s1 = set_thread prv (\<lambda>th. th\<lparr>quantum := SCHED_MAX_QUANTUM, last_tick := jiffies s\<rparr>) s;
     (s2, flags) \<leftarrow> spin_lock_irqsave (TqLock RqQueue) s1;
     (s3, nxt) \<leftarrow> sched0_rotate s2;
     s4 \<leftarrow> spin_unlock_irqrestore (TqLock RqQueue) flags s3;
     Some (thread_switch_context prv nxt s4)
   }"

definition sched0_schedule :: "kernel \<Rightarrow> kernel option" where "sched0_schedule s = Some s"
definition sched0_start :: "kernel \<Rightarrow> kernel option" where "sched0_start s = Some s"
definition sched0_stop :: "kernel \<Rightarrow> kernel option" where "sched0_stop s = Some s"
definition sched0_exit :: "kernel \<Rightarrow> kernel option" where "sched0_exit s = Some s"

definition sched0_init :: "kernel \<Rightarrow> kernel option" where
  "sched0_init s = Some (tq_init RqQueue s)"

definition sched0 :: cpu_scheduler where
  "sched0 = \<lparr>sc_name = Some ''sched0'', sc_enqueue = Some Sched0_enqueue, sc_dequeue = Some Sched0_dequeue,
     sc_tick = Some Sched0_tick, sc_yield = Some Sched0_yield, sc_schedule = Some Sched0_schedule,
     sc_start = Some Sched0_start, sc_stop = Some Sched0_stop, sc_init = Some Sched0_init, sc_exit = Some Sched0_exit\<rparr>"

section \<open>Scheduler calls\<close>

text \<open>Calling a method through its pointer; the methods without arguments share one type.\<close>

fun call_method :: "sched_fn \<Rightarrow> kernel \<Rightarrow> kernel option" where
  "call_method Sched0_tick s = sched0_tick s"
| "call_method Sched0_yield s = sched0_yield s"
| "call_method Sched0_schedule s = sched0_schedule s"
| "call_method Sched0_start s = sched0_start s"
| "call_method Sched0_stop s = sched0_stop s"
| "call_method Sched0_init s = sched0_init s"
| "call_method Sched0_exit s = sched0_exit s"
| "call_method _ s = None"

definition sched_call :: "(cpu_scheduler \<Rightarrow> sched_fn option) \<Rightarrow> kernel \<Rightarrow> kernel option" where
  "sched_call m s = do { c \<leftarrow> reg_sched s; f \<leftarrow> m c; call_method f s }"

definition register_cpusched :: "cpu_scheduler option \<Rightarrow> kernel \<Rightarrow> (kernel \<times> int) option" where
  "register_cpusched sched s =
    (case sched of
       None \<Rightarrow> Some (s, - EINVAL)
     | Some c \<Rightarrow>
         if sc_name c = None \<or> sc_enqueue c = None \<or> sc_dequeue c = None \<or> sc_tick c = None \<or> sc_yield c = None \<or>
            sc_schedule c = None \<or> sc_start c = None \<or> sc_stop c = None \<or> sc_init c = None \<or> sc_exit c = None
         then Some (s, - EINVAL)
         else do {
           s1 \<leftarrow> sched_call sc_init (s\<lparr>reg_sched := sched\<rparr>);
           Some (s1, 0)
         })"

definition scheduler_enqueue :: "tqid \<Rightarrow> kernel \<Rightarrow> (kernel \<times> bool) option" where
  "scheduler_enqueue from_q s = do {
     c \<leftarrow> reg_sched s;
     (case sc_enqueue c of
        Some Sched0_enqueue \<Rightarrow> sched0_enqueue from_q s
      | _ \<Rightarrow> bug)
   }"

definition scheduler_dequeue :: "tqid \<Rightarrow> kernel \<Rightarrow> kernel option" where
  "scheduler_dequeue to_q s = do {
     c \<leftarrow> reg_sched s;
     (case sc_dequeue c of
        Some Sched0_dequeue \<Rightarrow> sched0_dequeue to_q s
      | _ \<Rightarrow> bug)
   }"

definition scheduler_tick :: "kernel \<Rightarrow> kernel option" where
  "scheduler_tick s = sched_call sc_tick s"

definition scheduler_yield :: "kernel \<Rightarrow> kernel option" where
  "scheduler_yield s = sched_call sc_yield s"

definition schedule :: "kernel \<Rightarrow> kernel option" where
  "schedule s = sched_call sc_schedule s"

definition scheduler_start :: "kernel \<Rightarrow> kernel option" where
  "scheduler_start s = sched_call sc_start (s\<lparr>sched_active := True\<rparr>)"

definition scheduler_stop :: "kernel \<Rightarrow> kernel option" where
  "scheduler_stop s = do { s1 \<leftarrow> sched_call sc_stop s; Some (s1\<lparr>sched_active := False\<rparr>) }"

definition scheduler_init :: "kernel \<Rightarrow> kernel" where
  "scheduler_init s =
    (spinlock_init (TqLock ThreadList) (set_nodes (KLIST0_INIT (TqThreads ThreadList)) s))\<lparr>need_reschedule := 0\<rparr>"

definition sched0_load :: "kernel \<Rightarrow> kernel option" where
  "sched0_load s = map_option fst (register_cpusched (Some sched0) s)"

text \<open>\<^verbatim>\<open>list_threads\<close> prints; what it reports is the list of threads it visits.\<close>

definition MAX_THREADS :: nat where "MAX_THREADS = 128"

fun list_threads_loop :: "u32 \<Rightarrow> kernel \<Rightarrow> knode list \<Rightarrow> nat \<Rightarrow> u32 list option" where
  "list_threads_loop ops s [] i = Some []"
| "list_threads_loop ops s (Kthreads t # ns) i =
    (if ops AND LIST_CURRENT \<noteq> 0 \<and> t \<noteq> CURRENT s then list_threads_loop ops s ns i
     else if i > MAX_THREADS then bug
     else map_option (Cons t) (list_threads_loop ops s ns (Suc i)))"
| "list_threads_loop ops s (n # ns) i = None"

definition list_threads :: "u32 \<Rightarrow> kernel \<Rightarrow> (kernel \<times> u32 list) option" where
  "list_threads ops s = do {
     (s1, flags) \<leftarrow> spin_lock_irqsave (TqLock ThreadList) s;
     ns \<leftarrow> klist0_for_each (nodes s1) (TqThreads ThreadList);
     r \<leftarrow> list_threads_loop ops s1 ns 0;
     s2 \<leftarrow> spin_unlock_irqrestore (TqLock ThreadList) flags s1;
     Some (s2, r)
   }"

section \<open>Atomic operations and mutexes\<close>

definition atomic_test_and_set_u32 :: "u32 \<Rightarrow> u32 \<Rightarrow> u32 \<times> u32" where
  "atomic_test_and_set_u32 p v = (v, p)"

definition atomic_set_u32 :: "u32 \<Rightarrow> u32 \<Rightarrow> u32" where
  "atomic_set_u32 p v = p OR v"

definition atomic_clear_u32 :: "u32 \<Rightarrow> u32 \<Rightarrow> u32" where
  "atomic_clear_u32 p v = p AND NOT v"

definition atomic_add_u32 :: "u32 \<Rightarrow> u32 \<Rightarrow> u32" where
  "atomic_add_u32 p v = p + v"

definition atomic_sub_u32 :: "u32 \<Rightarrow> u32 \<Rightarrow> u32" where
  "atomic_sub_u32 p v = p - v"

definition atomic_sub_and_test_u32 :: "u32 \<Rightarrow> u32 \<Rightarrow> u32 \<times> bool" where
  "atomic_sub_and_test_u32 p v = (p - v, p - v = 0)"

definition atomic_inc_u32 :: "u32 \<Rightarrow> u32" where
  "atomic_inc_u32 p = atomic_add_u32 p 1"

definition atomic_dec_u32 :: "u32 \<Rightarrow> u32" where
  "atomic_dec_u32 p = atomic_sub_u32 p 1"

definition atomic_dec_and_test_u32 :: "u32 \<Rightarrow> u32 \<times> bool" where
  "atomic_dec_and_test_u32 p = atomic_sub_and_test_u32 p 1"

definition mutex_init :: "u32 \<Rightarrow> kernel \<Rightarrow> kernel" where
  "mutex_init mutex s =
    tq_init (MutexSleepers mutex)
      (s\<lparr>mutex_locks := (mutex_locks s)(mutex := fst (atomic_test_and_set_u32 (mutex_locks s mutex) 1))\<rparr>)"

definition mutex_trylock :: "u32 \<Rightarrow> kernel \<Rightarrow> kernel \<times> bool" where
  "mutex_trylock mutex s =
    (let (v, old) = atomic_test_and_set_u32 (mutex_locks s mutex) 0
     in (s\<lparr>mutex_locks := (mutex_locks s)(mutex := v)\<rparr>, old = 0))"

partial_function (option) mutex_lock :: "(kernel \<Rightarrow> kernel option) \<Rightarrow> u32 \<Rightarrow> kernel \<Rightarrow> kernel option" where
  "mutex_lock others mutex s =
    (let (s1, busy) = mutex_trylock mutex s
     in if busy then do {
          s2 \<leftarrow> scheduler_dequeue (MutexSleepers mutex) s1;
          s3 \<leftarrow> scheduler_yield s2;
          s4 \<leftarrow> others s3;
          mutex_lock others mutex s4
        } else Some s1)"

definition mutex_unlock :: "u32 \<Rightarrow> kernel \<Rightarrow> kernel option" where
  "mutex_unlock mutex s = do {
     let (s1, busy) = mutex_trylock mutex s;
     _ \<leftarrow> bug_on (\<not> busy);
     (s2, r) \<leftarrow> scheduler_enqueue (MutexSleepers mutex) s1;
     Some (s2\<lparr>mutex_locks := (mutex_locks s2)(mutex := atomic_set_u32 (mutex_locks s2 mutex) 1)\<rparr>)
   }"

end
