(* ===== verification/Threads.thy ===== *)
theory Threads
  imports Sched
begin

text \<open>
  Creation of threads and sleeping: \<^verbatim>\<open>kernel/thread.c\<close>, the stack set-up of \<^verbatim>\<open>arch/i386/thread.c\<close>,
  \<^verbatim>\<open>kernel/timecore.c\<close>, \<^verbatim>\<open>arch/i386/timer.c\<close> and \<^verbatim>\<open>kernel/exit.c\<close>.
\<close>

section \<open>Threads\<close>

definition get_free_pid :: "kernel \<Rightarrow> kernel \<times> u32" where
  "get_free_pid s = (s\<lparr>next_pid := next_pid s + 1\<rparr>, next_pid s)"

fun thread_get_loop :: "kernel \<Rightarrow> u32 \<Rightarrow> knode list \<Rightarrow> u32 option option" where
  "thread_get_loop s p [] = Some None"
| "thread_get_loop s p (Kthreads t # rest) = (if pid (threads s t) = p then Some (Some t) else thread_get_loop s p rest)"
| "thread_get_loop s p (n # rest) = None"

definition thread_get :: "u32 \<Rightarrow> kernel \<Rightarrow> u32 option option" where
  "thread_get p s = do {
     l \<leftarrow> klist0_for_each (nodes s) (TqThreads ThreadList);
     thread_get_loop s p l
   }"

definition zero_regs :: "u32 \<Rightarrow> kernel \<Rightarrow> kernel" where
  "zero_regs sp s = fold (\<lambda>i. store_word (sp - 4 * of_nat (Suc i)) 0) [0..<8] s"

definition thread_init_stack :: "u32 \<Rightarrow> u32 \<Rightarrow> u32 \<Rightarrow> kernel \<Rightarrow> kernel" where
  "thread_init_stack t func data s =
    (let stack = t - 4;
         s1 = set_thread t (\<lambda>th. th\<lparr>stack_base := stack, esp := stack\<rparr>) s;
         s2 = store_word stack data s1;
         s3 = store_word (stack - 4) 0 s2;
         s4 = store_word (stack - 8) (eflags (kcpu s3) OR EFLAGS_IF) s3;
         s5 = store_word (stack - 12) (ucast KERN_CODE) s4;
         s6 = store_word (stack - 16) func s5;
         s7 = zero_regs (stack - 16) s6
     in set_thread t (\<lambda>th. th\<lparr>esp := stack - 48, state := state th AND NOT THREAD_NEW\<rparr>) s7)"

definition thread_create :: "u32 \<Rightarrow> u32 \<Rightarrow> u32 \<Rightarrow> kernel \<Rightarrow> (kernel \<times> u32) option" where
  "thread_create func name data s = do {
     (s1, page) \<leftarrow> k_get_pages s 0 0;
     if page = 0 then Some (s1, 0)
     else do {
       let t = THREAD page;
       let s2 = set_thread t (\<lambda>th. th\<lparr>state := THREAD_NEW\<rparr>) s1;
       let s3 = thread_init_stack t func data s2;
       let (s4, p) = get_free_pid s3;
       let s5 = set_thread t (\<lambda>th. th\<lparr>pid := p, state := THREAD_RUNNABLE\<rparr>) s4;
       let s6 = k_memory_copy (t + T_NAME) name THREAD_NAME_LEN s5;
       let s7 = set_nodes (\<lambda>h. KLIST0_INIT (Krunq t) (KLIST0_INIT (Kthreads t) h)) s6;
       let s8 = set_thread t (\<lambda>th. th\<lparr>t_ns := RootNs, last_fd := 0\<rparr>) s7;
       let s9 = set_nodes (\<lambda>h. KLIST0_INIT (TMbox t) (KLIST0_INIT (TFiles t) h)) s8;
       let s10 = set_thread t (\<lambda>th. th\<lparr>t_map := syms s9 Root_map, fdset := bitmap_zero 0 (nat FS_MAX_FDS) (fdset th),
                                      krunq_head := None\<rparr>) s9;
       (s11, flags) \<leftarrow> spin_lock_irqsave (TqLock ThreadList) s10;
       let s12 = set_nodes (klist0_append (Kthreads t) (TqThreads ThreadList)) s11;
       s13 \<leftarrow> spin_unlock_irqrestore (TqLock ThreadList) flags s12;
       Some (s13, t)
     }
   }"

text \<open>\<^verbatim>\<open>thread_switch_to\<close> leaves the boot stack for good: eleven words are popped from the new one.\<close>

definition thread_switch_to :: "u32 \<Rightarrow> kernel \<Rightarrow> kernel" where
  "thread_switch_to t s =
    (let new = esp (threads s t)
     in set_cpu (\<lambda>c. c\<lparr>cpu_esp := new + 44, eflags := load_word s (new + 40)\<rparr>) s)"

definition reset_stack :: "kernel \<Rightarrow> kernel" where
  "reset_stack s =
    (let t = CURRENT s
     in set_cpu (\<lambda>c. c\<lparr>tss_esp0 := t - 4\<rparr>) (set_thread t (\<lambda>th. th\<lparr>esp := t - 4\<rparr>) s))"

text \<open>\<^verbatim>\<open>exit\<close> prints a message and returns.\<close>

definition exit :: "int \<Rightarrow> kernel \<Rightarrow> kernel" where
  "exit code s = s"

section \<open>Sleeping\<close>

definition timers_init :: "kernel \<Rightarrow> kernel option" where
  "timers_init s = do {
     let s1 = spinlock_init FutureLock (set_nodes (KLIST0_INIT Future) s);
     (s2, p) \<leftarrow> k_slice_pool_create s1 (20 + SIZEOF_SPINLOCK s);
     Some (s2\<lparr>interval_pool := p\<rparr>)
   }"

definition interval_entry :: "knode \<Rightarrow> u32 option" where
  "interval_entry n = (case n of IntervalList i \<Rightarrow> Some i | _ \<Rightarrow> None)"

partial_function (option) wake_all :: "tqid \<Rightarrow> kernel \<Rightarrow> kernel option" where
  "wake_all q s = do {
     (s1, more) \<leftarrow> scheduler_enqueue q s;
     if more then wake_all q s1 else Some s1
   }"

definition set_ticks :: "u32 \<Rightarrow> u32 \<Rightarrow> kernel \<Rightarrow> kernel" where
  "set_ticks i v s = s\<lparr>ticks_left := (ticks_left s)(i := v)\<rparr>"

definition update_timers :: "kernel \<Rightarrow> kernel option" where
  "update_timers s = do {
     s1 \<leftarrow> spin_lock FutureLock s;
     (s2, interval) \<leftarrow>
       (if \<not> klist0_empty Future (nodes s1) then do {
          i \<leftarrow> interval_entry (next (nodes s1) Future);
          let t = ticks_left s1 i;
          let s2 = set_ticks i (t - 1) s1;
          if t = 0 then Some (set_nodes (klist0_unlink (IntervalList i)) s2, Some i)
          else Some (s2, None)
        } else Some (s1, None));
     s3 \<leftarrow> spin_unlock FutureLock s2;
     (case interval of
        None \<Rightarrow> Some s3
      | Some i \<Rightarrow> do {
          s4 \<leftarrow> wake_all (WakeList i) s3;
          k_slice_free s4 i (interval_pool s4)
        })
   }"

text \<open>
  A fresh interval in front of the node \<open>at\<close>, on which the caller goes to sleep.  \<open>Inl s\<close> is the return with
  \<^verbatim>\<open>-ENOMEM\<close>, in which the lock stays taken and interrupts disabled, and \<open>Inr s\<close> the jump to \<^verbatim>\<open>out\<close>.
\<close>

definition new_interval :: "u32 \<Rightarrow> knode \<Rightarrow> kernel \<Rightarrow> (kernel + kernel) option" where
  "new_interval delay at s = do {
     (s1, n) \<leftarrow> k_slice_alloc s (interval_pool s);
     if n = 0 then Some (Inl s1)
     else do {
       let s2 = set_nodes (KLIST0_INIT (IntervalList n)) s1;
       let s3 = tq_init (WakeList n) s2;
       let s4 = set_ticks n delay s3;
       let s5 = set_nodes (klist0_prepend (IntervalList n) at) s4;
       s6 \<leftarrow> scheduler_dequeue (WakeList n) s5;
       Some (Inr s6)
     }
   }"

text \<open>The search of \<^verbatim>\<open>tsleep\<close> for the place of the new interval.\<close>

partial_function (option) tsleep_loop :: "u32 \<Rightarrow> knode \<Rightarrow> kernel \<Rightarrow> (kernel + kernel) option" where
  "tsleep_loop delay tmp s =
    (if tmp = Future then new_interval delay Future s
     else do {
       i \<leftarrow> interval_entry tmp;
       if delay < ticks_left s i then
         new_interval delay (IntervalList i) (set_ticks i (ticks_left s i - delay) s)
       else if delay = ticks_left s i then do {
         s1 \<leftarrow> scheduler_dequeue (WakeList i) s;
         Some (Inr s1)
       }
       else tsleep_loop (delay - ticks_left s i) (next (nodes s) tmp) s
     })"

text \<open>The result is the state right after the switch to the next thread, or an error.\<close>

definition tsleep :: "u32 \<Rightarrow> kernel \<Rightarrow> (kernel \<times> int) option" where
  "tsleep delay s = do {
     (s1, flags) \<leftarrow> spin_lock_irqsave FutureLock s;
     r \<leftarrow> tsleep_loop delay (next (nodes s1) Future) s1;
     (case r of
        Inl s2 \<Rightarrow> Some (s2, - ENOMEM)
      | Inr s2 \<Rightarrow> do {
          s3 \<leftarrow> spin_unlock_irqrestore FutureLock flags s2;
          s4 \<leftarrow> scheduler_yield s3;
          Some (s4, 0)
        })
   }"

section \<open>The timer interrupt\<close>

definition pic_out :: "u16 \<Rightarrow> u8 \<Rightarrow> kernel \<Rightarrow> kernel" where
  "pic_out port data s = set_drv (\<lambda>d. d\<lparr>kpic := pic_outb port data (kpic d)\<rparr>) s"

definition timer_set_divisor :: "u16 \<Rightarrow> kernel \<Rightarrow> kernel" where
  "timer_set_divisor divisor s =
    (pic_out 0x40 (ucast (drop_bit 8 divisor)) (pic_out 0x40 (ucast divisor AND 0xFF) (pic_out 0x43 0x36 s)))\<lparr>jiffies := 0\<rparr>"

definition timer_interrupt_handler :: "kernel \<Rightarrow> kernel option" where
  "timer_interrupt_handler s =
    (let s1 = s\<lparr>jiffies := jiffies s + 1\<rparr>
     in if mach_state_running s1 then update_timers s1 else Some s1)"

definition register_irq_handler :: "u32 \<Rightarrow> irq_fn \<Rightarrow> kernel \<Rightarrow> (kernel \<times> int) option" where
  "register_irq_handler number handler s =
    (if unat number \<ge> 16 then None
     else if irq_handler_table (kdrv s) (unat number) \<noteq> None then Some (s, 1)
     else Some (set_drv (\<lambda>d. d\<lparr>irq_handler_table := (irq_handler_table d)(unat number := Some handler),
                              kpic := pic_unmask_interrupt number (kpic d)\<rparr>) s, 0))"

definition unregister_irq_handler :: "u32 \<Rightarrow> kernel \<Rightarrow> kernel option" where
  "unregister_irq_handler number s =
    (if unat number \<ge> 16 then None
     else Some (set_drv (\<lambda>d. d\<lparr>kpic := pic_mask_interrupt number (kpic d),
                              irq_handler_table := (irq_handler_table d)(unat number := None)\<rparr>) s))"

definition timer_init :: "kernel \<Rightarrow> (kernel \<times> int) option" where
  "timer_init s = do {
     (s1, _) \<leftarrow> register_irq_handler 0 Timer_interrupt_handler (timer_set_divisor 4096 s);
     Some (s1, 0)
   }"

end
