(* ===== verification/Vm.thy ===== *)
theory Vm
  imports Threads
begin

text \<open>
  Virtual memory: the page tables of \<^verbatim>\<open>arch/i386/paging.c\<close> and \<^verbatim>\<open>include/i386/pages.h\<close>, the memory areas of
  \<^verbatim>\<open>kernel/mem_area.c\<close>, \<^verbatim>\<open>kernel/brk.c\<close> and the page-fault handler of \<^verbatim>\<open>arch/i386/trap.c\<close>.

  Page directories and page tables are words of the word memory.  The head \<^verbatim>\<open>m_plist\<close> of the pages of an
  area is the node \<open>AreaHead (unat mma)\<close> of the heap of \<^verbatim>\<open>area_list\<close> fields; the local list of
  \<^verbatim>\<open>mem_area_alloc_new\<close> is \<open>pg_list\<close>.
\<close>

section \<open>Constants\<close>

definition PGD_SHIFT :: nat where "PGD_SHIFT = 22"
definition PGT_SHIFT :: nat where "PGT_SHIFT = 12"
definition PGD_ENTRIES :: nat where "PGD_ENTRIES = 2 ^ (32 - PGD_SHIFT)"
definition PGT_ENTRIES :: nat where "PGT_ENTRIES = 2 ^ (PGD_SHIFT - PGT_SHIFT)"
definition PGD_MASK :: u32 where "PGD_MASK = 0xffc00000"
definition PGT_MASK :: u32 where "PGT_MASK = 0x003ff000"

definition PGDIDX :: "u32 \<Rightarrow> u32" where
  "PGDIDX addr = drop_bit PGD_SHIFT addr"

definition PGTIDX :: "u32 \<Rightarrow> u32" where
  "PGTIDX addr = drop_bit PGT_SHIFT (addr AND PGT_MASK)"

definition PTF_EXEC :: u32 where "PTF_EXEC = 0"
definition PTF_PRESENT :: u32 where "PTF_PRESENT = 1"
definition PTF_RW :: u32 where "PTF_RW = 2"
definition PTF_USER :: u32 where "PTF_USER = 4"
definition PTF_GLOBAL :: u32 where "PTF_GLOBAL = 0x100"

definition PTE_DESC :: "u32 \<Rightarrow> u32 \<Rightarrow> u32" where
  "PTE_DESC addr attrs = push_bit PAGE_SHIFT addr OR attrs"

definition PFLT_USER :: u32 where "PFLT_USER = 4"

definition USERMEM_START :: u32 where "USERMEM_START = 0x40000000"
definition USERMEM_STACK :: u32 where "USERMEM_STACK = 0x80000000"
definition USERMEM_STACKLIM :: u32 where "USERMEM_STACKLIM = 0xf000"
definition USERMEM_HEAP :: u32 where "USERMEM_HEAP = 0x80000000"
definition USERMEM_HEAPLIM :: u32 where "USERMEM_HEAPLIM = 0x80000"
definition USERMEM_MBOX :: u32 where "USERMEM_MBOX = 0xa0000000"

definition in_kernel :: "u32 \<Rightarrow> bool" where
  "in_kernel p \<longleftrightarrow> p < USERMEM_START"

section \<open>Page tables\<close>

definition set_mapping :: "u32 \<Rightarrow> (mapping \<Rightarrow> mapping) \<Rightarrow> kernel \<Rightarrow> kernel" where
  "set_mapping a f s = set_vm (\<lambda>v. v\<lparr>mappings := (mappings v)(a := f (mappings v a))\<rparr>) s"

definition store_words :: "u32 \<Rightarrow> (nat \<Rightarrow> u32) \<Rightarrow> nat list \<Rightarrow> kernel \<Rightarrow> kernel" where
  "store_words p f is s = fold (\<lambda>i. store_word (p + 4 * of_nat i) (f i)) is s"

definition init_rootmap :: "kernel \<Rightarrow> kernel option" where
  "init_rootmap s = do {
     let n = unat (phys_pgs (kvm s));
     let tablesz = n div PGT_ENTRIES + (if n mod PGT_ENTRIES \<noteq> 0 then 1 else 0);
     (s1, pgdir) \<leftarrow> k_get_pages s 0 0;
     (s2, pgtable) \<leftarrow> k_get_pages s1 0 (log2 (of_nat tablesz));
     let s3 = set_mapping (syms s2 Root_map) (\<lambda>m. m\<lparr>m_pgdir := pgdir, m_pgtable := pgtable\<rparr>) s2;
     let s4 = store_words pgtable (\<lambda>i. PTE_DESC (of_nat i) (PTF_PRESENT OR PTF_RW)) [0..<n] s3;
     let s5 = store_words pgtable (\<lambda>i. 0 OR PTF_USER OR PTF_RW) [n..<tablesz * PGT_ENTRIES] s4;
     let s6 = store_words pgdir (\<lambda>i. (pgtable + 4 * of_nat (i * PGT_ENTRIES)) OR PTF_PRESENT OR PTF_RW OR PTF_GLOBAL)
                [0..<tablesz] s5;
     Some (store_words pgdir (\<lambda>i. 0 OR PTF_USER OR PTF_RW) [tablesz..<PGT_ENTRIES] s6)
   }"

definition copy_entry :: "u32 \<Rightarrow> u32 \<Rightarrow> nat \<Rightarrow> kernel \<Rightarrow> kernel" where
  "copy_entry pgtable src t s = store_word (pgtable + 4 * of_nat t) (load_word s (src + 4 * of_nat t)) s"

definition clone_entry :: "u32 \<Rightarrow> u32 \<Rightarrow> u32 \<Rightarrow> nat \<Rightarrow> kernel \<Rightarrow> kernel" where
  "clone_entry dst mp pgtable d s =
    (let di = 4 * of_nat d;
         s1 = store_word (m_pgdir (mapping_of s dst) + di)
                (load_word s (m_pgdir (mapping_of s mp) + di) AND PAGE_MASK) s;
         s2 = store_word (m_pgdir (mapping_of s1 dst) + di)
                (load_word s1 (m_pgdir (mapping_of s1 dst) + di) OR pgtable) s1;
         src = load_word s2 (m_pgdir (mapping_of s2 mp) + di) AND NOPAGE_MASK
     in if load_word s2 (m_pgdir (mapping_of s2 dst) + di) AND PTF_PRESENT \<noteq> 0
        then fold (copy_entry pgtable src) [0..<PGT_ENTRIES] s2 else s2)"

definition clone_map :: "u32 \<Rightarrow> u32 \<Rightarrow> kernel \<Rightarrow> kernel option" where
  "clone_map dst mp s = do {
     let s1 = set_mapping dst (\<lambda>m. m\<lparr>m_nmma := 0\<rparr>) s;
     (s2, pgdir) \<leftarrow> k_get_pages s1 0 0;
     let s3 = set_mapping dst (\<lambda>m. m\<lparr>m_pgdir := pgdir\<rparr>) s2;
     (s4, pgtable) \<leftarrow>
       k_get_pages s3 0 (log2 (of_nat (unat (phys_pgs (kvm s3) + of_nat PGT_ENTRIES - 1) div PGT_ENTRIES)));
     let s5 = set_mapping dst (\<lambda>m. m\<lparr>m_pgtable := pgtable\<rparr>) s4;
     Some (fold (\<lambda>d. clone_entry dst mp (pgtable + of_nat (d * PAGE_SIZE)) d) [0..<PGD_ENTRIES] s5)
   }"

definition free_map :: "u32 \<Rightarrow> kernel \<Rightarrow> kernel option" where
  "free_map mp s = do {
     s1 \<leftarrow> k_put_pages s (m_pgtable (mapping_of s mp));
     k_put_pages s1 (m_pgdir (mapping_of s1 mp))
   }"

definition map_page :: "u32 \<Rightarrow> u32 \<Rightarrow> u32 \<Rightarrow> u16 \<Rightarrow> kernel \<Rightarrow> kernel" where
  "map_page mp vaddr phys flags s =
    (let pde = m_pgdir (mapping_of s mp) + 4 * PGDIDX vaddr;
         pgtable = load_word s pde AND NOPAGE_MASK;
         s1 = store_word pde (load_word s pde OR PTF_PRESENT) s
     in store_word (pgtable + 4 * PGTIDX vaddr) (phys OR PTF_PRESENT OR PTF_USER OR ucast flags) s1)"

definition unmap_page :: "u32 \<Rightarrow> u32 \<Rightarrow> kernel \<Rightarrow> kernel" where
  "unmap_page mp vaddr s =
    (let pgtable = load_word s (m_pgdir (mapping_of s mp) + 4 * PGDIDX vaddr) AND NOPAGE_MASK
     in store_word (pgtable + 4 * PGTIDX vaddr) 0 s)"

definition map_pages :: "u32 \<Rightarrow> u32 \<Rightarrow> u32 \<Rightarrow> u32 \<Rightarrow> u16 \<Rightarrow> kernel \<Rightarrow> kernel" where
  "map_pages mp vaddr phys n flags s =
    fold (\<lambda>i. map_page mp (vaddr + of_nat (PAGE_SIZE * i)) (phys + of_nat (PAGE_SIZE * i)) flags) [0..<unat n] s"

definition paging_init :: "kernel \<Rightarrow> kernel option" where
  "paging_init s = do {
     s1 \<leftarrow> init_rootmap s;
     Some (set_cpu (\<lambda>c. c\<lparr>cr3 := m_pgdir (mapping_of s1 (syms s1 Root_map)), cr0 := cr0 c OR 0x80000000\<rparr>) s1)
   }"

definition virt2physpg :: "u32 \<Rightarrow> kernel \<Rightarrow> u32" where
  "virt2physpg pgaddr s =
    (let pgtable = load_word s (drop_bit 20 (pgaddr AND PGD_MASK) + cr3 (kcpu s)) AND NOPAGE_MASK
     in load_word s (drop_bit 10 (pgaddr AND PGT_MASK) + pgtable) AND NOPAGE_MASK)"

definition virt2phys :: "u32 \<Rightarrow> kernel \<Rightarrow> u32" where
  "virt2phys addr s =
    (let pgtable = load_word s (drop_bit 20 (addr AND PGD_MASK) + cr3 (kcpu s)) AND NOPAGE_MASK;
         pg = load_word s (drop_bit 10 (addr AND PGT_MASK) + pgtable) AND NOPAGE_MASK
     in (addr AND PAGE_MASK) OR pg)"

text \<open>
  How the processor sees memory under the current page directory: kernel addresses are mapped one to
  one, a user address goes through the tables and faults when an entry is not present.  This is the walk of the i386 manual; the
  entries that the processor keeps from earlier walks, until \<^verbatim>\<open>cr3\<close> is loaded, are not modelled.  \<open>u_memory_copy\<close> is
  \<^verbatim>\<open>memory_copy\<close> with pointers of either kind; a fault in the kernel does not return.
\<close>

definition linear :: "kernel \<Rightarrow> u32 \<Rightarrow> u32 option" where
  "linear s a =
    (if in_kernel a then Some a
     else let pde = load_word s (cr3 (kcpu s) + 4 * PGDIDX a);
              pte = load_word s ((pde AND NOPAGE_MASK) + 4 * PGTIDX a)
          in if pde AND PTF_PRESENT = 0 \<or> pte AND PTF_PRESENT = 0 then None
             else Some ((pte AND NOPAGE_MASK) OR (a AND PAGE_MASK)))"

fun u_copy_bytes :: "u32 \<Rightarrow> u32 \<Rightarrow> nat list \<Rightarrow> kernel \<Rightarrow> kernel option" where
  "u_copy_bytes dest src [] s = Some s"
| "u_copy_bytes dest src (i # is) s = do {
     from \<leftarrow> linear s (src + of_nat i);
     to \<leftarrow> linear s (dest + of_nat i);
     u_copy_bytes dest src is (s\<lparr>bytes := (bytes s)(to := bytes s from)\<rparr>)
   }"

definition u_memory_copy :: "u32 \<Rightarrow> u32 \<Rightarrow> nat \<Rightarrow> kernel \<Rightarrow> kernel option" where
  "u_memory_copy dest src n s =
    (if dest = src then Some s
     else if dest < src then u_copy_bytes dest src [0..<n] s
     else u_copy_bytes dest src (rev [0..<n]) s)"

definition thread_create_user :: "u32 \<Rightarrow> u32 \<Rightarrow> u32 \<Rightarrow> kernel \<Rightarrow> (kernel \<times> u32) option" where
  "thread_create_user func name data s = do {
     (s1, t) \<leftarrow> thread_create func name data s;
     if t \<noteq> 0 then do {
       (s2, mp) \<leftarrow> k_galloc s1 48;
       let s3 = set_thread t (\<lambda>th. th\<lparr>t_map := mp\<rparr>) s2;
       s4 \<leftarrow> clone_map mp (syms s3 Root_map) s3;
       Some (s4, t)
     } else Some (s1, t)
   }"

section \<open>Memory areas\<close>

definition MMA_RW :: u32 where "MMA_RW = 1"
definition MMA_GROWS :: u32 where "MMA_GROWS = 2"
definition MMA_STACK :: u32 where "MMA_STACK = 4"
definition MMA_EXEC :: u32 where "MMA_EXEC = 8"
definition MMA_CONT :: u32 where "MMA_CONT = 0x10"
definition MMA_CLONE :: u32 where "MMA_CLONE = 0x20"
definition MMA_MAX :: nat where "MMA_MAX = 8"

definition mma_of :: "kernel \<Rightarrow> u32 \<Rightarrow> mem_area" where
  "mma_of s a = mmas (kvm s) a"

definition set_mma :: "u32 \<Rightarrow> (mem_area \<Rightarrow> mem_area) \<Rightarrow> kernel \<Rightarrow> kernel" where
  "set_mma a f s = set_vm (\<lambda>v. v\<lparr>mmas := (mmas v)(a := f (mmas v a))\<rparr>) s"

definition m_plist :: "u32 \<Rightarrow> area_node" where
  "m_plist mma = AreaHead (unat mma)"

definition pg_list :: area_node where
  "pg_list = AreaHead (2 ^ 32)"

definition area_page :: "area_node \<Rightarrow> pageptr option" where
  "area_page n = (case n of PgArea pg \<Rightarrow> Some pg | AreaHead _ \<Rightarrow> None)"

definition set_areas :: "(area_node klist0_node \<Rightarrow> area_node klist0_node) \<Rightarrow> kernel \<Rightarrow> kernel" where
  "set_areas f s = set_kmm ((kmm_of s)\<lparr>areas := f (areas (kmm_of s))\<rparr>) s"

definition set_virt :: "pageptr \<Rightarrow> u32 \<Rightarrow> kernel \<Rightarrow> kernel" where
  "set_virt pg v s = set_kmm (set_page pg (\<lambda>p. p\<lparr>virt := v\<rparr>) (kmm_of s)) s"

definition virt_of :: "kernel \<Rightarrow> pageptr \<Rightarrow> u32" where
  "virt_of s pg = virt (p_pool (kmm_of s) pg)"

definition mma_init :: "kernel \<Rightarrow> kernel option" where
  "mma_init s = do {
     (s1, p) \<leftarrow> k_slice_pool_create s 40;
     _ \<leftarrow> bug_on (p = 0);
     Some (set_vm (\<lambda>v. v\<lparr>mma_pool := p\<rparr>) s1)
   }"

partial_function (option) mma_original :: "kernel \<Rightarrow> u32 \<Rightarrow> u32 option" where
  "mma_original s mma =
    (if m_flags (mma_of s mma) AND MMA_CLONE \<noteq> 0 then mma_original s (m_original (mma_of s mma)) else Some mma)"

definition mma__add_page :: "u32 \<Rightarrow> pageptr \<Rightarrow> kernel \<Rightarrow> kernel" where
  "mma__add_page mma pg s =
    (let s1 = (if m_flags (mma_of s mma) AND MMA_STACK \<noteq> 0
               then let s2 = set_mma mma (\<lambda>m. m\<lparr>m_start := m_start m - of_nat PAGE_SIZE\<rparr>) s
                    in set_virt pg (m_start (mma_of s2 mma)) s2
               else set_mma mma (\<lambda>m. m\<lparr>m_end := m_end m + of_nat PAGE_SIZE\<rparr>) (set_virt pg (m_end (mma_of s mma)) s))
     in set_mma mma (\<lambda>m. m\<lparr>m_pages := m_pages m + 1\<rparr>) s1)"

definition mma__remove_page :: "u32 \<Rightarrow> pageptr \<Rightarrow> kernel \<Rightarrow> kernel" where
  "mma__remove_page mma pg s =
    set_mma mma (\<lambda>m. m\<lparr>m_pages := m_pages m - 1, m_end := m_end m - of_nat PAGE_SIZE\<rparr>) (set_virt pg NOPAGE_ADDR s)"

definition mem_area_is_hit :: "mem_area \<Rightarrow> u32 \<Rightarrow> bool" where
  "mem_area_is_hit mma addr \<longleftrightarrow> addr \<ge> m_start mma \<and> addr < m_end mma"

definition mem_area_hit_offset :: "mem_area \<Rightarrow> u32 \<Rightarrow> u32" where
  "mem_area_hit_offset mma addr =
    (if m_flags mma AND MMA_STACK \<noteq> 0 then
       (if addr \<ge> m_end mma - m_sizelim mma \<and> addr < m_end mma then m_start mma - addr else NOPAGE_ADDR)
     else if m_flags mma AND MMA_GROWS \<noteq> 0 then
       (if addr \<ge> m_start mma \<and> addr < m_start mma + m_sizelim mma then addr - m_end mma else NOPAGE_ADDR)
     else NOPAGE_ADDR)"

text \<open>\<^verbatim>\<open>mma_map_pages\<close>; the list of pages does not change while it runs.\<close>

fun mma_map_loop :: "u32 \<Rightarrow> bool \<Rightarrow> area_node list \<Rightarrow> kernel \<Rightarrow> kernel option" where
  "mma_map_loop mma add [] s = Some s"
| "mma_map_loop mma add (n # ns) s = do {
     pg \<leftarrow> area_page n;
     let m = mma_of s mma;
     let v = (if \<not> add then virt_of s pg
              else if m_flags m AND MMA_STACK \<noteq> 0 then m_start m - of_nat PAGE_SIZE else m_end m);
     let s1 = map_page (m_map m) v (page_to_addr (kmm_of s) pg) (ucast (m_prot m)) s;
     mma_map_loop mma add ns (if add then mma__add_page mma pg s1 else s1)
   }"

definition mma_map_pages :: "u32 \<Rightarrow> bool \<Rightarrow> kernel \<Rightarrow> kernel option" where
  "mma_map_pages mma add s = do {
     org \<leftarrow> mma_original s mma;
     l \<leftarrow> klist0_for_each (areas (kmm_of s)) (m_plist org);
     mma_map_loop mma add l s
   }"

definition mma_prot_of :: "u32 \<Rightarrow> u32" where
  "mma_prot_of flags =
    (let p = (if flags AND MMA_RW \<noteq> 0 then PTF_RW else 0)
     in if flags AND MMA_EXEC \<noteq> 0 then p OR PTF_EXEC else p)"

definition mem_area_remap :: "u32 \<Rightarrow> u32 \<Rightarrow> kernel \<Rightarrow> kernel option" where
  "mem_area_remap mma flags s =
    mma_map_pages mma False
      (set_mma mma (\<lambda>m. m\<lparr>m_flags := (m_flags m AND NOT (MMA_RW OR MMA_EXEC)) OR (flags AND (MMA_RW OR MMA_EXEC)),
                         m_prot := mma_prot_of flags\<rparr>) s)"

definition mem_area_alloc :: "u32 \<Rightarrow> u32 \<Rightarrow> area_node option \<Rightarrow> u32 \<Rightarrow> kernel \<Rightarrow> (kernel \<times> u32) option" where
  "mem_area_alloc mp start page_list flags s = do {
     (s1, mma) \<leftarrow> k_slice_alloc s (mma_pool (kvm s));
     if mma = 0 then Some (s1, 0)
     else do {
       let s2 = set_mma mma (\<lambda>m. m\<lparr>m_map := mp, m_start := start, m_end := start, m_pages := 0, m_users := 1,
                                  m_flags := flags, m_prot := mma_prot_of flags\<rparr>) s1;
       (case page_list of
          None \<Rightarrow> Some (s2, mma)
        | Some l \<Rightarrow>
            if klist0_empty l (areas (kmm_of s2)) then Some (s2, mma)
            else do {
              s3 \<leftarrow> mma_map_pages mma True (set_areas (klist0_reparent l (m_plist mma)) s2);
              Some (s3, mma)
            })
     }
   }"

definition mem_area_alloc_new :: "u32 \<Rightarrow> u32 \<Rightarrow> u32 \<Rightarrow> u32 \<Rightarrow> kernel \<Rightarrow> (kernel \<times> u32) option" where
  "mem_area_alloc_new mp start pages flags s = do {
     let zone = (if mp = syms s Root_map then ZONE_VMAP else ZONE_USER);
     let s1 = set_areas (KLIST0_INIT pg_list) s;
     (m, start_phys, ret) \<leftarrow>
       (if flags AND MMA_CONT \<noteq> 0 then alloc_pagelist_contig (kmm_of s1) (of_nat zone) pages 0 pg_list
        else alloc_pagelist_sparse (kmm_of s1) (of_nat zone) (unat pages) pg_list);
     let s2 = set_kmm m s1;
     if ret \<noteq> 0 then Some (s2, 0)
     else mem_area_alloc mp (if zone = ZONE_VMAP then start_phys else start) (Some pg_list) flags s2
   }"

definition mem_area_add_page :: "u32 \<Rightarrow> pageptr \<Rightarrow> kernel \<Rightarrow> kernel option" where
  "mem_area_add_page mma pg s =
    (if \<not> klist0_empty (PgArea pg) (areas (kmm_of s)) then bug
     else Some (mma__add_page mma pg (set_areas (klist0_prepend (PgArea pg) (m_plist mma)) s)))"

definition mem_area_remove_page :: "u32 \<Rightarrow> pageptr \<Rightarrow> kernel \<Rightarrow> kernel option" where
  "mem_area_remove_page mma pg s =
    (if klist0_empty (PgArea pg) (areas (kmm_of s)) then bug
     else Some (mma__remove_page mma pg (set_areas (klist0_unlink (PgArea pg)) s)))"

fun grow_loop :: "u32 \<Rightarrow> nat \<Rightarrow> kernel \<Rightarrow> kernel option" where
  "grow_loop mma 0 s = Some s"
| "grow_loop mma (Suc pages) s = do {
     (m, p) \<leftarrow> alloc_pages (kmm_of s) (of_nat ZONE_USER) 0;
     (case p of
        None \<Rightarrow> bug
      | Some pg \<Rightarrow> do {
          s1 \<leftarrow> mem_area_add_page mma pg (set_kmm m s);
          grow_loop mma pages
            (map_page (m_map (mma_of s1 mma)) (virt_of s1 pg) (page_to_addr (kmm_of s1) pg)
               (ucast (m_prot (mma_of s1 mma))) s1)
        })
   }"

definition mem_area_grow :: "u32 \<Rightarrow> u32 \<Rightarrow> kernel \<Rightarrow> kernel option" where
  "mem_area_grow mma pages s =
    (if m_flags (mma_of s mma) AND (MMA_GROWS OR MMA_STACK) = 0 then Some s else grow_loop mma (unat pages) s)"

definition mem_area_clone :: "u32 \<Rightarrow> u32 \<Rightarrow> kernel \<Rightarrow> (kernel \<times> u32) option" where
  "mem_area_clone mp mma s = do {
     _ \<leftarrow> bug_on (m_flags (mma_of s mma) AND (MMA_STACK OR MMA_GROWS) \<noteq> 0);
     (s1, ret) \<leftarrow> mem_area_alloc mp (m_start (mma_of s mma)) None (m_flags (mma_of s mma)) s;
     if ret = 0 then Some (s1, 0)
     else do {
       let s2 = set_mma mma (\<lambda>m. m\<lparr>m_users := m_users m + 1\<rparr>) s1;
       let org = mma_of s2 mma;
       let s3 = set_mma ret (\<lambda>m. m\<lparr>m_prot := m_prot org, m_pages := m_pages org, m_flags := m_flags m OR MMA_CLONE,
                                  m_original := mma, m_sizelim := m_sizelim org\<rparr>) s2;
       s4 \<leftarrow> mma_map_pages ret True s3;
       Some (s4, ret)
     }
   }"

fun copy_pages_loop :: "u32 \<Rightarrow> area_node \<Rightarrow> area_node list \<Rightarrow> kernel \<Rightarrow> kernel option" where
  "copy_pages_loop ret ldst [] s = Some s"
| "copy_pages_loop ret ldst (lsrc # ns) s = do {
     _ \<leftarrow> bug_on (ldst = m_plist ret);
     pgsrc \<leftarrow> area_page lsrc;
     pgdst \<leftarrow> area_page ldst;
     let s1 = k_memory_copy (page_to_addr (kmm_of s) pgdst) (page_to_addr (kmm_of s) pgsrc) PAGE_SIZE s;
     copy_pages_loop ret (next (areas (kmm_of s1)) ldst) ns s1
   }"

definition mem_area_copy :: "u32 \<Rightarrow> u32 \<Rightarrow> kernel \<Rightarrow> (kernel \<times> u32) option" where
  "mem_area_copy mp mma s = do {
     let m = mma_of s mma;
     (s1, ret) \<leftarrow> mem_area_alloc_new mp (m_start m) (m_pages m) ((m_flags m OR MMA_RW) AND NOT MMA_STACK) s;
     if ret = 0 then Some (s1, 0)
     else do {
       l \<leftarrow> klist0_for_each (areas (kmm_of s1)) (m_plist mma);
       s2 \<leftarrow> copy_pages_loop ret (next (areas (kmm_of s1)) (m_plist ret)) l s1;
       let org = mma_of s2 mma;
       let s3 = set_mma ret (\<lambda>m. m\<lparr>m_flags := m_flags m OR (m_flags org AND MMA_STACK), m_sizelim := m_sizelim org\<rparr>) s2;
       if m_flags (mma_of s3 mma) AND MMA_RW = 0 then do {
         s4 \<leftarrow> mem_area_remap ret (m_flags (mma_of s3 mma)) s3;
         Some (s4, ret)
       } else Some (s3, ret)
     }
   }"

text \<open>
  The two walks compare with the area's own list head; reaching another head, which is no page, is an
  access to memory that is no \<^verbatim>\<open>struct page\<close>.
\<close>

partial_function (option) unmap_loop :: "u32 \<Rightarrow> area_node \<Rightarrow> kernel \<Rightarrow> kernel option" where
  "unmap_loop mma tmp s =
    (if tmp = m_plist mma then Some s
     else do {
       pg \<leftarrow> area_page tmp;
       unmap_loop mma (next (areas (kmm_of s)) tmp) (unmap_page (m_map (mma_of s mma)) (virt_of s pg) s)
     })"

definition mem_area_unmap :: "u32 \<Rightarrow> kernel \<Rightarrow> kernel option" where
  "mem_area_unmap mma s = do {
     org \<leftarrow> mma_original s mma;
     s1 \<leftarrow> unmap_loop mma (next (areas (kmm_of s)) (m_plist org)) s;
     k_slice_free s1 mma (mma_pool (kvm s1))
   }"

partial_function (option) kill_loop :: "u32 \<Rightarrow> area_node \<Rightarrow> kernel \<Rightarrow> kernel option" where
  "kill_loop mma tmp s =
    (if tmp = m_plist mma then Some s
     else do {
       pg \<leftarrow> area_page tmp;
       kill_loop mma (next (areas (kmm_of s)) tmp)
         (set_virt pg NOPAGE_ADDR (unmap_page (m_map (mma_of s mma)) (virt_of s pg) s))
     })"

definition mem_area_kill :: "u32 \<Rightarrow> kernel \<Rightarrow> kernel option" where
  "mem_area_kill mma s = do {
     _ \<leftarrow> bug_on (m_flags (mma_of s mma) AND MMA_CLONE \<noteq> 0);
     s1 \<leftarrow>
       (if \<not> klist0_empty (m_plist mma) (areas (kmm_of s)) then do {
          s2 \<leftarrow> kill_loop mma (next (areas (kmm_of s)) (m_plist mma)) s;
          if m_flags (mma_of s2 mma) AND MMA_CONT \<noteq> 0 then do {
            pg \<leftarrow> area_page (next (areas (kmm_of s2)) (m_plist mma));
            m \<leftarrow> free_pages (kmm_of s2) pg;
            Some (set_kmm m s2)
          } else do {
            m \<leftarrow> free_pagelist (kmm_of s2) (m_plist mma);
            Some (set_kmm m s2)
          }
        } else Some s);
     k_slice_free s1 mma (mma_pool (kvm s1))
   }"

definition mem_area_put :: "u32 \<Rightarrow> kernel \<Rightarrow> kernel option" where
  "mem_area_put mma s = do {
     org \<leftarrow> mma_original s mma;
     let s1 = set_mma org (\<lambda>m. m\<lparr>m_users := m_users m - 1\<rparr>) s;
     if m_users (mma_of s1 org) = 0 then mem_area_kill mma s1 else mem_area_unmap mma s1
   }"

partial_function (option) kill_areas :: "u32 \<Rightarrow> nat \<Rightarrow> kernel \<Rightarrow> kernel option" where
  "kill_areas mp i s =
    (if m_mma (mapping_of s mp) i \<noteq> 0 then do {
       s1 \<leftarrow> mem_area_put (m_mma (mapping_of s mp) i) s;
       kill_areas mp i s1
     } else Some s)"

definition kill_user_map :: "u32 \<Rightarrow> kernel \<Rightarrow> kernel option" where
  "kill_user_map mp s = do {
     s1 \<leftarrow> kill_areas mp 0 s;
     free_map mp s1
   }"

section \<open>The break\<close>

definition heap_mma :: "kernel \<Rightarrow> u32" where
  "heap_mma s = m_mma (mapping_of s (t_map (threads s (CURRENT s)))) 3"

definition sbrk :: "u32 \<Rightarrow> kernel \<Rightarrow> kernel \<times> u32" where
  "sbrk inc s =
    (let mma = heap_mma s
     in if m_sizelim (mma_of s mma) + inc \<le> USERMEM_HEAPLIM
        then let s1 = set_mma mma (\<lambda>m. m\<lparr>m_sizelim := m_sizelim m + inc\<rparr>) s
             in (s1, m_start (mma_of s1 mma) + m_sizelim (mma_of s1 mma))
        else (s, - 1))"

definition brk :: "u32 \<Rightarrow> kernel \<Rightarrow> kernel \<times> u32" where
  "brk end s =
    (let mma = heap_mma s
     in if end = 0 then (s, m_start (mma_of s mma)) else sbrk (end - m_start (mma_of s mma)) s)"

section \<open>Page faults\<close>

text \<open>
  The handler returns when an area takes the fault; otherwise it prints a report and halts forever.
\<close>

fun pf_areas :: "u32 \<Rightarrow> u32 \<Rightarrow> nat list \<Rightarrow> kernel \<Rightarrow> kernel option" where
  "pf_areas addr mp [] s = None"
| "pf_areas addr mp (i # is) s =
    (let mma = m_mma (mapping_of s mp) i;
         dist = mem_area_hit_offset (mma_of s mma) addr
     in if \<not> mem_area_is_hit (mma_of s mma) addr \<and> dist \<noteq> - 1 then do {
          let dist' = (if dist = 0 then of_nat PAGE_SIZE else dist);
          s1 \<leftarrow> mem_area_grow mma (drop_bit PAGE_SHIFT (dist' + PAGE_MASK)) s;
          Some (set_vm (\<lambda>v. v\<lparr>dfault := dfault v - 1\<rparr>) s1)
        }
        else pf_areas addr mp is s)"

definition pf_handler :: "kernel \<Rightarrow> kernel option" where
  "pf_handler s =
    (let addr = cr2 (kcpu s)
     in if dfault (kvm s) \<noteq> 0 then None
        else let s1 = set_vm (\<lambda>v. v\<lparr>dfault := dfault v + 1\<rparr>) s
             in if fault_code (kvm s1) AND PFLT_USER \<noteq> 0
                then let mp = t_map (threads s1 (CURRENT s1))
                     in pf_areas addr mp [0..<unat (m_nmma (mapping_of s1 mp))] s1
                else None)"

section \<open>Boot\<close>

definition init_mem_info :: "u32 \<Rightarrow> u32 \<Rightarrow> kernel \<Rightarrow> kernel option" where
  "init_mem_info mem_upper kernel_end s =
    (let s1 = set_kmm (arch_init_boot_zone mem_upper kernel_end (init_zone_lists (kmm_of s))) s;
         s2 = set_vm (\<lambda>v. v\<lparr>phys_pgs := of_nat (unat (mem_upper * 1024 + 0x100000) div PAGE_SIZE)\<rparr>) s1;
         s3 = set_slab (slice_init (slab (heap s2))) s2
     in mma_init (set_kmm (append_zone_lists (kmm_of s3)) s3))"

end
