(* ===== verification/Drivers.thy ===== *)
theory Drivers
  imports Vm
begin

text \<open>
  Devices and drivers: the device list of \<^verbatim>\<open>kernel/fs/device.c\<close>, the byte queues of \<^verbatim>\<open>kernel/lib/kqueue.c\<close>, the
  serial driver \<^verbatim>\<open>drivers/serial/8250_serial.c\<close>, the keyboard driver \<^verbatim>\<open>drivers/keyboard/pc-kbd.c\<close>
  and the common interrupt handler of \<^verbatim>\<open>arch/i386/irq.c\<close>.

  A driver call that puts the caller to sleep takes the function \<open>others\<close>, what the other threads and the
  interrupts do until the caller runs again.  Names are compared in \<open>view s\<close>, memory as the running
  thread sees it; a fault while a name is read is not modelled.
\<close>

section \<open>Devices\<close>

definition NODEV :: u32 where "NODEV = 0"
definition ROOTFSDEV :: u32 where "ROOTFSDEV = 1"
definition VIRTFSDEV :: u32 where "VIRTFSDEV = 2"
definition DEV_MAJOR_BITS :: nat where "DEV_MAJOR_BITS = 16"
definition DEV_MINOR_BITS :: nat where "DEV_MINOR_BITS = 4 * 8 - DEV_MAJOR_BITS"

definition DEV_MAJOR :: "u32 \<Rightarrow> u32" where
  "DEV_MAJOR d = drop_bit DEV_MAJOR_BITS d AND (push_bit DEV_MAJOR_BITS 1 - 1)"

definition DEV_MINOR :: "u32 \<Rightarrow> u32" where
  "DEV_MINOR d = d AND (push_bit DEV_MINOR_BITS 1 - 1)"

definition DEV_DEVICE :: "u32 \<Rightarrow> u32 \<Rightarrow> u32" where
  "DEV_DEVICE maj mnr = push_bit DEV_MAJOR_BITS maj OR mnr"

definition DEVNAME_MAX :: nat where "DEVNAME_MAX = 32"
definition DF_RDONLY :: u32 where "DF_RDONLY = 1"
definition DF_WRONLY :: u32 where "DF_WRONLY = 2"
definition DF_CHAR :: u32 where "DF_CHAR = 4"

definition view :: "kernel \<Rightarrow> memory" where
  "view s = (\<lambda>a. bytes s (case linear s a of Some p \<Rightarrow> p | None \<Rightarrow> a))"

definition dev_of :: "kernel \<Rightarrow> u32 \<Rightarrow> device" where
  "dev_of s a = devs (kfs s) a"

definition register_device :: "u32 \<Rightarrow> kernel \<Rightarrow> kernel" where
  "register_device dev s = set_nodes (klist0_append (DList dev) Devices) s"

fun dev_entries :: "knode list \<Rightarrow> u32 list option" where
  "dev_entries [] = Some []"
| "dev_entries (DList d # ns) = map_option (Cons d) (dev_entries ns)"
| "dev_entries (n # ns) = None"

text \<open>\<^verbatim>\<open>d_name\<close> is the first field of the structure.\<close>

definition get_device :: "u32 \<Rightarrow> kernel \<Rightarrow> u32 option" where
  "get_device dev s = do {
     l \<leftarrow> klist0_for_each (nodes s) Devices;
     ds \<leftarrow> dev_entries l;
     Some (case find (\<lambda>d. d_dev (dev_of s d) = dev) ds of None \<Rightarrow> 0 | Some d \<Rightarrow> d)
   }"

definition get_device_by_name :: "u32 \<Rightarrow> kernel \<Rightarrow> u32 option" where
  "get_device_by_name name s = do {
     l \<leftarrow> klist0_for_each (nodes s) Devices;
     ds \<leftarrow> dev_entries l;
     Some (case find (\<lambda>d. kstrncmp (view s) d name DEVNAME_MAX = 0) ds of None \<Rightarrow> 0 | Some d \<Rightarrow> d)
   }"

definition devices_init :: "kernel \<Rightarrow> kernel" where
  "devices_init s = set_nodes (KLIST0_INIT Devices) s"

section \<open>Byte queues\<close>

definition SIZEOF_KQUEUE_PAGE :: nat where "SIZEOF_KQUEUE_PAGE = 16"

definition MAX_COUNT :: u32 where
  "MAX_COUNT = of_nat (PAGE_SIZE - SIZEOF_KQUEUE_PAGE)"

definition kq_of :: "kernel \<Rightarrow> u32 \<Rightarrow> kqueue_t" where
  "kq_of s q = kqueues (kdrv s) q"

definition kp_of :: "kernel \<Rightarrow> u32 \<Rightarrow> kqueue_page" where
  "kp_of s p = kq_pages (kdrv s) p"

definition set_kq :: "u32 \<Rightarrow> (kqueue_t \<Rightarrow> kqueue_t) \<Rightarrow> kernel \<Rightarrow> kernel" where
  "set_kq q f s = set_drv (\<lambda>d. d\<lparr>kqueues := (kqueues d)(q := f (kqueues d q))\<rparr>) s"

definition set_kp :: "u32 \<Rightarrow> (kqueue_page \<Rightarrow> kqueue_page) \<Rightarrow> kernel \<Rightarrow> kernel" where
  "set_kp p f s = set_drv (\<lambda>d. d\<lparr>kq_pages := (kq_pages d)(p := f (kq_pages d p))\<rparr>) s"

definition kqueue_init :: "kernel \<Rightarrow> kernel option" where
  "kqueue_init s = do {
     (s1, p) \<leftarrow> k_slice_pool_create s 12;
     Some (set_drv (\<lambda>d. d\<lparr>kqueue_sp := p\<rparr>) s1)
   }"

definition kqueue_create :: "kernel \<Rightarrow> (kernel \<times> u32) option" where
  "kqueue_create s = do {
     (s1, q) \<leftarrow> k_slice_alloc s (kqueue_sp (kdrv s));
     if q \<noteq> 0 then Some (set_nodes (KLIST0_INIT (KqPages q)) (set_kq q (\<lambda>k. k\<lparr>kq_count := 0\<rparr>) s1), q)
     else Some (s1, q)
   }"

definition kqueue_entry :: "knode \<Rightarrow> u32 option" where
  "kqueue_entry n = (case n of KqPage p \<Rightarrow> Some p | _ \<Rightarrow> None)"

fun put_queue_pages :: "knode list \<Rightarrow> kernel \<Rightarrow> kernel option" where
  "put_queue_pages [] s = Some s"
| "put_queue_pages (n # ns) s = do {
     p \<leftarrow> kqueue_entry n;
     s1 \<leftarrow> k_put_pages s p;
     put_queue_pages ns s1
   }"

definition kqueue_destroy :: "u32 \<Rightarrow> kernel \<Rightarrow> kernel option" where
  "kqueue_destroy q s = do {
     l \<leftarrow> klist0_for_each (nodes s) (KqPages q);
     s1 \<leftarrow> put_queue_pages l s;
     k_slice_free s1 q (kqueue_sp (kdrv s1))
   }"

definition kqueue_size :: "u32 \<Rightarrow> kernel \<Rightarrow> u32" where
  "kqueue_size q s = kq_count (kq_of s q)"

definition queue_shrink :: "u32 \<Rightarrow> u32 \<Rightarrow> kernel \<Rightarrow> (kernel \<times> u32) option" where
  "queue_shrink q len s = bug"

text \<open>The pages added to a queue; the data pointer does not move from one page to the next.\<close>

partial_function (option) push_pages :: "u32 \<Rightarrow> u32 \<Rightarrow> u32 \<Rightarrow> u32 \<Rightarrow> kernel \<Rightarrow> (kernel \<times> int) option" where
  "push_pages q data len pushed s = do {
     (s1, tmp) \<leftarrow> k_get_pages s 0 0;
     if tmp = 0 then do {
       s2 \<leftarrow> (if pushed \<noteq> 0 then map_option fst (queue_shrink q pushed s1) else Some s1);
       Some (s2, - ENOMEM)
     } else do {
       let s2 = set_nodes (KLIST0_INIT (KqPage tmp)) s1;
       let s3 = set_kp tmp (\<lambda>p. p\<lparr>kp_base := tmp + of_nat SIZEOF_KQUEUE_PAGE\<rparr>) s2;
       let s4 = set_nodes (klist0_append (KqPage tmp) (KqPages q)) s3;
       let t = min len MAX_COUNT;
       s5 \<leftarrow> u_memory_copy (kp_base (kp_of s4 tmp)) data (unat t) s4;
       let s6 = set_kq q (\<lambda>k. k\<lparr>kq_count := kq_count k + t\<rparr>) (set_kp tmp (\<lambda>p. p\<lparr>kp_count := uint t\<rparr>) s5);
       if len - t \<noteq> 0 then push_pages q data (len - t) (pushed + t) s6 else Some (s6, 0)
     }
   }"

definition kqueue_push :: "u32 \<Rightarrow> u32 \<Rightarrow> u32 \<Rightarrow> kernel \<Rightarrow> (kernel \<times> int) option" where
  "kqueue_push q data len s =
    (if \<not> klist0_empty (KqPages q) (nodes s) then do {
       tmp \<leftarrow> kqueue_entry (next (nodes s) (KqPages q));
       let count = word_of_int (kp_count (kp_of s tmp));
       if count < MAX_COUNT then
         (if len \<le> MAX_COUNT - count then do {
            s1 \<leftarrow> u_memory_copy (kp_base (kp_of s tmp) + count) data (unat len) s;
            Some (set_kq q (\<lambda>k. k\<lparr>kq_count := kq_count k + len\<rparr>)
                    (set_kp tmp (\<lambda>p. p\<lparr>kp_count := kp_count p + uint len\<rparr>) s1), 0)
          } else do {
            let t = MAX_COUNT - count;
            s1 \<leftarrow> u_memory_copy (kp_base (kp_of s tmp) + count) data (unat t) s;
            push_pages q data (len - t) t
              (set_kq q (\<lambda>k. k\<lparr>kq_count := kq_count k + t\<rparr>) (set_kp tmp (\<lambda>p. p\<lparr>kp_count := uint MAX_COUNT\<rparr>) s1))
          })
       else push_pages q data len 0 s
     }
     else push_pages q data len 0 s)"

partial_function (option) pull_tail_loop :: "u32 \<Rightarrow> u32 \<Rightarrow> u32 \<Rightarrow> u32 \<Rightarrow> kernel \<Rightarrow> (kernel \<times> u32) option" where
  "pull_tail_loop q data len pulled s =
    (if \<not> klist0_empty (KqPages q) (nodes s) then do {
       tmp \<leftarrow> kqueue_entry (prev (nodes s) (KqPages q));
       let p = kp_of s tmp;
       let count = word_of_int (kp_count p);
       if len < count then do {
         s1 \<leftarrow> u_memory_copy (data + pulled) (kp_base p) (unat len) s;
         let s2 = set_kp tmp (\<lambda>p. p\<lparr>kp_count := kp_count p - uint len, kp_base := kp_base p + len\<rparr>) s1;
         Some (set_kq q (\<lambda>k. k\<lparr>kq_count := kq_count k - len\<rparr>) s2, len)
       } else do {
         s1 \<leftarrow> u_memory_copy (data + pulled) (kp_base p) (unat count) s;
         let s2 = set_kq q (\<lambda>k. k\<lparr>kq_count := kq_count k - count\<rparr>) s1;
         let s3 = set_nodes (klist0_unlink (prev (nodes s2) (KqPages q))) s2;
         s4 \<leftarrow> k_put_pages s3 tmp;
         pull_tail_loop q data (len - count) (pulled + count) s4
       }
     }
     else Some (s, pulled))"

definition kqueue_pull_tail :: "u32 \<Rightarrow> u32 \<Rightarrow> u32 \<Rightarrow> kernel \<Rightarrow> (kernel \<times> u32) option" where
  "kqueue_pull_tail q data len s = pull_tail_loop q data len 0 s"

text \<open>The operations that are only declared: each is a call to \<^verbatim>\<open>bug\<close>.\<close>

definition kqueue_push_tail :: "u32 \<Rightarrow> u32 \<Rightarrow> u32 \<Rightarrow> kernel \<Rightarrow> (kernel \<times> int) option" where
  "kqueue_push_tail q data len s = bug"

definition kqueue_pull :: "u32 \<Rightarrow> u32 \<Rightarrow> u32 \<Rightarrow> kernel \<Rightarrow> (kernel \<times> u32) option" where
  "kqueue_pull q data len s = bug"

definition kqueue_peek :: "u32 \<Rightarrow> u32 \<Rightarrow> u32 \<Rightarrow> kernel \<Rightarrow> (kernel \<times> u32) option" where
  "kqueue_peek q data len s = bug"

definition kqueue_peek_tail :: "u32 \<Rightarrow> u32 \<Rightarrow> u32 \<Rightarrow> kernel \<Rightarrow> (kernel \<times> u32) option" where
  "kqueue_peek_tail q data len s = bug"

section \<open>The serial driver\<close>

definition k_inb :: "u16 \<Rightarrow> kernel \<Rightarrow> kernel \<times> u8" where
  "k_inb port s =
    (let (d, c) = inb port (pic_io (kpic (kdrv s)))
     in (set_drv (\<lambda>v. v\<lparr>kpic := (kpic v)\<lparr>pic_io := d\<rparr>\<rparr>) s, c))"

definition SERIAL_DEV :: u32 where "SERIAL_DEV = DEV_DEVICE 12 34"
definition SERIO_1_IRQ :: u32 where "SERIO_1_IRQ = 4"
definition SERIO_REG_IER :: u16 where "SERIO_REG_IER = SERIO_1_BASE + 1"
definition SERIO_REG_MCR :: u16 where "SERIO_REG_MCR = SERIO_1_BASE + 4"
definition IER_RX :: u8 where "IER_RX = 1"
definition IER_TX :: u8 where "IER_TX = 2"
definition LSR_READY :: u8 where "LSR_READY = 1"
definition LSR_EMPT_THR :: u8 where "LSR_EMPT_THR = 0x20"
definition LSR_EMPT_DHR :: u8 where "LSR_EMPT_DHR = 0x40"

definition serial_8250_open :: "kernel \<Rightarrow> (kernel \<times> int) option" where
  "serial_8250_open s =
    (if read_queue (kdrv s) \<noteq> 0 then Some (s, - EBUSY)
     else do {
       (s1, rq) \<leftarrow> kqueue_create s;
       let s2 = set_drv (\<lambda>d. d\<lparr>read_queue := rq\<rparr>) s1;
       if rq = 0 then Some (s2, - ENOMEM)
       else do {
         (s3, wq) \<leftarrow> kqueue_create s2;
         let s4 = set_drv (\<lambda>d. d\<lparr>write_queue := wq\<rparr>) s3;
         if wq = 0 then do {
           s5 \<leftarrow> kqueue_destroy (read_queue (kdrv s4)) s4;
           Some (s5, - ENOMEM)
         } else Some (tq_init SerialTq s4, 1)
       }
     })"

definition serial_8250_close :: "kernel \<Rightarrow> (kernel \<times> int) option" where
  "serial_8250_close s = do {
     s1 \<leftarrow> kqueue_destroy (read_queue (kdrv s)) s;
     s2 \<leftarrow> kqueue_destroy (write_queue (kdrv s1)) s1;
     (s3, r) \<leftarrow> scheduler_enqueue SerialTq s2;
     _ \<leftarrow> bug_on r;
     Some (s3, 0)
   }"

definition sleep_on :: "(kernel \<Rightarrow> kernel option) \<Rightarrow> tqid \<Rightarrow> kernel \<Rightarrow> kernel option" where
  "sleep_on others q s = do {
     s1 \<leftarrow> scheduler_dequeue q s;
     s2 \<leftarrow> scheduler_yield s1;
     others s2
   }"

partial_function (option) serial_read_loop ::
    "(kernel \<Rightarrow> kernel option) \<Rightarrow> u32 \<Rightarrow> u32 \<Rightarrow> u32 \<Rightarrow> kernel \<Rightarrow> (kernel \<times> u32) option" where
  "serial_read_loop others buf sz num_read s =
    (if num_read < sz then do {
       (s1, t) \<leftarrow> kqueue_pull_tail (read_queue (kdrv s)) (buf + num_read) sz s;
       s2 \<leftarrow> (if t = 0 then sleep_on others SerialTq s1 else Some s1);
       serial_read_loop others buf sz (num_read + t) s2
     }
     else Some (s, num_read))"

definition serial_8250_read :: "(kernel \<Rightarrow> kernel option) \<Rightarrow> u32 \<Rightarrow> u32 \<Rightarrow> kernel \<Rightarrow> (kernel \<times> int) option" where
  "serial_8250_read others buf sz s = do {
     (s1, n) \<leftarrow> serial_read_loop others buf sz 0 s;
     Some (s1, sint n)
   }"

definition enable_tx_irq :: "kernel \<Rightarrow> kernel" where
  "enable_tx_irq s = (let (s1, t) = k_inb SERIO_REG_IER s in pic_out SERIO_REG_IER (t OR IER_TX) s1)"

definition disable_tx_irq :: "kernel \<Rightarrow> kernel" where
  "disable_tx_irq s = (let (s1, t) = k_inb SERIO_REG_IER s in pic_out SERIO_REG_IER (t AND NOT IER_TX) s1)"

partial_function (option) serial_wait :: "(kernel \<Rightarrow> kernel option) \<Rightarrow> kernel \<Rightarrow> kernel option" where
  "serial_wait others s =
    (if kqueue_size (write_queue (kdrv s)) s \<noteq> 0 then do {
       s1 \<leftarrow> sleep_on others SerialTq s;
       serial_wait others s1
     }
     else Some s)"

definition serial_8250_write :: "(kernel \<Rightarrow> kernel option) \<Rightarrow> u32 \<Rightarrow> u32 \<Rightarrow> kernel \<Rightarrow> (kernel \<times> int) option" where
  "serial_8250_write others buf sz s = do {
     (s1, res) \<leftarrow> kqueue_push (write_queue (kdrv s)) buf sz s;
     s2 \<leftarrow> serial_wait others (enable_tx_irq s1);
     Some (s2, sint sz)
   }"

text \<open>The byte just received or to be sent is the local \<^verbatim>\<open>c\<close>; the actions of the debug keys only print.\<close>

definition serial_8250_intr :: "bool \<Rightarrow> kernel \<Rightarrow> kernel option" where
  "serial_8250_intr opt s =
    (let (s1, line_status) = k_inb (SERIO_1_BASE + 5) s
     in if line_status AND LSR_READY \<noteq> 0 then
          (let (s2, c) = k_inb SERIO_1_BASE s1;
               s3 = s2\<lparr>bytes := (bytes s2)(syms s2 (Local ''c'') := c)\<rparr>;
               (acq, act, hit) = sysrq_hit opt (if c \<noteq> 0 then c else 0xff) (sysrq_acq (kdrv s3));
               s4 = set_drv (\<lambda>d. d\<lparr>sysrq_acq := acq\<rparr>) s3
           in if hit \<noteq> 0 then Some s4
              else if read_queue (kdrv s4) \<noteq> 0 then do {
                (s5, r) \<leftarrow> kqueue_push (read_queue (kdrv s4)) (syms s4 (Local ''c'')) 1 s4;
                (s6, r') \<leftarrow> scheduler_enqueue SerialTq s5;
                Some s6
              } else Some s4)
        else if line_status AND (LSR_EMPT_THR OR LSR_EMPT_DHR) \<noteq> 0 then
          (if write_queue (kdrv s1) \<noteq> 0 then do {
             (s2, t) \<leftarrow> kqueue_pull_tail (write_queue (kdrv s1)) (syms s1 (Local ''c'')) 1 s1;
             if t \<noteq> 0 then Some (pic_out SERIO_1_BASE (bytes s2 (syms s2 (Local ''c''))) s2)
             else do {
               (s3, r) \<leftarrow> scheduler_enqueue SerialTq (disable_tx_irq s2);
               Some s3
             }
           } else Some (disable_tx_irq s1))
        else Some s1)"

definition serial_8250_load :: "kernel \<Rightarrow> (kernel \<times> int) option" where
  "serial_8250_load s = do {
     let s1 = fold (\<lambda>(p, v). pic_out p v)
       [(SERIO_1_BASE + 3, 0x80), (SERIO_1_BASE + 0, 1), (SERIO_1_BASE + 1, 0), (SERIO_1_BASE + 3, 0x03),
        (SERIO_REG_IER, IER_RX), (SERIO_REG_MCR, 0)] s;
     (s2, r) \<leftarrow> register_irq_handler SERIO_1_IRQ Serial_8250_intr s1;
     Some (register_device (syms s2 Serial_8250_dev) s2, 0)
   }"

section \<open>The keyboard driver\<close>

definition KEYBOARD_IRQ :: u32 where "KEYBOARD_IRQ = 1"
definition KEYBOARD_IO :: u16 where "KEYBOARD_IO = 0x60"
definition KEYBOARD_BUFSIZE :: u32 where "KEYBOARD_BUFSIZE = 10"
definition PCKBD_DEV :: u32 where "PCKBD_DEV = DEV_DEVICE 13 128"

definition pckbd_sctrans :: "u16 list" where
  "pckbd_sctrans = [
     0, 0x1b, 0x21, 0x40, 0x23, 0x24, 0x25, 0x5e, 0x26, 0x2a, 0x28, 0x29, 0x5f, 0x2b,
     0x7f, 0x09, 0x71, 0x77, 0x65, 0x72, 0x74, 0x79, 0x75, 0x69, 0x6f, 0x70, 0x7b, 0x7d,
     0x0d, 0xf103, 0x61, 0x73, 0x64, 0x66, 0x67, 0x68, 0x6a, 0x6b, 0x6c, 0x3a, 0x22, 0x7e,
     0xf101, 0x7c, 0x7a, 0x78, 0x63, 0x76, 0x62, 0x6e, 0x6d, 0x3c, 0x3e, 0x3f, 0xf102, 0xf22a,
     0xf107, 0x20, 0xf105, 0xf300, 0xf301, 0xf302, 0xf303, 0xf304, 0xf305, 0xf306, 0xf307, 0xf308, 0xf309, 0xf10b,
     0xf10c, 0xf237, 0xf238, 0xf239, 0xf22d, 0xf234, 0xf235, 0xf236, 0xf22b, 0xf231, 0xf232, 0xf233, 0xf230, 0xf22e,
     0xf30a, 0xf30b, 0xf3c1, 0xf20d, 0xf104, 0xf3c2, 0xf22f, 0xf3c2, 0xf109, 0xf381, 0xf384, 0xf382, 0xf386, 0xf387,
     0xf388, 0xf385, 0xf383, 0xf389, 0x7f, 0xf110, 0xf111, 0xf3c0]"

text \<open>An access outside \<^verbatim>\<open>key_buf\<close> or the table does not return.\<close>

definition key_store :: "u32 \<Rightarrow> u8 \<Rightarrow> drv \<Rightarrow> drv option" where
  "key_store i c d =
    (if i < KEYBOARD_BUFSIZE then Some (d\<lparr>key_buf := (key_buf d)[unat i := c], write_idx := i + 1\<rparr>) else None)"

definition pckbd_intr :: "kernel \<Rightarrow> kernel option" where
  "pckbd_intr s =
    (let (s1, scancode) = k_inb KEYBOARD_IO s
     in if users (kdrv s1) = 0 then Some s1
        else if scancode AND 0x80 \<noteq> 0 then Some s1
        else do {
          let d = (kdrv s1)\<lparr>write_idx := if write_idx (kdrv s1) = KEYBOARD_BUFSIZE then 0 else write_idx (kdrv s1)\<rparr>;
          d1 \<leftarrow> (if write_idx d + 1 \<noteq> read_idx d then key_store (write_idx d) scancode d else Some d);
          (s2, r) \<leftarrow> scheduler_enqueue KbdTq (s1\<lparr>kdrv := d1\<rparr>);
          Some s2
        })"

definition key_fetch :: "drv \<Rightarrow> (drv \<times> u16) option" where
  "key_fetch d =
    (let i = (if read_idx d = KEYBOARD_BUFSIZE then 0 else read_idx d)
     in if i < KEYBOARD_BUFSIZE \<and> unat (key_buf d ! unat i) < length pckbd_sctrans
        then Some (d\<lparr>read_idx := i + 1\<rparr>, pckbd_sctrans ! unat (key_buf d ! unat i)) else None)"

definition pckbd_read :: "(kernel \<Rightarrow> kernel option) \<Rightarrow> kernel \<Rightarrow> (kernel \<times> u16) option" where
  "pckbd_read others s =
    (if read_idx (kdrv s) = write_idx (kdrv s) then do {
       s1 \<leftarrow> sleep_on others KbdTq s;
       Some (s1, 0)
     } else do {
       (d, k) \<leftarrow> key_fetch (kdrv s);
       Some (s\<lparr>kdrv := d\<rparr>, k)
     })"

definition pckbd_open :: "kernel \<Rightarrow> kernel \<times> int" where
  "pckbd_open s =
    (if users (kdrv s) \<noteq> 0 then (s, - EBUSY)
     else (tq_init KbdTq (set_drv (\<lambda>d. d\<lparr>users := users d + 1, read_idx := 0, write_idx := 0\<rparr>) s), 0))"

definition pckbd_close :: "kernel \<Rightarrow> (kernel \<times> int) option" where
  "pckbd_close s =
    (if users (kdrv s) = 0 then Some (s, - EINVAL)
     else do {
       (s1, r) \<leftarrow> scheduler_enqueue KbdTq (set_drv (\<lambda>d. d\<lparr>users := users d - 1\<rparr>) s);
       _ \<leftarrow> bug_on r;
       Some (s1, 0)
     })"

definition store_byte :: "u32 \<Rightarrow> u8 \<Rightarrow> kernel \<Rightarrow> kernel option" where
  "store_byte a v s = do { p \<leftarrow> linear s a; Some (s\<lparr>bytes := (bytes s)(p := v)\<rparr>) }"

definition pckbd_dev_read :: "(kernel \<Rightarrow> kernel option) \<Rightarrow> u32 \<Rightarrow> kernel \<Rightarrow> (kernel \<times> int) option" where
  "pckbd_dev_read others buf s = do {
     (s1, data) \<leftarrow> pckbd_read others s;
     s2 \<leftarrow> store_byte buf (ucast (drop_bit 8 data)) s1;
     s3 \<leftarrow> store_byte (buf + 1) (ucast (data AND 0xff)) s2;
     Some (s3, 2)
   }"

definition pckbd_dev_close :: "kernel \<Rightarrow> (kernel \<times> int) option" where
  "pckbd_dev_close s = do { (s1, r) \<leftarrow> pckbd_close s; Some (s1, 0) }"

definition pckbd_load :: "kernel \<Rightarrow> (kernel \<times> int) option" where
  "pckbd_load s =
    register_irq_handler KEYBOARD_IRQ Pckbd_intr
      (register_device (syms s Pckbd_dev) (set_drv (\<lambda>d. d\<lparr>users := 0, read_idx := 0, write_idx := 0\<rparr>) s))"

section \<open>Interrupts\<close>

definition call_irq :: "bool \<Rightarrow> irq_fn \<Rightarrow> kernel \<Rightarrow> kernel option" where
  "call_irq opt f s = (case f of
      Timer_interrupt_handler \<Rightarrow> timer_interrupt_handler s
    | Serial_8250_intr \<Rightarrow> serial_8250_intr opt s
    | Pckbd_intr \<Rightarrow> pckbd_intr s)"

definition main_irq_handler :: "bool \<Rightarrow> u32 \<Rightarrow> kernel \<Rightarrow> kernel option" where
  "main_irq_handler opt number s =
    (if unat number \<ge> 16 then None
     else do {
       s1 \<leftarrow> (case irq_handler_table (kdrv s) (unat number) of None \<Rightarrow> Some s | Some f \<Rightarrow> call_irq opt f s);
       let s2 = set_drv (\<lambda>d. d\<lparr>kpic := pic_do_eoi number (kpic d)\<rparr>) s1;
       if mach_state_running s2 then scheduler_tick s2 else Some s2
     })"

text \<open>
  \<^verbatim>\<open>irq_pre_handler\<close>\<open>n\<close> and \<^verbatim>\<open>do_handle_irq\<close> for an interrupt that arrives in kernel mode: the processor pushes flags, code segment and
  address and masks interrupts, the stub pushes the eight registers and the number.  After the handler the number is dropped; if a
  switch is due, the stack pointer is the argument of \<^verbatim>\<open>prepare_deffered_context_switch\<close> and its result the new stack.
  The general registers and the return address are not modelled, as in \<open>do_thread_switch_context\<close>.
\<close>

definition do_handle_irq :: "bool \<Rightarrow> u32 \<Rightarrow> kernel \<Rightarrow> kernel option" where
  "do_handle_irq opt number s = do {
     let sp = cpu_esp (kcpu s);
     let s1 = store_word (sp - 48) number (store_word (sp - 8) (ucast KERN_CODE) (store_word (sp - 4) (eflags (kcpu s)) s));
     s2 \<leftarrow> main_irq_handler opt number (local_irq_disable (set_cpu (\<lambda>c. c\<lparr>cpu_esp := sp - 48\<rparr>) s1));
     let s3 = set_cpu (\<lambda>c. c\<lparr>cpu_esp := cpu_esp c + 4\<rparr>) s2;
     let (s4, new) = (if need_reschedule s3 = 0 then (s3, cpu_esp (kcpu s3))
                      else prepare_deffered_context_switch (cpu_esp (kcpu s3)) (s3\<lparr>need_reschedule := 0\<rparr>));
     Some (set_cpu (\<lambda>c. c\<lparr>cpu_esp := new + 44, eflags := load_word s4 (new + 40)\<rparr>) s4)
   }"

text \<open>The late initialisers, in the order in which the linker has put them.\<close>

datatype initfn = Pckbd_load | Serial_8250_load

fun run_initfn :: "initfn \<Rightarrow> kernel \<Rightarrow> (kernel \<times> int) option" where
  "run_initfn Pckbd_load s = pckbd_load s"
| "run_initfn Serial_8250_load s = serial_8250_load s"

fun call_late_init :: "initfn list \<Rightarrow> kernel \<Rightarrow> kernel option" where
  "call_late_init [] s = Some s"
| "call_late_init (f # fs) s = do {
     (s1, r) \<leftarrow> run_initfn f s;
     call_late_init fs s1
   }"

end
