(* ===== verification/Vfs.thy ===== *)
theory Vfs
  imports Drivers
begin

text \<open>
  Names and inodes: \<^verbatim>\<open>kernel/fs/super.c\<close>, \<^verbatim>\<open>inode.c\<close>, \<^verbatim>\<open>namespace.c\<close>, \<^verbatim>\<open>mount.c\<close>, the virtual file
  system \<^verbatim>\<open>virtfs.c\<close> with \<^verbatim>\<open>virtfs_proc.c\<close> and \<^verbatim>\<open>virtfs_dev.c\<close>, the root file system \<^verbatim>\<open>fs.c\<close> and the archive
  reader \<^verbatim>\<open>cpio.c\<close>.

  The name of a directory entry is the string 12 bytes into the structure, that of a virtual entry the
  string at its start.  A use of \<^verbatim>\<open>NULL\<close>, of a list head in place of an entry, or of an array outside its
  bounds does not return.
\<close>

section \<open>File modes\<close>

definition S_IFMT :: u32 where "S_IFMT = 0xF000"
definition S_IFREG :: u32 where "S_IFREG = 0x8000"
definition S_IFDIR :: u32 where "S_IFDIR = 0x4000"
definition S_IFCHR :: u32 where "S_IFCHR = 0x2000"
definition S_IFIFO :: u32 where "S_IFIFO = 0x1000"
definition S_ISREG :: "u32 \<Rightarrow> bool" where "S_ISREG m \<longleftrightarrow> m AND S_IFMT = S_IFREG"
definition S_ISDIR :: "u32 \<Rightarrow> bool" where "S_ISDIR m \<longleftrightarrow> m AND S_IFMT = S_IFDIR"
definition S_ISCHR :: "u32 \<Rightarrow> bool" where "S_ISCHR m \<longleftrightarrow> m AND S_IFMT = S_IFCHR"

definition sb_of :: "kernel \<Rightarrow> u32 \<Rightarrow> superblock" where "sb_of s a = superblocks (kfs s) a"
definition ino_of :: "kernel \<Rightarrow> u32 \<Rightarrow> inode" where "ino_of s a = inodes (kfs s) a"
definition dent_of :: "kernel \<Rightarrow> u32 \<Rightarrow> direntry" where "dent_of s a = dents (kfs s) a"
definition mnt_of :: "kernel \<Rightarrow> u32 \<Rightarrow> mount" where "mnt_of s a = mounts (kfs s) a"
definition ve_of :: "kernel \<Rightarrow> u32 \<Rightarrow> virtfs_entry" where "ve_of s a = ves (kfs s) a"

definition set_sb :: "u32 \<Rightarrow> (superblock \<Rightarrow> superblock) \<Rightarrow> kernel \<Rightarrow> kernel" where
  "set_sb a f s = set_fs (\<lambda>v. v\<lparr>superblocks := (superblocks v)(a := f (superblocks v a))\<rparr>) s"

definition set_ino :: "u32 \<Rightarrow> (inode \<Rightarrow> inode) \<Rightarrow> kernel \<Rightarrow> kernel" where
  "set_ino a f s = set_fs (\<lambda>v. v\<lparr>inodes := (inodes v)(a := f (inodes v a))\<rparr>) s"

definition set_dent :: "u32 \<Rightarrow> (direntry \<Rightarrow> direntry) \<Rightarrow> kernel \<Rightarrow> kernel" where
  "set_dent a f s = set_fs (\<lambda>v. v\<lparr>dents := (dents v)(a := f (dents v a))\<rparr>) s"

definition set_mnt :: "u32 \<Rightarrow> (mount \<Rightarrow> mount) \<Rightarrow> kernel \<Rightarrow> kernel" where
  "set_mnt a f s = set_fs (\<lambda>v. v\<lparr>mounts := (mounts v)(a := f (mounts v a))\<rparr>) s"

definition set_ve :: "u32 \<Rightarrow> (virtfs_entry \<Rightarrow> virtfs_entry) \<Rightarrow> kernel \<Rightarrow> kernel" where
  "set_ve a f s = set_fs (\<lambda>v. v\<lparr>ves := (ves v)(a := f (ves v a))\<rparr>) s"

definition non_null :: "u32 \<Rightarrow> unit option" where
  "non_null a = (if a = 0 then None else Some ())"

section \<open>Super blocks\<close>

definition SB_MAGIC_ROOTFS :: u32 where "SB_MAGIC_ROOTFS = 0"
definition SB_NEW :: u32 where "SB_NEW = 1"

definition alloc_super :: "u32 \<Rightarrow> kernel \<Rightarrow> (kernel \<times> u32) option" where
  "alloc_super dev s = do {
     (s1, sb) \<leftarrow> k_galloc s 44;
     if sb = 0 then Some (s1, 0)
     else do {
       let s2 = set_nodes (\<lambda>h. KLIST0_INIT (SIlist sb) (KLIST0_INIT (SBlocks sb) h)) s1;
       let s3 = set_sb sb (\<lambda>b. b\<lparr>s_inodes := 0, s_magic := SB_MAGIC_ROOTFS, s_dev := dev, s_flags := SB_NEW,
                               s_ops := Generic_sbops, s_iops := None, s_root := 0\<rparr>) s2;
       Some (set_nodes (klist0_append (SBlocks sb) SuperblockList) s3, sb)
     }
   }"

definition kill_super :: "u32 \<Rightarrow> kernel \<Rightarrow> (kernel \<times> int) option" where
  "kill_super sb s = do {
     s1 \<leftarrow> k_gfree (set_nodes (klist0_unlink (SBlocks sb)) s) sb;
     Some (s1, 0)
   }"

fun find_super :: "kernel \<Rightarrow> u32 \<Rightarrow> knode list \<Rightarrow> u32 option" where
  "find_super s dev [] = Some 0"
| "find_super s dev (SBlocks sb # ns) = (if s_dev (sb_of s sb) = dev then Some sb else find_super s dev ns)"
| "find_super s dev (n # ns) = None"

definition get_super :: "u32 \<Rightarrow> kernel \<Rightarrow> u32 option" where
  "get_super dev s =
    (if klist0_empty SuperblockList (nodes s) then Some 0
     else do {
       l \<leftarrow> klist0_for_each (nodes s) SuperblockList;
       find_super s dev l
     })"

definition fs_init_super :: "kernel \<Rightarrow> kernel option" where
  "fs_init_super s = map_option fst (alloc_super ROOTFSDEV (set_nodes (KLIST0_INIT SuperblockList) s))"

section \<open>Inodes and directory entries\<close>

definition INODE_NEW :: u32 where "INODE_NEW = 1"
definition ROOT_INO :: u32 where "ROOT_INO = 2"
definition INODE_PAGES :: nat where "INODE_PAGES = 64"
definition D_NAME :: u32 where "D_NAME = 12"

definition generic_lookup :: "u32 \<Rightarrow> u32 \<Rightarrow> kernel \<Rightarrow> u32" where
  "generic_lookup inode name s = (if \<not> S_ISDIR (i_mode (ino_of s inode)) then 0 else 0)"

definition alloc_inode :: "kernel \<Rightarrow> (kernel \<times> u32) option" where
  "alloc_inode s = do {
     (s1, inode) \<leftarrow> k_galloc s 368;
     if inode = 0 then Some (s1, 0) else Some (set_nodes (KLIST0_INIT (ISblist inode)) s1, inode)
   }"

definition kill_inode :: "u32 \<Rightarrow> kernel \<Rightarrow> kernel option" where
  "kill_inode inode s =
    (if i_refcnt (ino_of s inode) \<noteq> 0 then bug
     else k_gfree (set_nodes (klist0_unlink (ISblist inode)) s) inode)"

text \<open>Both kinds of super block allocate with \<^verbatim>\<open>alloc_inode\<close>; with no super block \<^verbatim>\<open>sb->s_iops\<close> is a use of \<^verbatim>\<open>NULL\<close>.\<close>

definition new_inode :: "u32 \<Rightarrow> kernel \<Rightarrow> (kernel \<times> u32) option" where
  "new_inode sb s = do {
     (s1, inode) \<leftarrow> alloc_inode s;
     _ \<leftarrow> non_null inode;
     let s2 = set_ino inode (\<lambda>i. i\<lparr>i_sb := sb\<rparr>) s1;
     let s3 = (if sb \<noteq> 0 then set_nodes (klist0_append (ISblist inode) (SIlist sb)) s2 else s2);
     let s4 = set_nodes (\<lambda>h. KLIST0_INIT (IChildren inode) (KLIST0_INIT (IDent inode) h)) s3;
     _ \<leftarrow> non_null sb;
     let ops = (case s_iops (sb_of s4 sb) of Some ops \<Rightarrow> ops | None \<Rightarrow> Generic_iops);
     Some (set_ino inode (\<lambda>i. i\<lparr>i_refcnt := 0, i_parent := 0, i_state := INODE_NEW, i_mount := 0, i_ino := 0, i_mode := 0,
                               i_dev := NODEV, i_ctl := 0, i_size := 0, i_nlinks := 0, i_uid := 0, i_gid := 0,
                               i_atime := 0, i_ctime := 0, i_mtime := 0, i_ops := ops, i_fops := None,
                               i_filled := 0\<rparr>) s4, inode)
   }"

definition new_direntry :: "u32 \<Rightarrow> u32 \<Rightarrow> kernel \<Rightarrow> (kernel \<times> u32) option" where
  "new_direntry name inode s =
    (if inode = 0 \<or> name = 0 then bug
     else do {
       (s1, dent) \<leftarrow> k_galloc s 280;
       if dent = 0 then Some (s1, 0)
       else do {
         let s2 = set_dent dent (\<lambda>d. d\<lparr>d_refcnt := 0\<rparr>) s1;
         let s3 = set_nodes (\<lambda>h. KLIST0_INIT (DSiblings dent) (KLIST0_INIT (DIdlist dent) h)) s2;
         len \<leftarrow> kstrlen (view s3) name;
         s4 \<leftarrow> u_memory_copy (dent + D_NAME) name (min FILENAME_MAX (unat (len + 1))) s3;
         let s5 = set_dent dent (\<lambda>d. d\<lparr>d_inode := inode\<rparr>) s4;
         Some (set_nodes (klist0_append (DIdlist dent) (IDent inode)) s5, dent)
       }
     })"

definition free_direntry :: "u32 \<Rightarrow> kernel \<Rightarrow> kernel option" where
  "free_direntry dent s =
    (if d_refcnt (dent_of s dent) \<noteq> 0 then bug
     else k_gfree (set_nodes (klist0_unlink (DIdlist dent)) s) dent)"

section \<open>Mounts\<close>

definition fs_init_mount :: "kernel \<Rightarrow> kernel option" where
  "fs_init_mount s = do {
     (s1, p) \<leftarrow> k_slice_pool_create s 16;
     Some (set_fs (\<lambda>v. v\<lparr>mount_pool := p\<rparr>) s1)
   }"

definition alloc_mount :: "kernel \<Rightarrow> (kernel \<times> u32) option" where
  "alloc_mount s = do {
     (s1, mnt) \<leftarrow> k_slice_alloc s (mount_pool (kfs s));
     if mnt = 0 then Some (s1, 0)
     else Some (set_nodes (\<lambda>h. klist0_append (MList mnt) MountList (KLIST0_INIT (MList mnt) h)) s1, mnt)
   }"

definition kill_mount :: "u32 \<Rightarrow> kernel \<Rightarrow> kernel option" where
  "kill_mount mnt s = (let s1 = set_nodes (klist0_unlink (MList mnt)) s in k_slice_free s1 mnt (mount_pool (kfs s1)))"

definition get_mount :: "u32 \<Rightarrow> u32" where
  "get_mount path = 0"

definition mount0 :: "u32 \<Rightarrow> u32 \<Rightarrow> kernel \<Rightarrow> (kernel \<times> int) option" where
  "mount0 mntpt mntsb s = do {
     (s1, mnt) \<leftarrow> alloc_mount s;
     if mnt = 0 then Some (s1, - ENOMEM)
     else do {
       _ \<leftarrow> non_null mntpt;
       let inode = d_inode (dent_of s1 mntpt);
       let s2 = set_mnt mnt (\<lambda>m. m\<lparr>m_inode := inode, m_sb := mntsb\<rparr>) s1;
       let s3 = set_ino inode (\<lambda>i. i\<lparr>i_mount := mnt\<rparr>) s2;
       Some (set_dent mntpt (\<lambda>d. d\<lparr>d_inode := s_root (sb_of s3 (m_sb (mnt_of s3 mnt)))\<rparr>) s3, 0)
     }
   }"

section \<open>Life of an inode\<close>

definition virtfs_kill_inode :: "u32 \<Rightarrow> kernel \<Rightarrow> kernel" where
  "virtfs_kill_inode inode s =
    (if i_private (ino_of s inode) \<noteq> 0 then set_ve (i_private (ino_of s inode)) (\<lambda>v. v\<lparr>ve_inode := 0\<rparr>) s else s)"

text \<open>
  The loop over the entries starts with \<^verbatim>\<open>t\<close> at the head of the list, which it takes for an entry.
\<close>

definition free_inode :: "u32 \<Rightarrow> kernel \<Rightarrow> kernel option" where
  "free_inode inode s =
    (if \<not> klist0_empty (IDent inode) (nodes s) then None
     else do {
       s1 \<leftarrow> (if i_mount (ino_of s inode) \<noteq> 0 then kill_mount (i_mount (ino_of s inode)) s else Some s);
       if i_sb (ino_of s1 inode) \<noteq> 0
       then (case s_ops (sb_of s1 (i_sb (ino_of s1 inode))) of
               Generic_sbops \<Rightarrow> kill_inode inode s1
             | Virtfs_sops \<Rightarrow> Some (virtfs_kill_inode inode s1))
       else kill_inode inode s1
     })"

definition release_inode :: "u32 \<Rightarrow> kernel \<Rightarrow> kernel option" where
  "release_inode inode s =
    (let (v, zero) = atomic_dec_and_test_u32 (i_refcnt (ino_of s inode));
         s1 = set_ino inode (\<lambda>i. i\<lparr>i_refcnt := v\<rparr>) s
     in if zero then free_inode inode s1 else Some s1)"

definition release_direntry :: "u32 \<Rightarrow> kernel \<Rightarrow> kernel option" where
  "release_direntry dent s = do {
     let inode = d_inode (dent_of s dent);
     let (v, zero) = atomic_dec_and_test_u32 (d_refcnt (dent_of s dent));
     let s1 = set_dent dent (\<lambda>d. d\<lparr>d_refcnt := v\<rparr>) s;
     s2 \<leftarrow> (if zero then free_direntry dent s1 else Some s1);
     release_inode inode s2
   }"

fun find_inode :: "kernel \<Rightarrow> u32 \<Rightarrow> knode list \<Rightarrow> u32 option" where
  "find_inode s n [] = Some 0"
| "find_inode s n (ISblist i # ns) = (if i_ino (ino_of s i) = n then Some i else find_inode s n ns)"
| "find_inode s n (_ # ns) = None"

text \<open>\<^verbatim>\<open>read_inode\<close> is unset until \<^verbatim>\<open>fs_init\<close> makes it \<^verbatim>\<open>fs_read_inode\<close>, which is \<^verbatim>\<open>bug\<close>; that of virtfs stays unset.\<close>

definition read_inode :: "u32 \<Rightarrow> u32 \<Rightarrow> kernel \<Rightarrow> kernel option" where
  "read_inode sb inode s = (case s_ops (sb_of s sb) of
      Generic_sbops \<Rightarrow> if generic_read_inode (kfs s) then bug else None
    | Virtfs_sops \<Rightarrow> None)"

definition get_inode :: "u32 \<Rightarrow> u32 \<Rightarrow> kernel \<Rightarrow> (kernel \<times> u32) option" where
  "get_inode sb n s = do {
     l \<leftarrow> klist0_for_each (nodes s) (if sb \<noteq> 0 then SIlist sb else AnonInodes);
     found \<leftarrow> find_inode s n l;
     (s1, inode) \<leftarrow>
       (if found \<noteq> 0 then Some (s, found)
        else do {
          (s2, inode) \<leftarrow> new_inode sb s;
          let s3 = set_ino inode (\<lambda>i. i\<lparr>i_ino := n\<rparr>) s2;
          s4 \<leftarrow> (if sb \<noteq> 0 then read_inode sb inode s3 else Some s3);
          Some (s4, inode)
        });
     Some (set_ino inode (\<lambda>i. i\<lparr>i_refcnt := atomic_inc_u32 (i_refcnt i)\<rparr>) s1, inode)
   }"

definition fs_init_inodes :: "kernel \<Rightarrow> (kernel \<times> int) option" where
  "fs_init_inodes s = do {
     sb \<leftarrow> get_super ROOTFSDEV s;
     _ \<leftarrow> bug_on (sb = 0);
     (s1, root) \<leftarrow> new_inode sb s;
     let s2 = set_ino root (\<lambda>i. i\<lparr>i_ino := ROOT_INO, i_mode := S_IFDIR\<rparr>) s1;
     Some (set_nodes (KLIST0_INIT AnonInodes) (set_sb sb (\<lambda>b. b\<lparr>s_root := root\<rparr>) s2), 0)
   }"

section \<open>Virtual entries\<close>

text \<open>\<^verbatim>\<open>memory_set\<close> clears the entry; its operations are set by the caller before they are used.\<close>

definition new_ve :: "kernel \<Rightarrow> (kernel \<times> u32) option" where
  "new_ve s = do {
     (s1, ve) \<leftarrow> k_slice_alloc s (ve_pool (kfs s));
     if ve = 0 then Some (s1, 0)
     else do {
       let s2 = set_ve ve (\<lambda>v. \<lparr>ve_mode = 0, ve_dev = 0, ve_flags = 0, ve_inode = 0, ve_child = 0, ve_ops = Veops_nop\<rparr>)
                  (s1\<lparr>bytes := memory_set ve 0 12 (bytes s1)\<rparr>);
       Some (set_nodes (KLIST0_INIT (VeSibling ve)) s2, ve)
     }
   }"

definition free_ve :: "u32 \<Rightarrow> kernel \<Rightarrow> kernel option" where
  "free_ve ve s = (let s1 = set_nodes (klist0_unlink (VeSibling ve)) s in k_slice_free s1 ve (ve_pool (kfs s1)))"

definition VE_ADD_SUBTREE :: "u32 \<Rightarrow> u32 \<Rightarrow> kernel \<Rightarrow> kernel" where
  "VE_ADD_SUBTREE t c s = set_ve t (\<lambda>v. v\<lparr>ve_child := c\<rparr>) s"

definition VE_ADD_SIBLING :: "u32 \<Rightarrow> u32 \<Rightarrow> kernel \<Rightarrow> kernel" where
  "VE_ADD_SIBLING t c s = set_nodes (klist0_append (VeSibling c) (VeSibling t)) s"

fun find_ve :: "kernel \<Rightarrow> u32 \<Rightarrow> knode list \<Rightarrow> u32 option" where
  "find_ve s name [] = Some 0"
| "find_ve s name (VeSibling ve # ns) = do {
     r \<leftarrow> kstrcmp (view s) name ve;
     if r = 0 then Some ve else find_ve s name ns
   }"
| "find_ve s name (n # ns) = None"

definition virtfs_get_entry :: "u32 \<Rightarrow> u32 \<Rightarrow> kernel \<Rightarrow> u32 option" where
  "virtfs_get_entry root name s =
    (let root_ve = i_private (ino_of s root)
     in if root_ve = 0 \<or> ve_child (ve_of s root_ve) = 0 then Some 0
        else do {
          l \<leftarrow> klist0_for_each (nodes s) (VeSibling (ve_child (ve_of s root_ve)));
          find_ve s name l
        })"

text \<open>\<^verbatim>\<open>virtfs_proc_lookup\<close> and \<^verbatim>\<open>virtfs_dev_lookup\<close> have the same text; a name longer than the 12 bytes of \<^verbatim>\<open>ve_name\<close> overruns it.\<close>

definition virtfs_proc_lookup :: "u32 \<Rightarrow> kernel \<Rightarrow> (kernel \<times> u32) option" where
  "virtfs_proc_lookup name s = do {
     (s1, ve) \<leftarrow> k_galloc s 44;
     _ \<leftarrow> non_null ve;
     len \<leftarrow> kstrlen (view s1) name;
     if unat (len + 1) > 12 then None
     else do {
       s2 \<leftarrow> u_memory_copy ve name (unat (len + 1)) (s1\<lparr>bytes := memory_set ve 0 12 (bytes s1)\<rparr>);
       let s3 = set_ve ve (\<lambda>v. \<lparr>ve_mode = S_IFREG, ve_dev = NODEV, ve_flags = 0, ve_inode = 0, ve_child = 0,
                               ve_ops = Veops_nop\<rparr>) s2;
       Some (set_nodes (KLIST0_INIT (VeSibling ve)) s3, ve)
     }
   }"

definition virtfs_dev_lookup :: "u32 \<Rightarrow> kernel \<Rightarrow> (kernel \<times> u32) option" where
  "virtfs_dev_lookup name s = virtfs_proc_lookup name s"

definition virtfs_lookup :: "u32 \<Rightarrow> u32 \<Rightarrow> kernel \<Rightarrow> (kernel \<times> u32) option" where
  "virtfs_lookup inode name s =
    (let root_ve = i_private (ino_of s inode)
     in if \<not> S_ISDIR (i_mode (ino_of s inode)) \<or> root_ve = 0 then Some (s, 0)
        else do {
          (s1, ve) \<leftarrow> (case ve_ops (ve_of s root_ve) of
              Veops_nop \<Rightarrow> do { ve \<leftarrow> virtfs_get_entry inode name s; Some (s, ve) }
            | Veops_proc \<Rightarrow> virtfs_proc_lookup name s
            | Veops_dev \<Rightarrow> virtfs_dev_lookup name s);
          if ve = 0 then Some (s1, 0)
          else do {
            _ \<leftarrow> bug_on (ve_inode (ve_of s1 ve) \<noteq> 0);
            (s2, ret) \<leftarrow> new_inode (i_sb (ino_of s1 inode)) s1;
            let v = ve_of s2 ve;
            let s3 = set_ino ret (\<lambda>i. i\<lparr>i_ino := ve, i_mode := ve_mode v, i_size := if S_ISDIR (ve_mode v) then 0 else 1,
                                       i_dev := ve_dev v, i_fops := Some Virtfs_fops, i_ops := Virtfs_iops,
                                       i_refcnt := atomic_inc_u32 (i_refcnt i)\<rparr>) s2;
            (s4, dent) \<leftarrow> new_direntry name ret s3;
            _ \<leftarrow> bug_on (dent = 0);
            let s5 = set_dent dent (\<lambda>d. d\<lparr>d_refcnt := atomic_inc_u32 (d_refcnt d)\<rparr>) s4;
            let s6 = set_nodes (klist0_append (DSiblings dent) (IChildren inode)) s5;
            Some (set_ino ret (\<lambda>i. i\<lparr>i_private := ve\<rparr>) (set_ve ve (\<lambda>v. v\<lparr>ve_inode := ret\<rparr>) s6), dent)
          }
        })"

section \<open>Lookup\<close>

fun find_dent :: "kernel \<Rightarrow> u32 \<Rightarrow> knode list \<Rightarrow> u32 option" where
  "find_dent s name [] = Some 0"
| "find_dent s name (DSiblings d # ns) = do {
     r \<leftarrow> kstrcmp (view s) (d + D_NAME) name;
     if r = 0 then Some d else find_dent s name ns
   }"
| "find_dent s name (n # ns) = None"

definition lookup_direntry :: "u32 \<Rightarrow> u32 \<Rightarrow> kernel \<Rightarrow> (kernel \<times> u32) option" where
  "lookup_direntry name inode s =
    (if \<not> S_ISDIR (i_mode (ino_of s inode)) then Some (s, 0)
     else do {
       l \<leftarrow> klist0_for_each (nodes s) (IChildren inode);
       found \<leftarrow> find_dent s name l;
       if found \<noteq> 0 then Some (s, found)
       else (case i_ops (ino_of s inode) of
               Generic_iops \<Rightarrow> Some (s, generic_lookup inode name s)
             | Virtfs_iops \<Rightarrow> virtfs_lookup inode name s)
     })"

partial_function (option) skip_slashes :: "memory \<Rightarrow> u32 \<Rightarrow> u32 option" where
  "skip_slashes m p = (if m p = 0x2F then skip_slashes m (p + 1) else Some p)"

partial_function (option) lookup_parts :: "u32 \<Rightarrow> u32 \<Rightarrow> kernel \<Rightarrow> (kernel \<times> u32) option" where
  "lookup_parts p inode s = do {
     r \<leftarrow> kstrchr (view s) p 0x2F;
     (case r of
        None \<Rightarrow> lookup_direntry p inode s
      | Some n \<Rightarrow> do {
          let name = syms s (Local ''name'');
          s1 \<leftarrow> u_memory_copy name p (unat (n - p)) s;
          s2 \<leftarrow> store_byte (name + (n - p)) 0 s1;
          (s3, dent) \<leftarrow> lookup_direntry name inode s2;
          if dent = 0 then Some (s3, 0)
          else do {
            let i = d_inode (dent_of s3 dent);
            _ \<leftarrow> bug_on (i = 0);
            lookup_parts (n + 1)
              (if i_mount (ino_of s3 i) \<noteq> 0 then s_root (sb_of s3 (m_sb (mnt_of s3 (i_mount (ino_of s3 i))))) else i) s3
          }
        })
   }"

definition lookup_path :: "u32 \<Rightarrow> kernel \<Rightarrow> (kernel \<times> u32) option" where
  "lookup_path pathname s = do {
     let inode = (case t_ns (threads s (CURRENT s)) of RootNs \<Rightarrow> n_inode (root_ns (kfs s)));
     p \<leftarrow> skip_slashes (view s) pathname;
     if view s p = 0 then Some (s, n_dent (root_ns (kfs s)))
     else lookup_parts p inode s
   }"

definition fs_init_namespace :: "kernel \<Rightarrow> kernel option" where
  "fs_init_namespace s = do {
     sb \<leftarrow> get_super ROOTFSDEV s;
     _ \<leftarrow> bug_on (sb = 0);
     (s1, inode) \<leftarrow> get_inode sb ROOT_INO s;
     _ \<leftarrow> bug_on (inode = 0);
     (s2, dent) \<leftarrow> new_direntry (syms s1 (Lit ''/'')) inode s1;
     Some (set_fs (\<lambda>v. v\<lparr>root_ns := \<lparr>n_inode = inode, n_dent = dent\<rparr>\<rparr>) s2)
   }"

section \<open>The root file system\<close>

definition fs_add_entry :: "u32 \<Rightarrow> u32 \<Rightarrow> u32 \<Rightarrow> u32 \<Rightarrow> kernel \<Rightarrow> (kernel \<times> u32) option" where
  "fs_add_entry parent name md dev s = do {
     (s1, inode) \<leftarrow> new_inode (i_sb (ino_of s parent)) s;
     let n = add_entry_ino (kfs s1) + 1;
     let s2 = set_fs (\<lambda>v. v\<lparr>add_entry_ino := n\<rparr>) s1;
     let s3 = set_ino inode (\<lambda>i. i\<lparr>i_ino := n, i_mode := md, i_dev := dev, i_refcnt := atomic_inc_u32 (i_refcnt i)\<rparr>) s2;
     (s4, dent) \<leftarrow> new_direntry name inode s3;
     _ \<leftarrow> bug_on (dent = 0);
     let s5 = set_dent dent (\<lambda>d. d\<lparr>d_refcnt := atomic_inc_u32 (d_refcnt d)\<rparr>) s4;
     Some (set_nodes (klist0_append (DSiblings dent) (IChildren parent)) s5, inode)
   }"

fun stuff_pages :: "u32 \<Rightarrow> nat \<Rightarrow> nat \<Rightarrow> u32 \<Rightarrow> int \<Rightarrow> kernel \<Rightarrow> kernel option" where
  "stuff_pages inode 0 npages from left s = Some s"
| "stuff_pages inode (Suc k) npages from left s =
    (if npages \<ge> INODE_PAGES then None
     else do {
       (m, p) \<leftarrow> alloc_pages (kmm_of s) 0 0;
       pg \<leftarrow> p;
       let s1 = set_ino inode (\<lambda>i. i\<lparr>i_pages := (i_pages i)(npages := Some pg)\<rparr>) (set_kmm m s);
       s2 \<leftarrow> u_memory_copy (page_to_addr (kmm_of s1) pg) from (nat (min (int PAGE_SIZE) left)) s1;
       stuff_pages inode k (Suc npages) (from + of_nat PAGE_SIZE) (left - int PAGE_SIZE) s2
     })"

definition fs_stuff_inode :: "u32 \<Rightarrow> u32 \<Rightarrow> u32 \<Rightarrow> kernel \<Rightarrow> kernel option" where
  "fs_stuff_inode inode src len s = do {
     let n = nat (sint len div int PAGE_SIZE + 1);
     s1 \<leftarrow> stuff_pages inode n 0 src (sint len) s;
     Some (set_ino inode (\<lambda>i. i\<lparr>i_size := len, i_filled := of_nat n\<rparr>) s1)
   }"

definition fs_insert_entry :: "u32 \<Rightarrow> u32 \<Rightarrow> u32 \<Rightarrow> u32 \<Rightarrow> u32 \<Rightarrow> kernel \<Rightarrow> kernel option" where
  "fs_insert_entry pathname md dev buf len s = do {
     slash \<leftarrow> kstrrchr (view s) pathname 0x2F;
     dot \<leftarrow> kstrcmp (view s) pathname (syms s (Lit ''.''));
     if dot = 0 then Some s
     else do {
       (s1, dent) \<leftarrow> lookup_path pathname s;
       if dent \<noteq> 0 then Some s1
       else do {
         let dir = syms s1 (Local ''dir'');
         let s2 = s1\<lparr>bytes := memory_set dir 0 FILENAME_MAX (bytes s1)\<rparr>;
         s3 \<leftarrow> (case slash of
             Some p \<Rightarrow> u_memory_copy dir pathname (unat (p - pathname)) s2
           | None \<Rightarrow> store_byte dir 0x2F s2);
         let p = (case slash of Some p \<Rightarrow> p | None \<Rightarrow> pathname);
         (s4, parent, name) \<leftarrow>
           (if p = pathname then Some (s3, n_inode (root_ns (kfs s3)), p)
            else do {
              (s5, d) \<leftarrow> lookup_path dir s3;
              _ \<leftarrow> bug_on (d = 0);
              Some (s5, d_inode (dent_of s5 d), p + 1)
            });
         (s6, inode) \<leftarrow> fs_add_entry parent name md dev s4;
         if S_ISREG md \<and> buf \<noteq> 0 \<and> len \<noteq> 0 then fs_stuff_inode inode buf len s6 else Some s6
       }
     }
   }"

section \<open>The archive\<close>

definition MAGIC :: int where "MAGIC = 29127"
definition SIZEOF_HD_BCPIO :: u32 where "SIZEOF_HD_BCPIO = 26"

text \<open>A 16-bit field of the header at \<open>t\<close>, in one of the two byte orders.\<close>

definition cpio2u16 :: "bool \<Rightarrow> memory \<Rightarrow> u32 \<Rightarrow> u32 \<Rightarrow> int" where
  "cpio2u16 rev_order m t f =
    (if rev_order then 256 * uint (m (t + f)) + uint (m (t + f + 1))
     else 256 * uint (m (t + f + 1)) + uint (m (t + f)))"

definition H_MAGIC :: u32 where "H_MAGIC = 0"
definition H_MODE :: u32 where "H_MODE = 6"
definition H_RDEV :: u32 where "H_RDEV = 14"
definition H_NAMESIZE :: u32 where "H_NAMESIZE = 20"
definition H_FILESIZE_1 :: u32 where "H_FILESIZE_1 = 22"
definition H_FILESIZE_2 :: u32 where "H_FILESIZE_2 = 24"

definition ALIGN2 :: "u32 \<Rightarrow> u32" where
  "ALIGN2 x = roundup_l2 x 2"

partial_function (option) seek_magic :: "bool \<Rightarrow> memory \<Rightarrow> u32 \<Rightarrow> u32 \<Rightarrow> u32 option" where
  "seek_magic rev_order m rootfs_end t =
    (if t < rootfs_end \<and> cpio2u16 rev_order m t H_MAGIC \<noteq> MAGIC then seek_magic rev_order m rootfs_end (t + 1)
     else Some t)"

partial_function (option) cpio_loop :: "bool \<Rightarrow> u32 \<Rightarrow> kernel \<Rightarrow> (kernel \<times> int) option" where
  "cpio_loop rev_order t0 s =
    (if t0 < syms s Rootfs_end then do {
       t \<leftarrow> seek_magic rev_order (bytes s) (syms s Rootfs_end) t0;
       let get = cpio2u16 rev_order (bytes s) t;
       if get H_MAGIC \<noteq> MAGIC then Some (s, - EIO)
       else do {
         let fsize = word_of_int (get H_FILESIZE_1 * 2 ^ 16 + get H_FILESIZE_2);
         let md = word_of_int (get H_MODE);
         let name = t + SIZEOF_HD_BCPIO;
         last \<leftarrow> kstrcmp (view s) name (syms s (Lit ''TRAILER!!!''));
         if last = 0 then Some (s, 0)
         else do {
           let body = name + ALIGN2 (word_of_int (get H_NAMESIZE));
           if \<not> S_ISCHR md \<and> \<not> S_ISDIR md then do {
             s1 \<leftarrow> fs_insert_entry name md NODEV body fsize s;
             cpio_loop rev_order (body + ALIGN2 fsize) s1
           } else do {
             let dev = DEV_DEVICE (ucast (bytes s (t + H_RDEV + 1))) (ucast (bytes s (t + H_RDEV)));
             s1 \<leftarrow> fs_insert_entry name md dev 0 0 s;
             cpio_loop rev_order body s1
           }
         }
       }
     }
     else Some (s, 0))"

definition cpio_read :: "kernel \<Rightarrow> (kernel \<times> int) option" where
  "cpio_read s =
    (let t = syms s Rootfs_start
     in cpio_loop (cpio2u16 True (bytes s) t H_MAGIC = MAGIC) t s)"

section \<open>Initialisation\<close>

definition virtfs_init_inodes :: "u32 \<Rightarrow> kernel \<Rightarrow> kernel option" where
  "virtfs_init_inodes sb s = do {
     (s1, root) \<leftarrow> new_inode sb s;
     let s2 = set_ino root (\<lambda>i. i\<lparr>i_ino := ROOT_INO, i_mode := S_IFDIR, i_fops := Some Virtfs_fops, i_ops := Virtfs_iops\<rparr>) s1;
     Some (set_sb sb (\<lambda>b. b\<lparr>s_root := root\<rparr>) s2)
   }"

definition virtfs_proc_init :: "kernel \<Rightarrow> kernel" where
  "virtfs_proc_init s = VE_ADD_SIBLING (syms s Ve_dot) (syms s Ve_proc) s"

definition virtfs_dev_init :: "kernel \<Rightarrow> kernel" where
  "virtfs_dev_init s = VE_ADD_SIBLING (syms s Ve_dot) (syms s Ve_dev) s"

definition virtfs_init_tree :: "kernel \<Rightarrow> kernel" where
  "virtfs_init_tree s =
    (let a = syms s;
         s1 = VE_ADD_SUBTREE (a Virtfs_tree) (a Ve_dot) s;
         s2 = VE_ADD_SIBLING (a Ve_dot) (a Ve_srv) s1;
         s3 = VE_ADD_SIBLING (a Ve_dot) (a Ve_wtf) s2;
         s4 = VE_ADD_SUBTREE (a Ve_srv) (a Virtfs_srv) s3;
         s5 = VE_ADD_SIBLING (a Virtfs_srv) (a Ve_omg) s4;
         s6 = VE_ADD_SIBLING (a Virtfs_srv) (a Ve_lol) s5
     in virtfs_dev_init (virtfs_proc_init s6))"

definition SIZEOF_MPIPE_CTL :: "kernel \<Rightarrow> nat" where
  "SIZEOF_MPIPE_CTL s = 12 + (8 + SIZEOF_SPINLOCK s) + (4 + (8 + SIZEOF_SPINLOCK s))"

definition fs_mpipe_init :: "kernel \<Rightarrow> kernel option" where
  "fs_mpipe_init s = do {
     (s1, p) \<leftarrow> k_slice_pool_create s (SIZEOF_MPIPE_CTL s);
     Some (set_fs (\<lambda>v. v\<lparr>mpipe_pool := p\<rparr>) s1)
   }"

definition fs_init_virtfs :: "kernel \<Rightarrow> kernel option" where
  "fs_init_virtfs s = do {
     (s1, p) \<leftarrow> k_slice_pool_create s 44;
     (s2, sb) \<leftarrow> alloc_super VIRTFSDEV (set_fs (\<lambda>v. v\<lparr>ve_pool := p\<rparr>) s1);
     _ \<leftarrow> bug_on (sb = 0);
     s3 \<leftarrow> virtfs_init_inodes sb (set_sb sb (\<lambda>b. b\<lparr>s_iops := Some Virtfs_iops, s_ops := Virtfs_sops\<rparr>) s2);
     let s4 = virtfs_init_tree s3;
     let s5 = set_ino (s_root (sb_of s4 sb)) (\<lambda>i. i\<lparr>i_private := syms s4 Virtfs_tree\<rparr>) s4;
     root_sb \<leftarrow> get_super ROOTFSDEV s5;
     (s6, dent) \<leftarrow> lookup_path (syms s5 (Lit ''/koowaldah'')) s5;
     (s7, r) \<leftarrow> mount0 dent sb s6;
     _ \<leftarrow> bug_on (r \<noteq> 0);
     fs_mpipe_init s7
   }"

definition SIZEOF_MESSAGE :: "kernel \<Rightarrow> nat" where
  "SIZEOF_MESSAGE s = 8 + 4 * 4 + (8 + SIZEOF_SPINLOCK s)"

definition messaging_init :: "kernel \<Rightarrow> kernel option" where
  "messaging_init s = do {
     (s1, p) \<leftarrow> k_slice_pool_create s (SIZEOF_MESSAGE s);
     Some (tq_init MsgSleepers (set_fs (\<lambda>v. v\<lparr>msg_pool := p\<rparr>) s1))
   }"

definition fs_init :: "kernel \<Rightarrow> kernel option" where
  "fs_init s = do {
     s1 \<leftarrow> fs_init_super s;
     (s2, _) \<leftarrow> fs_init_inodes s1;
     s3 \<leftarrow> fs_init_namespace s2;
     s4 \<leftarrow> fs_init_mount s3;
     sb \<leftarrow> get_super ROOTFSDEV s4;
     let s5 = set_fs (\<lambda>v. v\<lparr>generic_read_inode := True\<rparr>) s4;
     let root = s_root (sb_of s5 sb);
     let lit = (\<lambda>n. syms s5 (Lit n));
     (s6, p) \<leftarrow> fs_add_entry root (lit ''dev'') S_IFDIR NODEV s5;
     (s7, _) \<leftarrow> fs_add_entry p (lit ''tty0'') S_IFCHR (DEV_DEVICE 4 0) s6;
     (s8, _) \<leftarrow> fs_add_entry p (lit ''pckbd'') S_IFCHR (DEV_DEVICE 13 128) s7;
     (s9, _) \<leftarrow> fs_add_entry p (lit ''serial'') S_IFCHR (DEV_DEVICE 12 34) s8;
     (s10, _) \<leftarrow> fs_add_entry root (lit ''initfs'') S_IFDIR NODEV s9;
     (s11, _) \<leftarrow> fs_add_entry root (lit ''mnt'') S_IFDIR NODEV s10;
     (s12, _) \<leftarrow> fs_add_entry root (lit ''koowaldah'') S_IFDIR NODEV s11;
     (s13, _) \<leftarrow> cpio_read s12;
     s14 \<leftarrow> messaging_init (devices_init s13);
     fs_init_virtfs s14
   }"

end
