(* ===== verification/Files.thy ===== *)
theory Files
  imports Vfs
begin

text \<open>
  Open files: \<^verbatim>\<open>kernel/fs/file.c\<close>, \<^verbatim>\<open>kernel/fs/stat.c\<close>, the pipes of \<^verbatim>\<open>kernel/fs/mpipe.c\<close> and the messages of
  \<^verbatim>\<open>kernel/fs/message.c\<close>.  A call through \<^verbatim>\<open>file->f_ops\<close> is a case distinction over the tables of operations.
\<close>

definition file_of :: "kernel \<Rightarrow> u32 \<Rightarrow> kfile" where "file_of s a = files (kfs s) a"
definition mc_of :: "kernel \<Rightarrow> u32 \<Rightarrow> mpipe_ctl" where "mc_of s a = mpipes (kfs s) a"
definition msg_of :: "kernel \<Rightarrow> u32 \<Rightarrow> message" where "msg_of s a = msgs (kfs s) a"

definition set_file :: "u32 \<Rightarrow> (kfile \<Rightarrow> kfile) \<Rightarrow> kernel \<Rightarrow> kernel" where
  "set_file a f s = set_fs (\<lambda>v. v\<lparr>files := (files v)(a := f (files v a))\<rparr>) s"

definition set_mc :: "u32 \<Rightarrow> (mpipe_ctl \<Rightarrow> mpipe_ctl) \<Rightarrow> kernel \<Rightarrow> kernel" where
  "set_mc a f s = set_fs (\<lambda>v. v\<lparr>mpipes := (mpipes v)(a := f (mpipes v a))\<rparr>) s"

definition set_msg :: "u32 \<Rightarrow> (message \<Rightarrow> message) \<Rightarrow> kernel \<Rightarrow> kernel" where
  "set_msg a f s = set_fs (\<lambda>v. v\<lparr>msgs := (msgs v)(a := f (msgs v a))\<rparr>) s"

definition SIZEOF_UDIRENTRY :: u32 where "SIZEOF_UDIRENTRY = 256"

section \<open>Files\<close>

definition new_file :: "kernel \<Rightarrow> (kernel \<times> u32) option" where
  "new_file s = do {
     (s1, f) \<leftarrow> k_galloc s 32;
     if f = 0 then Some (s1, 0)
     else Some (set_file f (\<lambda>k. k\<lparr>f_offset := 0, f_ops := None, f_sb := 0, f_inode := 0\<rparr>)
                  (set_nodes (KLIST0_INIT (FTlist f)) s1), f)
   }"

definition kill_file :: "u32 \<Rightarrow> kernel \<Rightarrow> kernel option" where
  "kill_file f s = k_gfree s f"

definition generic_open :: "u32 \<Rightarrow> kernel \<Rightarrow> kernel \<times> int" where
  "generic_open f s = (s, 0)"

definition generic_close :: "u32 \<Rightarrow> kernel \<Rightarrow> kernel \<times> int" where
  "generic_close f s = (s, 0)"

definition inode_page :: "u32 \<Rightarrow> nat \<Rightarrow> kernel \<Rightarrow> u32 option" where
  "inode_page inode i s =
    (if i < INODE_PAGES then map_option (page_to_addr (kmm_of s)) (i_pages (ino_of s inode) i) else None)"

text \<open>The copy loop of \<^verbatim>\<open>generic_read\<close> over the pages from \<open>r\<close> to \<open>npages\<close>; \<open>left\<close> wraps around when it runs out.\<close>

fun read_pages :: "u32 \<Rightarrow> nat list \<Rightarrow> u32 \<Rightarrow> u32 \<Rightarrow> u32 \<Rightarrow> kernel \<Rightarrow> kernel option" where
  "read_pages inode [] pgstart_off to left s = Some s"
| "read_pages inode (r # rs) pgstart_off to left s = do {
     a \<leftarrow> inode_page inode r s;
     s1 \<leftarrow> u_memory_copy to (a + pgstart_off) (unat (min (of_nat PAGE_SIZE) left)) s;
     read_pages inode rs 0 (to + of_nat PAGE_SIZE) (left - of_nat PAGE_SIZE) s1
   }"

text \<open>No file system sets \<^verbatim>\<open>read_page\<close>, so pages that are not there end in \<^verbatim>\<open>bug\<close>; the loop body runs at least once.\<close>

definition generic_read :: "u32 \<Rightarrow> u32 \<Rightarrow> u32 \<Rightarrow> kernel \<Rightarrow> (kernel \<times> int) option" where
  "generic_read f buf len0 s = do {
     let inode = f_inode (file_of s f);
     let off = (word_of_int (f_offset (file_of s f)) :: u32);
     let len = (if off + len0 > i_size (ino_of s inode) then i_size (ino_of s inode) - off else len0);
     let npages = unat (i_filled (ino_of s inode));
     let pgstart = unat off div PAGE_SIZE;
     let pgstart_off = off AND (of_nat PAGE_SIZE - 1);
     let pgsize = unat len div PAGE_SIZE;
     _ \<leftarrow> bug_on (pgstart + pgsize > npages);
     s1 \<leftarrow> (if pgsize = 0 then do {
               a \<leftarrow> inode_page inode pgstart s;
               u_memory_copy buf (a + pgstart_off) (unat len) s
             }
             else read_pages inode (pgstart # [Suc pgstart..<npages]) pgstart_off buf len s);
     Some (set_file f (\<lambda>k. k\<lparr>f_offset := f_offset k + uint len\<rparr>) s1, sint len)
   }"

definition generic_write :: "u32 \<Rightarrow> u32 \<Rightarrow> u32 \<Rightarrow> kernel \<Rightarrow> kernel \<times> int" where
  "generic_write f buf offset s = (s, 0)"

fun generic_readdir_loop :: "knode list \<Rightarrow> u32 \<Rightarrow> int \<Rightarrow> int \<Rightarrow> kernel \<Rightarrow> (kernel \<times> int) option" where
  "generic_readdir_loop [] udents i count s = Some (s, i)"
| "generic_readdir_loop (DSiblings d # ns) udents i count s = do {
     s1 \<leftarrow> u_memory_copy udents (d + D_NAME) FILENAME_MAX s;
     if i = count then Some (s1, i + 1)
     else generic_readdir_loop ns (udents + SIZEOF_UDIRENTRY) (i + 1) count s1
   }"
| "generic_readdir_loop (n # ns) udents i count s = None"

definition generic_readdir :: "u32 \<Rightarrow> u32 \<Rightarrow> int \<Rightarrow> kernel \<Rightarrow> (kernel \<times> int) option" where
  "generic_readdir f udents count s =
    (let inode = f_inode (file_of s f)
     in if \<not> S_ISDIR (i_mode (ino_of s inode)) then Some (s, - EINVAL)
        else if count \<le> 0 then Some (s, - EINVAL)
        else do {
          l \<leftarrow> klist0_for_each (nodes s) (IChildren inode);
          generic_readdir_loop l udents 0 count s
        })"

section \<open>Descriptors\<close>

definition alloc_fd :: "u32 \<Rightarrow> kernel \<Rightarrow> kernel \<times> int" where
  "alloc_fd t s =
    (let th = threads s t
     in case bitmap_seek_unset 0 (nat (last_fd th + 1)) (fdset th) of
          None \<Rightarrow> (s, - EBADF)
        | Some fd \<Rightarrow>
            let s1 = (if int fd = last_fd th \<and> last_fd th < FS_MAX_FDS
                      then set_thread t (\<lambda>th. th\<lparr>last_fd := last_fd th + 1\<rparr>) s else s)
            in (set_thread t (\<lambda>th. th\<lparr>fdset := bitmap_bit_set 0 fd (fdset th)\<rparr>) s1, int fd))"

definition free_fd :: "u32 \<Rightarrow> int \<Rightarrow> kernel \<Rightarrow> kernel" where
  "free_fd t fd s = set_thread t (\<lambda>th. th\<lparr>fdset := bitmap_bit_clear 0 (nat fd) (fdset th)\<rparr>) s"

fun find_file :: "kernel \<Rightarrow> int \<Rightarrow> knode list \<Rightarrow> u32 option" where
  "find_file s fd [] = Some 0"
| "find_file s fd (FTlist f # ns) = (if f_fd (file_of s f) = fd then Some f else find_file s fd ns)"
| "find_file s fd (n # ns) = None"

definition fd2file :: "int \<Rightarrow> kernel \<Rightarrow> u32 option" where
  "fd2file fd s =
    (let t = CURRENT s
     in if fd > last_fd (threads s t) then Some 0
        else do {
          l \<leftarrow> klist0_for_each (nodes s) (TFiles t);
          find_file s fd l
        })"

section \<open>Operations of virtual files\<close>

definition VIRTFS_TEST_STRING :: string where
  "VIRTFS_TEST_STRING = ''virtfs test'' @ [CHR 0x0A]"

definition virtfs_open :: "u32 \<Rightarrow> kernel \<Rightarrow> kernel \<times> int" where
  "virtfs_open f s = (s, 0)"

definition virtfs_close :: "u32 \<Rightarrow> kernel \<Rightarrow> kernel \<times> int" where
  "virtfs_close f s = (s, 0)"

definition virtfs_read :: "u32 \<Rightarrow> u32 \<Rightarrow> u32 \<Rightarrow> kernel \<Rightarrow> (kernel \<times> int) option" where
  "virtfs_read f buf len s = do {
     let lit = syms s (Lit VIRTFS_TEST_STRING);
     r \<leftarrow> kstrlen (view s) lit;
     s1 \<leftarrow> u_memory_copy buf lit (unat (r + 1)) s;
     Some (s1, sint r)
   }"

definition virtfs_write :: "u32 \<Rightarrow> u32 \<Rightarrow> u32 \<Rightarrow> kernel \<Rightarrow> kernel \<times> int" where
  "virtfs_write f buf offset s = (s, 0)"

text \<open>\<^verbatim>\<open>snprintf\<close> to a buffer of the running thread: what it writes is stored byte by byte.\<close>

fun store_bytes :: "u32 \<Rightarrow> u8 list \<Rightarrow> kernel \<Rightarrow> kernel option" where
  "store_bytes a [] s = Some s"
| "store_bytes a (b # bs) s = do { s1 \<leftarrow> store_byte a b s; store_bytes (a + 1) bs s1 }"

definition k_snprintf_at :: "u32 \<Rightarrow> nat \<Rightarrow> u32 \<Rightarrow> u32 list \<Rightarrow> kernel \<Rightarrow> (kernel \<times> u32) option" where
  "k_snprintf_at buf sz fmt args s = do {
     (m, n) \<leftarrow> snprintf (syms s (Lit ''0123456789ABCDEF'')) buf (of_nat sz) fmt args (view s);
     s1 \<leftarrow> store_bytes buf (map (\<lambda>i. m (buf + of_nat i)) [0..<unat n]) s;
     Some (s1, n)
   }"

definition k_snprintf :: "u32 \<Rightarrow> nat \<Rightarrow> string \<Rightarrow> u32 list \<Rightarrow> kernel \<Rightarrow> (kernel \<times> u32) option" where
  "k_snprintf buf sz fmt args s = k_snprintf_at buf sz (syms s (Lit fmt)) args s"

fun proc_readdir_loop :: "knode list \<Rightarrow> u32 \<Rightarrow> int \<Rightarrow> kernel \<Rightarrow> (kernel \<times> int) option" where
  "proc_readdir_loop [] udents c s = Some (s, c)"
| "proc_readdir_loop (Kthreads t # ns) udents c s = do {
     (s1, n) \<leftarrow> k_snprintf udents FILENAME_MAX ''[task:%d]'' [pid (threads s t)] s;
     proc_readdir_loop ns (udents + SIZEOF_UDIRENTRY) (c + 1) s1
   }"
| "proc_readdir_loop (n # ns) udents c s = None"

definition virtfs_proc_readdir :: "u32 \<Rightarrow> int \<Rightarrow> kernel \<Rightarrow> (kernel \<times> int) option" where
  "virtfs_proc_readdir udents count s = do {
     l \<leftarrow> klist0_for_each (nodes s) (TqThreads ThreadList);
     proc_readdir_loop l udents 0 s
   }"

fun dev_readdir_loop :: "knode list \<Rightarrow> u32 \<Rightarrow> int \<Rightarrow> kernel \<Rightarrow> (kernel \<times> int) option" where
  "dev_readdir_loop [] udents c s = Some (s, c)"
| "dev_readdir_loop (DList d # ns) udents c s = do {
     (s1, n) \<leftarrow> k_snprintf udents FILENAME_MAX ''[%s:%d.%d]''
                 [d, DEV_MAJOR (d_dev (dev_of s d)), DEV_MINOR (d_dev (dev_of s d))] s;
     dev_readdir_loop ns (udents + SIZEOF_UDIRENTRY) (c + 1) s1
   }"
| "dev_readdir_loop (n # ns) udents c s = None"

definition virtfs_dev_readdir :: "u32 \<Rightarrow> int \<Rightarrow> kernel \<Rightarrow> (kernel \<times> int) option" where
  "virtfs_dev_readdir udents count s = do {
     l \<leftarrow> klist0_for_each (nodes s) Devices;
     dev_readdir_loop l udents 0 s
   }"

fun virtfs_readdir_loop :: "knode list \<Rightarrow> u32 \<Rightarrow> int \<Rightarrow> int \<Rightarrow> kernel \<Rightarrow> (kernel \<times> int) option" where
  "virtfs_readdir_loop [] udents c count s = Some (s, c)"
| "virtfs_readdir_loop (VeSibling ve # ns) udents c count s =
    (if c = count then Some (s, c)
     else do {
       len \<leftarrow> kstrlen (view s) ve;
       s1 \<leftarrow> u_memory_copy udents ve (unat (len + 1)) s;
       virtfs_readdir_loop ns (udents + SIZEOF_UDIRENTRY) (c + 1) count s1
     })"
| "virtfs_readdir_loop (n # ns) udents c count s = None"

definition virtfs_readdir :: "u32 \<Rightarrow> u32 \<Rightarrow> int \<Rightarrow> kernel \<Rightarrow> (kernel \<times> int) option" where
  "virtfs_readdir f udents count s =
    (let inode = f_inode (file_of s f); root_ve = i_private (ino_of s inode)
     in if \<not> S_ISDIR (i_mode (ino_of s inode)) then Some (s, - ENOTDIR)
        else do {
          _ \<leftarrow> non_null root_ve;
          (case ve_ops (ve_of s root_ve) of
             Veops_proc \<Rightarrow> virtfs_proc_readdir udents count s
           | Veops_dev \<Rightarrow> virtfs_dev_readdir udents count s
           | Veops_nop \<Rightarrow>
               if ve_child (ve_of s root_ve) = 0 then Some (s, 0)
               else do {
                 l \<leftarrow> klist0_for_each (nodes s) (VeSibling (ve_child (ve_of s root_ve)));
                 virtfs_readdir_loop l udents 0 count s
               })
        })"

section \<open>Operations of pipes\<close>

definition mpipe_read :: "(kernel \<Rightarrow> kernel option) \<Rightarrow> u32 \<Rightarrow> u32 \<Rightarrow> u32 \<Rightarrow> kernel \<Rightarrow> (kernel \<times> int) option" where
  "mpipe_read others f buf len s = do {
     let mc = i_ctl (ino_of s (f_inode (file_of s f)));
     _ \<leftarrow> non_null mc;
     let s1 = set_mc mc (\<lambda>c. c\<lparr>mc_buf := virt2phys buf s, mc_len := len\<rparr>) s;
     s2 \<leftarrow> sleep_on others (MpipeTq mc) s1;
     let s3 = set_mc mc (\<lambda>c. c\<lparr>mc_state := MC_READ_FROM\<rparr>) s2;
     Some (s3, sint (mc_len (mc_of s3 mc)))
   }"

partial_function (option) mpipe_wait :: "(kernel \<Rightarrow> kernel option) \<Rightarrow> u32 \<Rightarrow> kernel \<Rightarrow> kernel option" where
  "mpipe_wait others mc s =
    (if mc_state (mc_of s mc) \<noteq> MC_READ_FROM then do {
       s1 \<leftarrow> scheduler_yield s;
       s2 \<leftarrow> others s1;
       mpipe_wait others mc s2
     }
     else Some s)"

partial_function (option) mpipe_write_loop ::
    "(kernel \<Rightarrow> kernel option) \<Rightarrow> u32 \<Rightarrow> u32 \<Rightarrow> u32 \<Rightarrow> u32 \<Rightarrow> u32 \<Rightarrow> kernel \<Rightarrow> kernel option" where
  "mpipe_write_loop others mc buf len done_bytes left s = do {
     let n = mc_len (mc_of s mc);
     s1 \<leftarrow> u_memory_copy (mc_buf (mc_of s mc)) buf (unat (min n left)) s;
     let s2 = set_mc mc (\<lambda>c. c\<lparr>mc_state := MC_WRITTEN_TO\<rparr>) s1;
     (s3, r) \<leftarrow> scheduler_enqueue (MpipeTq mc) s2;
     s4 \<leftarrow> mpipe_wait others mc s3;
     if done_bytes + n < len then mpipe_write_loop others mc (buf + n) len (done_bytes + n) (left - n) s4 else Some s4
   }"

definition mpipe_write :: "(kernel \<Rightarrow> kernel option) \<Rightarrow> u32 \<Rightarrow> u32 \<Rightarrow> u32 \<Rightarrow> kernel \<Rightarrow> (kernel \<times> int) option" where
  "mpipe_write others f buf len s = do {
     let mc = i_ctl (ino_of s (f_inode (file_of s f)));
     _ \<leftarrow> non_null mc;
     s1 \<leftarrow> mutex_lock others mc s;
     s2 \<leftarrow> mpipe_write_loop others mc buf len 0 len s1;
     s3 \<leftarrow> mutex_unlock mc s2;
     Some (s3, sint len)
   }"

section \<open>The tables of operations\<close>

definition fops_open :: "fops \<Rightarrow> u32 \<Rightarrow> kernel \<Rightarrow> (kernel \<times> int) option" where
  "fops_open ops f s = (case ops of
      Generic_fops \<Rightarrow> Some (generic_open f s)
    | Virtfs_fops \<Rightarrow> Some (virtfs_open f s)
    | Mpipe_fops \<Rightarrow> Some (generic_open f s)
    | Pckbd_fops \<Rightarrow> Some (pckbd_open s)
    | Serial_8250_fops \<Rightarrow> serial_8250_open s)"

definition fops_close :: "fops \<Rightarrow> u32 \<Rightarrow> kernel \<Rightarrow> (kernel \<times> int) option" where
  "fops_close ops f s = (case ops of
      Generic_fops \<Rightarrow> Some (generic_close f s)
    | Virtfs_fops \<Rightarrow> Some (virtfs_close f s)
    | Mpipe_fops \<Rightarrow> Some (generic_close f s)
    | Pckbd_fops \<Rightarrow> pckbd_dev_close s
    | Serial_8250_fops \<Rightarrow> serial_8250_close s)"

definition fops_read ::
    "(kernel \<Rightarrow> kernel option) \<Rightarrow> fops \<Rightarrow> u32 \<Rightarrow> u32 \<Rightarrow> u32 \<Rightarrow> kernel \<Rightarrow> (kernel \<times> int) option" where
  "fops_read others ops f buf len s = (case ops of
      Generic_fops \<Rightarrow> generic_read f buf len s
    | Virtfs_fops \<Rightarrow> virtfs_read f buf len s
    | Mpipe_fops \<Rightarrow> mpipe_read others f buf len s
    | Pckbd_fops \<Rightarrow> pckbd_dev_read others buf s
    | Serial_8250_fops \<Rightarrow> serial_8250_read others buf len s)"

definition fops_write ::
    "(kernel \<Rightarrow> kernel option) \<Rightarrow> fops \<Rightarrow> u32 \<Rightarrow> u32 \<Rightarrow> u32 \<Rightarrow> kernel \<Rightarrow> (kernel \<times> int) option" where
  "fops_write others ops f buf len s = (case ops of
      Generic_fops \<Rightarrow> Some (generic_write f buf len s)
    | Virtfs_fops \<Rightarrow> Some (virtfs_write f buf len s)
    | Mpipe_fops \<Rightarrow> mpipe_write others f buf len s
    | Pckbd_fops \<Rightarrow> None
    | Serial_8250_fops \<Rightarrow> serial_8250_write others buf len s)"

definition fops_readdir :: "fops \<Rightarrow> (u32 \<Rightarrow> u32 \<Rightarrow> int \<Rightarrow> kernel \<Rightarrow> (kernel \<times> int) option) option" where
  "fops_readdir ops = (case ops of
      Generic_fops \<Rightarrow> Some generic_readdir
    | Virtfs_fops \<Rightarrow> Some virtfs_readdir
    | _ \<Rightarrow> None)"

section \<open>System calls on files\<close>

definition O_CREAT :: u32 where "O_CREAT = 0x200"
definition O_FORCE :: u32 where "O_FORCE = 0x10000000"

definition open_dent :: "u32 \<Rightarrow> u32 \<Rightarrow> kernel \<Rightarrow> (kernel \<times> int) option" where
  "open_dent dent flags s = do {
     let inode = d_inode (dent_of s dent);
     let isdev = (i_dev (ino_of s inode) \<noteq> NODEV \<and> flags AND O_FORCE = 0);
     dev \<leftarrow> (if isdev then get_device (i_dev (ino_of s inode)) s else Some 0);
     if isdev \<and> dev = 0 then Some (s, - ENODEV)
     else do {
       (s1, f) \<leftarrow> new_file s;
       if f = 0 then Some (s1, - ENOMEM)
       else do {
         let s2 = set_dent dent (\<lambda>d. d\<lparr>d_refcnt := atomic_inc_u32 (d_refcnt d)\<rparr>) s1;
         let s3 = set_ino inode (\<lambda>i. i\<lparr>i_refcnt := atomic_inc_u32 (i_refcnt i)\<rparr>) s2;
         let s4 = set_nodes (klist0_append (FTlist f) (TFiles (CURRENT s3))) s3;
         let (s5, fd) = alloc_fd (CURRENT s4) s4;
         let ops = (if isdev then d_fops (dev_of s5 dev)
                    else case i_fops (ino_of s5 inode) of Some ops \<Rightarrow> ops | None \<Rightarrow> Generic_fops);
         let s6 = set_file f (\<lambda>k. k\<lparr>f_fd := fd, f_inode := inode, f_sb := i_sb (ino_of s5 inode), f_offset := 0,
                                   f_ops := Some ops\<rparr>) s5;
         (s7, r) \<leftarrow> fops_open ops f s6;
         Some (s7, f_fd (file_of s7 f))
       }
     }
   }"

definition open_fd :: "u32 \<Rightarrow> u32 \<Rightarrow> u32 \<Rightarrow> kernel \<Rightarrow> (kernel \<times> int) option" where
  "open_fd name flags md s = do {
     s1 \<leftarrow> (if flags AND O_CREAT \<noteq> 0 then fs_insert_entry name md NODEV 0 0 s else Some s);
     (s2, dent) \<leftarrow> lookup_path name s1;
     if dent = 0 then Some (s2, - ENOENT) else open_dent dent flags s2
   }"

definition file_ops :: "u32 \<Rightarrow> kernel \<Rightarrow> fops option" where
  "file_ops f s = f_ops (file_of s f)"

definition read_fd :: "(kernel \<Rightarrow> kernel option) \<Rightarrow> int \<Rightarrow> u32 \<Rightarrow> u32 \<Rightarrow> kernel \<Rightarrow> (kernel \<times> int) option" where
  "read_fd others fd buf len s = do {
     f \<leftarrow> fd2file fd s;
     if f = 0 then Some (s, - EBADF)
     else do {
       let inode = f_inode (file_of s f);
       _ \<leftarrow> bug_on (inode = 0);
       if word_of_int (f_offset (file_of s f)) = i_size (ino_of s inode) \<and> \<not> S_ISCHR (i_mode (ino_of s inode))
       then Some (s, 0)
       else do { ops \<leftarrow> file_ops f s; fops_read others ops f buf len s }
     }
   }"

definition write_fd :: "(kernel \<Rightarrow> kernel option) \<Rightarrow> int \<Rightarrow> u32 \<Rightarrow> u32 \<Rightarrow> kernel \<Rightarrow> (kernel \<times> int) option" where
  "write_fd others fd buf len s = do {
     f \<leftarrow> fd2file fd s;
     if f = 0 then Some (s, - EBADF)
     else do {
       _ \<leftarrow> bug_on (f_inode (file_of s f) = 0);
       ops \<leftarrow> file_ops f s;
       fops_write others ops f buf len s
     }
   }"

definition close_fd :: "int \<Rightarrow> kernel \<Rightarrow> (kernel \<times> int) option" where
  "close_fd fd s = do {
     f \<leftarrow> fd2file fd s;
     if f = 0 then Some (s, - EBADF)
     else do {
       s1 \<leftarrow> release_inode (f_inode (file_of s f)) s;
       let s2 = free_fd (CURRENT s1) fd s1;
       ops \<leftarrow> file_ops f s2;
       fops_close ops f s2
     }
   }"

definition readdir :: "int \<Rightarrow> u32 \<Rightarrow> int \<Rightarrow> kernel \<Rightarrow> (kernel \<times> int) option" where
  "readdir fd udents count s = do {
     f \<leftarrow> fd2file fd s;
     if f = 0 then Some (s, - EBADF)
     else do {
       ops \<leftarrow> file_ops f s;
       (case fops_readdir ops of
          None \<Rightarrow> Some (s, - EINVAL)
        | Some rd \<Rightarrow> do {
            _ \<leftarrow> bug_on (f_inode (file_of s f) = 0);
            rd f udents count s
          })
     }
   }"

definition store_u32 :: "u32 \<Rightarrow> u32 \<Rightarrow> kernel \<Rightarrow> kernel option" where
  "store_u32 a v s = store_bytes a [ucast v, ucast (drop_bit 8 v), ucast (drop_bit 16 v), ucast (drop_bit 24 v)] s"

definition stat :: "u32 \<Rightarrow> u32 \<Rightarrow> kernel \<Rightarrow> (kernel \<times> int) option" where
  "stat path buf s = do {
     (s1, dent) \<leftarrow> lookup_path path s;
     if dent = 0 then Some (s1, - ENOENT)
     else do {
       let i = ino_of s1 (d_inode (dent_of s1 dent));
       s2 \<leftarrow> store_u32 buf (i_ino i) s1;
       s3 \<leftarrow> store_u32 (buf + 4) (i_dev i) s2;
       s4 \<leftarrow> store_u32 (buf + 8) (i_mode i) s3;
       s5 \<leftarrow> store_u32 (buf + 12) (i_size i) s4;
       Some (s5, 0)
     }
   }"

section \<open>Opening pipes\<close>

definition mpipe_setup :: "u32 \<Rightarrow> kernel \<Rightarrow> kernel" where
  "mpipe_setup mc s =
    mutex_init mc (set_mc mc (\<lambda>c. c\<lparr>mc_len := 0, mc_buf := 0, mc_state := MC_OPENED\<rparr>) (tq_init (MpipeTq mc) s))"

definition mpipe_open :: "u32 \<Rightarrow> kernel \<Rightarrow> (kernel \<times> int) option" where
  "mpipe_open name s = do {
     name_len \<leftarrow> kstrlen (view s) name;
     let pathname = syms s (Local ''pathname'');
     (s1, _) \<leftarrow> k_snprintf pathname FILENAME_MAX ''/koowaldah/srv/%s'' [name] s;
     (s2, dent) \<leftarrow> lookup_path pathname s1;
     if dent \<noteq> 0 then do {
       s3 \<leftarrow> release_direntry dent s2;
       Some (s3, - EBUSY)
     } else do {
       (s3, ve) \<leftarrow> new_ve s2;
       if ve = 0 then Some (s3, - ENOMEM)
       else if unat (name_len + 1) > 12 then None
       else do {
         s4 \<leftarrow> u_memory_copy ve name (unat (name_len + 1)) s3;
         let s5 = set_ve ve (\<lambda>v. v\<lparr>ve_mode := S_IFIFO, ve_dev := NODEV, ve_ops := Veops_nop\<rparr>) s4;
         (s6, f) \<leftarrow> new_file s5;
         if f = 0 then do { s7 \<leftarrow> free_ve ve s6; Some (s7, - ENOMEM) }
         else do {
           (s7, mc) \<leftarrow> k_slice_alloc s6 (mpipe_pool (kfs s6));
           if mc = 0 then do {
             s8 \<leftarrow> free_ve ve s7;
             s9 \<leftarrow> kill_file f s8;
             Some (s9, - ENOMEM)
           } else do {
             let s8 = VE_ADD_SIBLING (syms s7 Virtfs_srv) ve s7;
             let t = CURRENT s8;
             (s9, d) \<leftarrow> lookup_path pathname s8;
             _ \<leftarrow> non_null d;
             let s10 = set_nodes (klist0_append (FTlist f) (TFiles t)) s9;
             let fd = last_fd (threads s10 t);
             let s11 = set_thread t (\<lambda>th. th\<lparr>last_fd := last_fd th + 1\<rparr>) s10;
             let inode = d_inode (dent_of s11 d);
             let s12 = set_file f (\<lambda>k. k\<lparr>f_fd := fd, f_inode := inode, f_sb := i_sb (ino_of s11 inode), f_offset := 0,
                                        f_ops := Some Mpipe_fops\<rparr>) s11;
             let s13 = set_ino inode (\<lambda>i. i\<lparr>i_size := 1, i_fops := Some Mpipe_fops, i_ctl := mc\<rparr>) s12;
             Some (mpipe_setup mc s13, fd)
           }
         }
       }
     }
   }"

definition mpipe_open2 :: "int \<Rightarrow> kernel \<Rightarrow> (kernel \<times> int) option" where
  "mpipe_open2 fd s = do {
     (s1, mc) \<leftarrow> k_slice_alloc s (mpipe_pool (kfs s));
     if mc = 0 then Some (s1, - ENOMEM)
     else do {
       f \<leftarrow> fd2file fd s1;
       if f = 0 then Some (s1, - EBADF)
       else do {
         let s2 = set_file f (\<lambda>k. k\<lparr>f_ops := Some Mpipe_fops\<rparr>) s1;
         let s3 = set_ino (f_inode (file_of s2 f)) (\<lambda>i. i\<lparr>i_size := 1, i_fops := Some Mpipe_fops, i_ctl := mc\<rparr>) s2;
         Some (mpipe_setup mc s3, 0)
       }
     }
   }"

section \<open>Messages\<close>

definition MF_REMAP :: u32 where "MF_REMAP = 2"
definition MF_BLOCK :: u32 where "MF_BLOCK = 4"
definition MF_NOTIFY :: u32 where "MF_NOTIFY = 8"
definition MF_GRANU :: u32 where "MF_GRANU = 0x10"

text \<open>
  Delivery of the message's page to the mailbox area of the recipient; \<open>Inl\<close> is the error return.
\<close>

definition msg_page :: "u32 \<Rightarrow> u32 \<Rightarrow> u32 \<Rightarrow> u32 \<Rightarrow> kernel \<Rightarrow> (kernel \<times> (int + u32)) option" where
  "msg_page msg t buf len s = do {
     (s1, ppg) \<leftarrow> k_get_pages s (of_nat ZONE_USER) 0;
     if ppg = 0 then do {
       s2 \<leftarrow> k_slice_free s1 msg (msg_pool (kfs s1));
       Some (s2, Inl (- ENOMEM))
     } else do {
       s2 \<leftarrow> u_memory_copy ppg buf (unat len) s1;
       pgo \<leftarrow> addr_to_page (kmm_of s2) ppg;
       let mp = t_map (threads s2 t);
       let fresh = (m_nmma (mapping_of s2 mp) = 4);
       s3 \<leftarrow> (if fresh then do {
                 let s4 = set_mapping mp (\<lambda>m. m\<lparr>m_nmma := m_nmma m + 1\<rparr>) s2;
                 (s5, a) \<leftarrow> mem_area_alloc_new mp USERMEM_MBOX 0 MMA_GROWS s4;
                 Some (set_mapping mp (\<lambda>m. m\<lparr>m_mma := (m_mma m)(4 := a)\<rparr>) s5)
               } else Some s2);
       let a = m_mma (mapping_of s3 mp) 4;
       if fresh \<and> a = 0 then Some (s3, Inl (- ENOMEM))
       else do {
         _ \<leftarrow> non_null a;
         let s4 = map_page mp (m_end (mma_of s3 a)) ppg (ucast (m_prot (mma_of s3 a))) s3;
         pg \<leftarrow> pgo;
         s5 \<leftarrow> mem_area_add_page a pg s4;
         Some (s5, Inr (virt_of s5 pg))
       }
     }
   }"

definition wake_sleeper :: "u32 \<Rightarrow> kernel \<Rightarrow> kernel option" where
  "wake_sleeper t s = do {
     l \<leftarrow> klist0_for_each (nodes s) (TqThreads MsgSleepers);
     if Krunq t \<in> set l then do {
       let s1 = tq_init TmpQ s;
       s2 \<leftarrow> spin_lock (TqLock MsgSleepers) s1;
       s3 \<leftarrow> tq__remove_thread t s2;
       s4 \<leftarrow> spin_unlock (TqLock MsgSleepers) s3;
       s5 \<leftarrow> tq_insert_head t TmpQ s4;
       (s6, r) \<leftarrow> scheduler_enqueue TmpQ s5;
       Some s6
     } else Some s
   }"

definition msg_send :: "u32 \<Rightarrow> u32 \<Rightarrow> u32 \<Rightarrow> u32 \<Rightarrow> kernel \<Rightarrow> (kernel \<times> int) option" where
  "msg_send recp buf len flags s =
    (if flags AND (MF_REMAP OR MF_NOTIFY OR MF_GRANU) \<noteq> 0 then Some (s, - ENOSYS)
     else if len > of_nat PAGE_SIZE then Some (s, - ENOSYS)
     else do {
       to \<leftarrow> thread_get recp s;
       (case to of
          None \<Rightarrow> Some (s, - EINVAL)
        | Some t \<Rightarrow> do {
            (s1, msg) \<leftarrow> k_slice_alloc s (msg_pool (kfs s));
            if msg = 0 then Some (s1, - ENOMEM)
            else do {
              (s2, r) \<leftarrow>
                (if flags AND MF_BLOCK = 0 then msg_page msg t buf len s1 else Some (s1, Inr (virt2phys buf s1)));
              (case r of
                 Inl e \<Rightarrow> Some (s2, e)
               | Inr b \<Rightarrow> do {
                   let me = CURRENT s2;
                   let s3 = set_msg msg (\<lambda>m. m\<lparr>m_buf := b, m_sender := pid (threads s2 me), m_msg_flags := flags,
                                             m_len := len\<rparr>) s2;
                   let s4 = set_nodes (\<lambda>h. klist0_prepend (MMbox msg) (TMbox t) (KLIST0_INIT (MMbox msg) h)) s3;
                   s5 \<leftarrow> wake_sleeper t (tq_init (MsgTq msg) s4);
                   s6 \<leftarrow> (if flags AND MF_BLOCK \<noteq> 0 then scheduler_dequeue (MsgTq msg) s5 else Some s5);
                   s7 \<leftarrow> scheduler_yield s6;
                   Some (s7, sint len)
                 })
            }
          })
     })"

definition load_u32 :: "memory \<Rightarrow> u32 \<Rightarrow> u32" where
  "load_u32 m a =
    ucast (m a) OR push_bit 8 (ucast (m (a + 1))) OR push_bit 16 (ucast (m (a + 2))) OR push_bit 24 (ucast (m (a + 3)))"

text \<open>The message the search stops at: the first one from \<open>sender\<close>, or else the last one (0 when there is none).\<close>

fun find_msg :: "kernel \<Rightarrow> u32 \<Rightarrow> u32 \<Rightarrow> knode list \<Rightarrow> u32 option" where
  "find_msg s sender msg [] = Some msg"
| "find_msg s sender msg (MMbox m # ns) = (if m_sender (msg_of s m) = sender then Some m else find_msg s sender m ns)"
| "find_msg s sender msg (n # ns) = None"

partial_function (option) await_msg ::
    "(kernel \<Rightarrow> kernel option) \<Rightarrow> u32 \<Rightarrow> u32 \<Rightarrow> bool \<Rightarrow> u32 \<Rightarrow> kernel \<Rightarrow> (kernel \<times> u32 option) option" where
  "await_msg others sender flags do_sleep old s =
    (if do_sleep \<and> flags AND MF_BLOCK = 0 then Some (s, None)
     else do {
       s1 \<leftarrow> (if do_sleep then sleep_on others MsgSleepers s else Some s);
       l \<leftarrow> klist0_for_each (nodes s1) (TMbox (CURRENT s1));
       msg \<leftarrow> find_msg s1 sender old l;
       _ \<leftarrow> non_null msg;
       if m_sender (msg_of s1 msg) \<noteq> sender then await_msg others sender flags True msg s1 else Some (s1, Some msg)
     })"

definition msg_retrieve :: "(kernel \<Rightarrow> kernel option) \<Rightarrow> u32 \<Rightarrow> u32 \<Rightarrow> u32 \<Rightarrow> u32 \<Rightarrow> kernel \<Rightarrow> (kernel \<times> int) option" where
  "msg_retrieve others sender buf len flags s =
    (if sender = 0 \<or> len = 0 \<or> load_u32 (view s) buf = 0 then Some (s, - ENOSYS)
     else do {
       (s1, r) \<leftarrow> await_msg others sender flags (klist0_empty (TMbox (CURRENT s)) (nodes s)) 0 s;
       (case r of
          None \<Rightarrow> Some (s1, - EAGAIN)
        | Some msg \<Rightarrow> do {
            let m = msg_of s1 msg;
            s2 \<leftarrow> u_memory_copy (load_u32 (view s1) buf) (m_buf m) (unat (m_len m)) s1;
            s3 \<leftarrow> (if m_msg_flags m AND MF_BLOCK = 0 then do {
                      let phys = virt2physpg (m_buf m) s2;
                      let mp = t_map (threads s2 (CURRENT s2));
                      let s4 = unmap_page mp (m_buf m) s2;
                      pgo \<leftarrow> addr_to_page (kmm_of s4) phys;
                      pg \<leftarrow> pgo;
                      s5 \<leftarrow> mem_area_remove_page (m_mma (mapping_of s4 mp) 4) pg s4;
                      k_put_pages s5 phys
                    } else Some s2);
            s6 \<leftarrow> (if m_msg_flags m AND MF_BLOCK \<noteq> 0 \<and> \<not> klist0_empty (TqThreads (MsgTq msg)) (nodes s3)
                    then map_option fst (scheduler_enqueue (MsgTq msg) s3) else Some s3);
            s7 \<leftarrow> k_slice_free (set_nodes (klist0_unlink (MMbox msg)) s6) msg (msg_pool (kfs s6));
            Some (s7, sint (m_len m))
          })
     })"

end
