(* ===== verification/Exec.thy ===== *)
theory Exec
  imports Files
begin

text \<open>
  Programs and the boot sequence: \<^verbatim>\<open>kernel/fs/aout.c\<close>, \<^verbatim>\<open>kernel/exec.c\<close>, \<^verbatim>\<open>kernel/fork.c\<close>, the system call gate
  \<^verbatim>\<open>arch/i386/syscalls.c\<close>, \<^verbatim>\<open>arch/i386/asm.c\<close> and \<^verbatim>\<open>kernel/init.c\<close>.

  A call that ends in \<^verbatim>\<open>start_user\<close> does not return to its caller: its outcome is \<open>Start_user\<close> with the
  instruction, frame and stack pointers that user mode starts with.
\<close>

datatype outcome = Ret int | Start_user u32 u32 u32

section \<open>Loading a.out files\<close>

definition PGALIGN :: "u32 \<Rightarrow> u32" where
  "PGALIGN x = (x + of_nat PAGE_SIZE - 1) AND NOPAGE_MASK"

definition aout_INPAGES :: "u32 \<Rightarrow> u32" where
  "aout_INPAGES x = of_nat (unat (PGALIGN x) div PAGE_SIZE)"

record exec_hdr =
  a_midmag :: u32
  a_text :: u32
  a_data :: u32
  a_bss :: u32
  a_syms :: u32
  a_entry :: u32

definition AOUTH :: "memory \<Rightarrow> u32 \<Rightarrow> exec_hdr" where
  "AOUTH m a =
    \<lparr>a_midmag = load_u32 m a, a_text = load_u32 m (a + 4), a_data = load_u32 m (a + 8), a_bss = load_u32 m (a + 12),
     a_syms = load_u32 m (a + 16), a_entry = load_u32 m (a + 20)\<rparr>"

definition AOUT_OMAGIC :: u32 where "AOUT_OMAGIC = 0x107"

definition AOUT_isOMAGIC :: "exec_hdr \<Rightarrow> bool" where
  "AOUT_isOMAGIC h \<longleftrightarrow> a_midmag h AND 0xffff = AOUT_OMAGIC"

definition AOUT_TEXTOFF :: "exec_hdr \<Rightarrow> u32" where "AOUT_TEXTOFF h = 32"
definition AOUT_DATAOFF :: "exec_hdr \<Rightarrow> u32" where "AOUT_DATAOFF h = AOUT_TEXTOFF h + a_text h"

partial_function (option) copy_section ::
    "u32 \<Rightarrow> nat \<Rightarrow> u32 \<Rightarrow> area_node \<Rightarrow> u32 \<Rightarrow> u32 \<Rightarrow> kernel \<Rightarrow> kernel option" where
  "copy_section inode pgnum pgoff tmp to left s =
    (if left > 0 then do {
       src \<leftarrow> inode_page inode pgnum s;
       to1 \<leftarrow> (if to AND PAGE_MASK = 0 then map_option (page_to_addr (kmm_of s)) (area_page tmp) else Some to);
       let tocopy = (if pgoff \<noteq> 0 then min left (of_nat PAGE_SIZE - pgoff)
                     else min left (of_nat PAGE_SIZE - (to1 AND PAGE_MASK)));
       let s1 = k_memory_copy to1 (src + pgoff) (unat tocopy) s;
       let full = (pgoff + tocopy = of_nat PAGE_SIZE);
       let to2 = to1 + tocopy;
       if to2 AND PAGE_MASK = 0
       then copy_section inode (if full then Suc pgnum else pgnum) (if full then pgoff else tocopy)
              (next (areas (kmm_of s1)) tmp) to2 (left - tocopy) s1
       else copy_section inode (if full then Suc pgnum else pgnum) 0 tmp to2 (left - tocopy) s1
     }
     else Some s)"

definition aout_copy_section :: "u32 \<Rightarrow> u32 \<Rightarrow> u32 \<Rightarrow> u32 \<Rightarrow> kernel \<Rightarrow> kernel option" where
  "aout_copy_section mma inode off len s =
    copy_section inode (unat (off AND NOPAGE_MASK) div 2 ^ PAGE_SHIFT) (off AND PAGE_MASK)
      (next (areas (kmm_of s)) (m_plist mma)) 0 len s"

definition set_map_mma :: "u32 \<Rightarrow> nat \<Rightarrow> u32 \<Rightarrow> kernel \<Rightarrow> kernel" where
  "set_map_mma mp i a s = set_mapping mp (\<lambda>m. m\<lparr>m_mma := (m_mma m)(i := a)\<rparr>) s"

definition aout_load :: "u32 \<Rightarrow> u32 \<Rightarrow> kernel \<Rightarrow> (kernel \<times> int) option" where
  "aout_load inode mp s = do {
     a \<leftarrow> inode_page inode 0 s;
     let h = AOUTH (bytes s) a;
     if \<not> AOUT_isOMAGIC h then Some (s, - ENOEXEC)
     else do {
       let cpg = aout_INPAGES (a_text h);
       let dpg = aout_INPAGES (a_data h + a_bss h);
       (s1, m0) \<leftarrow> mem_area_alloc_new mp (a_entry h) cpg 0 s;
       _ \<leftarrow> non_null m0;
       s2 \<leftarrow> aout_copy_section m0 inode (AOUT_TEXTOFF h) (a_text h) (set_map_mma mp 0 m0 s1);
       (s3, m1) \<leftarrow> mem_area_alloc_new mp (m_end (mma_of s2 m0)) dpg MMA_RW s2;
       _ \<leftarrow> non_null m1;
       s4 \<leftarrow> aout_copy_section m1 inode (AOUT_DATAOFF h) (a_data h) (set_map_mma mp 1 m1 s3);
       Some (set_mapping mp (\<lambda>m. m\<lparr>m_nmma := 2\<rparr>) s4, 0)
     }
   }"

section \<open>Starting programs\<close>

definition user_thread :: "kernel \<Rightarrow> kernel \<times> outcome" where
  "user_thread s =
    (let start = m_start (mma_of s (m_mma (mapping_of s (t_map (threads s (CURRENT s)))) 0))
     in (reset_stack s, Start_user start (USERMEM_STACK - 4) (USERMEM_STACK - 4)))"

definition binary_load :: "bool \<Rightarrow> u32 \<Rightarrow> u32 \<Rightarrow> kernel \<Rightarrow> (kernel \<times> int) option" where
  "binary_load OPT_AOUT_SUPPORT inode mp s =
    (if OPT_AOUT_SUPPORT then aout_load inode mp s else Some (s, - ENOEXEC))"

definition add_area :: "u32 \<Rightarrow> u32 \<Rightarrow> u32 \<Rightarrow> kernel \<Rightarrow> (kernel \<times> u32) option" where
  "add_area mp start flags s = do {
     (s1, a) \<leftarrow> mem_area_alloc_new mp start 1 flags s;
     let n = unat (m_nmma (mapping_of s1 mp));
     if n \<ge> MMA_MAX then None else Some (set_map_mma mp n a s1, a)
   }"

definition incr_nmma :: "u32 \<Rightarrow> kernel \<Rightarrow> kernel" where
  "incr_nmma mp s = set_mapping mp (\<lambda>m. m\<lparr>m_nmma := m_nmma m + 1\<rparr>) s"

definition thread_exec_new :: "bool \<Rightarrow> u32 \<Rightarrow> u32 \<Rightarrow> kernel \<Rightarrow> (kernel \<times> int) option" where
  "thread_exec_new opt t inode s = do {
     let mp = t_map (threads s t);
     (s1, ret) \<leftarrow> binary_load opt inode mp s;
     if ret \<noteq> 0 then Some (s1, ret)
     else do {
       (s2, st) \<leftarrow> add_area mp USERMEM_STACK (MMA_RW OR MMA_STACK) s1;
       _ \<leftarrow> non_null st;
       let s3 = incr_nmma mp (set_mma st (\<lambda>m. m\<lparr>m_sizelim := USERMEM_STACKLIM\<rparr>) s2);
       (s4, hp) \<leftarrow> add_area mp USERMEM_HEAP (MMA_RW OR MMA_GROWS) s3;
       Some (incr_nmma mp s4, 0)
     }
   }"

definition start_thread :: "u32 \<Rightarrow> kernel \<Rightarrow> kernel option" where
  "start_thread t s = do {
     s1 \<leftarrow> tq_insert_head t TmpQ (tq_init TmpQ s);
     (s2, r) \<leftarrow> scheduler_enqueue TmpQ s1;
     _ \<leftarrow> bug_on (\<not> r);
     Some s2
   }"

definition spawn :: "bool \<Rightarrow> u32 \<Rightarrow> kernel \<Rightarrow> (kernel \<times> int) option" where
  "spawn opt path s = do {
     (s1, dent) \<leftarrow> lookup_path path s;
     if dent = 0 then Some (s1, - ENOENT)
     else do {
       let inode = d_inode (dent_of s1 dent);
       (s2, t) \<leftarrow> thread_create_user (syms s1 User_thread) path 0 s1;
       if t = 0 then Some (s2, - ENOMEM)
       else do {
         (s3, ret) \<leftarrow> thread_exec_new opt t inode s2;
         if ret \<noteq> 0 then Some (s3, ret)
         else do {
           s4 \<leftarrow> start_thread t s3;
           Some (s4, 0)
         }
       }
     }
   }"

fun put_areas :: "u32 \<Rightarrow> nat list \<Rightarrow> kernel \<Rightarrow> kernel option" where
  "put_areas mp [] s = Some s"
| "put_areas mp (i # is) s = do {
     s1 \<leftarrow> mem_area_put (m_mma (mapping_of s mp) i) s;
     put_areas mp is (set_map_mma mp i 0 s1)
   }"

definition thread_exec :: "bool \<Rightarrow> u32 \<Rightarrow> u32 \<Rightarrow> kernel \<Rightarrow> (kernel \<times> outcome) option" where
  "thread_exec opt t path s = do {
     (s1, dent) \<leftarrow> lookup_path path s;
     if dent = 0 then Some (s1, Ret (- ENOENT))
     else do {
       let inode = d_inode (dent_of s1 dent);
       let mp = t_map (threads s1 t);
       s2 \<leftarrow> put_areas mp [0..<unat (m_nmma (mapping_of s1 mp))] s1;
       (s3, r) \<leftarrow> thread_exec_new opt t inode (set_mapping mp (\<lambda>m. m\<lparr>m_nmma := 0\<rparr>) s2);
       if r \<noteq> 0 then Some (s3, Ret r)
       else do {
         (s4, _) \<leftarrow> k_snprintf_at (t + T_NAME) THREAD_NAME_LEN path [] s3;
         if t = CURRENT s4 then Some (user_thread (switch_map (t_map (threads s4 (CURRENT s4))) mp s4))
         else Some (thread_init_stack t (syms s4 User_thread) 0 s4, Ret 0)
       }
     }
   }"

section \<open>Fork\<close>

definition forker :: "kernel \<Rightarrow> kernel \<times> outcome" where
  "forker s =
    (let p = CURRENT s AND NOPAGE_MASK; s1 = reset_stack s
     in (s1, Start_user (load_word s1 p) (USERMEM_STACK + of_nat PAGE_SIZE - 4) (load_word s1 (p + 4))))"

definition prepare_fork :: "u32 \<Rightarrow> kernel \<Rightarrow> kernel" where
  "prepare_fork t s =
    (let p = CURRENT s - 24; d = t AND NOPAGE_MASK; s1 = store_word d (load_word s p) s
     in store_word (d + 4) (load_word s1 (p + 12)) s1)"

definition fork :: "kernel \<Rightarrow> (kernel \<times> int) option" where
  "fork s = do {
     let me = CURRENT s;
     (s1, t) \<leftarrow> thread_create_user (syms s Forker) (me + T_NAME) 0 s;
     if t = 0 then Some (s1, - ENOMEM)
     else do {
       let mp = t_map (threads s1 t);
       let old = (\<lambda>i. m_mma (mapping_of s1 (t_map (threads s1 me))) i);
       (s2, a0) \<leftarrow> mem_area_clone mp (old 0) s1;
       (s3, a1) \<leftarrow> mem_area_copy mp (old 1) (set_map_mma mp 0 a0 s2);
       (s4, a2) \<leftarrow> mem_area_copy mp (old 2) (set_map_mma mp 1 a1 s3);
       (s5, a3) \<leftarrow> mem_area_copy mp (old 3) (set_map_mma mp 2 a2 s4);
       let s6 = set_mapping mp (\<lambda>m. m\<lparr>m_nmma := 4\<rparr>) (set_map_mma mp 3 a3 s5);
       s7 \<leftarrow> start_thread t (prepare_fork t s6);
       Some (s7, uint (pid (threads s7 t)))
     }
   }"

section \<open>System calls\<close>

text \<open>\<^verbatim>\<open>__SYS_exit\<close> has no return of its own and goes on with \<^verbatim>\<open>__SYS_sbrk\<close>.  Results are 32-bit values.\<close>

definition ret :: "(kernel \<times> int) option \<Rightarrow> (kernel \<times> outcome) option" where
  "ret r = map_option (\<lambda>(s, v). (s, Ret v)) r"

definition ret32 :: "kernel \<times> u32 \<Rightarrow> (kernel \<times> outcome) option" where
  "ret32 r = Some (fst r, Ret (uint (snd r)))"

definition sys_call_gate ::
    "(kernel \<Rightarrow> kernel option) \<Rightarrow> bool \<Rightarrow> u32 \<Rightarrow> u32 \<Rightarrow> u32 \<Rightarrow> u32 \<Rightarrow> u32 \<Rightarrow> kernel \<Rightarrow> (kernel \<times> outcome) option" where
  "sys_call_gate others opt eax ebx ecx edx esi s =
    (if eax = 0 then Some (s, Ret 0)
     else if eax = 1 then ret (open_fd ebx ecx edx s)
     else if eax = 2 then ret (close_fd (sint ebx) s)
     else if eax = 3 then ret (read_fd others (sint ebx) ecx edx s)
     else if eax = 4 then ret (write_fd others (sint ebx) ecx edx s)
     else if eax = 12 then ret (readdir (sint ebx) ecx (sint edx) s)
     else if eax = 5 then ret (tsleep ebx s)
     else if eax = 6 then ret (fork s)
     else if eax = 7 then do { s1 \<leftarrow> scheduler_yield s; Some (s1, Ret 0) }
     else if eax = 8 then Some (s, Ret (uint (pid (threads s (CURRENT s)))))
     else if eax = 9 then thread_exec opt (CURRENT s) ebx s
     else if eax = 10 then ret (msg_send ebx ecx edx esi s)
     else if eax = 11 then ret (msg_retrieve others ebx ecx edx esi s)
     else if eax = 13 then ret (mpipe_open ebx s)
     else if eax = 14 then ret32 (sbrk ebx (exit (sint ebx) s))
     else if eax = 15 then ret32 (sbrk ebx s)
     else if eax = 16 then ret32 (brk ebx s)
     else if eax = 17 then ret (stat ebx ecx s)
     else if eax = 18 then ret (mpipe_open2 (sint ebx) s)
     else Some (s, Ret (- ENOSYS)))"

section \<open>Boot\<close>

text \<open>
  The machine at boot: the kernel state and the processor tables and screen outside it.  The addresses of the
  entry stubs are inputs.
\<close>

record machine =
  kern :: kernel
  mach_gdt :: gdt
  mach_idt :: idt
  mach_tss :: tss_segment
  mach_vga :: vga

record boot_info =
  mem_upper :: u32
  kernel_end :: u32
  root_tss :: u32
  irq_pre_handler :: "nat \<Rightarrow> u32"
  ud2_entry :: u32
  general_protection :: u32
  pf_entry :: u32
  sys_call_entry :: u32
  opts :: console_opts
  aout_support :: bool
  initfns :: "initfn list"

definition mach_start :: "boot_info \<Rightarrow> machine \<Rightarrow> machine option" where
  "mach_start b m = do {
     let v = early_console_init (opts b) (mach_vga m);
     let (g, t) = init_root_tss (root_tss b) (mach_gdt m) (mach_tss m);
     let (p, i) = interrupts_init (irq_pre_handler b) (kpic (kdrv (kern m))) (mach_idt m);
     let i' = trap_init (ud2_entry b) (general_protection b) (pf_entry b) (sys_call_entry b) i;
     (k, _) \<leftarrow> timer_init (set_drv (\<lambda>d. d\<lparr>kpic := p\<rparr>) (kern m));
     Some (m\<lparr>kern := k, mach_gdt := g, mach_idt := i', mach_tss := t, mach_vga := v\<rparr>)
   }"

definition mach_running :: "kernel \<Rightarrow> kernel option" where
  "mach_running s = scheduler_start (local_irq_enable (s\<lparr>mach_state_running := True\<rparr>))"

text \<open>\<^verbatim>\<open>kern_start\<close> up to its last call, which leaves the boot stack and enters \<^verbatim>\<open>kernel_main_thread\<close>.\<close>

definition kern_start :: "boot_info \<Rightarrow> machine \<Rightarrow> machine option" where
  "kern_start b m = do {
     m1 \<leftarrow> mach_start b m;
     s1 \<leftarrow> init_mem_info (mem_upper b) (kernel_end b) (kern m1);
     s2 \<leftarrow> paging_init s1;
     g \<leftarrow> galloc_init (heap s2);
     s3 \<leftarrow> kqueue_init (s2\<lparr>heap := g\<rparr>);
     s4 \<leftarrow> timers_init s3;
     s5 \<leftarrow> map_option scheduler_init (sched0_load s4);
     (s6, t) \<leftarrow> thread_create (syms s5 Kernel_main_thread) (syms s5 (Lit ''GOD'')) 0 s5;
     _ \<leftarrow> bug_on (t = 0);
     Some (m1\<lparr>kern := thread_switch_to t s6\<rparr>)
   }"

definition load_init :: "bool \<Rightarrow> kernel \<Rightarrow> kernel option" where
  "load_init opt s = do {
     (s1, r) \<leftarrow> spawn opt (syms s (Lit ''/sbin/init'')) s;
     s2 \<leftarrow> (if r \<noteq> 0 then map_option fst (spawn opt (syms s1 (Lit ''/bin/init'')) s1) else Some s1);
     s3 \<leftarrow> (if r \<noteq> 0 then map_option fst (spawn opt (syms s2 (Lit ''/kosrc'')) s2) else Some s2);
     if r \<noteq> 0 then bug else Some s3
   }"

text \<open>\<^verbatim>\<open>kernel_main_thread\<close> up to its idle loop; \<open>run_tests\<close> stands for the tests configured in.\<close>

definition kernel_main_thread :: "(kernel \<Rightarrow> kernel option) \<Rightarrow> boot_info \<Rightarrow> kernel \<Rightarrow> kernel option" where
  "kernel_main_thread run_tests b s = do {
     s1 \<leftarrow> start_thread (CURRENT s) s;
     s2 \<leftarrow> mach_running s1;
     s3 \<leftarrow> fs_init s2;
     s4 \<leftarrow> call_late_init (initfns b) s3;
     s5 \<leftarrow> run_tests s4;
     load_init (aout_support b) s5
   }"

end
