(* ===== verification/Vm_Props.thy ===== *)
theory Vm_Props
  imports Vm
begin

text \<open>
  Page tables (\<^verbatim>\<open>arch/i386/paging.c\<close>): what mapping and unmapping pages does to the translation of every address, and where
  the tables of a cloned map lie.
\<close>

section \<open>Addresses, pages and offsets\<close>

definition page_aligned :: "u32 \<Rightarrow> bool" where
  "page_aligned p \<longleftrightarrow> p AND PAGE_MASK = 0"

definition in_page :: "u32 \<Rightarrow> bool" where
  "in_page x \<longleftrightarrow> (\<forall>k\<ge>12. \<not> bit x k)"

lemma masks: "PAGE_MASK = mask 12" "NOPAGE_MASK = NOT (mask 12)" "PGD_MASK = NOT (mask 22)" "PGT_MASK = mask 22 AND NOT (mask 12)"
  by (simp_all add: PAGE_MASK_def NOPAGE_MASK_def PGD_MASK_def PGT_MASK_def mask_eq_exp_minus_1)

lemma bit32: "bit x k \<Longrightarrow> k < 32" for x :: u32
  using bit_imp_le_length [of x k] by simp

lemma page_aligned_bits: "page_aligned p \<longleftrightarrow> (\<forall>k<12. \<not> bit p k)"
  by (auto simp: page_aligned_def masks bit_eq_iff bit_simps) (blast dest: bit32)

lemma bit_pde_off: "bit (4 * PGDIDX a) k \<longleftrightarrow> 2 \<le> k \<and> k < 12 \<and> bit a (20 + k)"
proof -
  have "4 * PGDIDX a = push_bit 2 (drop_bit 22 a)" by (simp add: PGDIDX_def PGD_SHIFT_def push_bit_eq_mult)
  then show ?thesis by (auto simp: bit_simps dest: bit_imp_le_length)
qed

lemma bit_pte_off: "bit (4 * PGTIDX a) k \<longleftrightarrow> 2 \<le> k \<and> k < 12 \<and> bit a (10 + k)"
proof -
  have "4 * PGTIDX a = push_bit 2 (drop_bit 12 (a AND (mask 22 AND NOT (mask 12))))"
    by (simp add: PGTIDX_def PGT_SHIFT_def push_bit_eq_mult masks)
  then show ?thesis by (auto simp: bit_simps)
qed

lemma pde_off_eq: "drop_bit 20 (a AND PGD_MASK) = 4 * PGDIDX a"
  by (rule bit_word_eqI) (auto simp: bit_pde_off masks bit_simps dest: bit_imp_le_length)

lemma pte_off_eq: "drop_bit 10 (a AND PGT_MASK) = 4 * PGTIDX a"
  by (rule bit_word_eqI) (auto simp: bit_pte_off masks bit_simps dest: bit_imp_le_length)

lemma in_page_offs [simp]: "in_page (4 * PGDIDX a)" "in_page (4 * PGTIDX a)" "in_page (a AND PAGE_MASK)"
  by (auto simp: in_page_def bit_pde_off bit_pte_off masks bit_simps)

lemma aligned_add:
  assumes "page_aligned p" and "in_page x"
  shows "p + x = p OR x"
  using assms by (intro disjunctive_add) (metis page_aligned_bits in_page_def not_le)

lemma page_of_add:
  assumes "page_aligned p" and "in_page x"
  shows "(p + x) AND NOPAGE_MASK = p" and "(p + x) AND PAGE_MASK = x"
  using assms unfolding aligned_add [OF assms]
  by (auto simp: masks bit_eq_iff bit_simps page_aligned_bits in_page_def not_le)

lemma add_eq_iff:
  assumes "page_aligned p" "in_page x" "page_aligned q" "in_page y"
  shows "p + x = q + y \<longleftrightarrow> p = q \<and> x = y"
  using page_of_add [OF assms(1,2)] page_of_add [OF assms(3,4)] by metis

lemma aligned_nopage [simp]: "page_aligned (x AND NOPAGE_MASK)"
  by (auto simp: page_aligned_bits masks bit_simps)

lemma same_page_iff:
  "4 * PGDIDX a = 4 * PGDIDX b \<and> 4 * PGTIDX a = 4 * PGTIDX b \<longleftrightarrow> a AND NOPAGE_MASK = b AND NOPAGE_MASK"
proof
  assume l: "4 * PGDIDX a = 4 * PGDIDX b \<and> 4 * PGTIDX a = 4 * PGTIDX b"
  have "bit a k = bit b k" if "12 \<le> k" "k < 32" for k
  proof (cases "k < 22")
    case True
    then have "2 \<le> k - 10" "k - 10 < 12" using that by simp_all
    then show ?thesis using l that bit_pte_off [of a "k - 10"] bit_pte_off [of b "k - 10"] by simp
  next
    case False
    then have "2 \<le> k - 20" "k - 20 < 12" using that by simp_all
    then show ?thesis using l that False bit_pde_off [of a "k - 20"] bit_pde_off [of b "k - 20"] by simp
  qed
  then show "a AND NOPAGE_MASK = b AND NOPAGE_MASK"
    by (intro bit_word_eqI) (auto simp: masks bit_simps)
next
  assume r: "a AND NOPAGE_MASK = b AND NOPAGE_MASK"
  have "bit a k = bit b k" if "12 \<le> k" for k
    using arg_cong [OF r, of "\<lambda>x. bit x k"] that by (auto simp: masks bit_simps dest: bit_imp_le_length)
  then show "4 * PGDIDX a = 4 * PGDIDX b \<and> 4 * PGTIDX a = 4 * PGTIDX b"
    by (intro conjI bit_word_eqI) (auto simp: bit_pde_off bit_pte_off)
qed

lemma page_split: "a = (a AND NOPAGE_MASK) + (a AND PAGE_MASK)"
proof -
  have "(a AND NOPAGE_MASK) OR (a AND PAGE_MASK) = a" by (rule bit_word_eqI) (auto simp: masks bit_simps)
  then show ?thesis by (simp add: aligned_add)
qed

lemma diff_of_sum: "a = v + x + l \<Longrightarrow> a - v = x + l" for a :: u32
  by simp

lemma page_aligned_dvd: "page_aligned p \<longleftrightarrow> 4096 dvd unat p"
proof -
  have "unat (p AND PAGE_MASK) = take_bit 12 (unat p)"
    unfolding masks take_bit_eq_mask [symmetric] by (rule unsigned_take_bit_eq)
  then have "unat (p AND PAGE_MASK) = unat p mod 4096" by (simp add: take_bit_eq_mod)
  then show ?thesis by (metis page_aligned_def dvd_eq_mod_eq_0 unat_eq_zero)
qed

lemma in_page_less: "in_page x \<longleftrightarrow> unat x < 4096"
proof -
  have "in_page x \<longleftrightarrow> take_bit 12 x = x"
    by (auto simp: in_page_def bit_eq_iff bit_simps dest: bit32) (meson bit32 not_le)
  also have "\<dots> \<longleftrightarrow> take_bit 12 (unat x) = unat x"
    unfolding unsigned_take_bit_eq [symmetric] word_unat_eq_iff ..
  also have "\<dots> \<longleftrightarrow> unat x < 4096"
    by (simp add: take_bit_nat_eq_self_iff)
  finally show ?thesis .
qed

lemma unat_add_of_nat: "unat (p + of_nat k :: u32) = (unat p + k) mod 2 ^ 32"
  by (simp add: unat_word_ariths unat_of_nat mod_add_right_eq)

lemma page_aligned_add: "page_aligned p \<Longrightarrow> page_aligned (p + of_nat (4096 * i))"
proof -
  assume "page_aligned p"
  then have d: "4096 dvd unat p" by (simp add: page_aligned_dvd)
  have "4096 dvd unat p + 4096 * i" using d by simp
  then have "4096 dvd (unat p + 4096 * i) mod 2 ^ 32"
    by (rule dvd_mod) simp
  then show ?thesis unfolding page_aligned_dvd unat_add_of_nat .
qed

lemma page_index:
  assumes v: "page_aligned v" and i: "i < 2 ^ 20"
  shows "a AND NOPAGE_MASK = (v + of_nat (4096 * i)) AND NOPAGE_MASK \<longleftrightarrow> unat (a - v) div 4096 = i"
proof -
  let ?w = "v + of_nat (4096 * i)"
  note w = page_aligned_add [OF v, of i]
  have "page_aligned 0" by (simp add: page_aligned_def)
  have z: "in_page 0" by (simp add: in_page_def)
  have wn: "?w AND NOPAGE_MASK = ?w" using page_of_add(1) [OF w z] by simp
  show ?thesis
  proof
    assume "a AND NOPAGE_MASK = ?w AND NOPAGE_MASK"
    then have "a = ?w + (a AND PAGE_MASK)" using page_split [of a] wn by simp
    then have d: "a - v = of_nat (4096 * i) + (a AND PAGE_MASK)" by (rule diff_of_sum)
    have x: "unat (a AND PAGE_MASK) < 4096" using in_page_offs(3) in_page_less by blast
    then have "unat (a - v) = 4096 * i + unat (a AND PAGE_MASK)"
      unfolding d using i by (simp add: unat_word_ariths unat_of_nat)
    then show "unat (a - v) div 4096 = i" using x by simp
  next
    assume q: "unat (a - v) div 4096 = i"
    let ?r = "unat (a - v) mod 4096"
    have r: "4096 * i + ?r = unat (a - v)" unfolding q [symmetric] by (rule mult_div_mod_eq)
    have "a = v + of_nat (4096 * i + ?r)"
      unfolding r using eq_offset_iff [OF unat_less32, of a v "a - v"] by simp
    then have "a = ?w + of_nat ?r" by (simp only: of_nat_add add.assoc)
    moreover have "in_page (of_nat ?r)" by (simp add: in_page_less unat_of_nat)
    ultimately have "a AND NOPAGE_MASK = ?w" using page_of_add(1) [OF w] by metis
    then show "a AND NOPAGE_MASK = ?w AND NOPAGE_MASK" unfolding wn .
  qed
qed

section \<open>Translation\<close>

text \<open>The page table and the entry that the processor uses for an address under the current page directory.\<close>

definition table_of :: "kernel \<Rightarrow> u32 \<Rightarrow> u32" where
  "table_of s a = load_word s (cr3 (kcpu s) + 4 * PGDIDX a) AND NOPAGE_MASK"

definition entry_of :: "kernel \<Rightarrow> u32 \<Rightarrow> u32" where
  "entry_of s a = load_word s (table_of s a + 4 * PGTIDX a)"

text \<open>Every directory entry has a table of its own, and no table is the directory.\<close>

definition tables_ok :: "kernel \<Rightarrow> bool" where
  "tables_ok s \<longleftrightarrow> page_aligned (cr3 (kcpu s)) \<and> (\<forall>a. table_of s a \<noteq> cr3 (kcpu s)) \<and>
     (\<forall>a b. table_of s a = table_of s b \<longrightarrow> 4 * PGDIDX a = 4 * PGDIDX b)"

lemma load_store [simp]: "load_word (store_word p v s) q = (if q = p then v else load_word s q)"
  by (simp add: load_word_def store_word_def set_slab_def)

lemma store_word_simps [simp]:
  "kcpu (store_word p v s) = kcpu s" "mapping_of (store_word p v s) = mapping_of s" "kvm (store_word p v s) = kvm s"
  by (simp_all add: store_word_def set_slab_def mapping_of_def fun_eq_iff)

lemma virt2phys_entry: "virt2phys a s = (a AND PAGE_MASK) OR (entry_of s a AND NOPAGE_MASK)"
  unfolding virt2phys_def entry_of_def table_of_def pde_off_eq pte_off_eq Let_def by (simp only: add.commute)

lemma table_aligned [simp]: "page_aligned (table_of s a)"
  by (simp add: table_of_def)

lemma tables_okD:
  assumes "tables_ok s"
  shows "page_aligned (cr3 (kcpu s))" "table_of s a \<noteq> cr3 (kcpu s)"
    and "table_of s a + 4 * PGTIDX a \<noteq> cr3 (kcpu s) + 4 * PGDIDX b"
    and "table_of s a + 4 * PGTIDX a = table_of s b + 4 * PGTIDX b \<longleftrightarrow> a AND NOPAGE_MASK = b AND NOPAGE_MASK"
proof -
  show al: "page_aligned (cr3 (kcpu s))" and ne: "table_of s a \<noteq> cr3 (kcpu s)"
    using assms by (simp_all add: tables_ok_def)
  show "table_of s a + 4 * PGTIDX a \<noteq> cr3 (kcpu s) + 4 * PGDIDX b"
    using ne al by (simp add: add_eq_iff)
  have "table_of s a = table_of s b \<longleftrightarrow> 4 * PGDIDX a = 4 * PGDIDX b"
    using assms by (auto simp: tables_ok_def table_of_def)
  then show "table_of s a + 4 * PGTIDX a = table_of s b + 4 * PGTIDX b \<longleftrightarrow> a AND NOPAGE_MASK = b AND NOPAGE_MASK"
    unfolding same_page_iff [symmetric] by (simp add: add_eq_iff del: mult_cancel_left)
qed

lemma or_present_nopage: "(x OR PTF_PRESENT) AND NOPAGE_MASK = x AND NOPAGE_MASK"
  by (rule bit_word_eqI) (auto simp: masks PTF_PRESENT_def bit_simps)

lemma map_page_entries:
  fixes v phys :: u32 and flags :: u16
  assumes ok: "tables_ok s" and dir: "m_pgdir (mapping_of s mp) = cr3 (kcpu s)"
  defines "s' \<equiv> map_page mp v phys flags s"
  shows "table_of s' a = table_of s a" and "tables_ok s'" and "kcpu s' = kcpu s" and "mapping_of s' = mapping_of s"
    and "entry_of s' a =
      (if a AND NOPAGE_MASK = v AND NOPAGE_MASK then phys OR PTF_PRESENT OR PTF_USER OR ucast flags else entry_of s a)"
    and "load_word s' (cr3 (kcpu s) + 4 * PGDIDX v) AND PTF_PRESENT \<noteq> 0"
proof -
  let ?pde = "cr3 (kcpu s) + 4 * PGDIDX v"
  have s': "s' = store_word (table_of s v + 4 * PGTIDX v) (phys OR PTF_PRESENT OR PTF_USER OR ucast flags)
      (store_word ?pde (load_word s ?pde OR PTF_PRESENT) s)"
    by (simp add: s'_def map_page_def dir table_of_def Let_def)
  note d = tables_okD [OF ok]
  show k: "kcpu s' = kcpu s" and "mapping_of s' = mapping_of s" by (simp_all add: s')
  show t: "table_of s' a = table_of s a" for a
    using d(3) [of v a] unfolding table_of_def [of s'] k
    by (auto simp: s' or_present_nopage table_of_def simp del: mult_cancel_left add_left_cancel)
  show "tables_ok s'" using ok unfolding tables_ok_def t k .
  show "entry_of s' a =
      (if a AND NOPAGE_MASK = v AND NOPAGE_MASK then phys OR PTF_PRESENT OR PTF_USER OR ucast flags else entry_of s a)"
    unfolding entry_of_def [of s'] t using d(3) [of a v] d(4) [of a v] by (simp add: s' entry_of_def)
  show "load_word s' (cr3 (kcpu s) + 4 * PGDIDX v) AND PTF_PRESENT \<noteq> 0"
    using d(3) [of v v] by (simp add: s' PTF_PRESENT_def bit_eq_iff bit_simps exI [of _ 0])
qed

lemma unmap_page_entries:
  fixes v :: u32
  assumes ok: "tables_ok s" and dir: "m_pgdir (mapping_of s mp) = cr3 (kcpu s)"
  defines "s' \<equiv> unmap_page mp v s"
  shows "table_of s' a = table_of s a"
    and "entry_of s' a = (if a AND NOPAGE_MASK = v AND NOPAGE_MASK then 0 else entry_of s a)"
proof -
  have s': "s' = store_word (table_of s v + 4 * PGTIDX v) 0 s"
    by (simp add: s'_def unmap_page_def dir table_of_def)
  note d = tables_okD [OF ok]
  show t: "table_of s' a = table_of s a" for a
    using d(3) [of v a] unfolding table_of_def [of s'] by (simp add: s' table_of_def)
  show "entry_of s' a = (if a AND NOPAGE_MASK = v AND NOPAGE_MASK then 0 else entry_of s a)"
    unfolding entry_of_def [of s'] t using d(4) [of a v] by (simp add: s' entry_of_def)
qed

text \<open>What \<^verbatim>\<open>map_page\<close> writes, read back as an address and flags.\<close>

lemma entry_parts:
  assumes "page_aligned phys" and "unat flags < PAGE_SIZE"
  shows "(phys OR PTF_PRESENT OR PTF_USER OR ucast flags) AND NOPAGE_MASK = phys"
    and "(phys OR PTF_PRESENT OR PTF_USER OR ucast (flags :: u16)) AND PTF_PRESENT \<noteq> 0"
proof -
  have "unat (ucast flags :: u32) < 4096" using assms(2) by (simp add: PAGE_SIZE_def unsigned_ucast_eq take_bit_eq_mod)
  then have "in_page (ucast flags)" by (simp add: in_page_less)
  moreover have "in_page PTF_PRESENT" "in_page PTF_USER" by (simp_all add: in_page_less PTF_PRESENT_def PTF_USER_def)
  ultimately show "(phys OR PTF_PRESENT OR PTF_USER OR ucast flags) AND NOPAGE_MASK = phys"
    using assms(1) by (intro bit_word_eqI) (auto simp: masks bit_simps page_aligned_bits in_page_def not_le)
  show "(phys OR PTF_PRESENT OR PTF_USER OR ucast flags) AND PTF_PRESENT \<noteq> 0"
    by (simp add: PTF_PRESENT_def bit_eq_iff bit_simps exI [of _ 0])
qed

text \<open>Whether the directory entry of an address is present.\<close>

definition pde_present :: "kernel \<Rightarrow> u32 \<Rightarrow> bool" where
  "pde_present s a \<longleftrightarrow> load_word s (cr3 (kcpu s) + 4 * PGDIDX a) AND PTF_PRESENT \<noteq> 0"

lemma PGDIDX_eq_iff: "4 * PGDIDX a = 4 * PGDIDX b \<longleftrightarrow> PGDIDX a = PGDIDX b"
proof
  assume e: "4 * PGDIDX a = 4 * PGDIDX b"
  have "bit (PGDIDX a) k \<longleftrightarrow> bit (PGDIDX b) k" if "k < 32" for k
  proof (cases "k < 10")
    case True
    then show ?thesis using e bit_pde_off [of a "k + 2"] bit_pde_off [of b "k + 2"]
      by (simp add: PGDIDX_def PGD_SHIFT_def bit_simps add.commute)
  next
    case False
    then show ?thesis by (auto simp: PGDIDX_def PGD_SHIFT_def bit_simps dest: bit32)
  qed
  then show "PGDIDX a = PGDIDX b" by (intro bit_word_eqI) simp
qed simp

lemma linear_user:
  assumes "\<not> in_kernel a"
  shows "linear s a = (if \<not> pde_present s a \<or> entry_of s a AND PTF_PRESENT = 0 then None else Some (virt2phys a s))"
  using assms by (simp add: linear_def virt2phys_entry entry_of_def table_of_def pde_present_def Let_def or.commute)

text \<open>The state after the first \<open>n\<close> pages of a range have been mapped.\<close>

definition range_mapped :: "u32 \<Rightarrow> u32 \<Rightarrow> u16 \<Rightarrow> nat \<Rightarrow> kernel \<Rightarrow> kernel \<Rightarrow> bool" where
  "range_mapped v phys flags n s s' \<longleftrightarrow> tables_ok s' \<and> kcpu s' = kcpu s \<and> mapping_of s' = mapping_of s \<and>
     (\<forall>a. table_of s' a = table_of s a) \<and>
     (\<forall>a. entry_of s' a = (if unat (a - v) div 4096 < n
        then (phys + of_nat (4096 * (unat (a - v) div 4096))) OR PTF_PRESENT OR PTF_USER OR ucast flags else entry_of s a)) \<and>
     (\<forall>a. pde_present s' a \<longleftrightarrow> pde_present s a \<or> (\<exists>b. unat (b - v) div 4096 < n \<and> PGDIDX b = PGDIDX a))"

lemma range_mappedD:
  assumes "range_mapped v phys flags n s s'"
  shows "tables_ok s'" "kcpu s' = kcpu s" "mapping_of s' = mapping_of s"
    and "unat (a - v) div 4096 < n \<Longrightarrow>
      entry_of s' a = (phys + of_nat (4096 * (unat (a - v) div 4096))) OR PTF_PRESENT OR PTF_USER OR ucast flags"
    and "\<not> unat (a - v) div 4096 < n \<Longrightarrow> entry_of s' a = entry_of s a"
    and "pde_present s' a \<longleftrightarrow> pde_present s a \<or> (\<exists>b. unat (b - v) div 4096 < n \<and> PGDIDX b = PGDIDX a)"
  using assms unfolding range_mapped_def by (blast, blast, blast, metis, metis, blast)

lemma map_page_present:
  assumes "tables_ok s" and "m_pgdir (mapping_of s mp) = cr3 (kcpu s)"
  shows "pde_present (map_page mp v phys flags s) a \<longleftrightarrow> pde_present s a \<or> PGDIDX a = PGDIDX v"
proof -
  let ?pde = "cr3 (kcpu s) + 4 * PGDIDX a"
  have k: "kcpu (map_page mp v phys flags s) = kcpu s" by (rule map_page_entries(3) [OF assms])
  have "load_word (map_page mp v phys flags s) ?pde =
      (if ?pde = cr3 (kcpu s) + 4 * PGDIDX v then load_word s ?pde OR PTF_PRESENT else load_word s ?pde)"
    using tables_okD(3) [OF assms(1), of v a]
    by (simp add: map_page_def assms(2) table_of_def [symmetric] Let_def del: add_left_cancel mult_cancel_left)
  moreover have "?pde = cr3 (kcpu s) + 4 * PGDIDX v \<longleftrightarrow> PGDIDX a = PGDIDX v"
    unfolding add_left_cancel PGDIDX_eq_iff ..
  moreover have "(x OR PTF_PRESENT) AND PTF_PRESENT \<noteq> 0" for x
    by (simp add: PTF_PRESENT_def bit_eq_iff bit_simps exI [of _ 0])
  ultimately show ?thesis unfolding pde_present_def k by (cases "PGDIDX a = PGDIDX v") simp_all
qed

lemma PGDIDX_page: "a AND NOPAGE_MASK = b AND NOPAGE_MASK \<Longrightarrow> PGDIDX a = PGDIDX b"
  using same_page_iff PGDIDX_eq_iff by blast

lemma range_mapped_step:
  assumes r: "range_mapped v phys flags n s s'" and v: "page_aligned v" and n: "n < 2 ^ 20"
    and dir: "m_pgdir (mapping_of s mp) = cr3 (kcpu s)"
  shows "range_mapped v phys flags (Suc n) s
    (map_page mp (v + of_nat (PAGE_SIZE * n)) (phys + of_nat (PAGE_SIZE * n)) flags s')"
proof -
  let ?v = "v + of_nat (4096 * n)"
  have ok: "tables_ok s'" and dir': "m_pgdir (mapping_of s' mp) = cr3 (kcpu s')" and k: "kcpu s' = kcpu s"
    using r dir by (auto simp: range_mapped_def)
  note e = map_page_entries [OF ok dir', of ?v "phys + of_nat (4096 * n)" flags]
  have pres: "pde_present (map_page mp ?v (phys + of_nat (4096 * n)) flags s') a \<longleftrightarrow>
      pde_present s a \<or> (\<exists>b. unat (b - v) div 4096 < Suc n \<and> PGDIDX b = PGDIDX a)" for a
  proof -
    have here: "(\<exists>b. unat (b - v) div 4096 = n \<and> PGDIDX b = PGDIDX a) \<longleftrightarrow> PGDIDX a = PGDIDX ?v"
      using page_index [OF v n] PGDIDX_page by metis
    have "pde_present s' a \<longleftrightarrow> pde_present s a \<or> (\<exists>b. unat (b - v) div 4096 < n \<and> PGDIDX b = PGDIDX a)"
      using r unfolding range_mapped_def by blast
    then show ?thesis
      unfolding map_page_present [OF ok dir'] here [symmetric] less_Suc_eq by blast
  qed
  have old: "table_of s' a = table_of s a"
    "entry_of s' a = (if unat (a - v) div 4096 < n
        then (phys + of_nat (4096 * (unat (a - v) div 4096))) OR PTF_PRESENT OR PTF_USER OR ucast flags else entry_of s a)" for a
    using r unfolding range_mapped_def by blast+
  have new: "entry_of (map_page mp ?v (phys + of_nat (4096 * n)) flags s') a = (if unat (a - v) div 4096 < Suc n
        then (phys + of_nat (4096 * (unat (a - v) div 4096))) OR PTF_PRESENT OR PTF_USER OR ucast flags else entry_of s a)" for a
    unfolding e(5) old(2) page_index [OF v n] by (cases "unat (a - v) div 4096 = n") (simp_all only: less_Suc_eq simp_thms if_True if_False)
  have mp: "mapping_of s' = mapping_of s" using r unfolding range_mapped_def by blast
  show ?thesis
    unfolding range_mapped_def PAGE_SIZE_def
    by (intro conjI allI impI) (fact e(2), simp only: e(3) k, simp only: e(4) mp, simp only: e(1) old(1), rule new, rule pres)
qed

lemma map_pages_range:
  assumes "tables_ok s" and "m_pgdir (mapping_of s mp) = cr3 (kcpu s)" and "page_aligned v" and "n \<le> 2 ^ 20"
  shows "range_mapped v phys flags n s
    (fold (\<lambda>i. map_page mp (v + of_nat (PAGE_SIZE * i)) (phys + of_nat (PAGE_SIZE * i)) flags) [0..<n] s)"
  using assms(4)
proof (induction n)
  case 0
  then show ?case using assms(1) by (simp add: range_mapped_def)
next
  case (Suc n)
  then show ?case using range_mapped_step [OF _ assms(3) _ assms(2)] by simp
qed

section \<open>Cloning a map\<close>

lemma set_mapping_simps [simp]:
  "mapping_of (set_mapping m f s) = (mapping_of s)(m := f (mapping_of s m))" "load_word (set_mapping m f s) = load_word s"
  "kcpu (set_mapping m f s) = kcpu s" "kmm_of (set_mapping m f s) = kmm_of s" "phys_pgs (kvm (set_mapping m f s)) = phys_pgs (kvm s)"
  by (simp_all add: set_mapping_def mapping_of_def load_word_def set_vm_def fun_eq_iff kmm_of_def)

lemma set_kmm_simps [simp]:
  "load_word (set_kmm m s) = load_word s" "mapping_of (set_kmm m s) = mapping_of s" "kvm (set_kmm m s) = kvm s" "kmm_of (set_kmm m s) = m"
  by (simp_all add: set_kmm_def set_slab_def load_word_def mapping_of_def fun_eq_iff kmm_of_def)

lemma in_page_index [simp]: "i < 1024 \<Longrightarrow> in_page (4 * of_nat i)"
  by (simp add: in_page_less unat_word_ariths unat_of_nat)

lemma copy_entries_other:
  assumes "page_aligned p" "page_aligned q" "p \<noteq> q" "in_page x" and "n \<le> 1024"
  shows "load_word (fold (copy_entry p src) [0..<n] s) (q + x) = load_word s (q + x) \<and>
    mapping_of (fold (copy_entry p src) [0..<n] s) = mapping_of s"
  using assms(5)
proof (induction n)
  case (Suc n)
  have "q + x \<noteq> p + 4 * of_nat n" using assms Suc.prems by (subst add_eq_iff) auto
  then show ?case using Suc by (simp add: copy_entry_def)
qed simp

text \<open>The loop of \<^verbatim>\<open>clone_map\<close> after \<open>n\<close> entries: source directory \<open>S\<close>, new directory \<open>D\<close>, tables from \<open>T\<close> on.\<close>

definition cloned :: "u32 \<Rightarrow> u32 \<Rightarrow> u32 \<Rightarrow> nat \<Rightarrow> kernel \<Rightarrow> kernel \<Rightarrow> bool" where
  "cloned S D T n s s' \<longleftrightarrow> mapping_of s' = mapping_of s \<and>
     (\<forall>i<n. load_word s' (D + 4 * of_nat i) AND NOPAGE_MASK = T + of_nat (4096 * i)) \<and>
     (\<forall>i<1024. load_word s' (S + 4 * of_nat i) = load_word s (S + 4 * of_nat i))"

lemma flags_or_table:
  assumes "page_aligned t"
  shows "((x AND PAGE_MASK) OR t) AND NOPAGE_MASK = t" and "((x AND PAGE_MASK) OR t) AND PTF_PRESENT = x AND PTF_PRESENT"
  using assms
  by (auto intro!: bit_word_eqI simp: masks PTF_PRESENT_def bit_simps page_aligned_bits)

lemma clone_entry_step:
  assumes c: "cloned S D T n s s'" and n: "n < 1024"
    and dirs: "m_pgdir (mapping_of s mp) = S" "m_pgdir (mapping_of s dst) = D"
    and al: "page_aligned S" "page_aligned D" "page_aligned T" and ne: "S \<noteq> D"
    and pres: "load_word s (S + 4 * of_nat n) AND PTF_PRESENT \<noteq> 0 \<Longrightarrow> T + of_nat (4096 * n) \<notin> {S, D}"
  shows "cloned S D T (Suc n) s (clone_entry dst mp (T + of_nat (4096 * n)) n s')"
proof -
  let ?t = "T + of_nat (4096 * n)" and ?d = "D + 4 * of_nat n" and ?x = "load_word s' (S + 4 * of_nat n)"
  let ?u = "store_word ?d ((?x AND PAGE_MASK) OR ?t) (store_word ?d (?x AND PAGE_MASK) s')"
  have t: "page_aligned ?t" by (rule page_aligned_add [OF al(3)])
  have m: "mapping_of s' = mapping_of s" and S: "i < 1024 \<Longrightarrow> load_word s' (S + 4 * of_nat i) = load_word s (S + 4 * of_nat i)"
    and D: "i < n \<Longrightarrow> load_word s' (D + 4 * of_nat i) AND NOPAGE_MASK = T + of_nat (4096 * i)" for i
    using c unfolding cloned_def by blast+
  have sd: "S + 4 * of_nat i \<noteq> ?d" if "i < 1024" for i :: nat
    using ne al n that by (subst add_eq_iff) auto
  have dd: "D + 4 * of_nat i \<noteq> ?d" if "i < n" for i
  proof
    assume "D + 4 * of_nat i = ?d"
    then have "(4 * of_nat i :: u32) = 4 * of_nat n" by simp
    then have "unat (4 * of_nat i :: u32) = unat (4 * of_nat n :: u32)" by simp
    then show False using that n by (simp add: unat_word_ariths unat_of_nat)
  qed
  have pr: "load_word ?u ?d AND PTF_PRESENT = load_word s (S + 4 * of_nat n) AND PTF_PRESENT"
    using flags_or_table(2) [OF t] S [OF n] by simp
  have e: "clone_entry dst mp ?t n s' =
      (if load_word ?u ?d AND PTF_PRESENT \<noteq> 0
       then fold (copy_entry ?t (load_word ?u (S + 4 * of_nat n) AND NOPAGE_MASK)) [0..<1024] ?u else ?u)"
    by (simp add: clone_entry_def m dirs Let_def PGT_ENTRIES_def PGD_SHIFT_def PGT_SHIFT_def)
  have u: "cloned S D T (Suc n) s ?u"
    unfolding cloned_def using S D sd dd flags_or_table(1) [OF t] m by (auto simp: less_Suc_eq simp del: of_nat_mult)
  show ?thesis
  proof (cases "load_word ?u ?d AND PTF_PRESENT = 0")
    case True
    then show ?thesis unfolding e using u by (simp only: simp_thms if_False)
  next
    case False
    then have "?t \<noteq> S" "?t \<noteq> D" using pres pr by auto
    note cp = copy_entries_other [OF t al(1) this(1)] copy_entries_other [OF t al(2) this(2)]
    have k: "load_word (fold (copy_entry ?t src) [0..<1024] ?u) (S + 4 * of_nat i) = load_word ?u (S + 4 * of_nat i)"
      "load_word (fold (copy_entry ?t src) [0..<1024] ?u) (D + 4 * of_nat i) = load_word ?u (D + 4 * of_nat i)"
      "mapping_of (fold (copy_entry ?t src) [0..<1024] ?u) = mapping_of ?u" if "i < 1024" for i src
      using cp(1) [OF in_page_index [OF that] le_refl] cp(2) [OF in_page_index [OF that] le_refl] by blast+
    have "cloned S D T (Suc n) s (fold (copy_entry ?t src) [0..<1024] ?u)" for src
      unfolding cloned_def k(3) [OF n]
    proof (intro conjI allI impI)
      show "mapping_of ?u = mapping_of s" using u unfolding cloned_def by blast
    next
      fix i assume i: "i < Suc n"
      then have "i < 1024" using n by simp
      then show "load_word (fold (copy_entry ?t src) [0..<1024] ?u) (D + 4 * of_nat i) AND NOPAGE_MASK = T + of_nat (4096 * i)"
        unfolding k(2) [OF \<open>i < 1024\<close>] using u i unfolding cloned_def by blast
    next
      fix i :: nat assume i: "i < 1024"
      show "load_word (fold (copy_entry ?t src) [0..<1024] ?u) (S + 4 * of_nat i) = load_word s (S + 4 * of_nat i)"
        unfolding k(1) [OF i] using u i unfolding cloned_def by blast
    qed
    then show ?thesis unfolding e using False by (simp only: simp_thms if_True)
  qed
qed

lemma clone_loop:
  assumes dirs: "m_pgdir (mapping_of s mp) = S" "m_pgdir (mapping_of s dst) = D"
    and al: "page_aligned S" "page_aligned D" "page_aligned T" and ne: "S \<noteq> D"
    and pres: "\<And>i. i < 1024 \<Longrightarrow> load_word s (S + 4 * of_nat i) AND PTF_PRESENT \<noteq> 0 \<Longrightarrow> T + of_nat (4096 * i) \<notin> {S, D}"
    and n: "n \<le> 1024"
  shows "cloned S D T n s (fold (\<lambda>d. clone_entry dst mp (T + of_nat (d * PAGE_SIZE)) d) [0..<n] s)"
  using n
proof (induction n)
  case 0
  then show ?case by (simp add: cloned_def)
next
  case (Suc n)
  then have "n < 1024" and c: "cloned S D T n s (fold (\<lambda>d. clone_entry dst mp (T + of_nat (d * PAGE_SIZE)) d) [0..<n] s)"
    by simp_all
  from clone_entry_step [OF c this(1) dirs al ne pres [OF this(1)]]
  show ?case by (simp add: PAGE_SIZE_def mult.commute)
qed

text \<open>Pages from the zone of the page tables.\<close>

definition kmem_ok :: "mm \<Rightarrow> bool" where
  "kmem_ok m \<longleftrightarrow> zone_ok 0 m \<and> zone_geom m"

lemma get_pages_ok:
  assumes ok: "kmem_ok m" and free: "pile_ok m 0 n k0" "pile_pages n k0 \<subseteq> zone_free 0 m"
  shows "\<exists>m' k. get_pages m 0 n = Some (m', of_nat (page_base m k)) \<and> kmem_ok m' \<and> mem_zone m' = mem_zone m \<and>
    pile_ok m 0 n k \<and> pile_pages n k \<subseteq> zone_free 0 m \<and> zone_free 0 m' = zone_free 0 m - pile_pages n k"
proof -
  obtain H L where inv: "zone_inv m H L 0" "lent H L 0 = {}" using ok by (auto simp: kmem_ok_def zone_ok_def)
  note F = zone_free_eq [OF inv(1)]
  have "find_level m 0 n \<noteq> None"
  proof
    assume "find_level m 0 n = None"
    then have "alloc_pages_zone m 0 n = Some (m, None)" using alloc_pages_zone_none [OF inv(1)] by blast
    then show False using alloc_pages_zone_null_iff [OF inv(1), of n] free F by auto
  qed
  then obtain i where "find_level m 0 n = Some i" by blast
  then obtain m' k L' where a: "alloc_pages_zone m 0 n = Some (m', Some (0, k))" "zone_inv m' H L' 0"
      "pile_ok m 0 n k" "pile_pages n k \<subseteq> free_set L 0" "free_set L' 0 = free_set L 0 - pile_pages n k"
      "off_levels 0 L L'" "mm_same m m' 0 (free_set L 0)"
    using alloc_pages_zone_some [OF inv(1)] by blast
  have mz: "mem_zone m' = mem_zone m" using a(7) by (simp add: mm_same_def)
  have g: "zone_geom m'" using ok by (simp add: kmem_ok_def zone_geom_def mz)
  have z: "zone_ok 0 m'" using a(2,6) off_levels_lent [of 0 L L' H] inv(2) by (auto simp: zone_ok_def)
  have "k < total_pages (mem_zone m' 0)" using a(3) by (auto simp: pile_ok_def mz intro: less_le_trans [of k "k + 2 ^ n"])
  from page_addr(1) [OF g zone_inv_pages [OF a(2)] this]
  have "page_to_addr m' (0, k) = of_nat (page_base m k)" by (simp add: page_base_def mz)
  then have "get_pages m 0 n = Some (m', of_nat (page_base m k))"
    using a(1) by (simp add: get_pages_def alloc_pages_def NUM_ZONES_def)
  then show ?thesis using a(3-5) F zone_free_eq [OF a(2)] g z mz by (auto simp: kmem_ok_def)
qed

text \<open>One page and then a block of order \<open>n\<close>, where two such blocks are free.\<close>

lemma two_blocks:
  assumes ok: "kmem_ok m" and piles: "pile_ok m 0 n k1" "pile_ok m 0 n k2"
    and free: "pile_pages n k1 \<subseteq> zone_free 0 m" "pile_pages n k2 \<subseteq> zone_free 0 m" and dis: "pile_pages n k1 \<inter> pile_pages n k2 = {}"
  shows "\<exists>m1 m2 kd kt. get_pages m 0 0 = Some (m1, of_nat (page_base m kd)) \<and> get_pages m1 0 n = Some (m2, of_nat (page_base m kt)) \<and>
    kd < total_pages (mem_zone m 0) \<and> kd \<in> zone_free 0 m \<and> pile_ok m 0 n kt \<and> pile_pages n kt \<subseteq> zone_free 0 m - {kd}"
proof -
  have p1: "pile_ok m 0 0 k1" "pile_pages 0 k1 \<subseteq> zone_free 0 m"
    using piles(1) free(1) by (auto simp: pile_ok_def pile_pages_def MAX_ORDER_def Suc_le_eq intro: less_le_trans [of k1 "k1 + 2 ^ n"])
  obtain m1 kd where d: "get_pages m 0 0 = Some (m1, of_nat (page_base m kd))" "kmem_ok m1"
      "mem_zone m1 = mem_zone m" "pile_ok m 0 0 kd" "pile_pages 0 kd \<subseteq> zone_free 0 m" "zone_free 0 m1 = zone_free 0 m - pile_pages 0 kd"
    using get_pages_ok [OF ok p1] by blast
  have po: "pile_ok m1 0 n k = pile_ok m 0 n k" and pb: "page_base m1 k = page_base m k" for k
    using d(3) by (simp_all add: pile_ok_def page_base_def)
  have one: "pile_pages 0 kd = {kd}" by (auto simp: pile_pages_def)
  obtain k where k: "pile_ok m1 0 n k" "pile_pages n k \<subseteq> zone_free 0 m1"
  proof (cases "kd \<in> pile_pages n k1")
    case True
    then have "kd \<notin> pile_pages n k2" using dis by blast
    then show ?thesis using that [of k2] piles(2) free(2) d(6) unfolding po one by blast
  next
    case False
    then show ?thesis using that [of k1] piles(1) free(1) d(6) unfolding po one by blast
  qed
  obtain m2 kt where t: "get_pages m1 0 n = Some (m2, of_nat (page_base m1 kt))" "pile_ok m1 0 n kt" "pile_pages n kt \<subseteq> zone_free 0 m1"
    using get_pages_ok [OF d(2) k] by blast
  have "kd < total_pages (mem_zone m 0)" using d(4) by (simp add: pile_ok_def)
  then show ?thesis using d(1,5,6) t unfolding po pb one by blast
qed

lemma page_base_word:
  assumes g: "zone_geom m" and k: "k < total_pages (mem_zone m 0)"
  shows "page_aligned (of_nat (page_base m k))" and "unat (of_nat (page_base m k) :: u32) = page_base m k"
proof -
  have "k * PAGE_SIZE < total_pages (mem_zone m 0) * PAGE_SIZE" using k by (simp add: PAGE_SIZE_def)
  then have "page_base m k < 2 ^ 32" using g unfolding zone_geom_def page_base_def by linarith
  then show u: "unat (of_nat (page_base m k) :: u32) = page_base m k" by (rule unat_of_nat32)
  show "page_aligned (of_nat (page_base m k))"
    unfolding page_aligned_dvd u using page_base_mod [OF g, of k] by (simp add: PAGE_SIZE_def dvd_eq_mod_eq_0)
qed

lemma page_base_words_eq:
  assumes "zone_geom m" and "j < total_pages (mem_zone m 0)" "k < total_pages (mem_zone m 0)"
  shows "(of_nat (page_base m j) :: u32) = of_nat (page_base m k) \<longleftrightarrow> j = k"
  using page_base_word(2) [OF assms(1,2)] page_base_word(2) [OF assms(1,3)] page_base_inj [of m j k] by metis

text \<open>The order of the block that \<^verbatim>\<open>clone_map\<close> asks for, enough for the tables of all physical pages.\<close>

definition table_order :: "kernel \<Rightarrow> nat" where
  "table_order s = log2 (of_nat (unat (phys_pgs (kvm s) + of_nat PGT_ENTRIES - 1) div PGT_ENTRIES))"

lemma clone_map_ok:
  assumes ok: "kmem_ok (kmm_of s)" and ne: "dst \<noteq> mp"
    and S: "m_pgdir (mapping_of s mp) = of_nat (page_base (kmm_of s) j)" "j < total_pages (mem_zone (kmm_of s) 0)" "j \<notin> zone_free 0 (kmm_of s)"
    and piles: "pile_ok (kmm_of s) 0 (table_order s) k1" "pile_ok (kmm_of s) 0 (table_order s) k2"
    and free: "pile_pages (table_order s) k1 \<subseteq> zone_free 0 (kmm_of s)" "pile_pages (table_order s) k2 \<subseteq> zone_free 0 (kmm_of s)"
    and dis: "pile_pages (table_order s) k1 \<inter> pile_pages (table_order s) k2 = {}"
    and pres: "\<And>i. i < 1024 \<Longrightarrow> load_word s (m_pgdir (mapping_of s mp) + 4 * of_nat i) AND PTF_PRESENT \<noteq> 0 \<Longrightarrow> i < 2 ^ table_order s"
  shows "\<exists>s'. clone_map dst mp s = Some s' \<and> (\<forall>i<1024. load_word s' (m_pgdir (mapping_of s' dst) + 4 * of_nat i) AND NOPAGE_MASK =
    m_pgtable (mapping_of s' dst) + of_nat (4096 * i))"
proof -
  let ?m = "kmm_of s" and ?n = "table_order s"
  obtain m1 m2 kd kt where g: "get_pages ?m 0 0 = Some (m1, of_nat (page_base ?m kd))" "get_pages m1 0 ?n = Some (m2, of_nat (page_base ?m kt))"
      "kd < total_pages (mem_zone ?m 0)" "kd \<in> zone_free 0 ?m" "pile_ok ?m 0 ?n kt" "pile_pages ?n kt \<subseteq> zone_free 0 ?m - {kd}"
    using two_blocks [OF ok piles free dis] by blast
  let ?S = "of_nat (page_base ?m j) :: u32" and ?D = "of_nat (page_base ?m kd) :: u32" and ?T = "of_nat (page_base ?m kt) :: u32"
  let ?s5 = "set_mapping dst (\<lambda>x. x\<lparr>m_pgtable := ?T\<rparr>) (set_kmm m2 (set_mapping dst (\<lambda>x. x\<lparr>m_pgdir := ?D\<rparr>)
      (set_kmm m1 (set_mapping dst (\<lambda>x. x\<lparr>m_nmma := 0\<rparr>) s))))"
  let ?s' = "fold (\<lambda>d. clone_entry dst mp (?T + of_nat (d * PAGE_SIZE)) d) [0..<1024] ?s5"
  have zg: "zone_geom ?m" using ok by (simp add: kmem_ok_def)
  have kt: "kt + i < total_pages (mem_zone ?m 0)" if "i < 2 ^ ?n" for i using g(5) that by (simp add: pile_ok_def)
  have "kt < total_pages (mem_zone ?m 0)" using kt [of 0] by simp
  note al = page_base_word(1) [OF zg S(2)] page_base_word(1) [OF zg g(3)] page_base_word(1) [OF zg this]
  have sd: "?S \<noteq> ?D" using page_base_words_eq [OF zg S(2) g(3)] S(3) g(4) by blast
  have run: "clone_map dst mp s = Some ?s'"
    using g(1,2) by (simp add: clone_map_def k_get_pages_def table_order_def Let_def PGD_ENTRIES_def PGD_SHIFT_def)
  have tb: "?T + of_nat (4096 * i) \<notin> {?S, ?D}" if "i < 2 ^ ?n" for i
  proof -
    have "?T + of_nat (4096 * i) = of_nat (page_base ?m (kt + i))"
      by (simp add: page_base_def PAGE_SIZE_def algebra_simps)
    moreover have "kt + i \<in> pile_pages ?n kt" using that by (simp add: pile_pages_def)
    then have "kt + i \<in> zone_free 0 ?m - {kd}" using g(6) by blast
    ultimately show ?thesis
      using page_base_words_eq [OF zg kt [OF that] S(2)] page_base_words_eq [OF zg kt [OF that] g(3)] S(3) by auto
  qed
  have dirs: "m_pgdir (mapping_of ?s5 mp) = ?S" "m_pgdir (mapping_of ?s5 dst) = ?D" using ne S(1) by simp_all
  have ld: "load_word ?s5 = load_word s" by simp
  have "cloned ?S ?D ?T 1024 ?s5 ?s'"
    by (rule clone_loop [OF dirs al sd]) (use pres tb S(1) in \<open>auto simp only: ld\<close>)
  then have c: "mapping_of ?s' = mapping_of ?s5" "\<forall>i<1024. load_word ?s' (?D + 4 * of_nat i) AND NOPAGE_MASK = ?T + of_nat (4096 * i)"
    unfolding cloned_def by blast+
  have "m_pgdir (mapping_of ?s' dst) = ?D" "m_pgtable (mapping_of ?s' dst) = ?T" unfolding c(1) by simp_all
  then show ?thesis using run c(2) by (intro exI [of _ ?s']) (simp only: simp_thms)
qed

lemma PGDIDX_eq: "unat (PGDIDX a) = unat a div 2 ^ 22"
  by (simp add: PGDIDX_def PGD_SHIFT_def drop_bit_eq_div unat_div)

lemma PGDIDX_less: "unat (PGDIDX a) < 1024"
  using unat_less32 [of a] by (simp add: PGDIDX_eq)

lemma PGDIDX_user: "\<not> in_kernel a \<Longrightarrow> 256 \<le> unat (PGDIDX a)"
  by (simp add: in_kernel_def USERMEM_START_def PGDIDX_eq word_le_nat_alt not_less)

lemma table_order_bound:
  assumes "0 < phys_pgs (kvm s)" and "phys_pgs (kvm s) \<le> 2 ^ 18"
  shows "2 ^ table_order s \<le> (256 :: nat)"
proof -
  let ?p = "unat (phys_pgs (kvm s))"
  let ?t = "unat (phys_pgs (kvm s) + of_nat PGT_ENTRIES - 1) div PGT_ENTRIES"
  have p: "0 < ?p" "?p \<le> 2 ^ 18" using assms by (simp_all add: word_less_nat_alt word_le_nat_alt)
  have "phys_pgs (kvm s) + of_nat PGT_ENTRIES - 1 = phys_pgs (kvm s) + of_nat 1023"
    by (simp add: PGT_ENTRIES_def PGD_SHIFT_def PGT_SHIFT_def)
  then have "?t = (?p + 1023) div 1024"
    using unat_add_offset [of "phys_pgs (kvm s)" 1023] p by (simp add: PGT_ENTRIES_def PGD_SHIFT_def PGT_SHIFT_def add.commute)
  then have t: "0 < ?t" "?t \<le> 256" using p by simp_all
  then have "unat (of_nat ?t :: u32) = ?t" by (intro unat_of_nat32) simp
  then have "log2 (of_nat ?t) \<le> 8" using t by (subst log2_le_iff) (auto simp: word_unat_eq_iff)
  then have "(2 :: nat) ^ table_order s \<le> 2 ^ 8" unfolding table_order_def by (rule power_increasing) simp
  then show ?thesis by simp
qed

section \<open>Sample states\<close>

text \<open>A page directory with a table for every entry.\<close>

definition sample_tables :: kernel where
  "sample_tables = undefined\<lparr>
     heap := undefined\<lparr>slab := undefined\<lparr>wmem := (\<lambda>w. (w - 0x1000) * 0x400 + 0x800000)\<rparr>\<rparr>,
     kcpu := undefined\<lparr>cr3 := 0x1000\<rparr>,
     kvm := undefined\<lparr>mappings := (\<lambda>_. undefined\<lparr>m_pgdir := 0x1000\<rparr>)\<rparr>\<rparr>"

lemma sample_table_of: "table_of sample_tables a = 0x800000 + of_nat (4096 * unat (PGDIDX a))"
proof -
  have "load_word sample_tables (0x1000 + 4 * PGDIDX a) = 0x800000 + of_nat (4096 * unat (PGDIDX a))"
    by (simp add: sample_tables_def load_word_def)
  moreover have "page_aligned (0x800000 + of_nat (4096 * unat (PGDIDX a)))"
    by (rule page_aligned_add) (simp add: page_aligned_def PAGE_MASK_def)
  ultimately show ?thesis
    using page_of_add(1) [of "0x800000 + of_nat (4096 * unat (PGDIDX a))" 0]
    by (simp add: table_of_def sample_tables_def in_page_def)
qed

lemma sample_tables_ok: "tables_ok sample_tables"
proof -
  have u: "unat (table_of sample_tables a) = 0x800000 + 4096 * unat (PGDIDX a)" for a
    unfolding sample_table_of using PGDIDX_less [of a] by (simp add: unat_word_ariths unat_of_nat)
  have "table_of sample_tables a \<noteq> 0x1000" for a using u [of a] by (auto dest: arg_cong [of _ _ unat])
  moreover have "PGDIDX a = PGDIDX b" if "table_of sample_tables a = table_of sample_tables b" for a b
    using u [of a] u [of b] that by (simp add: word_unat_eq_iff)
  moreover have "page_aligned 0x1000" by (simp add: page_aligned_def PAGE_MASK_def)
  moreover have "cr3 (kcpu sample_tables) = 0x1000" by (simp add: sample_tables_def)
  ultimately show ?thesis unfolding tables_ok_def by metis
qed

text \<open>Two megabytes of kernel, a hundred pages for page tables, a root map in the first of them.\<close>

definition sample_root :: kernel where
  "sample_root = undefined\<lparr>
     heap := undefined\<lparr>slab := undefined\<lparr>kmm := mem_zone_init 0 boot_state, wmem := (\<lambda>w. if w = 0x200000 then 0x203003 else 0)\<rparr>\<rparr>,
     kvm := undefined\<lparr>phys_pgs := 612, mappings := (\<lambda>_. undefined\<lparr>m_pgdir := 0x200000\<rparr>)\<rparr>\<rparr>"

lemma sample_root_simps:
  "kmm_of sample_root = mem_zone_init 0 boot_state" "m_pgdir (mapping_of sample_root mp) = 0x200000"
  "phys_pgs (kvm sample_root) = 612" "load_word sample_root w = (if w = 0x200000 then 0x203003 else 0)"
  "total_pages (mem_zone (mem_zone_init 0 boot_state) 0) = 100" "base (mem_zone (mem_zone_init 0 boot_state) 0) = 0x200000"
  by (simp_all add: sample_root_def kmm_of_def mapping_of_def load_word_def mem_zone_init_frame boot_state_def)

lemma sample_order: "table_order sample_root = 0"
  using log2_le_iff [of 1 0]
  by (simp add: table_order_def sample_root_simps PGT_ENTRIES_def PGD_SHIFT_def PGT_SHIFT_def)

section \<open>Properties\<close>

text \<open>
  C5. Mapping a range.  Let every entry of the current page directory have a table of its own.  After \<^verbatim>\<open>map_pages\<close> of
  \<open>n\<close> pages every address of the range translates to the physical address at the same offset, for \<^verbatim>\<open>virt2phys\<close> and, in user space, for a
  walk of the tables (entries present), and after \<^verbatim>\<open>unmap_page\<close> the walk finds no page.  Every other address is as before
  for \<^verbatim>\<open>virt2phys\<close>, and also for the walk with one exception: \<^verbatim>\<open>map_page\<close> makes the directory entry present
  and does not clear the table, so an address that shares a directory entry with the range and faulted because that entry was not present now
  translates through whatever its table entry holds, if the present bit is set there.
\<close>

theorem map_pages_translate:
  assumes "tables_ok s" and "m_pgdir (mapping_of s mp) = cr3 (kcpu s)" and "page_aligned v" and "page_aligned phys"
    and "unat n \<le> 2 ^ 20" and "unat flags < PAGE_SIZE"
  shows "(let s' = map_pages mp v phys n flags s in
    virt2phys a s' = (if unat (a - v) < unat n * PAGE_SIZE then phys + (a - v) else virt2phys a s) \<and>
    (unat (a - v) < unat n * PAGE_SIZE \<and> \<not> in_kernel a \<longrightarrow>
      linear s' a = Some (phys + (a - v)) \<and> linear (unmap_page mp a s') a = None) \<and>
    (\<not> unat (a - v) < unat n * PAGE_SIZE \<longrightarrow>
      linear s' a =
        (if \<not> in_kernel a \<and> \<not> pde_present s a \<and> (\<exists>b. unat (b - v) < unat n * PAGE_SIZE \<and> PGDIDX b = PGDIDX a) \<and>
            entry_of s a AND PTF_PRESENT \<noteq> 0
         then Some (virt2phys a s) else linear s a)))"
proof -
  let ?s' = "map_pages mp v phys n flags s" and ?q = "unat (a - v) div 4096"
  have r: "range_mapped v phys flags (unat n) s ?s'"
    unfolding map_pages_def by (rule map_pages_range [OF assms(1-3,5)])
  note d = range_mappedD [OF r]
  have i: "unat (b - v) < unat n * PAGE_SIZE \<longleftrightarrow> unat (b - v) div 4096 < unat n" for b
    by (simp add: PAGE_SIZE_def div_less_iff_less_mult)
  note ea = page_aligned_add [OF assms(4), of ?q]
  note e = entry_parts [OF ea assms(6)]
  have "?q < 2 ^ 20" using unat_less32 [of "a - v"] by simp
  then have av: "a AND NOPAGE_MASK = v + of_nat (4096 * ?q)"
    using page_index [OF assms(3), of ?q a] page_of_add(1) [OF page_aligned_add [OF assms(3), of ?q], of 0] by (simp add: in_page_def)
  have "a - v = of_nat (4096 * ?q) + (a AND PAGE_MASK)"
    by (rule diff_of_sum) (use page_split [of a] in \<open>simp only: av\<close>)
  then have off: "(phys + of_nat (4096 * ?q)) OR (a AND PAGE_MASK) = phys + (a - v)"
    unfolding aligned_add [OF ea in_page_offs(3), symmetric] by (simp only: add.assoc)
  have ph: "virt2phys a ?s' = phys + (a - v)" if "?q < unat n"
    unfolding virt2phys_entry d(4) [OF that] e(1) off [symmetric] by (rule or.commute)
  have eq: "virt2phys a ?s' = virt2phys a s" if "\<not> ?q < unat n"
    unfolding virt2phys_entry d(5) [OF that] ..
  have lin: "linear ?s' a = Some (phys + (a - v))" if "?q < unat n" "\<not> in_kernel a"
    unfolding linear_user [OF that(2)] ph [OF that(1)] d(4) [OF that(1)]
    using d(6) [of a] that(1) e(2) by auto
  have dir: "m_pgdir (mapping_of ?s' mp) = cr3 (kcpu ?s')" unfolding d(2,3) by (rule assms(2))
  have un: "linear (unmap_page mp a ?s') a = None" if "\<not> in_kernel a"
    unfolding linear_user [OF that] unmap_page_entries(2) [OF d(1) dir] by simp
  have out: "linear ?s' a = (if \<not> in_kernel a \<and> \<not> pde_present s a \<and> (\<exists>b. unat (b - v) div 4096 < unat n \<and> PGDIDX b = PGDIDX a) \<and>
      entry_of s a AND PTF_PRESENT \<noteq> 0 then Some (virt2phys a s) else linear s a)" if "\<not> ?q < unat n"
  proof (cases "in_kernel a")
    case False
    then show ?thesis
      unfolding linear_user [OF False] eq [OF that] d(5) [OF that] d(6) by auto
  qed (simp add: linear_def)
  show ?thesis using ph eq lin un out unfolding Let_def i by (cases "?q < unat n") simp_all
qed

theorem map_pages_translate_witness:
  "linear (map_pages 0 0x40000000 0x300000 3 2 sample_tables) 0x40001234 = Some 0x301234"
proof -
  have "m_pgdir (mapping_of sample_tables 0) = cr3 (kcpu sample_tables)" by (simp add: sample_tables_def mapping_of_def)
  moreover have "page_aligned 0x40000000" "page_aligned 0x300000" by (simp_all add: page_aligned_def PAGE_MASK_def)
  moreover have "unat (3 :: u32) \<le> 2 ^ 20" "unat (2 :: u16) < PAGE_SIZE" by (simp_all add: PAGE_SIZE_def)
  ultimately show ?thesis
    using map_pages_translate [OF sample_tables_ok, of 0 "0x40000000" "0x300000" 3 2 "0x40001234"]
    by (simp add: in_kernel_def USERMEM_START_def PAGE_SIZE_def Let_def)
qed

text \<open>
  C10. The tables of a cloned map lie outside their block.  Let the page allocator be well formed with two free blocks of the
  order that \<^verbatim>\<open>clone_map\<close> asks for (\<open>table_order\<close>), let the source map be live, with entries for physical memory only, and let there be at most a gigabyte of memory.
  Then \<^verbatim>\<open>clone_map\<close> returns, and for every user address the next \<^verbatim>\<open>map_page\<close> of that address stores its entry beyond the end of the block that was allocated for the tables.
\<close>

theorem clone_map_overrun:
  assumes "kmem_ok (kmm_of s)" and "dst \<noteq> mp"
    and "m_pgdir (mapping_of s mp) = of_nat (page_base (kmm_of s) j)" and "j < total_pages (mem_zone (kmm_of s) 0)"
    and "j \<notin> zone_free 0 (kmm_of s)"
    and "pile_ok (kmm_of s) 0 (table_order s) k1" and "pile_ok (kmm_of s) 0 (table_order s) k2"
    and "pile_pages (table_order s) k1 \<subseteq> zone_free 0 (kmm_of s)" and "pile_pages (table_order s) k2 \<subseteq> zone_free 0 (kmm_of s)"
    and "pile_pages (table_order s) k1 \<inter> pile_pages (table_order s) k2 = {}"
    and "\<And>i. i < 1024 \<Longrightarrow> load_word s (m_pgdir (mapping_of s mp) + 4 * of_nat i) AND PTF_PRESENT \<noteq> 0 \<Longrightarrow> i < 2 ^ table_order s"
    and "0 < phys_pgs (kvm s)" and "phys_pgs (kvm s) \<le> 2 ^ 18" and "\<not> in_kernel v"
  shows "\<exists>s' a. clone_map dst mp s = Some s' \<and>
    load_word (map_page dst v phys flags s') a = phys OR PTF_PRESENT OR PTF_USER OR ucast flags \<and>
    2 ^ table_order s * PAGE_SIZE \<le> unat (a - m_pgtable (mapping_of s' dst))"
proof -
  obtain s' where c: "clone_map dst mp s = Some s'"
    "load_word s' (m_pgdir (mapping_of s' dst) + 4 * of_nat (unat (PGDIDX v))) AND NOPAGE_MASK =
      m_pgtable (mapping_of s' dst) + of_nat (4096 * unat (PGDIDX v))"
    using clone_map_ok [OF assms(1-11)] PGDIDX_less [of v] by blast
  let ?T = "m_pgtable (mapping_of s' dst)" and ?q = "unat (PGDIDX v)"
  let ?a = "?T + of_nat (4096 * ?q) + 4 * PGTIDX v"
  have "load_word (map_page dst v phys flags s') ?a = phys OR PTF_PRESENT OR PTF_USER OR ucast flags"
    using c(2) by (simp add: map_page_def Let_def)
  moreover have "?a - ?T = of_nat (4096 * ?q) + 4 * PGTIDX v" by simp
  moreover have "4096 * ?q \<le> unat (of_nat (4096 * ?q) + 4 * PGTIDX v)"
  proof -
    have "unat (4 * PGTIDX v) < 4096" using in_page_offs(2) [of v] in_page_less by blast
    then have "unat (of_nat (4096 * ?q) + 4 * PGTIDX v) = 4096 * ?q + unat (4 * PGTIDX v)"
      using PGDIDX_less [of v] by (subst unat_word_ariths) (simp add: unat_of_nat del: of_nat_mult)
    then show ?thesis by simp
  qed
  moreover have "2 ^ table_order s \<le> (256 :: nat)" by (rule table_order_bound [OF assms(12,13)])
  moreover have "256 \<le> ?q" by (rule PGDIDX_user [OF assms(14)])
  ultimately show ?thesis
    using c(1) by (intro exI [of _ s'] exI [of _ ?a] conjI) (simp_all add: PAGE_SIZE_def)
qed

theorem clone_map_overrun_witness:
  "\<exists>s' a. clone_map 0x10 0x20 sample_root = Some s' \<and>
    load_word (map_page 0x10 0x40000000 0x300000 2 s') a = 0x300007 \<and> PAGE_SIZE \<le> unat (a - m_pgtable (mapping_of s' 0x10))"
proof -
  have i: "i < 2 ^ table_order sample_root"
    if "i < 1024" "load_word sample_root (m_pgdir (mapping_of sample_root 0x20) + 4 * of_nat i) AND PTF_PRESENT \<noteq> 0" for i
  proof -
    have "(4 * of_nat i :: u32) = 0" using that(2) by (auto simp: sample_root_simps split: if_splits)
    then have "unat (4 * of_nat i :: u32) = 0" by simp
    then have "i = 0" using that(1) by (simp add: unat_word_ariths unat_of_nat)
    then show ?thesis by simp
  qed
  have "kmem_ok (kmm_of sample_root)"
    using zone_init_ok(1) [of 0 boot_state] by (simp add: kmem_ok_def zone_geom_def sample_root_simps PAGE_SIZE_def)
  moreover have "pile_ok (kmm_of sample_root) 0 (table_order sample_root) k" if "k < 100" for k
    using that by (simp add: sample_order pile_ok_def sample_root_simps MAX_ORDER_def)
  moreover have "pile_pages (table_order sample_root) k \<subseteq> zone_free 0 (kmm_of sample_root)" if "0 < k" "k < 100" for k
    using that by (simp add: sample_order sample_root_simps boot_free pile_pages_def)
  ultimately show ?thesis
    using clone_map_overrun [of sample_root "0x10" "0x20" 0 1 2 "0x40000000" "0x300000" 2, OF _ _ _ _ _ _ _ _ _ _ i]
    by (simp add: sample_root_simps sample_order page_base_def boot_free pile_pages_def in_kernel_def USERMEM_START_def
        PTF_PRESENT_def PTF_USER_def)
qed

end
