(* ===== verification/Files_Props.thy ===== *)
theory Files_Props
  imports Files
begin

text \<open>
  File descriptors (\<^verbatim>\<open>kernel/fs/file.c\<close>): the bit set and the high-water mark of a thread implement a set of numbers from
  which the least unused one is taken.
\<close>

section \<open>The specification\<close>

datatype fd_op = AllocFd | FreeFd nat

text \<open>There are \<open>FS_MAX_FDS + 1\<close> descriptors.\<close>

fun spec_fd :: "fd_op \<Rightarrow> nat set \<Rightarrow> nat set \<times> int" where
  "spec_fd AllocFd U = (case find (\<lambda>fd. fd \<notin> U) [0..<257] of None \<Rightarrow> (U, - EBADF) | Some fd \<Rightarrow> (insert fd U, int fd))"
| "spec_fd (FreeFd fd) U = (U - {fd}, 0)"

fun run_fd :: "u32 \<Rightarrow> fd_op \<Rightarrow> kernel \<Rightarrow> kernel \<times> int" where
  "run_fd t AllocFd s = alloc_fd t s"
| "run_fd t (FreeFd fd) s = (free_fd t (int fd) s, 0)"

fun spec_fds :: "fd_op list \<Rightarrow> nat set \<Rightarrow> nat set \<times> int list" where
  "spec_fds [] U = (U, [])"
| "spec_fds (p # ps) U = (let (U1, r) = spec_fd p U; (U2, rs) = spec_fds ps U1 in (U2, r # rs))"

fun run_fds :: "u32 \<Rightarrow> fd_op list \<Rightarrow> kernel \<Rightarrow> kernel \<times> int list" where
  "run_fds t [] s = (s, [])"
| "run_fds t (p # ps) s = (let (s1, r) = run_fd t p s; (s2, rs) = run_fds t ps s1 in (s2, r # rs))"

section \<open>The simulation\<close>

text \<open>
  The bits that are set are those of the descriptors in use, and the mark is above all of them, as far as it goes.  Only the
  bits of the 257 numbers matter.  The last one is not below the mark: \<^verbatim>\<open>thread_create\<close> clears 256 bits of a page that
  is not zeroed, so bit 256 may be set from the start, and the number 256 then counts as one in use.
\<close>

definition fds_sim :: "u32 \<Rightarrow> kernel \<Rightarrow> nat set \<Rightarrow> bool" where
  "fds_sim t s U \<longleftrightarrow> U \<subseteq> {..<257} \<and> (\<forall>b<257. bm 0 (fdset (threads s t)) b \<longleftrightarrow> b \<in> U) \<and>
     0 \<le> last_fd (threads s t) \<and> last_fd (threads s t) \<le> FS_MAX_FDS \<and>
     (last_fd (threads s t) < FS_MAX_FDS \<longrightarrow> U - {256} \<subseteq> {..<nat (last_fd (threads s t))})"

lemma find_first:
  assumes "first_from (\<lambda>c. c \<notin> U) 0 n r" and "n \<le> m" and "r = None \<Longrightarrow> n = m"
  shows "find (\<lambda>fd. fd \<notin> U) [0..<m] = r"
proof (cases r)
  case None
  then show ?thesis using assms by (simp add: first_from_def find_None_iff)
next
  case (Some c)
  then have "[0..<m] ! c = c" "c < m" "c \<notin> U" "\<forall>e<c. e \<in> U"
    using assms by (auto simp: first_from_def)
  then show ?thesis using Some by (auto simp: find_Some_iff intro!: exI [of _ c])
qed

lemma seek_least:
  assumes "fds_sim t s U"
  shows "bitmap_seek_unset 0 (nat (last_fd (threads s t) + 1)) (fdset (threads s t)) = find (\<lambda>fd. fd \<notin> U) [0..<257]"
proof -
  let ?l = "nat (last_fd (threads s t) + 1)" and ?r = "bitmap_seek_unset 0 (nat (last_fd (threads s t) + 1)) (fdset (threads s t))"
  have l: "?l \<le> 257" "0 \<le> last_fd (threads s t)" using assms by (auto simp: fds_sim_def FS_MAX_FDS_def)
  have "first_from (\<lambda>c. \<not> bm 0 (fdset (threads s t)) c) 0 ?l ?r"
    unfolding bitmap_seek_unset_def by (rule seek_unset_loop_spec [OF scan_at_start])
  then have f: "first_from (\<lambda>c. c \<notin> U) 0 ?l ?r"
    using assms l(1) by (auto simp: first_from_def fds_sim_def split: option.splits)
  have "?l = 257" if "?r = None"
  proof (rule ccontr)
    assume "?l \<noteq> 257"
    then have "nat (last_fd (threads s t)) \<notin> U" "nat (last_fd (threads s t)) < ?l"
      using assms l by (auto simp: fds_sim_def FS_MAX_FDS_def)
    then show False using f that by (auto simp: first_from_def)
  qed
  then show ?thesis using find_first [OF f l(1)] by simp
qed

lemma alloc_fd_sim:
  assumes "fds_sim t s U"
  shows "snd (alloc_fd t s) = snd (spec_fd AllocFd U)" and "fds_sim t (fst (alloc_fd t s)) (fst (spec_fd AllocFd U))"
proof -
  note sk = seek_least [OF assms]
  show "snd (alloc_fd t s) = snd (spec_fd AllocFd U)"
    by (simp add: alloc_fd_def sk Let_def split: option.splits)
  show "fds_sim t (fst (alloc_fd t s)) (fst (spec_fd AllocFd U))"
  proof (cases "find (\<lambda>fd. fd \<notin> U) [0..<257]")
    case None
    then show ?thesis using assms by (simp add: alloc_fd_def sk Let_def)
  next
    case (Some fd)
    then have fd: "fd < 257" by (auto simp: find_Some_iff)
    have le: "fd \<le> nat (last_fd (threads s t))"
      using sk Some seek_unset_loop_spec [OF scan_at_start, of 0 "fdset (threads s t)" "nat (last_fd (threads s t) + 1)"]
        assms by (auto simp: bitmap_seek_unset_def first_from_def fds_sim_def)
    have "bm 0 (bitmap_bit_set 0 fd m) b \<longleftrightarrow> b = fd \<or> bm 0 m b" if "b < 1024" for b m
      using bm_set [of fd b 0 m] fd that by simp
    then show ?thesis
      using assms fd le Some by (auto simp: alloc_fd_def sk Let_def fds_sim_def set_thread_def FS_MAX_FDS_def)
  qed
qed

lemma free_fd_sim:
  assumes "fds_sim t s U" and "fd < 1024"
  shows "fds_sim t (free_fd t (int fd) s) (U - {fd})"
  using assms bm_clear [of fd _ 0 "fdset (threads s t)"] by (auto simp: free_fd_def fds_sim_def set_thread_def)

lemma run_fd_sim:
  assumes "fds_sim t s U" and "\<And>fd. p = FreeFd fd \<Longrightarrow> fd < 1024"
  shows "snd (run_fd t p s) = snd (spec_fd p U)" and "fds_sim t (fst (run_fd t p s)) (fst (spec_fd p U))"
  using assms alloc_fd_sim [OF assms(1)] free_fd_sim [OF assms(1)] by (cases p; simp)+

text \<open>What the calls that \<^verbatim>\<open>thread_create\<close> makes leave alone.\<close>

lemma threads_store: "threads (store_word a v s) = threads s"
  by (simp add: store_word_def set_slab_def)

lemma threads_fold: "threads (fold (\<lambda>i. store_word (f i) v) xs s) = threads s"
  by (induction xs arbitrary: s) (simp_all add: threads_store)

lemma threads_init_stack:
  "fdset (threads (thread_init_stack t func data s) u) = fdset (threads s u)"
  by (simp add: thread_init_stack_def zero_regs_def threads_store threads_fold set_thread_def Let_def)

lemma threads_locks:
  "spin_lock_irqsave l s = Some (s', fl) \<Longrightarrow> threads s' = threads s"
  "spin_unlock_irqrestore l fl s = Some s' \<Longrightarrow> threads s' = threads s"
  by (auto simp: spin_lock_irqsave_def spin_unlock_irqrestore_def local_irq_save_def local_irq_restore_def local_irq_disable_def
    spin_lock_def spin_unlock_def set_cpu_def Let_def split: Option.bind_splits if_splits prod.splits)

lemma thread_create_fds:
  assumes "thread_create func name data s0 = Some (s, t)" and "t \<noteq> 0"
  shows "\<exists>m. fdset (threads s t) = bitmap_zero 0 256 m \<and> last_fd (threads s t) = 0"
  using assms
  by (auto simp: thread_create_def Let_def set_thread_def set_nodes_def FS_MAX_FDS_def dest!: threads_locks
    split: Option.bind_splits if_splits prod.splits)

lemma fresh_fds_sim:
  assumes "thread_create func name data s0 = Some (s, t)" and "t \<noteq> 0"
  shows "fds_sim t s {b. b = 256 \<and> bm 0 (fdset (threads s t)) b}"
proof -
  obtain m where m: "fdset (threads s t) = bitmap_zero 0 256 m" "last_fd (threads s t) = 0"
    using thread_create_fds [OF assms] by blast
  have "bm 0 (bitmap_zero 0 256 m) b \<longleftrightarrow> b = 256 \<and> bm 0 m b" if "b < 257" for b
    using bm_zero [of 256 b 0 m] that by (auto simp: zeroed_def)
  then show ?thesis using m by (auto simp: fds_sim_def FS_MAX_FDS_def)
qed

section \<open>Properties\<close>

text \<open>
  C19. Descriptors are numbers from 0 to 256, and each allocation takes the least one that is not in use.  For every thread whose bit set and mark
  are in the relation \<open>fds_sim\<close> with a set of numbers any sequence of \<^verbatim>\<open>alloc_fd\<close> and \<^verbatim>\<open>free_fd\<close> returns
  what the set does, \<^verbatim>\<open>-EBADF\<close> exactly when all 257 numbers are in use, and ends in the relation.  A thread that \<^verbatim>\<open>thread_create\<close> has just made is
  in the relation with the empty set, or with the set of the number 256 alone when its page happened to hold that bit, which nothing clears.
\<close>

theorem descriptors_refine:
  assumes "fds_sim t s U \<or>
      t \<noteq> 0 \<and> thread_create func name data s0 = Some (s, t) \<and> U = {b. b = 256 \<and> bitmap_bit_get 0 b (fdset (threads s t)) \<noteq> 0}"
    and "\<forall>fd. FreeFd fd \<in> set ps \<longrightarrow> fd < 1024"
  shows "snd (run_fds t ps s) = snd (spec_fds ps U) \<and> fds_sim t (fst (run_fds t ps s)) (fst (spec_fds ps U))"
proof -
  have "fds_sim t s U" using assms(1) fresh_fds_sim [of func name data s0 s t] by (auto simp: bitmap_bit_get_spec)
  then show ?thesis using assms(2)
  proof (induction ps arbitrary: s U)
    case (Cons p ps)
    note st = run_fd_sim [OF Cons.prems(1), of p]
    show ?case
      using Cons.IH [of "fst (run_fd t p s)" "fst (spec_fd p U)"] Cons.prems(2) st by (simp add: case_prod_unfold Let_def)
  qed simp
qed

lemma fd_range: "[0..<257] = 0 # 1 # [2..<257]"
  by (subst upt_conv_Cons, simp, subst upt_conv_Cons) (simp_all add: numeral_2_eq_2 del: upt_rec_numeral)

theorem descriptors_refine_witness:
  "snd (run_fds 0x10F10 [AllocFd, AllocFd, FreeFd 0, AllocFd]
      (undefined\<lparr>threads := \<lambda>_. undefined\<lparr>last_fd := 0, fdset := \<lambda>_. 0\<rparr>\<rparr>)) = [0, 1, 0, 0]"
proof -
  let ?s = "undefined\<lparr>threads := \<lambda>_. undefined\<lparr>last_fd := 0, fdset := \<lambda>_. 0\<rparr>\<rparr> :: kernel"
  have "fds_sim 0x10F10 ?s {}" by (simp add: fds_sim_def bm_def FS_MAX_FDS_def)
  moreover have "snd (spec_fds [AllocFd, AllocFd, FreeFd 0, AllocFd] {}) = [0, 1, 0, 0]"
    by (simp add: fd_range Let_def del: upt_rec_numeral)
  ultimately show ?thesis using descriptors_refine [where t = "0x10F10" and s = ?s and U = "{}" and ps = "[AllocFd, AllocFd, FreeFd 0, AllocFd]"] by simp
qed

end
