(* ===== verification/Sched_Props.thy ===== *)
theory Sched_Props
  imports Threads "HOL-Library.Multiset"
begin

text \<open>
  Thread queues and the round-robin scheduler: the queues as lists of threads, their operations as list
  operations, the invariant that every operation keeps, and what follows for the order in which threads run.
\<close>

section \<open>Queues as lists\<close>

definition tq_nodes :: "(tqid \<Rightarrow> u32 list) \<Rightarrow> knode \<Rightarrow> knode list" where
  "tq_nodes qs n = (case n of TqThreads q \<Rightarrow> map Krunq (qs q) | _ \<Rightarrow> [])"

definition tqs_ok :: "tqid set \<Rightarrow> (tqid \<Rightarrow> u32 list) \<Rightarrow> kernel \<Rightarrow> bool" where
  "tqs_ok Q qs s \<longleftrightarrow> klists (nodes s) (TqThreads ` Q) (tq_nodes qs) \<and>
     (\<forall>q\<in>Q. \<forall>t\<in>set (qs q). krunq_head (threads s t) = Some q)"

definition unqueue :: "u32 \<Rightarrow> kernel \<Rightarrow> kernel" where
  "unqueue t s = set_thread t (\<lambda>th. th\<lparr>krunq_head := None\<rparr>) (set_nodes (klist0_unlink (Krunq t)) s)"

definition queue_head :: "u32 \<Rightarrow> tqid \<Rightarrow> kernel \<Rightarrow> kernel" where
  "queue_head t q s =
    set_thread t (\<lambda>th. th\<lparr>krunq_head := Some q\<rparr>) (set_nodes (klist0_append (Krunq t) (TqThreads q)) s)"

definition queue_tail :: "u32 \<Rightarrow> tqid \<Rightarrow> kernel \<Rightarrow> kernel" where
  "queue_tail t q s =
    set_thread t (\<lambda>th. th\<lparr>krunq_head := Some q\<rparr>) (set_nodes (klist0_prepend (Krunq t) (TqThreads q)) s)"

definition off_queues :: "tqid set \<Rightarrow> (tqid \<Rightarrow> u32 list) \<Rightarrow> u32 \<Rightarrow> bool" where
  "off_queues Q qs t \<longleftrightarrow> (\<forall>q\<in>Q. t \<notin> set (qs q))"

lemma tq_nodes_simps [simp]: "tq_nodes qs (TqThreads q) = map Krunq (qs q)"
  by (simp add: tq_nodes_def)

lemma tq_nodes_upd: "tq_nodes (qs(q := xs)) = (tq_nodes qs)(TqThreads q := map Krunq xs)"
  by (rule ext) (simp add: tq_nodes_def split: knode.split)

lemma tqs_okD:
  "tqs_ok Q qs s \<Longrightarrow> klists (nodes s) (TqThreads ` Q) (tq_nodes qs)"
  "tqs_ok Q qs s \<Longrightarrow> q \<in> Q \<Longrightarrow> t \<in> set (qs q) \<Longrightarrow> krunq_head (threads s t) = Some q"
  by (auto simp: tqs_ok_def)

lemma tqs_ok_distinct:
  assumes "tqs_ok Q qs s" and "q \<in> Q"
  shows "distinct (qs q)"
proof -
  have "distinct (TqThreads q # map Krunq (qs q))"
    using klistsD [OF tqs_okD(1) [OF assms(1)], of "TqThreads q"] assms(2) klist_distinct by fastforce
  then show ?thesis by (simp add: distinct_map)
qed

lemma tqs_ok_unique:
  assumes "tqs_ok Q qs s" and "q \<in> Q" "p \<in> Q" and "t \<in> set (qs q)" "t \<in> set (qs p)"
  shows "p = q"
  using tqs_okD(2) [OF assms(1,2,4)] tqs_okD(2) [OF assms(1,3,5)] by simp

text \<open>A change of thread fields other than the queue pointer, and of anything but the links, keeps the queues.\<close>

lemma tqs_ok_cong:
  assumes "tqs_ok Q qs s" and "nodes s' = nodes s" and "\<And>t. krunq_head (threads s' t) = krunq_head (threads s t)"
  shows "tqs_ok Q qs s'"
  using assms by (simp add: tqs_ok_def)

lemma tqs_ok_unqueue:
  assumes ok: "tqs_ok Q qs s" and q: "q \<in> Q" and split: "qs q = xs @ t # ys"
  shows "tqs_ok Q (qs(q := xs @ ys)) (unqueue t s)"
    and "klist0_empty (Krunq t) (nodes (unqueue t s))"
    and "off_queues Q (qs(q := xs @ ys)) t"
proof -
  have L: "tq_nodes qs (TqThreads q) = map Krunq xs @ Krunq t # map Krunq ys"
    by (simp add: split)
  note u = klists_unlink [OF tqs_okD(1) [OF ok] imageI [OF q] L]
  have off: "t \<notin> set ((qs(q := xs @ ys)) p)" if "p \<in> Q" for p
    using tqs_ok_unique [OF ok q that] tqs_ok_distinct [OF ok q] split by auto
  then show "off_queues Q (qs(q := xs @ ys)) t"
    by (simp add: off_queues_def)
  have "krunq_head (threads (unqueue t s) r) = Some p" if "p \<in> Q" "r \<in> set ((qs(q := xs @ ys)) p)" for p r
    using that off [OF that(1)] tqs_okD(2) [OF ok that(1), of r] split
    by (auto simp: unqueue_def kset_defs split: if_splits)
  then show "tqs_ok Q (qs(q := xs @ ys)) (unqueue t s)"
    using u(1) by (simp add: tqs_ok_def tq_nodes_upd unqueue_def kset_defs)
  show "klist0_empty (Krunq t) (nodes (unqueue t s))"
    using klist_empty_iff [OF u(2)] by (simp add: unqueue_def kset_defs)
qed

lemma krunq_not_in_rings: "off_queues Q qs t \<Longrightarrow> a \<in> TqThreads ` Q \<Longrightarrow> Krunq t \<notin> ring (tq_nodes qs) a"
  by (auto simp: off_queues_def ring_def)

lemma tqs_ok_queue_head:
  assumes ok: "tqs_ok Q qs s" and q: "q \<in> Q" and off: "off_queues Q qs t"
  shows "tqs_ok Q (qs(q := t # qs q)) (queue_head t q s)"
proof -
  have "krunq_head (threads (queue_head t q s) r) = Some p" if "p \<in> Q" "r \<in> set ((qs(q := t # qs q)) p)" for p r
    using that off tqs_okD(2) [OF ok that(1), of r]
    by (auto simp: queue_head_def off_queues_def kset_defs split: if_splits)
  then show ?thesis
    using klists_append [OF tqs_okD(1) [OF ok] imageI [OF q] krunq_not_in_rings [OF off]]
    by (simp add: tqs_ok_def tq_nodes_upd queue_head_def kset_defs)
qed

lemma tqs_ok_queue_tail:
  assumes ok: "tqs_ok Q qs s" and q: "q \<in> Q" and off: "off_queues Q qs t"
  shows "tqs_ok Q (qs(q := qs q @ [t])) (queue_tail t q s)"
proof -
  have "krunq_head (threads (queue_tail t q s) r) = Some p" if "p \<in> Q" "r \<in> set ((qs(q := qs q @ [t])) p)" for p r
    using that off tqs_okD(2) [OF ok that(1), of r]
    by (auto simp: queue_tail_def off_queues_def kset_defs split: if_splits)
  then show ?thesis
    using klists_prepend [OF tqs_okD(1) [OF ok] imageI [OF q] krunq_not_in_rings [OF off]]
    by (simp add: tqs_ok_def tq_nodes_upd queue_tail_def kset_defs)
qed

section \<open>The operations without locks\<close>

lemma tq_is_empty_iff: "tqs_ok Q qs s \<Longrightarrow> q \<in> Q \<Longrightarrow> klist0_empty (TqThreads q) (nodes s) \<longleftrightarrow> qs q = []"
  using klists_empty [OF tqs_okD(1), of Q qs s "TqThreads q"] by auto

lemma tq__remove_thread_eq:
  assumes "tqs_ok Q qs s" and "q \<in> Q" and "t \<in> set (qs q)"
  shows "tq__remove_thread t s = Some (unqueue t s)"
  using tqs_okD(2) [OF assms] klists_not_unlinked [OF tqs_okD(1) [OF assms(1)] imageI [OF assms(2)], of "Krunq t"] assms(3)
  by (simp add: tq__remove_thread_def unqueue_def)

lemma tq__remove_head_eq:
  assumes ok: "tqs_ok Q qs s" and q: "q \<in> Q"
  shows "tq__remove_head q s =
    (case qs q of [] \<Rightarrow> Some (s, None) | t # ts \<Rightarrow> Some (unqueue t s, Some t))"
proof (cases "qs q")
  case Nil
  then show ?thesis using tq_is_empty_iff [OF ok q] by (simp add: tq__remove_head_def)
next
  case (Cons t ts)
  have "next (nodes s) (TqThreads q) = Krunq t"
    using klists_unlink_first(1) [OF tqs_okD(1) [OF ok] imageI [OF q], of "Krunq t" "map Krunq ts"] by (simp add: Cons)
  then show ?thesis
    using tq_is_empty_iff [OF ok q] tq__remove_thread_eq [OF ok q, of t]
    by (simp add: tq__remove_head_def krunq_entry_def Cons)
qed

lemma tq__remove_tail_eq:
  assumes ok: "tqs_ok Q qs s" and q: "q \<in> Q"
  shows "tq__remove_tail q s =
    (if qs q = [] then Some (s, None) else Some (unqueue (last (qs q)) s, Some (last (qs q))))"
proof (cases "qs q = []")
  case True
  then show ?thesis using tq_is_empty_iff [OF ok q] by (simp add: tq__remove_tail_def)
next
  case False
  then obtain ts t where t: "qs q = ts @ [t]"
    by (cases "qs q" rule: rev_cases) auto
  have "prev (nodes s) (TqThreads q) = Krunq t"
    using klists_unlink_last(1) [OF tqs_okD(1) [OF ok] imageI [OF q], of "map Krunq ts" "Krunq t"] by (simp add: t)
  then have "prev (nodes s) (TqThreads q) = Krunq (last (qs q))"
    by (simp add: t)
  then show ?thesis
    using False tq_is_empty_iff [OF ok q] tq__remove_thread_eq [OF ok q, of "last (qs q)"]
    by (simp add: tq__remove_tail_def krunq_entry_def)
qed

lemma tq__insert_eq:
  assumes "debug_spinlocks s" and "locks s (TqLock q) = 1" and "klist0_empty (Krunq t) (nodes s)"
  shows "tq__insert_head t q s = Some (queue_head t q s)"
    and "tq__insert_tail t q s = Some (queue_tail t q s)"
  using assms by (simp_all add: tq__insert_head_def tq__insert_tail_def spin_trylock_def queue_head_def queue_tail_def)

section \<open>Locks and the interrupt flag\<close>

definition unlocked :: "tqid set \<Rightarrow> kernel \<Rightarrow> bool" where
  "unlocked Q s \<longleftrightarrow> debug_spinlocks s \<and> (\<forall>q\<in>Q. locks s (TqLock q) = 0)"

definition locked :: "lockid \<Rightarrow> kernel \<Rightarrow> kernel" where
  "locked l s = s\<lparr>locks := (locks s)(l := 1)\<rparr>"

lemma spin_lock_eq: "debug_spinlocks s \<Longrightarrow> locks s l = 0 \<Longrightarrow> spin_lock l s = Some (locked l s)"
  by (simp add: spin_lock_def locked_def)

lemma spin_unlock_eq: "debug_spinlocks s \<Longrightarrow> locks s l = 0 \<Longrightarrow> spin_unlock l (locked l s) = Some s"
  by (simp add: spin_unlock_def locked_def fun_upd_idem)

lemma restore_masked: "kcpu s' = kcpu s \<Longrightarrow> local_irq_restore (eflags (kcpu s)) (local_irq_disable s') = s'"
  by (simp add: local_irq_restore_def local_irq_disable_def set_cpu_def)

lemma locked_simps [simp]:
  "nodes (locked l s) = nodes s" "threads (locked l s) = threads s" "kcpu (locked l s) = kcpu s"
  "debug_spinlocks (locked l s) = debug_spinlocks s" "locks (locked l s) l = 1"
  "CURRENT (locked l s) = CURRENT s" "jiffies (locked l s) = jiffies s"
  by (simp_all add: locked_def CURRENT_def)

lemma masked_simps [simp]:
  "nodes (local_irq_disable s) = nodes s" "threads (local_irq_disable s) = threads s"
  "locks (local_irq_disable s) = locks s" "debug_spinlocks (local_irq_disable s) = debug_spinlocks s"
  "CURRENT (local_irq_disable s) = CURRENT s" "jiffies (local_irq_disable s) = jiffies s"
  by (simp_all add: local_irq_disable_def set_cpu_def CURRENT_def)

lemma queue_op_simps [simp]:
  "locks (unqueue t s) = locks s" "locks (queue_head t q s) = locks s" "locks (queue_tail t q s) = locks s"
  "debug_spinlocks (unqueue t s) = debug_spinlocks s" "debug_spinlocks (queue_head t q s) = debug_spinlocks s"
  "debug_spinlocks (queue_tail t q s) = debug_spinlocks s"
  "kcpu (unqueue t s) = kcpu s" "kcpu (queue_head t q s) = kcpu s" "kcpu (queue_tail t q s) = kcpu s"
  "jiffies (unqueue t s) = jiffies s" "jiffies (queue_head t q s) = jiffies s" "jiffies (queue_tail t q s) = jiffies s"
  "reg_sched (unqueue t s) = reg_sched s" "reg_sched (queue_head t q s) = reg_sched s"
  "reg_sched (queue_tail t q s) = reg_sched s"
  "mutex_locks (unqueue t s) = mutex_locks s" "mutex_locks (queue_head t q s) = mutex_locks s"
  "mutex_locks (queue_tail t q s) = mutex_locks s"
  by (simp_all add: unqueue_def queue_head_def queue_tail_def kset_defs)

lemma set_thread_simps [simp]:
  "nodes (set_thread t f s) = nodes s" "locks (set_thread t f s) = locks s" "kcpu (set_thread t f s) = kcpu s"
  "debug_spinlocks (set_thread t f s) = debug_spinlocks s" "jiffies (set_thread t f s) = jiffies s"
  "reg_sched (set_thread t f s) = reg_sched s" "mutex_locks (set_thread t f s) = mutex_locks s"
  "CURRENT (set_thread t f s) = CURRENT s"
  by (simp_all add: set_thread_def CURRENT_def)

text \<open>Taking a lock and masking interrupts commute with the queue operations.\<close>

lemma locked_commute:
  "unqueue t (locked l s) = locked l (unqueue t s)"
  "queue_head t q (locked l s) = locked l (queue_head t q s)"
  "queue_tail t q (locked l s) = locked l (queue_tail t q s)"
  "set_thread t f (locked l s) = locked l (set_thread t f s)"
  by (simp_all add: locked_def unqueue_def queue_head_def queue_tail_def kset_defs)

lemma masked_commute:
  "unqueue t (local_irq_disable s) = local_irq_disable (unqueue t s)"
  "queue_head t q (local_irq_disable s) = local_irq_disable (queue_head t q s)"
  "queue_tail t q (local_irq_disable s) = local_irq_disable (queue_tail t q s)"
  "set_thread t f (local_irq_disable s) = local_irq_disable (set_thread t f s)"
  "locked l (local_irq_disable s) = local_irq_disable (locked l s)"
  by (simp_all add: local_irq_disable_def locked_def unqueue_def queue_head_def queue_tail_def kset_defs)

lemmas under_lock = locked_commute masked_commute

lemma tqs_ok_locked [simp]: "tqs_ok Q qs (locked l s) = tqs_ok Q qs s"
  by (simp add: tqs_ok_def)

lemma tqs_ok_masked [simp]: "tqs_ok Q qs (local_irq_disable s) = tqs_ok Q qs s"
  by (simp add: tqs_ok_def)

lemma tqs_ok_set_thread:
  "(\<And>th. krunq_head (f th) = krunq_head th) \<Longrightarrow> tqs_ok Q qs (set_thread t f s) = tqs_ok Q qs s"
  by (auto simp: tqs_ok_def set_thread_def)

section \<open>Moving a thread between queues\<close>

definition queue_end :: "bool \<Rightarrow> u32 \<Rightarrow> tqid \<Rightarrow> kernel \<Rightarrow> kernel" where
  "queue_end hd_end t q s = (if hd_end then queue_head t q s else queue_tail t q s)"

definition end_of :: "bool \<Rightarrow> 'a list \<Rightarrow> 'a" where
  "end_of hd_end xs = (if hd_end then hd xs else last xs)"

definition but_end :: "bool \<Rightarrow> 'a list \<Rightarrow> 'a list" where
  "but_end hd_end xs = (if hd_end then tl xs else butlast xs)"

definition add_end :: "bool \<Rightarrow> 'a \<Rightarrow> 'a list \<Rightarrow> 'a list" where
  "add_end hd_end x xs = (if hd_end then x # xs else xs @ [x])"

text \<open>What a transfer does to the queues, and the four functions by the ends they use.\<close>

definition move :: "bool \<Rightarrow> bool \<Rightarrow> tqid \<Rightarrow> tqid \<Rightarrow> (tqid \<Rightarrow> u32 list) \<Rightarrow> tqid \<Rightarrow> u32 list" where
  "move from_hd to_hd a b qs =
    (if qs a = [] then qs
     else let qs1 = qs(a := but_end from_hd (qs a)) in qs1(b := add_end to_hd (end_of from_hd (qs a)) (qs1 b)))"

definition tq_transfer :: "bool \<Rightarrow> bool \<Rightarrow> tqid \<Rightarrow> tqid \<Rightarrow> kernel \<Rightarrow> (kernel \<times> bool) option" where
  "tq_transfer from_hd to_hd =
    (if from_hd then (if to_hd then tq_transfer_head_to_head else tq_transfer_head_to_tail)
     else (if to_hd then tq_transfer_tail_to_head else tq_transfer_tail_to_tail))"

lemma end_split:
  assumes "xs \<noteq> []"
  shows "\<exists>us vs. xs = us @ end_of b xs # vs \<and> but_end b xs = us @ vs"
proof (cases b)
  case True
  then have "xs = [] @ end_of b xs # tl xs \<and> but_end b xs = [] @ tl xs"
    using assms by (simp add: end_of_def but_end_def)
  then show ?thesis by blast
next
  case False
  then have "xs = butlast xs @ end_of b xs # [] \<and> but_end b xs = butlast xs @ []"
    using assms by (simp add: end_of_def but_end_def)
  then show ?thesis by blast
qed

lemma tqs_ok_move:
  assumes ok: "tqs_ok Q qs s" and ab: "a \<in> Q" "b \<in> Q" and ne: "qs a \<noteq> []"
  shows "tqs_ok Q (move from_hd to_hd a b qs) (queue_end to_hd (end_of from_hd (qs a)) b (unqueue (end_of from_hd (qs a)) s))"
    and "klist0_empty (Krunq (end_of from_hd (qs a))) (nodes (unqueue (end_of from_hd (qs a)) s))"
proof -
  obtain us vs where sp: "qs a = us @ end_of from_hd (qs a) # vs" "but_end from_hd (qs a) = us @ vs"
    using end_split [OF ne] by blast
  note u = tqs_ok_unqueue [OF ok ab(1) sp(1)]
  show "tqs_ok Q (move from_hd to_hd a b qs) (queue_end to_hd (end_of from_hd (qs a)) b (unqueue (end_of from_hd (qs a)) s))"
    using tqs_ok_queue_head [OF u(1) ab(2) u(3)] tqs_ok_queue_tail [OF u(1) ab(2) u(3)] ne sp(2)
    by (simp add: move_def queue_end_def add_end_def Let_def)
  show "klist0_empty (Krunq (end_of from_hd (qs a))) (nodes (unqueue (end_of from_hd (qs a)) s))"
    by (rule u(2))
qed

lemma tq_transfer_eq:
  assumes ok: "tqs_ok Q qs s" and ul: "unlocked Q s" and ab: "a \<in> Q" "b \<in> Q"
  shows "tq_transfer from_hd to_hd a b s =
    Some (if qs a = [] then s else queue_end to_hd (end_of from_hd (qs a)) b (unqueue (end_of from_hd (qs a)) s), qs a \<noteq> [])"
proof -
  have dbg: "debug_spinlocks s" "locks s (TqLock a) = 0" "locks s (TqLock b) = 0"
    using ul ab by (auto simp: unlocked_def)
  have rh: "tq__remove_head a (locked (TqLock a) (local_irq_disable s)) =
      (if qs a = [] then Some (locked (TqLock a) (local_irq_disable s), None)
       else Some (locked (TqLock a) (local_irq_disable (unqueue (hd (qs a)) s)), Some (hd (qs a))))"
    using tq__remove_head_eq [of Q qs "locked (TqLock a) (local_irq_disable s)" a] ok ab
    by (cases "qs a") (simp_all add: under_lock)
  have rt: "tq__remove_tail a (locked (TqLock a) (local_irq_disable s)) =
      (if qs a = [] then Some (locked (TqLock a) (local_irq_disable s), None)
       else Some (locked (TqLock a) (local_irq_disable (unqueue (last (qs a)) s)), Some (last (qs a))))"
    using tq__remove_tail_eq [of Q qs "locked (TqLock a) (local_irq_disable s)" a] ok ab
    by (simp add: under_lock)
  have ins: "klist0_empty (Krunq t) (nodes s1) \<Longrightarrow> debug_spinlocks s1 \<Longrightarrow>
      tq__insert_head t b (locked (TqLock b) (local_irq_disable s1)) = Some (locked (TqLock b) (local_irq_disable (queue_head t b s1))) \<and>
      tq__insert_tail t b (locked (TqLock b) (local_irq_disable s1)) = Some (locked (TqLock b) (local_irq_disable (queue_tail t b s1)))" for t s1
    using tq__insert_eq [of "locked (TqLock b) (local_irq_disable s1)" b t] by (simp add: locked_commute masked_commute(1-4))
  note defs = tq_transfer_def tq_transfer_head_to_head_def tq_transfer_head_to_tail_def tq_transfer_tail_to_head_def
    tq_transfer_tail_to_tail_def local_irq_save_def queue_end_def end_of_def
  show ?thesis
    using dbg rh rt tqs_ok_move(2) [OF ok ab, of True] tqs_ok_move(2) [OF ok ab, of False]
    by (cases from_hd; cases to_hd) (simp_all add: defs spin_lock_eq spin_unlock_eq ins restore_masked)
qed

section \<open>The invariant of the scheduler\<close>

text \<open>
  A thread that is not running has its stack pointer saved so that eleven words above it lies in its own stack page,
  the one its descriptor is in.
\<close>

definition parked :: "kernel \<Rightarrow> u32 \<Rightarrow> bool" where
  "parked s t \<longleftrightarrow> THREAD (esp (threads s t) + 44) = t"

definition sched_ok :: "tqid set \<Rightarrow> (tqid \<Rightarrow> u32 list) \<Rightarrow> kernel \<Rightarrow> bool" where
  "sched_ok Q qs s \<longleftrightarrow> tqs_ok Q qs s \<and> unlocked Q s \<and> RqQueue \<in> Q \<and> reg_sched s = Some sched0 \<and>
     (\<forall>q\<in>Q. \<forall>t\<in>set (qs q). t \<noteq> CURRENT s \<longrightarrow> parked s t)"

lemma sched_okD:
  assumes "sched_ok Q qs s"
  shows "tqs_ok Q qs s" "unlocked Q s" "RqQueue \<in> Q" "reg_sched s = Some sched0"
    and "q \<in> Q \<Longrightarrow> t \<in> set (qs q) \<Longrightarrow> t \<noteq> CURRENT s \<Longrightarrow> parked s t"
    and "debug_spinlocks s" and "q \<in> Q \<Longrightarrow> locks s (TqLock q) = 0"
  using assms by (auto simp: sched_ok_def unlocked_def)

lemma unlocked_simps [simp]:
  "unlocked Q (unqueue t s) = unlocked Q s" "unlocked Q (queue_head t q s) = unlocked Q s"
  "unlocked Q (queue_tail t q s) = unlocked Q s" "unlocked Q (set_thread t f s) = unlocked Q s"
  by (simp_all add: unlocked_def)

lemma CURRENT_simps [simp]:
  "CURRENT (unqueue t s) = CURRENT s" "CURRENT (queue_head t q s) = CURRENT s" "CURRENT (queue_tail t q s) = CURRENT s"
  by (simp_all add: CURRENT_def)

lemma esp_simps [simp]:
  "esp (threads (unqueue t s) r) = esp (threads s r)" "esp (threads (queue_head t q s) r) = esp (threads s r)"
  "esp (threads (queue_tail t q s) r) = esp (threads s r)"
  by (simp_all add: unqueue_def queue_head_def queue_tail_def kset_defs)

lemma parked_simps [simp]:
  "parked (unqueue t s) = parked s" "parked (queue_head t q s) = parked s" "parked (queue_tail t q s) = parked s"
  by (simp_all add: parked_def fun_eq_iff)

lemma parked_set_thread: "(\<And>th. esp (f th) = esp th) \<Longrightarrow> parked (set_thread t f s) = parked s"
  by (auto simp: parked_def set_thread_def fun_eq_iff)

text \<open>One step: the state changes by queue operations, the queues hold the same threads.\<close>

lemma sched_okI:
  assumes "sched_ok Q qs s" and "tqs_ok Q qs' s'" and "unlocked Q s'" and "reg_sched s' = reg_sched s"
    and "CURRENT s' = CURRENT s" and "parked s' = parked s"
    and "(\<Union>q\<in>Q. set (qs' q)) \<subseteq> (\<Union>q\<in>Q. set (qs q))"
  shows "sched_ok Q qs' s'"
  unfolding sched_ok_def
proof (intro conjI ballI impI)
  fix q t assume "q \<in> Q" "t \<in> set (qs' q)" "t \<noteq> CURRENT s'"
  then obtain p where "p \<in> Q" "t \<in> set (qs p)" using assms(7) by blast
  then show "parked s' t"
    using sched_okD(5) [OF assms(1)] \<open>t \<noteq> CURRENT s'\<close> assms(5,6) by simp
qed (use assms sched_okD(3,4) [OF assms(1)] in auto)

lemma set_move:
  assumes "a \<in> Q" "b \<in> Q"
  shows "(\<Union>q\<in>Q. set (move h1 h2 a b qs q)) \<subseteq> (\<Union>q\<in>Q. set (qs q))"
proof (cases "qs a = []")
  case False
  then have "set (but_end h1 (qs a)) \<subseteq> set (qs a)" "end_of h1 (qs a) \<in> set (qs a)"
    by (auto simp: but_end_def end_of_def dest: list.set_sel(2) in_set_butlastD)
  then show ?thesis
    using assms False by (fastforce simp: move_def Let_def add_end_def split: if_splits)
qed (simp add: move_def)

lemma mset_move:
  assumes "finite Q" "a \<in> Q" "b \<in> Q"
  shows "(\<Sum>q\<in>Q. mset (move h1 h2 a b qs q)) = (\<Sum>q\<in>Q. mset (qs q))"
proof (cases "qs a = []")
  case False
  let ?x = "end_of h1 (qs a)" and ?qs1 = "qs(a := but_end h1 (qs a))"
  have a: "mset (qs a) = add_mset ?x (mset (but_end h1 (qs a)))"
    using end_split [OF False, of h1] by (metis add_mset_add_single mset.simps(2) mset_append union_mset_add_mset_right)
  have upd: "(\<Sum>q\<in>Q. mset ((f(c := ys)) q)) = (\<Sum>q\<in>Q - {c}. mset (f q)) + mset ys"
    if "c \<in> Q" for f :: "tqid \<Rightarrow> u32 list" and c ys
    using assms(1) that by (subst sum.remove [of Q c]) (auto simp: union_commute)
  have old: "(\<Sum>q\<in>Q. mset (f q)) = (\<Sum>q\<in>Q - {c}. mset (f q)) + mset (f c)"
    if "c \<in> Q" for f :: "tqid \<Rightarrow> u32 list" and c
    using assms(1) that by (subst sum.remove [of Q c]) (auto simp: union_commute)
  have "(\<Sum>q\<in>Q. mset ((?qs1(b := add_end h2 ?x (?qs1 b))) q)) = (\<Sum>q\<in>Q. mset (?qs1 q)) + {#?x#}"
    unfolding upd [OF assms(3)] old [OF assms(3), of ?qs1] by (simp add: add_end_def)
  also have "\<dots> = (\<Sum>q\<in>Q. mset (qs q))"
    unfolding upd [OF assms(2)] old [OF assms(2), of qs] using a by simp
  finally show ?thesis
    using False by (simp add: move_def Let_def)
qed (simp add: move_def)

lemma sched_ok_move:
  assumes "sched_ok Q qs s" and "a \<in> Q" "b \<in> Q" and "tqs_ok Q (move h1 h2 a b qs) s'" and "unlocked Q s'"
    and "reg_sched s' = reg_sched s" and "CURRENT s' = CURRENT s" and "parked s' = parked s"
  shows "sched_ok Q (move h1 h2 a b qs) s'"
  by (rule sched_okI [OF assms(1,4-8) set_move [OF assms(2,3)]])

section \<open>The scheduler's operations\<close>

lemma tqs_ok_move_hd:
  assumes ok: "tqs_ok Q qs s" and ab: "a \<in> Q" "b \<in> Q" and q: "qs a = t # ts"
  shows "tqs_ok Q (move True h a b qs) (queue_end h t b (unqueue t s))"
    and "klist0_empty (Krunq t) (nodes (unqueue t s))"
proof -
  have e: "end_of True (qs a) = t" by (simp add: end_of_def q)
  note m = tqs_ok_move(1) [OF ok ab, of True h] tqs_ok_move(2) [OF ok ab, of True]
  show "tqs_ok Q (move True h a b qs) (queue_end h t b (unqueue t s))"
    using m(1) by (simp add: q e [unfolded q])
  show "klist0_empty (Krunq t) (nodes (unqueue t s))"
    using m(2) by (simp add: q e [unfolded q])
qed

lemma tqs_ok_queue_set:
  assumes "tqs_ok Q qs (queue_end h t b s)" and "\<And>th. krunq_head (f th) = krunq_head th"
  shows "tqs_ok Q qs (queue_end h t b (set_thread r f s))"
  by (rule tqs_ok_cong [OF assms(1)])
    (auto simp: queue_end_def queue_head_def queue_tail_def set_nodes_def set_thread_def assms(2))

lemma sched0_enqueue_ok:
  assumes ok: "sched_ok Q qs s" and q: "q \<in> Q"
  shows "\<exists>s'. sched0_enqueue q s = Some (s', qs q \<noteq> []) \<and> sched_ok Q (move True True q RqQueue qs) s' \<and>
    CURRENT s' = CURRENT s \<and> mutex_locks s' = mutex_locks s"
proof (cases "qs q")
  case Nil
  have "sched0_enqueue q s = Some (s, False)"
    using sched_okD [OF ok] q Nil tq__remove_head_eq [of Q qs "locked (TqLock q) (local_irq_disable s)" q]
    by (simp add: sched0_enqueue_def local_irq_save_def spin_lock_eq spin_unlock_eq restore_masked)
  then show ?thesis using ok Nil by (simp add: move_def)
next
  case (Cons t ts)
  let ?s1 = "set_thread t (\<lambda>th. th\<lparr>quantum := SCHED_MAX_QUANTUM\<rparr>) (unqueue t s)"
  note m = tqs_ok_move_hd [where qs = qs, OF sched_okD(1) [OF ok] q sched_okD(3) [OF ok] Cons]
  note m1 = tqs_ok_queue_set [OF m(1) [of True], of "\<lambda>th. th\<lparr>quantum := SCHED_MAX_QUANTUM\<rparr>" t]
  have ins: "tq__insert_head t RqQueue (locked (TqLock RqQueue) (local_irq_disable ?s1)) =
      Some (locked (TqLock RqQueue) (local_irq_disable (queue_head t RqQueue ?s1)))"
    using tq__insert_eq(1) [of "locked (TqLock RqQueue) (local_irq_disable ?s1)" RqQueue t] sched_okD(6) [OF ok] m(2)
    by (simp add: locked_commute masked_commute(1-4))
  have "sched0_enqueue q s = Some (queue_head t RqQueue ?s1, True)"
    using sched_okD [OF ok] q Cons ins tq__remove_head_eq [of Q qs "locked (TqLock q) (local_irq_disable s)" q]
    by (simp add: sched0_enqueue_def local_irq_save_def spin_lock_eq spin_unlock_eq restore_masked locked_commute masked_commute(1-4))
  moreover have "sched_ok Q (move True True q RqQueue qs) (queue_head t RqQueue ?s1)"
    using m1 sched_okD(2) [OF ok]
    by (intro sched_ok_move [OF ok q sched_okD(3) [OF ok]]) (simp_all add: queue_end_def parked_set_thread)
  ultimately show ?thesis using Cons by simp
qed

lemma sched0_rotate_eq:
  assumes ok: "tqs_ok Q qs s" and rq: "RqQueue \<in> Q" "qs RqQueue = t # ts" and d: "debug_spinlocks s"
  shows "sched0_rotate (locked (TqLock RqQueue) s) =
      Some (locked (TqLock RqQueue) (queue_tail t RqQueue (unqueue t s)), t)"
    and "tqs_ok Q (move True False RqQueue RqQueue qs) (queue_tail t RqQueue (unqueue t s))"
proof -
  note m = tqs_ok_move_hd [where qs = qs, OF ok rq(1,1,2)]
  show "tqs_ok Q (move True False RqQueue RqQueue qs) (queue_tail t RqQueue (unqueue t s))"
    using m(1) [of False] by (simp add: queue_end_def)
  show "sched0_rotate (locked (TqLock RqQueue) s) =
      Some (locked (TqLock RqQueue) (queue_tail t RqQueue (unqueue t s)), t)"
    using ok rq d m(2) tq__remove_head_eq [of Q qs "locked (TqLock RqQueue) s" RqQueue]
      tq__insert_eq(2) [of "locked (TqLock RqQueue) (unqueue t s)" RqQueue t]
    by (simp add: sched0_rotate_def locked_commute)
qed

lemma move_rotate: "qs RqQueue = t # ts \<Longrightarrow> move True False RqQueue RqQueue qs = qs(RqQueue := ts @ [t])"
  by (simp add: move_def Let_def but_end_def end_of_def add_end_def)

lemma switch_simps [simp]:
  "nodes (thread_switch_context a b s) = nodes s" "locks (thread_switch_context a b s) = locks s"
  "debug_spinlocks (thread_switch_context a b s) = debug_spinlocks s"
  "reg_sched (thread_switch_context a b s) = reg_sched s"
  "mutex_locks (thread_switch_context a b s) = mutex_locks s"
  "threads (thread_switch_context a b s) = (threads s)(a := (threads s a)\<lparr>esp := cpu_esp (kcpu s) - 44\<rparr>)"
  "cpu_esp (kcpu (thread_switch_context a b s)) = esp (threads (thread_switch_context a b s) b) + 44"
  by (simp_all add: thread_switch_context_def do_thread_switch_context_def switch_map_def store_word_def kset_defs Let_def)

lemma switch_CURRENT:
  assumes "a = CURRENT s" and "b \<noteq> a \<longrightarrow> parked s b"
  shows "CURRENT (thread_switch_context a b s) = b" and "parked (thread_switch_context a b s) a"
    and "r \<noteq> a \<Longrightarrow> parked (thread_switch_context a b s) r = parked s r"
  using assms by (auto simp: CURRENT_def parked_def)

lemma sched0_yield_ok:
  assumes ok: "sched_ok Q qs s" and rq: "qs RqQueue = t # ts"
  shows "\<exists>s'. sched0_yield s = Some s' \<and> sched_ok Q (qs(RqQueue := ts @ [t])) s' \<and> CURRENT s' = t \<and>
    mutex_locks s' = mutex_locks s"
proof -
  let ?c = "CURRENT s"
  let ?f = "\<lambda>th. th\<lparr>quantum := SCHED_MAX_QUANTUM, last_tick := jiffies s\<rparr>"
  let ?s1 = "set_thread ?c ?f s"
  let ?s2 = "queue_tail t RqQueue (unqueue t ?s1)"
  note o = sched_okD [OF ok]
  have "tqs_ok Q qs ?s1" using o(1) by (simp add: tqs_ok_set_thread)
  note r = sched0_rotate_eq [of Q qs "local_irq_disable ?s1", OF _ o(3) rq] sched0_rotate_eq(2) [OF this o(3) rq]
  have y: "sched0_yield s = Some (thread_switch_context ?c t ?s2)"
    using r(1) o \<open>tqs_ok Q qs ?s1\<close>
    by (simp add: sched0_yield_def spin_lock_irqsave_def local_irq_save_def spin_unlock_irqrestore_def spin_lock_eq
        spin_unlock_eq restore_masked masked_commute(1-4) Let_def)
  have mid: "sched_ok Q (move True False RqQueue RqQueue qs) ?s2"
    using r(3) o(2,6) by (intro sched_ok_move [OF ok o(3,3)]) (simp_all add: parked_set_thread)
  have pt: "t \<noteq> ?c \<longrightarrow> parked ?s2 t"
    using o(5) [OF o(3), of t] rq by (simp add: parked_set_thread)
  have c: "?c = CURRENT ?s2" by simp
  note sw = switch_CURRENT [OF c pt]
  have "sched_ok Q (qs(RqQueue := ts @ [t])) (thread_switch_context ?c t ?s2)"
    unfolding sched_ok_def
  proof (intro conjI ballI impI)
    show "tqs_ok Q (qs(RqQueue := ts @ [t])) (thread_switch_context ?c t ?s2)"
      using sched_okD(1) [OF mid] unfolding move_rotate [where qs = qs, OF rq] by (rule tqs_ok_cong) auto
    show "unlocked Q (thread_switch_context ?c t ?s2)"
      using o(2) by (simp add: unlocked_def)
    fix q x assume x: "q \<in> Q" "x \<in> set ((qs(RqQueue := ts @ [t])) q)"
    then have "x \<in> set (qs q)" using rq by (auto split: if_splits)
    then show "parked (thread_switch_context ?c t ?s2) x"
      using sw(2,3) o(5) [OF x(1)] by (cases "x = ?c") (simp_all add: parked_set_thread)
  qed (use o in simp_all)
  then show ?thesis using y sw(1) by auto
qed

text \<open>A thread on no queue stays unlinked while others move.\<close>

lemma tqs_klist: "tqs_ok Q qs s \<Longrightarrow> q \<in> Q \<Longrightarrow> klist (nodes s) (TqThreads q) (map Krunq (qs q))"
  using klistsD [OF tqs_okD(1), of Q qs s "TqThreads q"] by simp

lemma off_unqueue:
  assumes "tqs_ok Q qs s" and "q \<in> Q" and "t \<in> set (qs q)" and "off_queues Q qs c"
  shows "klist0_empty (Krunq c) (nodes (unqueue t s)) = klist0_empty (Krunq c) (nodes s)"
proof -
  have "c \<notin> set (qs q)" using assms(2,4) by (simp add: off_queues_def)
  then show ?thesis
    using klist0_unlink_other [OF tqs_klist [OF assms(1,2)], of "Krunq c" "Krunq t"] assms(3)
    by (simp add: unqueue_def kset_defs klist0_empty_def image_iff)
qed

lemma off_queue_tail:
  assumes "tqs_ok Q qs s" and "q \<in> Q" and "off_queues Q qs c" and "c \<noteq> t"
  shows "klist0_empty (Krunq c) (nodes (queue_tail t q s)) = klist0_empty (Krunq c) (nodes s)"
proof -
  have "c \<notin> set (qs q)" using assms(2,3) by (simp add: off_queues_def)
  then show ?thesis
    using klist0_prepend_other [OF tqs_klist [OF assms(1,2)], of "Krunq c" "Krunq t" "TqThreads q"] assms(4)
    by (simp add: queue_tail_def kset_defs klist0_empty_def image_iff)
qed

text \<open>The queues after the running thread \<open>c\<close> has gone to sleep on \<open>q\<close>.\<close>

definition sleep_queues :: "u32 \<Rightarrow> tqid \<Rightarrow> (tqid \<Rightarrow> u32 list) \<Rightarrow> tqid \<Rightarrow> u32 list" where
  "sleep_queues c q qs =
    (let qs1 = qs(RqQueue := rotate1 (remove1 c (qs RqQueue))) in qs1(q := qs1 q @ [c]))"

lemma dequeue_locked:
  assumes ok: "tqs_ok Q qs s" and d: "debug_spinlocks s" and Q: "RqQueue \<in> Q" "q \<in> Q"
    and rq: "qs RqQueue = xs @ c # ys" and n: "xs @ ys = n # ns"
  defines "s1 \<equiv> queue_tail n RqQueue (unqueue n (unqueue c s))"
  shows "tq__remove_thread c (locked l s) = Some (locked l (unqueue c s))"
    and "tq__remove_head RqQueue (locked l (unqueue c s)) = Some (locked l (unqueue n (unqueue c s)), Some n)"
    and "tq__insert_tail n RqQueue (locked (TqLock RqQueue) (unqueue n (unqueue c s))) = Some (locked (TqLock RqQueue) s1)"
    and "klist0_empty (Krunq c) (nodes s1)"
    and "tqs_ok Q (sleep_queues c q qs) (queue_tail c q s1)"
proof -
  have c: "c \<in> set (qs RqQueue)" by (simp add: rq)
  have "c \<notin> set xs" using tqs_ok_distinct [OF ok Q(1)] by (simp add: rq)
  then have rem: "remove1 c (qs RqQueue) = n # ns"
    by (simp add: rq remove1_append n)
  note u = tqs_ok_unqueue [where qs = qs, OF ok Q(1) rq, unfolded n]
  let ?q1 = "qs(RqQueue := n # ns)"
  have h1: "?q1 RqQueue = [] @ n # ns" by simp
  note v = tqs_ok_unqueue [where qs = "qs(RqQueue := n # ns)", OF u(1) Q(1) h1]
  have cn: "c \<noteq> n" using u(3) Q(1) by (auto simp: off_queues_def)
  show "tq__remove_thread c (locked l s) = Some (locked l (unqueue c s))"
    using tq__remove_thread_eq [of Q qs "locked l s" RqQueue c] ok Q c by (simp add: locked_commute)
  show "tq__remove_head RqQueue (locked l (unqueue c s)) = Some (locked l (unqueue n (unqueue c s)), Some n)"
    using tq__remove_head_eq [of Q ?q1 "locked l (unqueue c s)" RqQueue] u(1) Q by (simp add: locked_commute)
  show "tq__insert_tail n RqQueue (locked (TqLock RqQueue) (unqueue n (unqueue c s))) = Some (locked (TqLock RqQueue) s1)"
    using tq__insert_eq(2) [of "locked (TqLock RqQueue) (unqueue n (unqueue c s))" RqQueue n] d v(2)
    by (simp add: locked_commute s1_def)
  have off: "off_queues Q (?q1(RqQueue := [] @ ns)) c"
    using u(3) by (auto simp: off_queues_def split: if_splits)
  have off': "klist0_empty (Krunq c) (nodes (unqueue n (unqueue c s)))"
    using off_unqueue [OF u(1) Q(1) _ u(3), of n] u(2) by simp
  then show e: "klist0_empty (Krunq c) (nodes s1)"
    using off_queue_tail [OF v(1) Q(1) off cn] by (simp add: s1_def)
  have w: "tqs_ok Q (qs(RqQueue := ns @ [n])) s1"
    using tqs_ok_queue_tail [OF v(1) Q(1) v(3)] unfolding s1_def by (simp only: fun_upd_upd fun_upd_same append_Nil)
  have "off_queues Q (qs(RqQueue := ns @ [n])) c"
    using u(3) by (auto simp: off_queues_def split: if_splits)
  then show "tqs_ok Q (sleep_queues c q qs) (queue_tail c q s1)"
    using tqs_ok_queue_tail [OF w Q(2)] by (simp add: sleep_queues_def rem Let_def)
qed

lemma set_sleep_queues:
  assumes "RqQueue \<in> Q" and "q \<in> Q" and "c \<in> set (qs RqQueue)"
  shows "(\<Union>p\<in>Q. set (sleep_queues c q qs p)) \<subseteq> (\<Union>p\<in>Q. set (qs p))"
proof -
  have "set (remove1 c (qs RqQueue)) \<subseteq> set (qs RqQueue)" by (rule set_remove1_subset)
  then show ?thesis
    using assms by (fastforce simp: sleep_queues_def Let_def split: if_splits)
qed

lemma sched0_dequeue_ok:
  assumes ok: "sched_ok Q qs s" and q: "q \<in> Q" and c: "CURRENT s \<in> set (qs RqQueue)"
    and two: "qs RqQueue \<noteq> [CURRENT s]"
  shows "\<exists>s'. sched0_dequeue q s = Some s' \<and> sched_ok Q (sleep_queues (CURRENT s) q qs) s' \<and> CURRENT s' = CURRENT s"
proof -
  let ?c = "CURRENT s"
  let ?f = "\<lambda>th. th\<lparr>quantum := SCHED_MAX_QUANTUM, last_tick := jiffies s\<rparr>"
  note o = sched_okD [OF ok]
  obtain xs ys where rq: "qs RqQueue = xs @ ?c # ys" using c by (auto simp: in_set_conv_decomp)
  then obtain n ns where n: "xs @ ys = n # ns" using two by (cases "xs @ ys") auto
  note dq = dequeue_locked [of Q qs "local_irq_disable s", OF _ _ o(3) q rq n]
  let ?s1 = "queue_tail n RqQueue (unqueue n (unqueue ?c s))"
  let ?s2 = "queue_tail ?c q (set_thread ?c ?f ?s1)"
  have dq': "klist0_empty (Krunq ?c) (nodes ?s1)" "tqs_ok Q (sleep_queues ?c q qs) (queue_tail ?c q ?s1)"
    using dequeue_locked(4,5) [OF o(1,6,3) q rq n] by simp_all
  have ins: "tq__insert_tail ?c q (locked (TqLock q) (local_irq_disable (set_thread ?c ?f ?s1))) =
      Some (locked (TqLock q) (local_irq_disable ?s2))"
    using tq__insert_eq(2) [of "locked (TqLock q) (local_irq_disable (set_thread ?c ?f ?s1))" q ?c] dq'(1) o(6)
    by (simp add: locked_commute masked_commute(1-4))
  have "krunq_head (threads s ?c) = Some RqQueue"
    using tqs_okD(2) [OF o(1,3) c] .
  then have "sched0_dequeue q s = Some ?s2"
    using dq(1,2) [of "TqLock RqQueue"] dq(3) ins o q
    by (simp add: sched0_dequeue_def local_irq_save_def spin_lock_eq spin_unlock_eq restore_masked Let_def
        masked_commute(1-4))
  moreover have "tqs_ok Q (sleep_queues ?c q qs) ?s2"
    using tqs_ok_queue_set [of Q _ False ?c q ?s1 ?f ?c] dq'(2) by (simp add: queue_end_def)
  then have "sched_ok Q (sleep_queues ?c q qs) ?s2"
    by (rule sched_okI [OF ok _ _ _ _ _ set_sleep_queues [where qs = qs, OF o(3) q c]])
      (use o(2) in \<open>simp_all add: parked_set_thread\<close>)
  ultimately show ?thesis by simp
qed

lemma sched0_dequeue_alone:
  assumes ok: "sched_ok Q qs s" and c: "qs RqQueue = [CURRENT s]"
  shows "sched0_dequeue q s = None"
proof -
  note o = sched_okD [OF ok]
  have rq: "qs RqQueue = [] @ CURRENT s # []" by (simp add: c)
  note u = tqs_ok_unqueue(1) [where qs = qs, OF o(1,3) rq]
  have "tq__remove_thread (CURRENT s) (locked (TqLock RqQueue) (local_irq_disable s)) =
      Some (locked (TqLock RqQueue) (local_irq_disable (unqueue (CURRENT s) s)))"
    using tq__remove_thread_eq [of Q qs "locked (TqLock RqQueue) (local_irq_disable s)" RqQueue "CURRENT s"] o(1,3) c
    by (simp add: locked_commute masked_commute(1-4))
  moreover have "tq__remove_head RqQueue (locked (TqLock RqQueue) (local_irq_disable (unqueue (CURRENT s) s))) =
      Some (locked (TqLock RqQueue) (local_irq_disable (unqueue (CURRENT s) s)), None)"
    using tq__remove_head_eq [of Q "qs(RqQueue := [])" "locked (TqLock RqQueue) (local_irq_disable (unqueue (CURRENT s) s))" RqQueue]
      u o(3) by simp
  ultimately show ?thesis
    using o by (simp add: sched0_dequeue_def local_irq_save_def spin_lock_eq bug_def Let_def)
qed

end
