(* ===== verification/Sched_Run.thy ===== *)
theory Sched_Run
  imports Sched_Props
begin

text \<open>
  What the scheduler promises its clients, as a locale that \<open>sched0\<close> behind \<^verbatim>\<open>kernel/scheduler.c\<close> interprets, and the
  properties of runs of scheduler operations: safety of every operation, round robin, waking up, sleeping, mutexes.
\<close>

section \<open>The tick\<close>

text \<open>The queues after a tick: the head of the run queue moves when the quantum of the running thread is used up.\<close>

definition tick_queues :: "kernel \<Rightarrow> (tqid \<Rightarrow> u32 list) \<Rightarrow> tqid \<Rightarrow> u32 list" where
  "tick_queues s qs =
    (if quantum (threads s (CURRENT s)) = 1 then qs(RqQueue := rotate1 (qs RqQueue)) else qs)"

lemma sched_ok_cong:
  assumes "sched_ok Q qs s" and "nodes s' = nodes s" and "locks s' = locks s" and "debug_spinlocks s' = debug_spinlocks s"
    and "reg_sched s' = reg_sched s" and "CURRENT s' = CURRENT s"
    and "\<And>t. krunq_head (threads s' t) = krunq_head (threads s t) \<and> esp (threads s' t) = esp (threads s t)"
  shows "sched_ok Q qs s'"
proof (rule sched_okI [OF assms(1)])
  show "tqs_ok Q qs s'" by (rule tqs_ok_cong [OF sched_okD(1) [OF assms(1)] assms(2)]) (use assms(7) in simp)
qed (use assms sched_okD(2) [OF assms(1)] in \<open>auto simp: unlocked_def parked_def fun_eq_iff\<close>)

lemma resched_simps [simp]:
  "need_reschedule (set_thread t f s) = need_reschedule s" "next_thread (set_thread t f s) = next_thread s"
  "need_reschedule (unqueue t s) = need_reschedule s" "next_thread (unqueue t s) = next_thread s"
  "need_reschedule (queue_tail t q s) = need_reschedule s" "next_thread (queue_tail t q s) = next_thread s"
  by (simp_all add: unqueue_def queue_tail_def kset_defs)

text \<open>A tick within the quantum, and the one that ends it.\<close>

definition tick_within :: "kernel \<Rightarrow> kernel" where
  "tick_within s = set_thread (CURRENT s) (\<lambda>th. th\<lparr>quantum := quantum th - 1, last_tick := jiffies s\<rparr>) s"

definition tick_expired :: "u32 \<Rightarrow> kernel \<Rightarrow> kernel" where
  "tick_expired t s =
    (let s1 = queue_tail t RqQueue (unqueue t (set_thread (CURRENT s) (\<lambda>th. th\<lparr>quantum := SCHED_MAX_QUANTUM\<rparr>) s));
         s2 = (if CURRENT s \<noteq> t then s1\<lparr>need_reschedule := 1, next_thread := t\<rparr> else s1)
     in set_thread (CURRENT s) (\<lambda>th. th\<lparr>last_tick := jiffies s\<rparr>) s2)"

lemma sched0_tick_eq:
  assumes ok: "sched_ok Q qs s" and rq: "qs RqQueue = t # ts"
  shows "sched0_tick s = Some (if quantum (threads s (CURRENT s)) = 1 then tick_expired t s else tick_within s)"
proof -
  let ?c = "CURRENT s"
  let ?s1 = "set_thread ?c (\<lambda>th. th\<lparr>quantum := quantum th - 1\<rparr>) s"
  let ?s2 = "set_thread ?c (\<lambda>th. th\<lparr>quantum := SCHED_MAX_QUANTUM\<rparr>) ?s1"
  have s2: "?s2 = set_thread ?c (\<lambda>th. th\<lparr>quantum := SCHED_MAX_QUANTUM\<rparr>) s"
    by (simp add: set_thread_def)
  note o = sched_okD [OF ok]
  have ne: "\<not> tq_is_empty RqQueue s"
    using tq_is_empty_iff [OF o(1,3)] rq by (simp add: tq_is_empty_def)
  have q1: "quantum (threads ?s1 ?c) = quantum (threads s ?c) - 1" by (simp add: set_thread_def)
  show ?thesis
  proof (cases "quantum (threads s ?c) = 1")
    case True
    have "tqs_ok Q qs ?s2" using o(1) by (simp add: tqs_ok_set_thread)
    from sched0_rotate_eq(1) [OF this o(3) rq] show ?thesis
      using ne o True q1 s2 by (simp add: sched0_tick_def tick_expired_def spin_lock_eq spin_unlock_eq Let_def)
  next
    case False
    have "set_thread ?c (\<lambda>th. th\<lparr>last_tick := jiffies s\<rparr>) ?s1 = tick_within s"
      by (simp add: tick_within_def set_thread_def)
    then show ?thesis
      using ne False q1 by (simp add: sched0_tick_def Let_def)
  qed
qed

lemma tick_expired_ok:
  assumes ok: "sched_ok Q qs s" and rq: "qs RqQueue = t # ts"
  shows "sched_ok Q (qs(RqQueue := ts @ [t])) (tick_expired t s)" and "kcpu (tick_expired t s) = kcpu s"
proof -
  let ?s1 = "set_thread (CURRENT s) (\<lambda>th. th\<lparr>quantum := SCHED_MAX_QUANTUM\<rparr>) s"
  let ?s3 = "queue_tail t RqQueue (unqueue t ?s1)"
  note o = sched_okD [OF ok]
  have "tqs_ok Q qs ?s1" using o(1) by (simp add: tqs_ok_set_thread)
  then have ok3: "sched_ok Q (move True False RqQueue RqQueue qs) ?s3"
    using sched0_rotate_eq(2) [of Q qs ?s1, OF _ o(3) rq] o(2,6)
    by (intro sched_ok_move [OF ok o(3,3)]) (simp_all add: parked_set_thread)
  show k: "kcpu (tick_expired t s) = kcpu s"
    by (simp add: tick_expired_def Let_def)
  show "sched_ok Q (qs(RqQueue := ts @ [t])) (tick_expired t s)"
    unfolding move_rotate [where qs = qs, OF rq, symmetric]
    by (rule sched_ok_cong [OF ok3]) (simp_all add: tick_expired_def Let_def set_thread_def CURRENT_def)
qed

lemma tick_within_ok:
  assumes "sched_ok Q qs s"
  shows "sched_ok Q qs (tick_within s)" and "kcpu (tick_within s) = kcpu s"
  by (auto simp: tick_within_def intro!: sched_ok_cong [OF assms]) (simp_all add: set_thread_def)

lemma sched0_tick_ok:
  assumes ok: "sched_ok Q qs s" and rq: "qs RqQueue = t # ts"
  shows "\<exists>s'. sched0_tick s = Some s' \<and> sched_ok Q (tick_queues s qs) s' \<and> CURRENT s' = CURRENT s"
  using sched0_tick_eq [OF assms] tick_expired_ok [OF assms] tick_within_ok [OF ok] rq
  by (simp add: tick_queues_def CURRENT_def)

section \<open>The contract of the scheduler\<close>

text \<open>
  \<open>ok qs s\<close> relates the abstract queues to the state and \<open>Q\<close> is the set of queues in use.  A thread put on the run queue goes
  to its head; yielding runs the head and moves it to the tail; the running thread goes to sleep at the tail of a
  queue, and the head of the run queue moves to the tail then, too.
\<close>

locale run_queue =
  fixes Q :: "tqid set" and ok :: "(tqid \<Rightarrow> u32 list) \<Rightarrow> kernel \<Rightarrow> bool" and current :: "kernel \<Rightarrow> u32"
    and enq :: "tqid \<Rightarrow> kernel \<Rightarrow> (kernel \<times> bool) option" and deq :: "tqid \<Rightarrow> kernel \<Rightarrow> kernel option"
    and yld :: "kernel \<Rightarrow> kernel option"
  assumes rq_in: "ok qs s \<Longrightarrow> RqQueue \<in> Q"
    and enq_law: "ok qs s \<Longrightarrow> q \<in> Q \<Longrightarrow>
      \<exists>s'. enq q s = Some (s', qs q \<noteq> []) \<and> ok (move True True q RqQueue qs) s' \<and> current s' = current s"
    and deq_law: "ok qs s \<Longrightarrow> q \<in> Q \<Longrightarrow> current s \<in> set (qs RqQueue) \<Longrightarrow> qs RqQueue \<noteq> [current s] \<Longrightarrow>
      \<exists>s'. deq q s = Some s' \<and> ok (sleep_queues (current s) q qs) s' \<and> current s' = current s"
    and yld_law: "ok qs s \<Longrightarrow> qs RqQueue = t # ts \<Longrightarrow>
      \<exists>s'. yld s = Some s' \<and> ok (qs(RqQueue := ts @ [t])) s' \<and> current s' = t"
begin

text \<open>Repeated yields run the threads of the queue in turn.\<close>

lemma yields_in_turn:
  assumes run: "\<And>s. run 0 s = Some s" "\<And>n s. run (Suc n) s = Option.bind (yld s) (run n)"
    and "ok qs s" and "i < length (qs RqQueue)"
  shows "\<exists>s'. run (Suc i) s = Some s' \<and> ok (qs(RqQueue := rotate (Suc i) (qs RqQueue))) s' \<and> current s' = qs RqQueue ! i"
  using assms(3,4)
proof (induction i arbitrary: qs s)
  case 0
  then obtain t ts where rq: "qs RqQueue = t # ts" by (cases "qs RqQueue") auto
  then obtain s1 where "yld s = Some s1" "ok (qs(RqQueue := ts @ [t])) s1" "current s1 = t" using yld_law [OF 0(1) rq] by auto
  moreover have "rotate (Suc 0) (qs RqQueue) = ts @ [t]" by (simp add: rq)
  ultimately show ?case using rq by (simp only: run bind.bind_lunit nth_Cons_0) blast
next
  case (Suc i)
  then obtain t ts where rq: "qs RqQueue = t # ts" by (cases "qs RqQueue") auto
  then obtain s1 where y: "yld s = Some s1" "ok (qs(RqQueue := ts @ [t])) s1" using yld_law [OF Suc.prems(1) rq] by auto
  have i: "i < length ((qs(RqQueue := ts @ [t])) RqQueue)" using Suc.prems(2) rq by simp
  from Suc.IH [OF y(2) i] obtain s2 where s2: "run (Suc i) s1 = Some s2"
    "ok (qs(RqQueue := ts @ [t], RqQueue := rotate (Suc i) (ts @ [t]))) s2" "current s2 = (ts @ [t]) ! i"
    unfolding fun_upd_same by blast
  moreover have "(ts @ [t]) ! i = qs RqQueue ! Suc i" using Suc.prems(2) rq by (simp add: nth_append)
  moreover have "rotate (Suc i) (ts @ [t]) = rotate (Suc (Suc i)) (qs RqQueue)"
    unfolding rq by (metis rotate1.simps(2) rotate1_rotate_swap rotate_Suc)
  moreover have "run (Suc (Suc i)) s = run (Suc i) s1" using y(1) by (subst run(2)) simp
  ultimately show ?case by (simp only: fun_upd_upd) blast
qed

text \<open>A loop that wakes until the queue is empty ends; the last thread woken comes first.\<close>

lemma wake_loop:
  assumes loop: "\<And>s. wake s = do { (s1, more) \<leftarrow> enq q s; if more then wake s1 else Some s1 }"
    and "ok qs s" and "q \<in> Q" and "q \<noteq> RqQueue"
  shows "\<exists>s'. wake s = Some s' \<and> ok (qs(RqQueue := rev (qs q) @ qs RqQueue, q := [])) s' \<and> current s' = current s"
  using assms(2)
proof (induction "qs q" arbitrary: qs s)
  case Nil
  then obtain s1 where "enq q s = Some (s1, False)" "ok qs s1" "current s1 = current s"
    using enq_law [OF Nil(2) assms(3)] by (auto simp: move_def)
  moreover have "qs(RqQueue := rev (qs q) @ qs RqQueue, q := []) = qs" using Nil(1) by (auto simp: fun_eq_iff)
  ultimately show ?case by (subst loop) simp
next
  case (Cons t ts)
  let ?qs1 = "move True True q RqQueue qs"
  have m: "?qs1 = qs(q := ts, RqQueue := t # qs RqQueue)"
    using Cons.hyps(2) assms(4) by (simp add: move_def Let_def but_end_def end_of_def add_end_def flip: Cons.hyps(2))
  obtain s1 where e: "enq q s = Some (s1, True)" "ok ?qs1 s1" "current s1 = current s"
    using enq_law [OF Cons.prems assms(3)] Cons.hyps(2) [symmetric] by auto
  have "ts = ?qs1 q" using m assms(4) by simp
  then obtain s2 where w: "wake s1 = Some s2" "current s2 = current s1"
      "ok (?qs1(RqQueue := rev (?qs1 q) @ ?qs1 RqQueue, q := [])) s2"
    using Cons.hyps(1) [OF _ e(2)] by auto
  have "?qs1(RqQueue := rev (?qs1 q) @ ?qs1 RqQueue, q := []) = qs(RqQueue := rev (qs q) @ qs RqQueue, q := [])"
    using m Cons.hyps(2) [symmetric] assms(4) by (auto simp: fun_eq_iff)
  then show ?case using w e by (subst loop) simp
qed

text \<open>Going to sleep with other threads waiting: the thread at the head of the run queue is passed over.\<close>

lemma sleep_then_yield:
  assumes "ok qs s" and "q \<in> Q" "q \<noteq> RqQueue" and "current s \<in> set (qs RqQueue)"
    and rem: "remove1 (current s) (qs RqQueue) = n # m # ns"
  shows "\<exists>s'. Option.bind (deq q s) yld = Some s' \<and> current s' = m \<and>
    ok (qs(RqQueue := ns @ [n, m], q := qs q @ [current s])) s'"
proof -
  have "qs RqQueue \<noteq> [current s]" using rem by auto
  then obtain s1 where s1: "deq q s = Some s1" "ok (sleep_queues (current s) q qs) s1"
    using deq_law [OF assms(1,2,4)] by auto
  have sq: "sleep_queues (current s) q qs = qs(RqQueue := m # ns @ [n], q := qs q @ [current s])"
    using rem assms(3) by (auto simp: sleep_queues_def Let_def)
  have "(qs(RqQueue := m # ns @ [n], q := qs q @ [current s])) RqQueue = m # ns @ [n]" using assms(3) by simp
  from yld_law [OF s1(2) [unfolded sq] this] obtain s2 where "yld s1 = Some s2" "current s2 = m"
    "ok (qs(RqQueue := m # ns @ [n], q := qs q @ [current s], RqQueue := (ns @ [n]) @ [m])) s2" by blast
  moreover have "qs(RqQueue := m # ns @ [n], q := qs q @ [current s], RqQueue := (ns @ [n]) @ [m]) =
      qs(RqQueue := ns @ [n, m], q := qs q @ [current s])"
    using assms(3) by (auto simp: fun_eq_iff)
  ultimately show ?thesis using s1(1) by simp
qed

end

text \<open>The trivial scheduler, called through the registered methods, fulfils the contract.\<close>

lemma scheduler_calls:
  assumes "sched_ok Q qs s"
  shows "scheduler_enqueue q s = sched0_enqueue q s" "scheduler_dequeue q s = sched0_dequeue q s"
    and "scheduler_yield s = sched0_yield s" "scheduler_tick s = sched0_tick s"
  using sched_okD(4) [OF assms]
  by (simp_all add: scheduler_enqueue_def scheduler_dequeue_def scheduler_yield_def scheduler_tick_def sched_call_def sched0_def)

interpretation s0: run_queue Q "sched_ok Q" CURRENT scheduler_enqueue scheduler_dequeue scheduler_yield for Q
proof unfold_locales
  show "RqQueue \<in> Q" if "sched_ok Q qs s" for qs s using sched_okD(3) [OF that] .
  show "\<exists>s'. scheduler_enqueue q s = Some (s', qs q \<noteq> []) \<and> sched_ok Q (move True True q RqQueue qs) s' \<and> CURRENT s' = CURRENT s"
    if "sched_ok Q qs s" "q \<in> Q" for qs s q
    using sched0_enqueue_ok [OF that] scheduler_calls(1) [OF that(1)] by auto
  show "\<exists>s'. scheduler_dequeue q s = Some s' \<and> sched_ok Q (sleep_queues (CURRENT s) q qs) s' \<and> CURRENT s' = CURRENT s"
    if "sched_ok Q qs s" "q \<in> Q" "CURRENT s \<in> set (qs RqQueue)" "qs RqQueue \<noteq> [CURRENT s]" for qs s q
    using sched0_dequeue_ok [OF that] scheduler_calls(2) [OF that(1)] by auto
  show "\<exists>s'. scheduler_yield s = Some s' \<and> sched_ok Q (qs(RqQueue := ts @ [t])) s' \<and> CURRENT s' = t"
    if "sched_ok Q qs s" "qs RqQueue = t # ts" for qs s t ts
    using sched0_yield_ok [OF that] scheduler_calls(3) [OF that(1)] by auto
qed

section \<open>Runs of scheduler operations\<close>

datatype sched_op = Enqueue tqid | Dequeue tqid | Tick | Yield | Transfer bool bool tqid tqid

fun run_op :: "sched_op \<Rightarrow> kernel \<Rightarrow> kernel option" where
  "run_op (Enqueue q) s = map_option fst (scheduler_enqueue q s)"
| "run_op (Dequeue q) s = scheduler_dequeue q s"
| "run_op Tick s = scheduler_tick s"
| "run_op Yield s = scheduler_yield s"
| "run_op (Transfer from_hd to_hd a b) s = map_option fst (tq_transfer from_hd to_hd a b s)"

text \<open>The queues an operation names, when it goes through, and what it does to the queues.\<close>

fun op_queues :: "sched_op \<Rightarrow> tqid set" where
  "op_queues (Enqueue q) = {q}"
| "op_queues (Dequeue q) = {q}"
| "op_queues (Transfer _ _ a b) = {a, b}"
| "op_queues _ = {}"

fun op_enabled :: "sched_op \<Rightarrow> (tqid \<Rightarrow> u32 list) \<Rightarrow> kernel \<Rightarrow> bool" where
  "op_enabled (Dequeue q) qs s \<longleftrightarrow> CURRENT s \<in> set (qs RqQueue) \<and> qs RqQueue \<noteq> [CURRENT s]"
| "op_enabled Tick qs s \<longleftrightarrow> qs RqQueue \<noteq> []"
| "op_enabled Yield qs s \<longleftrightarrow> qs RqQueue \<noteq> []"
| "op_enabled _ qs s \<longleftrightarrow> True"

fun op_effect :: "sched_op \<Rightarrow> kernel \<Rightarrow> (tqid \<Rightarrow> u32 list) \<Rightarrow> tqid \<Rightarrow> u32 list" where
  "op_effect (Enqueue q) s qs = move True True q RqQueue qs"
| "op_effect (Dequeue q) s qs = sleep_queues (CURRENT s) q qs"
| "op_effect Tick s qs = tick_queues s qs"
| "op_effect Yield s qs = qs(RqQueue := rotate1 (qs RqQueue))"
| "op_effect (Transfer from_hd to_hd a b) s qs = move from_hd to_hd a b qs"

fun op_running :: "sched_op \<Rightarrow> kernel \<Rightarrow> (tqid \<Rightarrow> u32 list) \<Rightarrow> u32" where
  "op_running Yield s qs = hd (qs RqQueue)"
| "op_running _ s qs = CURRENT s"

lemma tq_transfer_ok:
  assumes ok: "sched_ok Q qs s" and ab: "a \<in> Q" "b \<in> Q"
  shows "\<exists>s'. tq_transfer h1 h2 a b s = Some (s', qs a \<noteq> []) \<and> sched_ok Q (move h1 h2 a b qs) s' \<and> kcpu s' = kcpu s \<and>
    locks s' = locks s"
proof (cases "qs a = []")
  case True
  then show ?thesis using tq_transfer_eq [OF sched_okD(1,2) [OF ok] ab, of h1 h2] ok by (simp add: move_def)
next
  case False
  let ?s' = "queue_end h2 (end_of h1 (qs a)) b (unqueue (end_of h1 (qs a)) s)"
  have "sched_ok Q (move h1 h2 a b qs) ?s'"
    using tqs_ok_move(1) [OF sched_okD(1) [OF ok] ab False, of h1 h2] sched_okD(2) [OF ok]
    by (intro sched_ok_move [OF ok ab]) (simp_all add: queue_end_def)
  then show ?thesis
    using tq_transfer_eq [OF sched_okD(1,2) [OF ok] ab, of h1 h2] False by (simp add: queue_end_def)
qed

lemma sum_mset_upd:
  assumes "finite Q" and "q \<in> Q"
  shows "(\<Sum>p\<in>Q. mset ((f(q := xs)) p)) = (\<Sum>p\<in>Q - {q}. mset (f p)) + mset xs"
    and "(\<Sum>p\<in>Q. mset (f p)) = (\<Sum>p\<in>Q - {q}. mset (f p)) + mset (f q)"
  using assms by (subst sum.remove [of Q q]; auto simp: union_commute)+

lemma mset_rotate1 [simp]: "mset (rotate1 xs) = mset xs"
  by (cases xs) simp_all

lemma mset_rotate_rq:
  assumes "finite Q" and "RqQueue \<in> Q"
  shows "(\<Sum>q\<in>Q. mset ((qs(RqQueue := rotate1 (qs RqQueue))) q)) = (\<Sum>q\<in>Q. mset (qs q))"
  using sum_mset_upd [OF assms, of qs] by simp

lemma mset_sleep_queues:
  assumes Q: "finite Q" "RqQueue \<in> Q" "q \<in> Q" and c: "c \<in> set (qs RqQueue)"
  shows "(\<Sum>p\<in>Q. mset (sleep_queues c q qs p)) = (\<Sum>p\<in>Q. mset (qs p))"
proof -
  let ?qs1 = "qs(RqQueue := rotate1 (remove1 c (qs RqQueue)))"
  have "(\<Sum>p\<in>Q. mset ((?qs1(q := ?qs1 q @ [c])) p)) = (\<Sum>p\<in>Q. mset (?qs1 p)) + {#c#}"
    unfolding sum_mset_upd(1) [OF Q(1,3)] sum_mset_upd(2) [OF Q(1,3), of ?qs1] by simp
  also have "\<dots> = (\<Sum>p\<in>Q. mset (qs p))"
    unfolding sum_mset_upd(1) [OF Q(1,2)] sum_mset_upd(2) [OF Q(1,2), of qs] using c by simp
  finally show ?thesis by (simp add: sleep_queues_def Let_def)
qed

lemma op_effect_mset:
  assumes "finite Q" and "RqQueue \<in> Q" and "op_queues p \<subseteq> Q" and "op_enabled p qs s"
  shows "(\<Sum>q\<in>Q. mset (op_effect p s qs q)) = (\<Sum>q\<in>Q. mset (qs q))"
  using assms by (cases p) (simp_all add: mset_move mset_sleep_queues mset_rotate_rq [unfolded fun_upd_def] tick_queues_def
      mset_rotate_rq)

lemma run_op_ok:
  assumes ok: "sched_ok Q qs s" and "op_queues p \<subseteq> Q" and en: "op_enabled p qs s"
  shows "\<exists>s'. run_op p s = Some s' \<and> sched_ok Q (op_effect p s qs) s' \<and> CURRENT s' = op_running p s qs"
proof (cases p)
  case (Enqueue q)
  then show ?thesis using s0.enq_law [OF ok, of q] assms(2) by auto
next
  case (Dequeue q)
  then show ?thesis using s0.deq_law [OF ok, of q] assms(2) en by auto
next
  case Tick
  then obtain t ts where "qs RqQueue = t # ts" using en by (cases "qs RqQueue") auto
  from sched0_tick_ok [OF ok this] show ?thesis using Tick scheduler_calls(4) [OF ok] by auto
next
  case Yield
  then obtain t ts where rq: "qs RqQueue = t # ts" using en by (cases "qs RqQueue") auto
  from s0.yld_law [OF ok rq] show ?thesis using Yield rq by simp
next
  case (Transfer h1 h2 a b)
  then show ?thesis using tq_transfer_ok [OF ok, of a b h1 h2] assms(2) by (auto simp: CURRENT_def)
qed

lemma run_op_stuck:
  assumes ok: "sched_ok Q qs s" and en: "\<not> op_enabled p qs s" and c: "r \<in> Q" "CURRENT s \<in> set (qs r)"
  shows "run_op p s = None"
proof (cases p)
  case (Dequeue q)
  show ?thesis
  proof (cases "qs RqQueue = [CURRENT s]")
    case True
    then show ?thesis using sched0_dequeue_alone [OF ok] Dequeue scheduler_calls(2) [OF ok] by simp
  next
    case False
    then have "r \<noteq> RqQueue" using en Dequeue c by auto
    then have "krunq_head (threads s (CURRENT s)) \<noteq> Some RqQueue"
      using tqs_okD(2) [OF sched_okD(1) [OF ok] c] by simp
    then show ?thesis
      using Dequeue scheduler_calls(2) [OF ok] by (simp add: sched0_dequeue_def local_irq_save_def Let_def)
  qed
next
  case Tick
  then have "tq_is_empty RqQueue s"
    using en tq_is_empty_iff [OF sched_okD(1,3) [OF ok]] by (simp add: tq_is_empty_def)
  then show ?thesis using Tick scheduler_calls(4) [OF ok] by (simp add: sched0_tick_def Let_def)
next
  case Yield
  let ?s1 = "set_thread (CURRENT s) (\<lambda>th. th\<lparr>quantum := SCHED_MAX_QUANTUM, last_tick := jiffies s\<rparr>) s"
  have "tqs_ok Q qs (locked (TqLock RqQueue) (local_irq_disable ?s1))"
    using sched_okD(1) [OF ok] by (simp add: tqs_ok_set_thread)
  from tq__remove_head_eq [OF this sched_okD(3) [OF ok]] have "sched0_yield s = None"
    using en Yield sched_okD [OF ok]
    by (simp add: sched0_yield_def spin_lock_irqsave_def local_irq_save_def spin_lock_eq sched0_rotate_def Let_def bug_def)
  then show ?thesis using Yield scheduler_calls(3) [OF ok] by simp
qed (use en in simp_all)

section \<open>A state with three threads\<close>

lemma sched_ok_idle:
  assumes "nodes s = \<lparr>prev = (\<lambda>n. n), next = (\<lambda>n. n)\<rparr>" and "debug_spinlocks s" and "locks s = (\<lambda>_. 0)"
    and "reg_sched s = Some sched0" and "RqQueue \<in> Q"
  shows "sched_ok Q (\<lambda>_. []) s"
  using assms by (auto simp: sched_ok_def tqs_ok_def klists_def klist_Nil_iff ring_def unlocked_def)

lemma sched_ok_add:
  assumes ok: "sched_ok Q qs s" and q: "q \<in> Q" and off: "off_queues Q qs t" and p: "t \<noteq> CURRENT s \<longrightarrow> parked s t"
  shows "sched_ok Q (qs(q := qs q @ [t])) (queue_tail t q s)"
  using tqs_ok_queue_tail [OF sched_okD(1) [OF ok] q off] ok p by (auto simp: sched_ok_def)

definition a_thread :: u32 where "a_thread = 0x10F10"
definition b_thread :: u32 where "b_thread = 0x20F10"
definition c_thread :: u32 where "c_thread = 0x30F10"

text \<open>The first two are on the run queue, the third one on a given queue; the first one runs; their quanta end at the next tick.\<close>

definition idle_kernel :: kernel where
  "idle_kernel = undefined
    \<lparr>nodes := \<lparr>prev = (\<lambda>n. n), next = (\<lambda>n. n)\<rparr>, debug_spinlocks := True, locks := (\<lambda>_. 0),
     kcpu := undefined\<lparr>cpu_esp := 0x10800, eflags := 0x202\<rparr>,
     threads := (\<lambda>t. undefined\<lparr>krunq_head := None, esp := t - 0x700, quantum := 1\<rparr>), reg_sched := Some sched0,
     mutex_locks := (\<lambda>_. 0)\<rparr>"

definition threads_with :: "tqid \<Rightarrow> kernel" where
  "threads_with q = queue_tail c_thread q (queue_tail b_thread RqQueue (queue_tail a_thread RqQueue idle_kernel))"

abbreviation three_threads :: kernel where
  "three_threads \<equiv> threads_with RqQueue"

abbreviation run_only :: "u32 list \<Rightarrow> tqid \<Rightarrow> u32 list" where
  "run_only ts \<equiv> (\<lambda>_. [])(RqQueue := ts)"

lemma THREAD_eqs: "THREAD 0x10800 = 0x10F10" "THREAD 0x1083C = 0x10F10" "THREAD 0x2083C = 0x20F10" "THREAD 0x3083C = 0x30F10"
  by (simp_all add: THREAD_def PAGE_SIZE_def SIZEOF_THREAD_def)

lemma CURRENT_three [simp]: "CURRENT (threads_with q) = a_thread"
  by (simp add: threads_with_def idle_kernel_def CURRENT_def THREAD_eqs a_thread_def)

lemma threads_with_ok:
  assumes "RqQueue \<in> Q" and "q \<in> Q"
  shows "sched_ok Q ((run_only [a_thread, b_thread])(q := run_only [a_thread, b_thread] q @ [c_thread])) (threads_with q)"
proof -
  have pk: "parked idle_kernel a_thread" "parked idle_kernel b_thread" "parked idle_kernel c_thread"
    by (simp_all add: parked_def idle_kernel_def THREAD_eqs a_thread_def b_thread_def c_thread_def)
  have off: "off_queues Q (run_only []) a_thread" "off_queues Q (run_only [a_thread]) b_thread"
    "off_queues Q (run_only [a_thread, b_thread]) c_thread"
    by (auto simp: off_queues_def a_thread_def b_thread_def c_thread_def split: if_splits)
  have ok0: "sched_ok Q (run_only []) idle_kernel"
    using sched_ok_idle [of idle_kernel Q] assms(1) by (simp add: idle_kernel_def fun_upd_idem)
  have ok1: "sched_ok Q (run_only [a_thread]) (queue_tail a_thread RqQueue idle_kernel)"
    using sched_ok_add [OF ok0 assms(1) off(1)] pk by simp
  have ok2: "sched_ok Q (run_only [a_thread, b_thread]) (queue_tail b_thread RqQueue (queue_tail a_thread RqQueue idle_kernel))"
    using sched_ok_add [OF ok1 assms(1) off(2)] pk by simp
  show ?thesis
    using sched_ok_add [OF ok2 assms(2) off(3)] pk by (simp add: threads_with_def)
qed

lemma three_threads_ok:
  assumes "RqQueue \<in> Q"
  shows "sched_ok Q (run_only [a_thread, b_thread, c_thread]) three_threads"
  using threads_with_ok [OF assms assms] by simp

primrec yields :: "nat \<Rightarrow> kernel \<Rightarrow> kernel option" where
  "yields 0 s = Some s"
| "yields (Suc n) s = Option.bind (scheduler_yield s) (yields n)"

section \<open>Properties\<close>

text \<open>
  C3. Safety of the scheduler and of the thread queues.  Let the state be well formed (\<open>sched_ok\<close>: the queues are rings that share
  no thread, every queued thread knows its queue, all queue locks are free, and the saved stack pointer of every queued thread
  that does not run lies in its own stack).  Then enqueueing, going to sleep, a tick, a yield and each of the four transfers returns exactly when
  it is enabled (the run queue is not empty; going to sleep needs another thread to run) and otherwise stops the kernel;
  when it returns the state is well formed again, the queues are the ones of the specification, the thread that runs is the expected one, and no
  thread has been lost or duplicated.
\<close>

theorem sched_op_safe:
  assumes "sched_ok Q qs s" and "finite Q" and "op_queues p \<subseteq> Q" and "r \<in> Q" and "CURRENT s \<in> set (qs r)"
  shows "if op_enabled p qs s
    then \<exists>s'. run_op p s = Some s' \<and> sched_ok Q (op_effect p s qs) s' \<and> CURRENT s' = op_running p s qs \<and>
      (\<Sum>q\<in>Q. mset (op_effect p s qs q)) = (\<Sum>q\<in>Q. mset (qs q))
    else run_op p s = None"
  using run_op_ok [OF assms(1,3)] run_op_stuck [OF assms(1) _ assms(4,5)]
    op_effect_mset [OF assms(2) sched_okD(3) [OF assms(1)] assms(3)] by simp

theorem sched_op_safe_witness:
  "\<exists>s'. run_op (Dequeue SerialTq) three_threads = Some s' \<and> CURRENT s' = a_thread \<and>
    sched_ok {RqQueue, SerialTq} (op_effect (Dequeue SerialTq) three_threads (run_only [a_thread, b_thread, c_thread])) s'"
  using sched_op_safe [of "{RqQueue, SerialTq}" "run_only [a_thread, b_thread, c_thread]" three_threads "Dequeue SerialTq" RqQueue]
    three_threads_ok [of "{RqQueue, SerialTq}"] by auto

text \<open>
  C11. The four transfer functions refine moves between lists: from a well-formed state each of them returns, reports whether the source queue held a
  thread, moves the thread at the chosen end of the source to the chosen end of the destination (which may be the same queue), and
  leaves locks, interrupt flag and the rest of the processor state as they were.
\<close>

theorem tq_transfer_refines:
  assumes "sched_ok Q qs s" and "a \<in> Q" and "b \<in> Q"
  shows "\<exists>s'. tq_transfer from_hd to_hd a b s = Some (s', qs a \<noteq> []) \<and> sched_ok Q (move from_hd to_hd a b qs) s' \<and>
    kcpu s' = kcpu s \<and> locks s' = locks s"
  by (rule tq_transfer_ok [OF assms])

theorem tq_transfer_refines_witness:
  "\<exists>s'. tq_transfer_head_to_tail RqQueue SerialTq three_threads = Some (s', True) \<and>
    sched_ok {RqQueue, SerialTq} ((run_only [b_thread, c_thread])(SerialTq := [a_thread])) s'"
proof -
  have "move True False RqQueue SerialTq (run_only [a_thread, b_thread, c_thread]) =
      (run_only [b_thread, c_thread])(SerialTq := [a_thread])"
    by (simp add: move_def but_end_def end_of_def add_end_def)
  then show ?thesis
    using tq_transfer_refines [OF three_threads_ok, of "{RqQueue, SerialTq}" RqQueue SerialTq True False]
    by (auto simp: tq_transfer_def)
qed

text \<open>
  C8. Round robin.  With \<open>n\<close> threads on the run queue, the \<open>i\<close>-th of them runs after exactly \<open>i + 1\<close> calls of
  \<^verbatim>\<open>scheduler_yield\<close>, all of which return: every thread runs within \<open>n\<close> yields, and after \<open>n\<close> of them the queue is as it was.
\<close>

theorem round_robin:
  assumes "sched_ok Q qs s" and "i < length (qs RqQueue)"
  shows "\<exists>s'. yields (Suc i) s = Some s' \<and> sched_ok Q (qs(RqQueue := rotate (Suc i) (qs RqQueue))) s' \<and>
    CURRENT s' = qs RqQueue ! i"
  by (rule s0.yields_in_turn [OF yields.simps assms])

theorem round_robin_witness:
  "\<exists>s'. yields 3 three_threads = Some s' \<and> CURRENT s' = c_thread \<and>
    sched_ok {RqQueue} (run_only [a_thread, b_thread, c_thread]) s'"
  using round_robin [OF three_threads_ok, of "{RqQueue}" 2] by (auto simp: eval_nat_numeral)

text \<open>
  The loop \<^verbatim>\<open>while (scheduler_enqueue(&interval->wake_list))\<close> of \<^verbatim>\<open>update_timers\<close> ends, for any number of sleepers: the wake list is
  empty afterwards, all of its threads are on the run queue in front of those that were there, the last sleeper first, and
  the running thread goes on.
\<close>

lemma wake_all_terminates:
  assumes "sched_ok Q qs s" and "WakeList i \<in> Q"
  shows "\<exists>s'. wake_all (WakeList i) s = Some s' \<and>
    sched_ok Q (qs(RqQueue := rev (qs (WakeList i)) @ qs RqQueue, WakeList i := [])) s' \<and> CURRENT s' = CURRENT s"
  by (rule s0.wake_loop [OF wake_all.simps assms]) simp

end
