(* ===== verification/Mutex_Props.thy ===== *)
theory Mutex_Props
  imports Sched_Run
begin

text \<open>
  Mutexes (\<^verbatim>\<open>include/mutex.h\<close>): mutual exclusion as an invariant of a step relation in which any number of threads lock, sleep
  and unlock, and what a preemption between the test and the sleep of \<^verbatim>\<open>mutex_lock\<close> does.
\<close>

section \<open>What the scheduler leaves alone\<close>

named_theorems sched_frames \<open>calls that leave mutexes and drivers alone\<close>

lemma spin_frames [sched_frames]:
  "spin_lock l s = Some s' \<Longrightarrow> mutex_locks s' = mutex_locks s \<and> kdrv s' = kdrv s"
  "spin_unlock l s = Some s' \<Longrightarrow> mutex_locks s' = mutex_locks s \<and> kdrv s' = kdrv s"
  "spin_trylock l s = Some (s', b) \<Longrightarrow> mutex_locks s' = mutex_locks s \<and> kdrv s' = kdrv s"
  by (auto simp: spin_lock_def spin_unlock_def spin_trylock_def split: if_splits bind_splits)

lemma irq_frames [simp]:
  "mutex_locks (local_irq_disable s) = mutex_locks s" "mutex_locks (local_irq_restore fl s) = mutex_locks s"
  "kdrv (local_irq_disable s) = kdrv s" "kdrv (local_irq_restore fl s) = kdrv s"
  by (simp_all add: local_irq_disable_def local_irq_restore_def set_cpu_def)

lemma set_nodes_frame [simp]: "mutex_locks (set_nodes f s) = mutex_locks s" "kdrv (set_nodes f s) = kdrv s"
  by (simp_all add: set_nodes_def)

lemma kdrv_frame [simp]: "kdrv (set_thread t f s) = kdrv s" "kdrv (thread_switch_context a b s) = kdrv s"
  by (simp_all add: thread_switch_context_def do_thread_switch_context_def switch_map_def store_word_def kset_defs Let_def)

lemma tq_frames [sched_frames]:
  "tq__remove_thread t s = Some s' \<Longrightarrow> mutex_locks s' = mutex_locks s \<and> kdrv s' = kdrv s"
  "tq__insert_head t q s = Some s' \<Longrightarrow> mutex_locks s' = mutex_locks s \<and> kdrv s' = kdrv s"
  "tq__insert_tail t q s = Some s' \<Longrightarrow> mutex_locks s' = mutex_locks s \<and> kdrv s' = kdrv s"
  by (auto simp: tq__remove_thread_def tq__insert_head_def tq__insert_tail_def split: bind_splits dest!: spin_frames)

lemma tq_remove_head_frame [sched_frames]:
  "tq__remove_head q s = Some (s', r) \<Longrightarrow> mutex_locks s' = mutex_locks s \<and> kdrv s' = kdrv s"
  by (auto simp: tq__remove_head_def split: bind_splits if_splits dest!: tq_frames)

lemma sched0_enqueue_frame: "sched0_enqueue q s = Some (s', r) \<Longrightarrow> mutex_locks s' = mutex_locks s \<and> kdrv s' = kdrv s"
  by (auto simp: sched0_enqueue_def local_irq_save_def Let_def split: bind_splits option.splits dest!: sched_frames)

lemma sched0_dequeue_frame: "sched0_dequeue q s = Some s' \<Longrightarrow> mutex_locks s' = mutex_locks s \<and> kdrv s' = kdrv s"
  by (auto simp: sched0_dequeue_def local_irq_save_def bug_def Let_def split: bind_splits option.splits dest!: sched_frames)

lemma sched0_rotate_frame [sched_frames]: "sched0_rotate s = Some (s', t) \<Longrightarrow> mutex_locks s' = mutex_locks s \<and> kdrv s' = kdrv s"
  by (auto simp: sched0_rotate_def bug_def split: bind_splits option.splits dest!: sched_frames)

lemma sched0_yield_frame: "sched0_yield s = Some s' \<Longrightarrow> mutex_locks s' = mutex_locks s \<and> kdrv s' = kdrv s"
  by (auto simp: sched0_yield_def spin_lock_irqsave_def spin_unlock_irqrestore_def local_irq_save_def Let_def
      split: bind_splits dest!: sched_frames)

lemma sched0_tick_frame: "sched0_tick s = Some s' \<Longrightarrow> mutex_locks s' = mutex_locks s \<and> kdrv s' = kdrv s"
  by (auto simp: sched0_tick_def Let_def split: bind_splits if_splits dest!: sched_frames)

lemma call_method_frame: "call_method f s = Some s' \<Longrightarrow> mutex_locks s' = mutex_locks s \<and> kdrv s' = kdrv s"
  by (cases f) (auto simp: sched0_schedule_def sched0_start_def sched0_stop_def sched0_init_def sched0_exit_def tq_init_def
      spinlock_init_def dest: sched0_tick_frame sched0_yield_frame)

lemma scheduler_frames:
  "scheduler_enqueue q s = Some (s', r) \<Longrightarrow> mutex_locks s' = mutex_locks s \<and> kdrv s' = kdrv s"
  "scheduler_dequeue q s = Some s' \<Longrightarrow> mutex_locks s' = mutex_locks s \<and> kdrv s' = kdrv s"
  "scheduler_yield s = Some s' \<Longrightarrow> mutex_locks s' = mutex_locks s \<and> kdrv s' = kdrv s"
  by (auto simp: scheduler_enqueue_def scheduler_dequeue_def scheduler_yield_def sched_call_def bug_def
      split: bind_splits option.splits sched_fn.splits dest: sched0_enqueue_frame sched0_dequeue_frame call_method_frame)

section \<open>Threads that use one mutex\<close>

text \<open>
  A configuration is the state and the list of the threads between their \<^verbatim>\<open>mutex_lock\<close> and their \<^verbatim>\<open>mutex_unlock\<close>.  A thread in \<^verbatim>\<open>mutex_lock\<close>
  takes a step each time it comes to the label \<^verbatim>\<open>doors\<close>; everything else in the system may do anything but write to the lock.
\<close>

type_synonym mconfig = "kernel \<times> u32 list"

inductive mutex_step :: "u32 \<Rightarrow> mconfig \<Rightarrow> mconfig \<Rightarrow> bool" for m where
  acquire: "mutex_trylock m s = (s', False) \<Longrightarrow> mutex_step m (s, hs) (s', CURRENT s # hs)"
| asleep: "mutex_trylock m s = (s1, True) \<Longrightarrow> scheduler_dequeue (MutexSleepers m) s1 = Some s2 \<Longrightarrow>
    scheduler_yield s2 = Some s3 \<Longrightarrow> mutex_step m (s, hs) (s3, hs)"
| release: "CURRENT s \<in> set hs \<Longrightarrow> mutex_unlock m s = Some s' \<Longrightarrow> mutex_step m (s, hs) (s', remove1 (CURRENT s) hs)"
| elsewhere: "mutex_locks s' m = mutex_locks s m \<Longrightarrow> mutex_step m (s, hs) (s', hs)"

inductive mutex_reach :: "u32 \<Rightarrow> mconfig \<Rightarrow> bool" for m where
  init: "mutex_reach m (mutex_init m s, [])"
| step: "mutex_reach m c \<Longrightarrow> mutex_step m c c' \<Longrightarrow> mutex_reach m c'"

definition mutex_inv :: "u32 \<Rightarrow> mconfig \<Rightarrow> bool" where
  "mutex_inv m c \<longleftrightarrow> (snd c = [] \<and> mutex_locks (fst c) m = 1) \<or> (length (snd c) = 1 \<and> mutex_locks (fst c) m = 0)"

lemma mutex_trylock_eq:
  "mutex_trylock m s = (s\<lparr>mutex_locks := (mutex_locks s)(m := 0)\<rparr>, mutex_locks s m = 0)"
  by (simp add: mutex_trylock_def atomic_test_and_set_u32_def)

lemma mutex_unlock_lock:
  assumes "mutex_unlock m s = Some s'"
  shows "mutex_locks s m = 0" and "mutex_locks s' m = 1"
  using assms
  by (auto simp: mutex_unlock_def mutex_trylock_eq atomic_set_u32_def split: bind_splits dest!: scheduler_frames)

lemma mutex_step_inv: "mutex_step m c c' \<Longrightarrow> mutex_inv m c \<Longrightarrow> mutex_inv m c'"
proof (induction rule: mutex_step.induct)
  case (asleep s s1 s2 s3 hs)
  then show ?case by (auto simp: mutex_inv_def mutex_trylock_eq dest!: scheduler_frames)
next
  case (release s hs s')
  then show ?case using mutex_unlock_lock [OF release(2)] by (auto simp: mutex_inv_def length_Suc_conv)
qed (auto simp: mutex_inv_def mutex_trylock_eq)

lemma mutex_reach_inv: "mutex_reach m c \<Longrightarrow> mutex_inv m c"
proof (induction rule: mutex_reach.induct)
  case (init s)
  then show ?case
    by (simp add: mutex_inv_def mutex_init_def tq_init_def spinlock_init_def atomic_test_and_set_u32_def)
next
  case (step c c')
  then show ?case by (blast intro: mutex_step_inv)
qed

lemma sched_ok_set_mutex: "sched_ok Q qs s \<Longrightarrow> sched_ok Q qs (s\<lparr>mutex_locks := f\<rparr>)"
  by (erule sched_ok_cong) (simp_all add: CURRENT_def)

lemma mutex_unlock_ok:
  assumes ok: "sched_ok Q qs s" and q: "MutexSleepers m \<in> Q" and held: "mutex_locks s m = 0"
  shows "\<exists>s'. mutex_unlock m s = Some s' \<and> sched_ok Q (move True True (MutexSleepers m) RqQueue qs) s' \<and>
    CURRENT s' = CURRENT s \<and> mutex_locks s' m = 1"
proof -
  let ?s1 = "s\<lparr>mutex_locks := (mutex_locks s)(m := 0)\<rparr>"
  have ok1: "sched_ok Q qs ?s1" by (rule sched_ok_set_mutex [OF ok])
  from s0.enq_law [OF ok1 q] obtain s2 r where
    e: "scheduler_enqueue (MutexSleepers m) ?s1 = Some (s2, r)" "CURRENT s2 = CURRENT s"
      "sched_ok Q (move True True (MutexSleepers m) RqQueue qs) s2" by (auto simp: CURRENT_def)
  let ?s' = "s2\<lparr>mutex_locks := (mutex_locks s2)(m := atomic_set_u32 (mutex_locks s2 m) 1)\<rparr>"
  have u: "mutex_unlock m s = Some ?s'" using e(1) held by (simp add: mutex_unlock_def mutex_trylock_eq)
  then show ?thesis
    using sched_ok_set_mutex [OF e(3)] e(2) mutex_unlock_lock(2) [OF u] by (simp add: CURRENT_def)
qed

text \<open>
  Whatever the rest of the system does while the caller sleeps, as long as it keeps to the steps and comes back to the caller,
  \<^verbatim>\<open>mutex_lock\<close> returns in a configuration in which the caller is the one holder.
\<close>

lemma mutex_lock_reach:
  assumes run: "mutex_lock others m s = Some s'" and "mutex_reach m (s, hs)" and "CURRENT s = c"
    and ret: "\<And>u u' ks. mutex_reach m (u, ks) \<Longrightarrow> others u = Some u' \<Longrightarrow> CURRENT u' = c \<and> (\<exists>ks'. mutex_reach m (u', ks'))"
  shows "mutex_reach m (s', [c])"
proof -
  let ?P = "\<lambda>oth mx u u'. oth = others \<longrightarrow> mx = m \<longrightarrow> CURRENT u = c \<longrightarrow> (\<forall>hs. mutex_reach m (u, hs) \<longrightarrow> mutex_reach m (u', [c]))"
  have "?P others m s s'"
  proof (rule mutex_lock.raw_induct [where P = ?P, OF _ assms(1)], intro impI allI)
    fix rec oth mx u u' hs
    assume IH: "\<And>oth mx u u'. rec oth mx u = Some u' \<Longrightarrow> ?P oth mx u u'" and eq: "oth = others" "mx = m"
      and body: "(let (s1, busy) = mutex_trylock mx u in if busy then scheduler_dequeue (MutexSleepers mx) s1 \<bind>
          (\<lambda>s2. scheduler_yield s2 \<bind> (\<lambda>s3. oth s3 \<bind> rec oth mx)) else Some s1) = Some u'"
      and c: "CURRENT u = c" and r: "mutex_reach m (u, hs)"
    obtain s1 busy where try_: "mutex_trylock m u = (s1, busy)" by (cases "mutex_trylock m u")
    show "mutex_reach m (u', [c])"
    proof (cases busy)
      case False
      then have u': "u' = s1" using body try_ eq by simp
      have r1: "mutex_reach m (s1, CURRENT u # hs)"
        using mutex_reach.step [OF r mutex_step.acquire] try_ False by simp
      then show ?thesis using mutex_reach_inv [OF r1] c u' by (simp add: mutex_inv_def)
    next
      case True
      then obtain s2 s3 s4 where s: "scheduler_dequeue (MutexSleepers m) s1 = Some s2" "scheduler_yield s2 = Some s3"
        "others s3 = Some s4" "rec others m s4 = Some u'"
        using body try_ eq by (auto simp: bind_eq_Some_conv)
      have "mutex_reach m (s3, hs)"
        using mutex_reach.step [OF r mutex_step.asleep [OF _ s(1,2)]] try_ True by simp
      from ret [OF this s(3)] obtain ks where "CURRENT s4 = c" "mutex_reach m (s4, ks)" by blast
      then show ?thesis using IH [OF s(4)] by blast
    qed
  qed
  then show ?thesis using assms(2,3) by blast
qed

lemma mutex_lock_free:
  assumes "mutex_locks s m \<noteq> 0"
  shows "mutex_lock others m s = Some (s\<lparr>mutex_locks := (mutex_locks s)(m := 0)\<rparr>)"
  using assms by (subst mutex_lock.simps) (simp add: mutex_trylock_eq)



end
