(* ===== verification/Timer_Props.thy ===== *)
theory Timer_Props
  imports Mutex_Props
begin

text \<open>
  Sleeping for a time (\<^verbatim>\<open>kernel/timecore.c\<close>): the list \<^verbatim>\<open>future\<close> of intervals, each with the number of ticks after the interval before
  it and the queue of the threads that it wakes.
\<close>

section \<open>What the scheduler leaves alone\<close>

text \<open>
  The scheduler links threads and queue heads.  When these are linked with each other only, its calls do not
  touch any other list; they do not touch the timers either.
\<close>

definition run_node :: "knode \<Rightarrow> bool" where
  "run_node n \<longleftrightarrow> (case n of Krunq _ \<Rightarrow> True | TqThreads _ \<Rightarrow> True | _ \<Rightarrow> False)"

definition separate :: "knode klist0_node \<Rightarrow> bool" where
  "separate h \<longleftrightarrow> (\<forall>n. run_node (next h n) = run_node n \<and> run_node (prev h n) = run_node n)"

definition other_links :: "knode klist0_node \<Rightarrow> knode \<Rightarrow> (knode \<times> knode) option" where
  "other_links h n = (if run_node n then None else Some (next h n, prev h n))"

definition timer_state :: "kernel \<Rightarrow> ((u32 \<Rightarrow> u32) \<times> u32 \<times> u32 \<times> (knode \<Rightarrow> (knode \<times> knode) option)) option" where
  "timer_state s = (if separate (nodes s) then Some (ticks_left s, interval_pool s, locks s FutureLock, other_links (nodes s)) else None)"

lemma run_node_simps [simp]:
  "run_node (Krunq t)" "run_node (TqThreads q)" "\<not> run_node (IntervalList i)" "\<not> run_node Future"
  by (simp_all add: run_node_def)

lemma separate_links:
  assumes "separate h" and "run_node x" and "run_node y"
  shows "separate (klist0_unlink x h)" "other_links (klist0_unlink x h) = other_links h"
    and "separate (klist0_append x y h)" "other_links (klist0_append x y h) = other_links h"
    and "separate (klist0_prepend x y h)" "other_links (klist0_prepend x y h) = other_links h"
    and "separate (KLIST0_INIT x h)" "other_links (KLIST0_INIT x h) = other_links h"
  using assms by (auto simp: separate_def klist0_defs other_links_def fun_eq_iff)

named_theorems timer_frames \<open>calls that leave the timers alone\<close>

lemma timer_state_simps [simp]:
  "timer_state (local_irq_disable s) = timer_state s" "timer_state (local_irq_restore fl s) = timer_state s"
  "timer_state (set_thread t f s) = timer_state s" "timer_state (thread_switch_context a b s) = timer_state s"
  "heap (local_irq_disable s) = heap s" "heap (local_irq_restore fl s) = heap s" "heap (set_thread t f s) = heap s"
  "heap (set_nodes g s) = heap s"
  by (simp_all add: timer_state_def local_irq_disable_def local_irq_restore_def thread_switch_context_def do_thread_switch_context_def
      switch_map_def store_word_def kset_defs Let_def)

lemma timer_state_links:
  assumes "timer_state s = Some c"
  shows "timer_state (set_nodes (klist0_unlink (Krunq t)) s) = Some c"
    and "timer_state (set_nodes (klist0_append (Krunq t) (TqThreads q)) s) = Some c"
    and "timer_state (set_nodes (klist0_prepend (Krunq t) (TqThreads q)) s) = Some c"
    and "timer_state (set_nodes (KLIST0_INIT (TqThreads q)) s) = Some c"
  using assms separate_links [of "nodes s" "Krunq t" "TqThreads q"] separate_links [of "nodes s" "TqThreads q" "TqThreads q"]
  by (simp_all add: timer_state_def set_nodes_def split: if_splits)

lemma spin_timers [timer_frames]:
  "spin_lock (TqLock q) s = Some s' \<Longrightarrow> timer_state s' = timer_state s \<and> heap s' = heap s"
  "spin_unlock (TqLock q) s = Some s' \<Longrightarrow> timer_state s' = timer_state s \<and> heap s' = heap s"
  "spin_trylock (TqLock q) s = Some (s', b) \<Longrightarrow> timer_state s' = timer_state s \<and> heap s' = heap s"
  by (auto simp: spin_lock_def spin_unlock_def spin_trylock_def timer_state_def split: if_splits bind_splits)

definition keeps :: "kernel \<Rightarrow> kernel \<Rightarrow> bool" where
  "keeps s s' \<longleftrightarrow> (\<forall>c. timer_state s = Some c \<longrightarrow> timer_state s' = Some c) \<and> heap s' = heap s"

lemma tq_timers [timer_frames]:
  "tq__remove_thread t s = Some s' \<Longrightarrow> keeps s s'"
  "tq__insert_head t q s = Some s' \<Longrightarrow> keeps s s'"
  "tq__insert_tail t q s = Some s' \<Longrightarrow> keeps s s'"
  by (auto simp: tq__remove_thread_def tq__insert_head_def tq__insert_tail_def keeps_def timer_state_links
      split: bind_splits dest!: spin_timers)

lemma tq_remove_head_timers [timer_frames]: "tq__remove_head q s = Some (s', r) \<Longrightarrow> keeps s s'"
  by (auto simp: tq__remove_head_def keeps_def split: bind_splits if_splits dest!: tq_timers)

lemma sched0_enqueue_timers: "sched0_enqueue q s = Some (s', r) \<Longrightarrow> keeps s s'"
  by (auto simp: sched0_enqueue_def local_irq_save_def Let_def keeps_def split: bind_splits option.splits dest!: timer_frames)

lemma sched0_dequeue_timers: "sched0_dequeue q s = Some s' \<Longrightarrow> keeps s s'"
  by (auto simp: sched0_dequeue_def local_irq_save_def bug_def Let_def keeps_def split: bind_splits option.splits dest!: timer_frames)

lemma sched0_rotate_timers [timer_frames]: "sched0_rotate s = Some (s', t) \<Longrightarrow> keeps s s'"
  by (auto simp: sched0_rotate_def bug_def keeps_def split: bind_splits option.splits dest!: timer_frames)

lemma sched0_yield_timers: "sched0_yield s = Some s' \<Longrightarrow> timer_state s = Some c \<Longrightarrow> timer_state s' = Some c"
  by (auto simp: sched0_yield_def spin_lock_irqsave_def spin_unlock_irqrestore_def local_irq_save_def Let_def keeps_def
      split: bind_splits dest!: timer_frames)

lemma scheduler_timers:
  "scheduler_enqueue q s = Some (s', r) \<Longrightarrow> keeps s s'"
  "sched_ok Q qs s \<Longrightarrow> scheduler_dequeue q s = Some s' \<Longrightarrow> keeps s s'"
  "sched_ok Q qs s \<Longrightarrow> scheduler_yield s = Some s' \<Longrightarrow> timer_state s = Some c \<Longrightarrow> timer_state s' = Some c"
  by (auto simp: scheduler_calls sched0_dequeue_timers sched0_yield_timers)
    (auto simp: scheduler_enqueue_def sched_call_def bug_def split: bind_splits option.splits sched_fn.splits dest: sched0_enqueue_timers)

lemma wake_all_timers: "wake_all q s = Some s' \<Longrightarrow> keeps s s'"
proof (rule wake_all.raw_induct [where P = "\<lambda>q s s'. keeps s s'"], goal_cases)
  case (1 wake q s s')
  then show ?case by (fastforce simp: keeps_def split: bind_splits if_splits dest!: scheduler_timers(1))
qed

section \<open>The list of intervals\<close>

text \<open>
  The intervals \<open>is\<close> are linked behind \<^verbatim>\<open>future\<close> and the queues \<open>Q\<close> contain just their queues of sleepers.  Each interval is an
  object in use of the pool of intervals.
\<close>

definition timers_in :: "tqid set \<Rightarrow> (tqid \<Rightarrow> u32 list) \<Rightarrow> u32 list \<Rightarrow> kernel \<Rightarrow> bool" where
  "timers_in Q qs is s \<longleftrightarrow> sched_ok Q qs s \<and> separate (nodes s) \<and> klist (nodes s) Future (map IntervalList is) \<and>
     (\<forall>i. WakeList i \<in> Q \<longleftrightarrow> i \<in> set is)"

definition intervals_used :: "u32 set \<Rightarrow> u32 list \<Rightarrow> kernel \<Rightarrow> bool" where
  "intervals_used P is s \<longleftrightarrow> slab_ok P (slab (heap s)) \<and> interval_pool s \<in> P \<and>
     (\<forall>i\<in>set is. unat i \<in> slab_used (interval_pool s) (slab (heap s)))"

definition timers_ok :: "u32 set \<Rightarrow> tqid set \<Rightarrow> (tqid \<Rightarrow> u32 list) \<Rightarrow> u32 list \<Rightarrow> kernel \<Rightarrow> bool" where
  "timers_ok P Q qs is s \<longleftrightarrow> timers_in Q qs is s \<and> intervals_used P is s \<and> locks s FutureLock = 0"

lemma timers_inD:
  assumes "timers_in Q qs is s"
  shows "sched_ok Q qs s" "separate (nodes s)" "klist (nodes s) Future (map IntervalList is)" "WakeList i \<in> Q \<longleftrightarrow> i \<in> set is"
    and "debug_spinlocks s" "distinct is"
  using assms klist_distinct [of "nodes s" Future "map IntervalList is"]
  by (auto simp: timers_in_def distinct_map dest: sched_okD)

lemma timers_in_cong:
  assumes "timers_in Q qs is s" and "nodes s' = nodes s" "threads s' = threads s" "CURRENT s' = CURRENT s" "reg_sched s' = reg_sched s"
    and "debug_spinlocks s' = debug_spinlocks s" "\<And>q. locks s' (TqLock q) = locks s (TqLock q)"
  shows "timers_in Q qs is s'"
  using assms by (simp add: timers_in_def sched_ok_def tqs_ok_def unlocked_def parked_def)

text \<open>After a call of the scheduler the list is as before.\<close>

lemma timers_in_keeps:
  assumes "timers_in Q qs is s" and "sched_ok Q' qs' s'" and "\<And>c. timer_state s = Some c \<Longrightarrow> timer_state s' = Some c"
    and "\<And>i. WakeList i \<in> Q' \<longleftrightarrow> i \<in> set is"
  shows "timers_in Q' qs' is s'" "ticks_left s' = ticks_left s" "interval_pool s' = interval_pool s"
    and "locks s' FutureLock = locks s FutureLock"
proof -
  have ts: "timer_state s' = timer_state s" using assms(3) timers_inD(2) [OF assms(1)] by (simp add: timer_state_def)
  then have l: "separate (nodes s')" "other_links (nodes s') = other_links (nodes s)"
    using timers_inD(2) [OF assms(1)] by (simp_all add: timer_state_def split: if_splits)
  have "next (nodes s') n = next (nodes s) n \<and> prev (nodes s') n = prev (nodes s) n" if "\<not> run_node n" for n
    using fun_cong [OF l(2), of n] that by (simp add: other_links_def)
  then have "klist (nodes s') Future (map IntervalList is) = klist (nodes s) Future (map IntervalList is)"
    by (intro klist_cong) auto
  then show "timers_in Q' qs' is s'" using assms(2,4) l(1) timers_inD(3) [OF assms(1)] by (simp add: timers_in_def)
  show "ticks_left s' = ticks_left s" "interval_pool s' = interval_pool s" "locks s' FutureLock = locks s FutureLock"
    using ts l(1) timers_inD(2) [OF assms(1)] by (simp_all add: timer_state_def)
qed

text \<open>Changes of the other lists keep the queues of threads.\<close>

lemma separate_others:
  assumes "separate h" and "\<not> run_node x" and "\<not> run_node y"
  shows "separate (klist0_unlink x h)" "run_node n \<Longrightarrow> next (klist0_unlink x h) n = next h n \<and> prev (klist0_unlink x h) n = prev h n"
    and "separate (klist0_prepend x y h)" "run_node n \<Longrightarrow> next (klist0_prepend x y h) n = next h n \<and> prev (klist0_prepend x y h) n = prev h n"
    and "separate (KLIST0_INIT x h)" "run_node n \<Longrightarrow> next (KLIST0_INIT x h) n = next h n \<and> prev (KLIST0_INIT x h) n = prev h n"
  using assms by (auto simp: separate_def klist0_defs)

lemma sched_ok_links:
  assumes "sched_ok Q qs s" and "\<And>n. run_node n \<Longrightarrow> next (f (nodes s)) n = next (nodes s) n \<and> prev (f (nodes s)) n = prev (nodes s) n"
  shows "sched_ok Q qs (set_nodes f s)"
proof -
  have "klists (f (nodes s)) (TqThreads ` Q) (tq_nodes qs)"
    using tqs_okD(1) [OF sched_okD(1) [OF assms(1)]] by (rule klists_cong) (auto simp: ring_def intro!: assms(2))
  then show ?thesis
    using assms(1) by (simp add: sched_ok_def tqs_ok_def unlocked_def parked_def set_nodes_def CURRENT_def)
qed

lemma sched_ok_subset:
  assumes "sched_ok Q qs s" and "Q' \<subseteq> Q" and "RqQueue \<in> Q'"
  shows "sched_ok Q' qs s"
proof -
  have "klists (nodes s) (TqThreads ` Q') (tq_nodes qs)"
    using tqs_okD(1) [OF sched_okD(1) [OF assms(1)]] assms(2) unfolding klists_def by (meson image_mono subset_iff)
  then show ?thesis using assms by (auto simp: sched_ok_def tqs_ok_def unlocked_def)
qed

section \<open>A tick\<close>

text \<open>The interval at the head of the list either has ticks left, or it wakes its threads and is given back.\<close>

lemma update_timers_empty:
  assumes "timers_ok P Q qs [] s"
  shows "update_timers s = Some s"
  using assms klist_empty_iff [of "nodes s" Future "[]"] timers_inD(5) [of Q qs "[]" s]
  by (auto simp: timers_ok_def timers_in_def update_timers_def spin_lock_eq spin_unlock_eq)

lemma update_timers_head:
  assumes ok: "timers_ok P Q qs (i # is) s"
  shows "update_timers s =
    (if ticks_left s i = 0 then do {
       s' \<leftarrow> wake_all (WakeList i) (set_nodes (klist0_unlink (IntervalList i)) (set_ticks i (-1) s));
       k_slice_free s' i (interval_pool s')
     } else Some (set_ticks i (ticks_left s i - 1) s))"
proof -
  have t: "timers_in Q qs (i # is) s" "locks s FutureLock = 0" using ok by (simp_all add: timers_ok_def)
  have n: "next (nodes s) Future = IntervalList i" "\<not> klist0_empty Future (nodes s)"
    using klist_next [OF timers_inD(3) [OF t(1)]] klist_empty_iff [OF timers_inD(3) [OF t(1)]] by simp_all
  have u: "spin_unlock FutureLock (set_ticks i v (locked FutureLock s)) = Some (set_ticks i v s)"
    "spin_unlock FutureLock (set_nodes g (set_ticks i v (locked FutureLock s))) = Some (set_nodes g (set_ticks i v s))" for v g
    using timers_inD(5) [OF t(1)] t(2) by (simp_all add: spin_unlock_def locked_def set_ticks_def set_nodes_def fun_upd_idem)
  have "ticks_left (locked FutureLock s) = ticks_left s" by (simp add: locked_def)
  then show ?thesis
    using n u timers_inD(5) [OF t(1)] t(2)
    by (simp add: update_timers_def spin_lock_eq interval_entry_def)
qed

lemma tick_counts:
  assumes ok: "timers_ok P Q qs (i # is) s" and t: "ticks_left s i \<noteq> 0"
  shows "\<exists>s'. update_timers s = Some s' \<and> timers_ok P Q qs (i # is) s' \<and> ticks_left s' = (ticks_left s)(i := ticks_left s i - 1)"
proof -
  let ?s = "set_ticks i (ticks_left s i - 1) s"
  have "timers_in Q qs (i # is) s" using ok by (simp add: timers_ok_def)
  then have "timers_in Q qs (i # is) ?s" by (rule timers_in_cong) (simp_all add: set_ticks_def CURRENT_def)
  then have "timers_ok P Q qs (i # is) ?s" using ok by (simp add: timers_ok_def intervals_used_def set_ticks_def)
  moreover have "update_timers s = Some ?s" using t by (simp add: update_timers_head [OF ok])
  moreover have "ticks_left ?s = (ticks_left s)(i := ticks_left s i - 1)" by (simp add: set_ticks_def)
  ultimately show ?thesis by blast
qed

lemma woken_state:
  assumes ok: "timers_ok P Q qs (i # is) s"
  shows "\<exists>s'. wake_all (WakeList i) (set_nodes (klist0_unlink (IntervalList i)) (set_ticks i v s)) = Some s' \<and>
    timers_in (Q - {WakeList i}) (qs(RqQueue := rev (qs (WakeList i)) @ qs RqQueue, WakeList i := [])) is s' \<and>
    ticks_left s' = (ticks_left s)(i := v) \<and> interval_pool s' = interval_pool s \<and> locks s' FutureLock = 0 \<and> heap s' = heap s"
proof -
  let ?s1 = "set_ticks i v s"
  let ?s2 = "set_nodes (klist0_unlink (IntervalList i)) ?s1"
  let ?Q = "Q - {WakeList i}" and ?qs = "qs(RqQueue := rev (qs (WakeList i)) @ qs RqQueue, WakeList i := [])"
  have t: "timers_in Q qs (i # is) s" "locks s FutureLock = 0" using ok by (simp_all add: timers_ok_def)
  have t1: "timers_in Q qs (i # is) ?s1"
    using t(1) by (rule timers_in_cong) (simp_all add: set_ticks_def CURRENT_def)
  have sep: "\<not> run_node (IntervalList i)" by simp
  have ok2: "sched_ok Q qs ?s2"
    using timers_inD(1) [OF t1] by (rule sched_ok_links) (rule separate_others(2) [OF timers_inD(2) [OF t1] sep sep])
  have w: "WakeList i \<in> Q" using timers_inD(4) [OF t1] by simp
  have sub: "?Q \<subseteq> Q" "RqQueue \<in> ?Q" using sched_okD(3) [OF ok2] by auto
  have "klist (klist0_unlink (IntervalList i) (nodes ?s1)) Future (map IntervalList is)"
    using klist_unlink(1) [of "nodes ?s1" Future "[]" "IntervalList i" "map IntervalList is"] timers_inD(3) [OF t1] by simp
  moreover have "WakeList j \<in> ?Q \<longleftrightarrow> j \<in> set is" for j using timers_inD(4,6) [OF t1] by auto
  ultimately have t2: "timers_in ?Q qs is ?s2"
    using separate_others(1) [OF timers_inD(2) [OF t1] sep sep] sched_ok_subset [OF ok2 sub]
    by (simp add: timers_in_def set_nodes_def)
  obtain s' where s': "wake_all (WakeList i) ?s2 = Some s'" "sched_ok Q ?qs s'"
    using s0.wake_loop [OF wake_all.simps ok2 w] by auto
  have k: "keeps ?s2 s'" by (rule wake_all_timers [OF s'(1)])
  have "WakeList j \<in> ?Q \<longleftrightarrow> j \<in> set is" for j using timers_inD(4) [OF t2] .
  moreover have "timer_state ?s2 = Some c \<Longrightarrow> timer_state s' = Some c" for c using k by (simp add: keeps_def)
  ultimately have r: "timers_in ?Q ?qs is s'" "ticks_left s' = ticks_left ?s2" "interval_pool s' = interval_pool ?s2"
      "locks s' FutureLock = locks ?s2 FutureLock"
    using timers_in_keeps [OF t2 sched_ok_subset [OF s'(2) sub]] by blast+
  have "ticks_left ?s2 = (ticks_left s)(i := v)" "interval_pool ?s2 = interval_pool s" "locks ?s2 FutureLock = 0" "heap s' = heap s"
    using k t(2) by (simp_all add: keeps_def set_ticks_def set_nodes_def)
  then show ?thesis using r s'(1) by simp
qed

lemma tick_wakes:
  assumes ok: "timers_ok P Q qs (i # is) s" and t: "ticks_left s i = 0"
  shows "\<exists>s'. update_timers s = Some s' \<and>
    timers_ok P (Q - {WakeList i}) (qs(RqQueue := rev (qs (WakeList i)) @ qs RqQueue, WakeList i := [])) is s' \<and>
    (\<forall>j\<in>set is. ticks_left s' j = ticks_left s j)"
proof -
  obtain s1 where s1: "wake_all (WakeList i) (set_nodes (klist0_unlink (IntervalList i)) (set_ticks i (-1) s)) = Some s1"
    "timers_in (Q - {WakeList i}) (qs(RqQueue := rev (qs (WakeList i)) @ qs RqQueue, WakeList i := [])) is s1"
    "ticks_left s1 = (ticks_left s)(i := -1)" "interval_pool s1 = interval_pool s" "locks s1 FutureLock = 0" "heap s1 = heap s"
    using woken_state [OF ok] by blast
  have u: "slab_ok P (slab (heap s1))" "interval_pool s1 \<in> P" "unat i \<in> slab_used (interval_pool s1) (slab (heap s1))"
    and us: "\<forall>j\<in>set is. unat j \<in> slab_used (interval_pool s1) (slab (heap s1))"
    using ok s1(4,6) by (simp_all add: timers_ok_def intervals_used_def)
  obtain sl where sl: "slice_free (slab (heap s1)) i (interval_pool s1) = Some sl" "slab_ok P sl"
      "slab_used (interval_pool s1) sl = slab_used (interval_pool s1) (slab (heap s1)) - {unat i}"
    using slab_free_law [OF u] by blast
  have "i \<notin> set is" using timers_inD(6) [of Q qs "i # is" s] ok by (simp add: timers_ok_def)
  then have iu: "intervals_used P is (set_slab sl s1)"
    using sl u us by (auto simp: intervals_used_def set_slab_def dest: word_unat_eq_iff [THEN iffD2])
  have "timers_in (Q - {WakeList i}) (qs(RqQueue := rev (qs (WakeList i)) @ qs RqQueue, WakeList i := [])) is (set_slab sl s1)"
    using s1(2) by (rule timers_in_cong) (simp_all add: set_slab_def CURRENT_def)
  moreover have "update_timers s = Some (set_slab sl s1)"
    using update_timers_head [OF ok] t s1(1) sl(1) by (simp add: k_slice_free_def)
  moreover have "locks (set_slab sl s1) FutureLock = 0" "\<forall>j\<in>set is. ticks_left (set_slab sl s1) j = ticks_left s j"
    using s1(3,5) \<open>i \<notin> set is\<close> by (auto simp: set_slab_def)
  ultimately show ?thesis using iu by (simp add: timers_ok_def)
qed

section \<open>When threads are woken\<close>

primrec timer_ticks :: "nat \<Rightarrow> kernel \<Rightarrow> kernel option" where
  "timer_ticks 0 s = Some s"
| "timer_ticks (Suc n) s = Option.bind (update_timers s) (timer_ticks n)"

text \<open>The number of ticks until the interval \<open>j\<close> of a list wakes its threads.\<close>

fun due :: "(u32 \<Rightarrow> u32) \<Rightarrow> u32 list \<Rightarrow> u32 \<Rightarrow> nat" where
  "due tk [] j = 0"
| "due tk (i # is) j = unat (tk i) + 1 + (if j = i then 0 else due tk is j)"

lemma due_cong: "(\<And>i. i \<in> set is \<Longrightarrow> tk' i = tk i) \<Longrightarrow> due tk' is j = due tk is j"
  by (induction "is") auto

lemma due_count:
  assumes "tk i \<noteq> 0" and "i \<notin> set is"
  shows "due tk (i # is) j = Suc (due (tk(i := tk i - 1)) (i # is) j)"
proof -
  have "unat (tk i) = Suc (unat (tk i - 1))" using assms(1) unat_minus_one [of "tk i"] unat_gt_0 [of "tk i"] by simp
  moreover have "due (tk(i := tk i - 1)) is j = due tk is j" using assms(2) by (intro due_cong) auto
  ultimately show ?thesis by simp
qed

text \<open>The state after \<open>n\<close> ticks: the intervals that are due have woken their threads, the others have not.\<close>

definition fired :: "nat \<Rightarrow> (u32 \<Rightarrow> u32) \<Rightarrow> u32 list \<Rightarrow> (tqid \<Rightarrow> u32 list) \<Rightarrow> (tqid \<Rightarrow> u32 list) \<Rightarrow> bool" where
  "fired n tk is qs qs' \<longleftrightarrow>
     (\<forall>i\<in>set is. qs' (WakeList i) = (if due tk is i \<le> n then [] else qs (WakeList i))) \<and>
     set (qs' RqQueue) = set (qs RqQueue) \<union> (\<Union>i\<in>{i \<in> set is. due tk is i \<le> n}. set (qs (WakeList i))) \<and>
     (\<forall>q. q \<noteq> RqQueue \<and> (\<forall>i\<in>set is. q \<noteq> WakeList i) \<longrightarrow> qs' q = qs q)"

lemma fired_count:
  assumes "fired n (tk(i := tk i - 1)) (i # is) qs qs'" and "tk i \<noteq> 0" and "i \<notin> set is"
  shows "fired (Suc n) tk (i # is) qs qs'"
  using assms(1) unfolding fired_def due_count [where tk = tk, OF assms(2,3)] by simp

lemma fired_wake:
  assumes "fired n tk' is (qs(RqQueue := rev (qs (WakeList i)) @ qs RqQueue, WakeList i := [])) qs'" and "tk i = 0" and "i \<notin> set is"
    and "\<And>j. j \<in> set is \<Longrightarrow> tk' j = tk j"
  shows "fired (Suc n) tk (i # is) qs qs'"
proof -
  let ?qs = "qs(RqQueue := rev (qs (WakeList i)) @ qs RqQueue, WakeList i := [])"
  have d: "due tk' is j = due tk is j" for j using assms(4) by (rule due_cong)
  have "{j \<in> set (i # is). due tk (i # is) j \<le> Suc n} = insert i {j \<in> set is. due tk is j \<le> n}"
    using assms(2,3) by auto
  then have "(\<Union>j\<in>{j \<in> set (i # is). due tk (i # is) j \<le> Suc n}. set (qs (WakeList j))) =
      set (qs (WakeList i)) \<union> (\<Union>j\<in>{j \<in> set is. due tk is j \<le> n}. set (qs (WakeList j)))" by simp
  moreover have "(\<Union>j\<in>{j \<in> set is. due tk is j \<le> n}. set (?qs (WakeList j))) = (\<Union>j\<in>{j \<in> set is. due tk is j \<le> n}. set (qs (WakeList j)))"
    using assms(3) by (intro SUP_cong refl) auto
  moreover have "qs' (WakeList i) = ?qs (WakeList i)"
    using assms(1,3) unfolding fired_def by (elim conjE allE [of _ "WakeList i"]) auto
  moreover have "qs' (WakeList j) = (if due tk is j \<le> n then [] else qs (WakeList j))" if "j \<in> set is" for j
    using assms(1,3) that unfolding fired_def d by auto
  moreover have "qs' q = qs q" if "q \<noteq> RqQueue" "\<forall>j\<in>set (i # is). q \<noteq> WakeList j" for q
    using assms(1) that unfolding fired_def by auto
  ultimately show ?thesis
    using assms(1-3) unfolding fired_def d by auto
qed

section \<open>Going to sleep\<close>

text \<open>
  The time of an interval: its ticks and those of all intervals before it.  \<open>place\<close> is the search of \<^verbatim>\<open>tsleep\<close>: the intervals that are passed,
  the ticks that are left then, and the rest of the list.
\<close>

fun alarm :: "(u32 \<Rightarrow> u32) \<Rightarrow> u32 list \<Rightarrow> u32 \<Rightarrow> nat" where
  "alarm tk [] j = 0"
| "alarm tk (i # is) j = unat (tk i) + (if j = i then 0 else alarm tk is j)"

fun place :: "(u32 \<Rightarrow> u32) \<Rightarrow> u32 \<Rightarrow> u32 list \<Rightarrow> u32 list \<times> u32 \<times> u32 list" where
  "place tk d [] = ([], d, [])"
| "place tk d (i # is) = (if d \<le> tk i then ([], d, i # is) else (let (a, e, b) = place tk (d - tk i) is in (i # a, e, b)))"

lemma alarm_append:
  "j \<notin> set a \<Longrightarrow> alarm tk (a @ b) j = (\<Sum>i\<leftarrow>a. unat (tk i)) + alarm tk b j"
  "j \<in> set a \<Longrightarrow> alarm tk (a @ b) j = alarm tk a j"
  by (induction a) auto

lemma alarm_cong: "(\<And>i. i \<in> set is \<Longrightarrow> tk' i = tk i) \<Longrightarrow> alarm tk' is j = alarm tk is j"
  by (induction "is") auto

lemma place_split:
  assumes "place tk d is = (a, e, b)"
  shows "is = a @ b" and "unat d = (\<Sum>i\<leftarrow>a. unat (tk i)) + unat e" and "b = i # r \<Longrightarrow> e \<le> tk i"
  using assms
proof (induction tk d "is" arbitrary: a rule: place.induct)
  case (2 tk d j js)
  {
    case 1 then show ?case using 2 by (auto simp: Let_def split: if_splits prod.splits)
  next
    case 2
    then show ?case
      using "2.IH" by (auto simp: Let_def unat_sub_if_size word_le_nat_alt not_le split: if_splits prod.splits)
  next
    case 3 then show ?case using "2.IH" by (auto simp: Let_def split: if_splits prod.splits)
  }
qed auto

text \<open>A place between two intervals, or after the last one, is the alarm of none of them.\<close>

lemma place_new:
  assumes "place tk d is = (a, e, b)" and "\<And>i r. b = i # r \<Longrightarrow> e < tk i" and "j \<in> set is"
  shows "alarm tk is j \<noteq> unat d"
  using assms
proof (induction tk d "is" arbitrary: a rule: place.induct)
  case (2 tk d i "is")
  show ?case
  proof (cases "d \<le> tk i")
    case True
    then have "b = i # is" "e = d" using 2(2) by simp_all
    then have "d < tk i" using 2(3) by simp
    then show ?thesis by (simp add: word_less_nat_alt)
  next
    case False
    then obtain a' where p: "place tk (d - tk i) is = (a', e, b)" using 2(2) by (auto simp: Let_def split: prod.splits)
    have d: "unat d = unat (tk i) + unat (d - tk i)" "0 < unat (d - tk i)"
      using False by (simp_all add: unat_sub word_le_nat_alt)
    show ?thesis
    proof (cases "j = i")
      case False
      then have "alarm tk is j \<noteq> unat (d - tk i)" using "2.IH" [OF \<open>\<not> d \<le> tk i\<close> p 2(3)] 2(4) by simp
      then show ?thesis using d False by simp
    qed (use d in simp)
  qed
qed simp

definition at_place :: "kernel \<Rightarrow> u32 list \<times> u32 \<times> u32 list \<Rightarrow> (kernel + kernel) option" where
  "at_place s p = (case p of (a, e, b) \<Rightarrow> (case b of
       [] \<Rightarrow> new_interval e Future s
     | i # _ \<Rightarrow> if e < ticks_left s i then new_interval e (IntervalList i) (set_ticks i (ticks_left s i - e) s)
         else map_option Inr (scheduler_dequeue (WakeList i) s)))"

lemma tsleep_loop_place:
  assumes "klist (nodes s) Future (map IntervalList (xs @ ys))"
  shows "tsleep_loop d (hd (map IntervalList ys @ [Future])) s = at_place s (place (ticks_left s) d ys)"
  using assms
proof (induction ys arbitrary: xs d)
  case Nil
  then show ?case by (simp add: tsleep_loop.simps at_place_def)
next
  case (Cons i ys)
  have "kseg (nodes s) (IntervalList i) (map IntervalList ys) Future" using Cons.prems by (simp add: klist_def)
  then have "next (nodes s) (IntervalList i) = hd (map IntervalList ys @ [Future])" by (rule kseg_next_first)
  then show ?case
    using Cons.IH [of "xs @ [i]"] Cons.prems
    by (subst tsleep_loop.simps)
      (auto simp: at_place_def interval_entry_def Let_def map_option_case split: prod.splits option.splits)
qed

lemma sched_ok_new_queue:
  assumes "sched_ok Q qs s" and "q \<notin> Q"
  shows "sched_ok (insert q Q) (qs(q := [])) (tq_init q s)"
proof -
  have "klists (KLIST0_INIT (TqThreads q) (nodes s)) (insert (TqThreads q) (TqThreads ` Q)) ((tq_nodes qs)(TqThreads q := []))"
    using tqs_okD(1) [OF sched_okD(1) [OF assms(1)]] by (rule klists_init) (use assms(2) in \<open>auto simp: ring_def\<close>)
  then have "tqs_ok (insert q Q) (qs(q := [])) (tq_init q s)"
    using sched_okD(1) [OF assms(1)] assms(2)
    by (auto simp: tqs_ok_def tq_nodes_upd tq_init_def spinlock_init_def set_nodes_def)
  then show ?thesis
    using assms sched_okD [OF assms(1)]
    by (auto simp: sched_ok_def unlocked_def parked_def tq_init_def spinlock_init_def set_nodes_def CURRENT_def)
qed

lemma klist_init_other: "klist h l xs \<Longrightarrow> n \<notin> set (l # xs) \<Longrightarrow> klist (KLIST0_INIT n h) l xs"
  using klist_cong [of l xs "KLIST0_INIT n h" h] KLIST0_INIT_other [of _ n h] by metis

text \<open>The state in which \<^verbatim>\<open>tsleep\<close> calls the scheduler: the new interval is in its place and has an empty queue.\<close>

lemma interval_linked:
  assumes t: "timers_in Q qs (a @ b) s" and n: "n \<notin> set (a @ b)"
  shows "timers_in (insert (WakeList n) Q) (qs(WakeList n := [])) (a @ n # b)
    (set_nodes (klist0_prepend (IntervalList n) (hd (map IntervalList b @ [Future])))
      (set_ticks n e (tq_init (WakeList n) (set_nodes (KLIST0_INIT (IntervalList n)) s))))"
proof -
  let ?at = "hd (map IntervalList b @ [Future])"
  let ?s1 = "set_nodes (KLIST0_INIT (IntervalList n)) s"
  let ?s3 = "set_ticks n e (tq_init (WakeList n) ?s1)"
  have nr: "\<not> run_node (IntervalList n)" "\<not> run_node ?at" by (cases b; simp)+
  have sep1: "separate (nodes ?s1)" using separate_others(5) [OF timers_inD(2) [OF t] nr] by (simp add: set_nodes_def)
  have k1: "klist (nodes ?s1) Future (map IntervalList (a @ b))"
    using klist_init_other [OF timers_inD(3) [OF t], of "IntervalList n"] n by (auto simp: set_nodes_def)
  have ok1: "sched_ok Q qs ?s1"
    using timers_inD(1) [OF t] by (rule sched_ok_links) (rule separate_others(6) [OF timers_inD(2) [OF t] nr])
  have nq: "WakeList n \<notin> Q" using timers_inD(4) [OF t] n by simp
  have ok3: "sched_ok (insert (WakeList n) Q) (qs(WakeList n := [])) ?s3"
    using sched_ok_new_queue [OF ok1 nq] by (rule sched_ok_cong) (simp_all add: set_ticks_def CURRENT_def)
  have nodes3: "nodes ?s3 = KLIST0_INIT (TqThreads (WakeList n)) (nodes ?s1)"
    by (simp add: set_ticks_def tq_init_def spinlock_init_def set_nodes_def)
  have sep3: "separate (nodes ?s3)" unfolding nodes3 by (rule separate_links(7) [OF sep1, of _ "Krunq 0"]) simp_all
  have "klist (nodes ?s3) Future (map IntervalList (a @ b))"
    unfolding nodes3 by (rule klist_init_other [OF k1]) auto
  then have "klist (klist0_prepend (IntervalList n) ?at (nodes ?s3)) Future (map IntervalList (a @ n # b))"
    using n klist_prepend [of "nodes ?s3" Future "map IntervalList a" "IntervalList n"]
      klist_prepend_before [of "nodes ?s3" Future "map IntervalList a" "IntervalList (hd b)" "map IntervalList (tl b)" "IntervalList n"]
    by (cases b) auto
  moreover have "separate (klist0_prepend (IntervalList n) ?at (nodes ?s3))" by (rule separate_others(3) [OF sep3 nr])
  moreover have "sched_ok (insert (WakeList n) Q) (qs(WakeList n := [])) (set_nodes (klist0_prepend (IntervalList n) ?at) ?s3)"
    using ok3 by (rule sched_ok_links) (rule separate_others(4) [OF sep3 nr])
  ultimately show ?thesis using timers_inD(4) [OF t] by (auto simp: timers_in_def set_nodes_def)
qed

lemma interval_frame:
  "CURRENT (set_nodes f (set_ticks n e (tq_init q (set_nodes g s)))) = CURRENT s"
  "ticks_left (set_nodes f (set_ticks n e (tq_init q (set_nodes g s)))) = (ticks_left s)(n := e)"
  "locks (set_nodes f (set_ticks n e (tq_init q (set_nodes g s)))) FutureLock = locks s FutureLock"
  by (simp_all add: set_ticks_def tq_init_def spinlock_init_def set_nodes_def CURRENT_def)

lemma new_interval_ok:
  assumes t: "timers_in Q qs (a @ b) s" and n: "n \<notin> set (a @ b)" "n \<noteq> 0" and al: "k_slice_alloc s (interval_pool s) = Some (s1, n)"
    and cur: "CURRENT s \<in> set (qs RqQueue)" "qs RqQueue \<noteq> [CURRENT s]"
  shows "\<exists>s'. new_interval e (hd (map IntervalList b @ [Future])) s = Some (Inr s') \<and>
    timers_in (insert (WakeList n) Q) (sleep_queues (CURRENT s) (WakeList n) (qs(WakeList n := []))) (a @ n # b) s' \<and>
    ticks_left s' = (ticks_left s)(n := e) \<and> locks s' FutureLock = locks s FutureLock \<and> CURRENT s' = CURRENT s"
proof -
  let ?s5 = "set_nodes (klist0_prepend (IntervalList n) (hd (map IntervalList b @ [Future])))
      (set_ticks n e (tq_init (WakeList n) (set_nodes (KLIST0_INIT (IntervalList n)) s1)))"
  obtain sl where s1: "s1 = set_slab sl s" using al by (auto simp: k_slice_alloc_def split: bind_splits)
  have t1: "timers_in Q qs (a @ b) s1" using t by (rule timers_in_cong) (simp_all add: s1 set_slab_def CURRENT_def)
  note t5 = interval_linked [OF t1 n(1), of e]
  have f: "CURRENT ?s5 = CURRENT s" "ticks_left ?s5 = (ticks_left s)(n := e)" "locks ?s5 FutureLock = locks s FutureLock"
    unfolding interval_frame by (simp_all add: s1 set_slab_def CURRENT_def)
  have "WakeList n \<in> insert (WakeList n) Q" by simp
  from s0.deq_law [OF timers_inD(1) [OF t5] this] f(1) cur obtain s' where
    s': "scheduler_dequeue (WakeList n) ?s5 = Some s'" "CURRENT s' = CURRENT s"
      "sched_ok (insert (WakeList n) Q) (sleep_queues (CURRENT s) (WakeList n) (qs(WakeList n := []))) s'" by auto
  have "timer_state ?s5 = Some c \<Longrightarrow> timer_state s' = Some c" for c
    using scheduler_timers(2) [OF timers_inD(1) [OF t5] s'(1)] by (simp add: keeps_def)
  note r = timers_in_keeps [OF t5 s'(3) this timers_inD(4) [OF t5]]
  have "new_interval e (hd (map IntervalList b @ [Future])) s = Some (Inr s')" using al n(2) s'(1) by (simp add: new_interval_def)
  then show ?thesis using r f s'(2) by simp
qed

lemma leave_tsleep:
  assumes t: "timers_in Q qs is s" and l: "locks s FutureLock = 1" and r: "qs RqQueue \<noteq> []"
  shows "\<exists>s3 s'. spin_unlock_irqrestore FutureLock flags s = Some s3 \<and> scheduler_yield s3 = Some s' \<and>
    timers_in Q (qs(RqQueue := rotate1 (qs RqQueue))) is s' \<and> ticks_left s' = ticks_left s \<and> locks s' FutureLock = 0"
proof -
  let ?s3 = "local_irq_restore flags (s\<lparr>locks := (locks s)(FutureLock := 0)\<rparr>)"
  have u: "spin_unlock_irqrestore FutureLock flags s = Some ?s3"
    using timers_inD(5) [OF t] l by (simp add: spin_unlock_irqrestore_def spin_unlock_def)
  have t3: "timers_in Q qs is ?s3"
    using t by (rule timers_in_cong) (simp_all add: local_irq_restore_def set_cpu_def CURRENT_def)
  obtain q qr where q: "qs RqQueue = q # qr" using r by (cases "qs RqQueue") auto
  from s0.yld_law [OF timers_inD(1) [OF t3] q] obtain s' where
    s': "scheduler_yield ?s3 = Some s'" "sched_ok Q (qs(RqQueue := qr @ [q])) s'" by blast
  note k = timers_in_keeps [OF t3 s'(2) scheduler_timers(3) [OF timers_inD(1) [OF t3] s'(1)] timers_inD(4) [OF t3]]
  have "ticks_left ?s3 = ticks_left s" "locks ?s3 FutureLock = 0" by (simp_all add: local_irq_restore_def set_cpu_def)
  then show ?thesis using u s'(1) k q by auto
qed

definition asleep_until :: "u32 \<Rightarrow> u32 list \<Rightarrow> (u32 \<Rightarrow> u32) \<Rightarrow> u32 \<Rightarrow> (tqid \<Rightarrow> u32 list) \<Rightarrow> u32 list \<Rightarrow> (u32 \<Rightarrow> u32) \<Rightarrow> (tqid \<Rightarrow> u32 list) \<Rightarrow> bool" where
  "asleep_until delay is tk t qs is' tk' qs' \<longleftrightarrow>
     (\<exists>i\<in>set is'. alarm tk' is' i = unat delay \<and> t \<in> set (qs' (WakeList i))) \<and> set is \<subseteq> set is' \<and>
     (\<forall>j\<in>set is. alarm tk' is' j = alarm tk is j \<and> set (qs (WakeList j)) \<subseteq> set (qs' (WakeList j)))"

lemma alarms_insert:
  assumes p: "place tk d is = (a, e, b)" and n: "n \<notin> set is" and d: "distinct is"
    and tk': "tk' = (case b of [] \<Rightarrow> tk | i # _ \<Rightarrow> tk(i := tk i - e))(n := e)"
  shows "alarm tk' (a @ n # b) n = unat d" and "j \<in> set is \<Longrightarrow> alarm tk' (a @ n # b) j = alarm tk is j"
proof -
  note sp = place_split [OF p]
  have na: "n \<notin> set a" "n \<notin> set b" using n sp(1) by auto
  have a: "tk' i = tk i" if "i \<in> set a" for i using that tk' d sp(1) na by (auto split: list.splits)
  then have sa: "(\<Sum>i\<leftarrow>a. unat (tk' i)) = (\<Sum>i\<leftarrow>a. unat (tk i))" by (simp cong: map_cong)
  have n': "tk' n = e" using tk' by simp
  show "alarm tk' (a @ n # b) n = unat d" using na sp(2) sa n' by (simp add: alarm_append)
  have "unat e + alarm tk' b j = alarm tk b j" if jb: "j \<in> set b"
  proof (cases b)
    case (Cons i r)
    then have i: "tk' i = tk i - e" "alarm tk' r j = alarm tk r j" "e \<le> tk i"
      using tk' na d sp(1,3) by (auto intro!: alarm_cong)
    then have "unat (tk' i) = unat (tk i) - unat e" "unat e \<le> unat (tk i)" by (simp_all add: unat_sub word_le_nat_alt)
    then show ?thesis using i(2) Cons by simp
  qed (use jb in simp)
  then show "alarm tk' (a @ n # b) j = alarm tk is j" if "j \<in> set is"
    using that na n' sa a d alarm_cong [of a tk' tk j] unfolding sp(1) by (cases "j \<in> set a") (auto simp: alarm_append)
qed

text \<open>No zone that hands out pages starts at address 0, so an object is never mistaken for NULL.\<close>

abbreviation zone_base :: "kernel \<Rightarrow> u32" where
  "zone_base s \<equiv> base (mem_zone (kmm (slab (heap s))) 0)"

abbreviation no_interval :: "kernel \<Rightarrow> bool" where
  "no_interval s \<equiv> exhausted (interval_pool s) (slab (heap s))"

lemma slice_alloc_nonzero:
  assumes "slab_ok P s" and "p \<in> P" and "slice_alloc s p = Some (s', Some a)" and "base (mem_zone (kmm s) 0) \<noteq> 0"
  shows "a \<noteq> 0"
proof -
  have "unat a \<in> slab_used p s'" using slab_alloc_law [OF assms(1,2)] assms(3) by auto
  then have "unat (base (mem_zone (kmm s') 0)) \<le> unat a" by (auto simp: slab_used_def page_base_def)
  moreover have "mem_zone (kmm s') = mem_zone (kmm s)" using slice_alloc_geom [OF _ assms(2,3)] assms(1) by (auto simp: slab_ok_def same_geom_def)
  ultimately show ?thesis using assms(4) by (auto simp: unat_eq_zero)
qed

lemma interval_alloc:
  assumes "intervals_used P is s" and "zone_base s \<noteq> 0"
  shows "\<exists>s1 n. k_slice_alloc s (interval_pool s) = Some (s1, n) \<and> (n \<noteq> 0 \<longrightarrow> n \<notin> set is) \<and> locks s1 = locks s \<and>
    debug_spinlocks s1 = debug_spinlocks s \<and> (n = 0 \<longleftrightarrow> no_interval s)"
proof -
  obtain sl r where a: "slice_alloc (slab (heap s)) (interval_pool s) = Some (sl, r)" "r = None \<longleftrightarrow> no_interval s"
      "\<And>n. r = Some n \<Longrightarrow> unat n \<notin> slab_used (interval_pool s) (slab (heap s))"
    using slab_alloc_law [of P "slab (heap s)" "interval_pool s"] assms by (fastforce simp: intervals_used_def split: option.splits)
  have "n \<notin> set is" if "r = Some n" for n using a(3) [OF that] assms by (auto simp: intervals_used_def)
  moreover have "n \<noteq> 0" if "r = Some n" for n
    using slice_alloc_nonzero [of P "slab (heap s)" "interval_pool s" sl n] a(1) that assms by (simp add: intervals_used_def)
  ultimately show ?thesis using a(1,2) by (cases r) (auto simp: k_slice_alloc_def set_slab_def)
qed

lemma rest_runs: "qs RqQueue \<noteq> [c] \<Longrightarrow> c \<in> set (qs RqQueue) \<Longrightarrow> q \<noteq> RqQueue \<Longrightarrow> sleep_queues c q qs RqQueue \<noteq> []"
  by (cases "qs RqQueue") (auto simp: sleep_queues_def Let_def)

lemma tsleep_joins:
  assumes t: "timers_in Q qs is s" and p: "place (ticks_left s) delay is = (a, e, i # b)" and e: "\<not> e < ticks_left s i"
    and cur: "CURRENT s \<in> set (qs RqQueue)" "qs RqQueue \<noteq> [CURRENT s]"
  shows "\<exists>s' qs'. scheduler_dequeue (WakeList i) s = Some s' \<and> timers_in Q qs' is s' \<and> locks s' FutureLock = locks s FutureLock \<and>
    qs' RqQueue \<noteq> [] \<and> asleep_until delay is (ticks_left s) (CURRENT s) qs is (ticks_left s') qs'"
proof -
  let ?qs = "sleep_queues (CURRENT s) (WakeList i) qs"
  note sp = place_split [OF p]
  have i: "i \<in> set is" "i \<notin> set a" using sp(1) timers_inD(6) [OF t] by auto
  have w: "WakeList i \<in> Q" using timers_inD(4) [OF t] i(1) by simp
  from s0.deq_law [OF timers_inD(1) [OF t] w cur] obtain s' where s': "scheduler_dequeue (WakeList i) s = Some s'" "sched_ok Q ?qs s'"
    by blast
  have "timer_state s = Some c \<Longrightarrow> timer_state s' = Some c" for c
    using scheduler_timers(2) [OF timers_inD(1) [OF t] s'(1)] by (simp add: keeps_def)
  note k = timers_in_keeps [OF t s'(2) this timers_inD(4) [OF t]]
  have "e = ticks_left s i" using e sp(3) by (simp add: not_less)
  then have "alarm (ticks_left s) is i = unat delay" using i(2) sp(1,2) by (simp add: alarm_append)
  then have "asleep_until delay is (ticks_left s) (CURRENT s) qs is (ticks_left s) ?qs"
    using i(1) by (auto simp: asleep_until_def sleep_queues_def Let_def)
  then show ?thesis using s'(1) k rest_runs [where qs = qs, OF cur(2,1), of "WakeList i"] by auto
qed

lemma tsleep_inserts:
  assumes t: "timers_in Q qs is s" and iu: "intervals_used P is s" and p: "place (ticks_left s) delay is = (a, e, b)"
    and s2: "s2 = (case b of [] \<Rightarrow> s | i # _ \<Rightarrow> set_ticks i (ticks_left s i - e) s)"
    and cur: "CURRENT s \<in> set (qs RqQueue)" "qs RqQueue \<noteq> [CURRENT s]" and zb: "zone_base s \<noteq> 0"
  shows "no_interval s \<and>
      (\<exists>s1. new_interval e (hd (map IntervalList b @ [Future])) s2 = Some (Inl s1) \<and> locks s1 = locks s \<and> debug_spinlocks s1) \<or>
    \<not> no_interval s \<and>
    (\<exists>s' Q' qs' is'. new_interval e (hd (map IntervalList b @ [Future])) s2 = Some (Inr s') \<and> timers_in Q' qs' is' s' \<and>
      locks s' FutureLock = locks s FutureLock \<and> qs' RqQueue \<noteq> [] \<and>
      asleep_until delay is (ticks_left s) (CURRENT s) qs is' (ticks_left s') qs')"
proof -
  note sp = place_split [OF p]
  have f: "CURRENT s2 = CURRENT s" "locks s2 = locks s" "debug_spinlocks s2" "interval_pool s2 = interval_pool s" "heap s2 = heap s"
    "ticks_left s2 = (case b of [] \<Rightarrow> ticks_left s | i # _ \<Rightarrow> (ticks_left s)(i := ticks_left s i - e))"
    using timers_inD(5) [OF t] by (simp_all add: s2 set_ticks_def CURRENT_def split: list.split)
  have t2: "timers_in Q qs (a @ b) s2"
    using t [unfolded sp(1)] by (rule timers_in_cong) (simp_all add: s2 set_ticks_def CURRENT_def split: list.split)
  have "intervals_used P is s2" using iu f by (simp add: intervals_used_def)
  then obtain s1 n where al: "k_slice_alloc s2 (interval_pool s2) = Some (s1, n)" "n \<noteq> 0 \<longrightarrow> n \<notin> set is" "locks s1 = locks s2"
      "debug_spinlocks s1 = debug_spinlocks s2" "n = 0 \<longleftrightarrow> no_interval s2"
    using interval_alloc [of P "is" s2] zb f(5) by auto
  show ?thesis
  proof (cases "n = 0")
    case True
    then show ?thesis using al f by (simp add: new_interval_def)
  next
    case False
    have ex: "\<not> no_interval s" using al(5) False f(4,5) by simp
    let ?qs = "sleep_queues (CURRENT s) (WakeList n) (qs(WakeList n := []))"
    have n: "n \<notin> set is" "n \<notin> set (a @ b)" using al(2) False sp(1) by auto
    obtain s' where s': "new_interval e (hd (map IntervalList b @ [Future])) s2 = Some (Inr s')"
        "timers_in (insert (WakeList n) Q) ?qs (a @ n # b) s'" "ticks_left s' = (ticks_left s2)(n := e)"
        "locks s' FutureLock = locks s2 FutureLock"
      using new_interval_ok [OF t2 n(2) False al(1), of e] cur f(1) by auto
    have tk: "ticks_left s' = (case b of [] \<Rightarrow> ticks_left s | i # _ \<Rightarrow> (ticks_left s)(i := ticks_left s i - e))(n := e)"
      by (simp only: s'(3) f(6))
    have "alarm (ticks_left s') (a @ n # b) n = unat delay \<and> (\<forall>j\<in>set is. alarm (ticks_left s') (a @ n # b) j = alarm (ticks_left s) is j)"
      using alarms_insert [OF p n(1) timers_inD(6) [OF t] tk] by blast
    then have "asleep_until delay is (ticks_left s) (CURRENT s) qs (a @ n # b) (ticks_left s') ?qs"
      using n sp(1) by (auto simp: asleep_until_def sleep_queues_def Let_def)
    moreover have "?qs RqQueue \<noteq> []" using rest_runs [where qs = "qs(WakeList n := [])" and c = "CURRENT s"] cur by simp
    ultimately show ?thesis using s' f(2) ex by metis
  qed
qed

section \<open>Properties\<close>

lemma enter_tsleep:
  assumes ok: "timers_ok P Q qs is s"
  shows "spin_lock_irqsave FutureLock s = Some (locked FutureLock (local_irq_disable s), eflags (kcpu s))"
    and "timers_in Q qs is (locked FutureLock (local_irq_disable s))" "intervals_used P is (locked FutureLock (local_irq_disable s))"
    and "ticks_left (locked FutureLock (local_irq_disable s)) = ticks_left s"
proof -
  have t: "timers_in Q qs is s" "locks s FutureLock = 0" using ok by (simp_all add: timers_ok_def)
  show "spin_lock_irqsave FutureLock s = Some (locked FutureLock (local_irq_disable s), eflags (kcpu s))"
    using timers_inD(5) [OF t(1)] t(2) by (simp add: spin_lock_irqsave_def local_irq_save_def spin_lock_eq)
  show "timers_in Q qs is (locked FutureLock (local_irq_disable s))"
    using t(1) by (rule timers_in_cong) (simp_all add: locked_def local_irq_disable_def set_cpu_def CURRENT_def)
  show "intervals_used P is (locked FutureLock (local_irq_disable s))" "ticks_left (locked FutureLock (local_irq_disable s)) = ticks_left s"
    using ok by (simp_all add: timers_ok_def intervals_used_def locked_def local_irq_disable_def set_cpu_def)
qed

text \<open>The thread needs an interval of its own, and the pool has none.\<close>

definition must_fail :: "u32 \<Rightarrow> u32 list \<Rightarrow> kernel \<Rightarrow> bool" where
  "must_fail delay is s \<longleftrightarrow> no_interval s \<and> (\<forall>i\<in>set is. alarm (ticks_left s) is i \<noteq> unat delay)"

lemma tsleep_placed:
  assumes ok: "timers_ok P Q qs is s" and cur: "CURRENT s \<in> set (qs RqQueue)" "qs RqQueue \<noteq> [CURRENT s]" and zb: "zone_base s \<noteq> 0"
  shows "must_fail delay is s \<and> (\<exists>s1. tsleep_loop delay (next (nodes s) Future) (locked FutureLock (local_irq_disable s)) = Some (Inl s1) \<and>
      locks s1 FutureLock = 1 \<and> debug_spinlocks s1) \<or>
    \<not> must_fail delay is s \<and> (\<exists>s1 Q' qs' is'. tsleep_loop delay (next (nodes s) Future) (locked FutureLock (local_irq_disable s)) = Some (Inr s1) \<and>
      timers_in Q' qs' is' s1 \<and> locks s1 FutureLock = 1 \<and> qs' RqQueue \<noteq> [] \<and>
      asleep_until delay is (ticks_left s) (CURRENT s) qs is' (ticks_left s1) qs')"
proof -
  let ?s = "locked FutureLock (local_irq_disable s)"
  note e = enter_tsleep [OF ok]
  have nx: "next (nodes s) Future = hd (map IntervalList is @ [Future])" using klist_next [OF timers_inD(3) [OF e(2)]] by simp
  obtain a d b where p: "place (ticks_left ?s) delay is = (a, d, b)" by (cases "place (ticks_left ?s) delay is") auto
  have loop: "tsleep_loop delay (next (nodes s) Future) ?s = at_place ?s (a, d, b)"
    unfolding nx p [symmetric] using timers_inD(3) [OF e(2)] tsleep_loop_place [of ?s "[]" "is" delay] by simp
  have cur': "CURRENT ?s \<in> set (qs RqQueue)" "qs RqQueue \<noteq> [CURRENT ?s]" "CURRENT ?s = CURRENT s" "locks ?s FutureLock = 1"
    using cur by simp_all
  have h: "heap ?s = heap s" "interval_pool ?s = interval_pool s" by (simp_all add: locked_def local_irq_disable_def set_cpu_def)
  note ins = tsleep_inserts [OF e(2,3) p refl cur'(1,2)]
  note sp = place_split [OF p]
  show ?thesis
  proof (cases "\<exists>i r. b = i # r \<and> \<not> d < ticks_left ?s i")
    case True
    then obtain i r where b: "b = i # r" "\<not> d < ticks_left ?s i" by blast
    have "i \<in> set is" "i \<notin> set a" using sp(1) b(1) timers_inD(6) [OF e(2)] by auto
    moreover have "d = ticks_left ?s i" using b(2) sp(3) [OF b(1)] by simp
    ultimately have "\<not> must_fail delay is s" using sp(1,2) b(1) e(4) by (auto simp: must_fail_def alarm_append)
    then show ?thesis
      using b tsleep_joins [OF e(2) p [unfolded b(1)] b(2) cur'(1,2)] cur'(3,4) e(4) unfolding loop by (auto simp: at_place_def)
  next
    case False
    then have "at_place ?s (a, d, b) = new_interval d (hd (map IntervalList b @ [Future]))
        (case b of [] \<Rightarrow> ?s | i # _ \<Rightarrow> set_ticks i (ticks_left ?s i - d) ?s)"
      by (cases b) (auto simp: at_place_def)
    moreover have "must_fail delay is s \<longleftrightarrow> no_interval s"
      using place_new [OF p] False e(4) by (auto simp: must_fail_def)
    ultimately show ?thesis using ins cur'(3,4) e(4) zb h unfolding loop by auto
  qed
qed

text \<open>
  C13. Going to sleep for a time.  When other threads can run, \<^verbatim>\<open>tsleep\<close> puts its caller on the queue of an interval whose ticks, together with those of the intervals before it,
  are the delay asked for, keeps the time of every other interval and its sleepers, and gives up the processor with the lock free.  It returns
  \<^verbatim>\<open>-ENOMEM\<close> exactly when no interval ends at that time and the pool has no object left for a new one (every object in use and no free page), and then
  with the lock still held: the next timer interrupt does not come back.  (The zone of the pool does not start at address 0.)
\<close>

theorem tsleep_keeps_alarms:
  assumes "timers_ok P Q qs is s" and "CURRENT s \<in> set (qs RqQueue)" and "qs RqQueue \<noteq> [CURRENT s]"
    and "base (mem_zone (kmm (slab (heap s))) 0) \<noteq> 0"
  shows "if exhausted (interval_pool s) (slab (heap s)) \<and> (\<forall>i\<in>set is. alarm (ticks_left s) is i \<noteq> unat delay)
    then \<exists>s'. tsleep delay s = Some (s', - ENOMEM) \<and> locks s' FutureLock = 1 \<and> update_timers s' = None
    else \<exists>s' Q' qs' is'. tsleep delay s = Some (s', 0) \<and> timers_in Q' qs' is' s' \<and> locks s' FutureLock = 0 \<and>
      asleep_until delay is (ticks_left s) (CURRENT s) qs is' (ticks_left s') qs'"
proof -
  let ?s = "locked FutureLock (local_irq_disable s)"
  have nx: "next (nodes ?s) Future = next (nodes s) Future" by simp
  note e = enter_tsleep [OF assms(1)]
  from tsleep_placed [OF assms, of delay] show ?thesis
  proof (elim disjE exE conjE)
    fix s1
    assume mf: "must_fail delay is s" and l: "tsleep_loop delay (next (nodes s) Future) ?s = Some (Inl s1)" and h: "locks s1 FutureLock = 1" "debug_spinlocks s1"
    have "tsleep delay s = Some (s1, - ENOMEM)" using l e(1) by (simp add: tsleep_def)
    moreover have "update_timers s1 = None" using h by (simp add: update_timers_def spin_lock_def)
    ultimately show ?thesis using h(1) mf by (auto simp: must_fail_def)
  next
    fix s1 Q' qs' is'
    assume nf: "\<not> must_fail delay is s" and l: "tsleep_loop delay (next (nodes s) Future) ?s = Some (Inr s1)" and t1: "timers_in Q' qs' is' s1"
      and h: "locks s1 FutureLock = 1" "qs' RqQueue \<noteq> []" and al: "asleep_until delay is (ticks_left s) (CURRENT s) qs is' (ticks_left s1) qs'"
    obtain s3 s' where s': "spin_unlock_irqrestore FutureLock (eflags (kcpu s)) s1 = Some s3" "scheduler_yield s3 = Some s'"
        "timers_in Q' (qs'(RqQueue := rotate1 (qs' RqQueue))) is' s'" "ticks_left s' = ticks_left s1" "locks s' FutureLock = 0"
      using leave_tsleep [OF t1 h] by blast
    have "tsleep delay s = Some (s', 0)" using l e(1) s'(1,2) by (simp add: tsleep_def)
    moreover have "asleep_until delay is (ticks_left s) (CURRENT s) qs is' (ticks_left s') (qs'(RqQueue := rotate1 (qs' RqQueue)))"
      using al s'(4) by (simp add: asleep_until_def)
    ultimately show ?thesis using s'(3,5) nf unfolding must_fail_def by (simp only: if_False) blast
  qed
qed

text \<open>A thread that sleeps on the only interval, which has two ticks left, while two threads can run.\<close>

definition sleeper_kernel :: "u32 \<Rightarrow> slab \<Rightarrow> u32 \<Rightarrow> kernel" where
  "sleeper_kernel p sl i = set_nodes (klist0_prepend (IntervalList i) Future)
     (set_slab sl ((threads_with (WakeList i))\<lparr>interval_pool := p, ticks_left := (\<lambda>_. 2)\<rparr>))"

lemma timer_state_threads: "timer_state (threads_with q) = timer_state idle_kernel"
proof -
  have "timer_state idle_kernel = Some c \<Longrightarrow> timer_state (queue_tail t q s) = Some c" if "timer_state s = Some c" for c t q s
    using timer_state_links(3) [OF that] by (simp add: queue_tail_def)
  moreover obtain c where "timer_state idle_kernel = Some c" by (simp add: timer_state_def separate_def idle_kernel_def)
  ultimately show ?thesis by (simp add: threads_with_def)
qed

lemma threads_with_links:
  shows "separate (nodes (threads_with q))" "klist (nodes (threads_with q)) Future []" "locks (threads_with q) l = 0"
proof -
  have "timer_state (threads_with q) = Some (ticks_left idle_kernel, interval_pool idle_kernel, 0, other_links (nodes idle_kernel))"
    unfolding timer_state_threads by (simp add: timer_state_def separate_def idle_kernel_def)
  then have l: "separate (nodes (threads_with q))" "other_links (nodes (threads_with q)) = other_links (nodes idle_kernel)"
    by (simp_all add: timer_state_def split: if_splits)
  show "separate (nodes (threads_with q))" by (rule l(1))
  have "other_links (nodes (threads_with q)) Future = other_links (nodes idle_kernel) Future" by (simp only: l(2))
  then show "klist (nodes (threads_with q)) Future []" by (simp add: other_links_def klist_Nil_iff idle_kernel_def)
  show "locks (threads_with q) l = 0" by (simp add: threads_with_def idle_kernel_def)
qed

lemma sleeper_kernel_ok:
  assumes "slab_ok {p} sl" and "unat i \<in> slab_used p sl"
  shows "timers_ok {p} {RqQueue, WakeList i} ((run_only [a_thread, b_thread])(WakeList i := [c_thread])) [i] (sleeper_kernel p sl i)"
    and "CURRENT (sleeper_kernel p sl i) = a_thread" "ticks_left (sleeper_kernel p sl i) = (\<lambda>_. 2)"
proof -
  let ?s = "set_slab sl ((threads_with (WakeList i))\<lparr>interval_pool := p, ticks_left := (\<lambda>_. 2)\<rparr>)"
  let ?f = "klist0_prepend (IntervalList i) Future"
  have n: "nodes ?s = nodes (threads_with (WakeList i))" by (simp add: set_slab_def)
  have "sched_ok {RqQueue, WakeList i} ((run_only [a_thread, b_thread])(WakeList i := [c_thread])) (threads_with (WakeList i))"
    using threads_with_ok [of "{RqQueue, WakeList i}" "WakeList i"] by simp
  then have "sched_ok {RqQueue, WakeList i} ((run_only [a_thread, b_thread])(WakeList i := [c_thread])) ?s"
    by (rule sched_ok_cong) (simp_all add: set_slab_def CURRENT_def)
  then have "sched_ok {RqQueue, WakeList i} ((run_only [a_thread, b_thread])(WakeList i := [c_thread])) (set_nodes ?f ?s)"
    by (rule sched_ok_links) (rule separate_others(4), simp_all add: n threads_with_links)
  moreover have "separate (?f (nodes ?s))" unfolding n by (rule separate_others(3)) (simp_all add: threads_with_links)
  moreover have "klist (?f (nodes ?s)) Future [IntervalList i]"
    unfolding n using klist_prepend [OF threads_with_links(2), of "IntervalList i"] by simp
  ultimately show "timers_ok {p} {RqQueue, WakeList i} ((run_only [a_thread, b_thread])(WakeList i := [c_thread])) [i] (sleeper_kernel p sl i)"
    using assms threads_with_links(3) unfolding timers_ok_def timers_in_def intervals_used_def sleeper_kernel_def
    by (simp add: set_nodes_def set_slab_def)
  have "CURRENT (sleeper_kernel p sl i) = CURRENT (threads_with (WakeList i))"
    by (simp add: sleeper_kernel_def set_nodes_def set_slab_def CURRENT_def)
  then show "CURRENT (sleeper_kernel p sl i) = a_thread" by simp
  show "ticks_left (sleeper_kernel p sl i) = (\<lambda>_. 2)" by (simp add: sleeper_kernel_def set_nodes_def set_slab_def)
qed

theorem tsleep_keeps_alarms_witness:
  "\<exists>p sl i s' Q' qs' is'. tsleep 7 (sleeper_kernel p sl i) = Some (s', 0) \<and> timers_in Q' qs' is' s' \<and>
      asleep_until 7 [i] (\<lambda>_. 2) a_thread ((run_only [a_thread, b_thread])(WakeList i := [c_thread])) is' (ticks_left s') qs'"
proof -
  obtain p sl and i :: u32 where sl: "slab_ok {p} sl" "unat i \<in> slab_used p sl" "\<not> exhausted p sl" "base (mem_zone (kmm sl) 0) \<noteq> 0"
    using boot_object_more by blast
  note k = sleeper_kernel_ok [OF sl(1,2)]
  have c: "CURRENT (sleeper_kernel p sl i) \<in> set (((run_only [a_thread, b_thread])(WakeList i := [c_thread])) RqQueue)"
    "((run_only [a_thread, b_thread])(WakeList i := [c_thread])) RqQueue \<noteq> [CURRENT (sleeper_kernel p sl i)]"
    by (simp_all add: k(2))
  have h: "slab (heap (sleeper_kernel p sl i)) = sl" "interval_pool (sleeper_kernel p sl i) = p"
    by (simp_all add: sleeper_kernel_def set_nodes_def set_slab_def)
  have "\<exists>s' Q' qs' is'. tsleep 7 (sleeper_kernel p sl i) = Some (s', 0) \<and> timers_in Q' qs' is' s' \<and> locks s' FutureLock = 0 \<and>
      asleep_until 7 [i] (\<lambda>_. 2) a_thread ((run_only [a_thread, b_thread])(WakeList i := [c_thread])) is' (ticks_left s') qs'"
    using tsleep_keeps_alarms [OF k(1) c, of 7] sl(3,4) unfolding k(2,3) h by simp
  then show ?thesis by blast
qed

text \<open>
  C12. When sleepers are woken.  An interval wakes its threads at the tick after its own ticks and those of the intervals before it, each of which
  takes one tick more than it counts: \<open>due\<close>.  After any number of ticks the threads of the intervals that are due are on the run
  queue, the other intervals are still linked, with all their sleepers asleep, and their objects in the pool; the rest of the queues is as it was.
\<close>

theorem timers_wake_when_due:
  assumes "timers_ok P Q qs is s"
  shows "\<exists>s' Q' qs'. timer_ticks n s = Some s' \<and> timers_ok P Q' qs' (filter (\<lambda>i. n < due (ticks_left s) is i) is) s' \<and>
    fired n (ticks_left s) is qs qs'"
  using assms
proof (induction n arbitrary: s Q qs "is")
  case 0
  have pos: "\<not> due (ticks_left s) is i \<le> 0" if "i \<in> set is" for i using that by (cases "is") auto
  then have "fired 0 (ticks_left s) is qs qs" using pos unfolding fired_def by (auto simp del: le_zero_eq)
  moreover have "filter (\<lambda>i. 0 < due (ticks_left s) is i) is = is" using pos by (auto simp: filter_id_conv)
  ultimately show ?case using 0 by auto
next
  case (Suc n)
  show ?case
  proof (cases "is")
    case Nil
    then show ?thesis using Suc.IH [OF Suc.prems] update_timers_empty [of P Q qs s] Suc.prems by (simp add: fired_def)
  next
    case (Cons i r)
    note ok = Suc.prems [unfolded Cons]
    have ni: "i \<notin> set r" using timers_inD(6) [of Q qs "i # r" s] ok by (simp add: timers_ok_def)
    show ?thesis
    proof (cases "ticks_left s i = 0")
      case True
      obtain s1 where s1: "update_timers s = Some s1" "\<forall>j\<in>set r. ticks_left s1 j = ticks_left s j"
          "timers_ok P (Q - {WakeList i}) (qs(RqQueue := rev (qs (WakeList i)) @ qs RqQueue, WakeList i := [])) r s1"
        using tick_wakes [OF ok True] by blast
      have d: "due (ticks_left s1) r j = due (ticks_left s) r j" for j using s1(2) by (intro due_cong) simp
      have "filter (\<lambda>j. Suc n < due (ticks_left s) (i # r) j) (i # r) = filter (\<lambda>j. n < due (ticks_left s1) r j) r"
        using True ni d by (auto intro: filter_cong)
      moreover obtain s2 Q2 qs2 where s2: "timer_ticks n s1 = Some s2" "timers_ok P Q2 qs2 (filter (\<lambda>j. n < due (ticks_left s1) r j) r) s2"
          "fired n (ticks_left s1) r (qs(RqQueue := rev (qs (WakeList i)) @ qs RqQueue, WakeList i := [])) qs2"
        using Suc.IH [OF s1(3)] by blast
      moreover have "fired (Suc n) (ticks_left s) (i # r) qs qs2"
        using s2(3) True ni by (rule fired_wake) (use s1(2) in simp)
      moreover have "timer_ticks (Suc n) s = Some s2" using s1(1) s2(1) by simp
      ultimately show ?thesis unfolding Cons by metis
    next
      case False
      obtain s1 where s1: "update_timers s = Some s1" "timers_ok P Q qs (i # r) s1"
          "ticks_left s1 = (ticks_left s)(i := ticks_left s i - 1)"
        using tick_counts [OF ok False] by blast
      obtain s2 Q2 qs2 where s2: "timer_ticks n s1 = Some s2"
          "timers_ok P Q2 qs2 (filter (\<lambda>j. n < due (ticks_left s1) (i # r) j) (i # r)) s2" "fired n (ticks_left s1) (i # r) qs qs2"
        using Suc.IH [OF s1(2)] by blast
      have "fired (Suc n) (ticks_left s) (i # r) qs qs2" using s2(3) False ni unfolding s1(3) by (rule fired_count)
      moreover have "timers_ok P Q2 qs2 (filter (\<lambda>j. Suc n < due (ticks_left s) (i # r) j) (i # r)) s2"
        using s2(2) unfolding s1(3) due_count [where tk = "ticks_left s", OF False ni] by simp
      moreover have "timer_ticks (Suc n) s = Some s2" using s1(1) s2(1) by simp
      ultimately show ?thesis unfolding Cons by blast
    qed
  qed
qed

theorem timers_wake_when_due_witness:
  "\<exists>p sl i s2 Q2 qs2 s3 Q3 qs3. timer_ticks 2 (sleeper_kernel p sl i) = Some s2 \<and> sched_ok Q2 qs2 s2 \<and> c_thread \<notin> set (qs2 RqQueue) \<and>
     timer_ticks 3 (sleeper_kernel p sl i) = Some s3 \<and> sched_ok Q3 qs3 s3 \<and> c_thread \<in> set (qs3 RqQueue)"
proof -
  obtain p sl and i :: u32 where "slab_ok {p} sl" "unat i \<in> slab_used p sl" using boot_object by blast
  note k = sleeper_kernel_ok [OF this]
  let ?qs = "(run_only [a_thread, b_thread])(WakeList i := [c_thread])"
  have d: "due (\<lambda>_. 2) [i] i = 3" by simp
  obtain s2 Q2 qs2 where s2: "timer_ticks 2 (sleeper_kernel p sl i) = Some s2" "timers_ok {p} Q2 qs2 (filter (\<lambda>j. 2 < due (\<lambda>_. 2) [i] j) [i]) s2"
      "fired 2 (\<lambda>_. 2) [i] ?qs qs2"
    using timers_wake_when_due [OF k(1), of 2] unfolding k(3) by blast
  obtain s3 Q3 qs3 where s3: "timer_ticks 3 (sleeper_kernel p sl i) = Some s3" "timers_ok {p} Q3 qs3 (filter (\<lambda>j. 3 < due (\<lambda>_. 2) [i] j) [i]) s3"
      "fired 3 (\<lambda>_. 2) [i] ?qs qs3"
    using timers_wake_when_due [OF k(1), of 3] unfolding k(3) by blast
  have "sched_ok Q2 qs2 s2" "sched_ok Q3 qs3 s3" using s2(2) s3(2) by (auto simp: timers_ok_def timers_in_def)
  moreover have "c_thread \<notin> set (qs2 RqQueue)" "c_thread \<in> set (qs3 RqQueue)"
    using s2(3) s3(3) by (simp_all add: fired_def a_thread_def b_thread_def c_thread_def)
  ultimately show ?thesis using s2(1) s3(1) by metis
qed

end
