(* ===== verification/Preempt_Props.thy ===== *)
theory Preempt_Props
  imports Drivers Mutex_Props
begin

text \<open>
  Preemption: the path of a timer interrupt through \<^verbatim>\<open>arch/i386/asm/irq.S\<close>, \<^verbatim>\<open>arch/i386/irq.c\<close>, \<^verbatim>\<open>arch/i386/timer.c\<close>,
  \<^verbatim>\<open>kernel/timecore.c\<close>, \<^verbatim>\<open>kernel/scheduler.c\<close>, \<^verbatim>\<open>kernel/sched0.c\<close> and \<^verbatim>\<open>arch/i386/thread.c\<close>, and what it does to a thread in
  \<^verbatim>\<open>mutex_lock\<close>.
\<close>

section \<open>One timer interrupt\<close>

text \<open>
  The timer is set up, no interval is pending, no switch is due, and the stack of the running thread has room for
  the twelve words of the interrupt frame.
\<close>

definition timer_ready :: "kernel \<Rightarrow> bool" where
  "timer_ready s \<longleftrightarrow> irq_handler_table (kdrv s) 0 = Some Timer_interrupt_handler \<and> mach_state_running s \<and>
     klist0_empty Future (nodes s) \<and> locks s FutureLock = 0 \<and> need_reschedule s = 0 \<and>
     THREAD (cpu_esp (kcpu s) - 48) = CURRENT s \<and> THREAD (cpu_esp (kcpu s) - 44) = CURRENT s"

definition irq_frame :: "kernel \<Rightarrow> kernel" where
  "irq_frame s =
    (let sp = cpu_esp (kcpu s)
     in local_irq_disable (set_cpu (\<lambda>c. c\<lparr>cpu_esp := sp - 48\<rparr>)
          (store_word (sp - 48) 0 (store_word (sp - 8) (ucast KERN_CODE) (store_word (sp - 4) (eflags (kcpu s)) s)))))"

definition ticking :: "kernel \<Rightarrow> kernel" where
  "ticking s = set_drv (\<lambda>d. d\<lparr>kpic := pic_do_eoi 0 (kpic d)\<rparr>) ((irq_frame s)\<lparr>jiffies := jiffies s + 1\<rparr>)"

lemma irq_frame_simps [simp]:
  "nodes (irq_frame s) = nodes s" "locks (irq_frame s) = locks s" "debug_spinlocks (irq_frame s) = debug_spinlocks s"
  "reg_sched (irq_frame s) = reg_sched s" "threads (irq_frame s) = threads s" "kdrv (irq_frame s) = kdrv s"
  "mach_state_running (irq_frame s) = mach_state_running s" "need_reschedule (irq_frame s) = need_reschedule s"
  "jiffies (irq_frame s) = jiffies s" "mutex_locks (irq_frame s) = mutex_locks s"
  "cpu_esp (kcpu (irq_frame s)) = cpu_esp (kcpu s) - 48" "load_word (irq_frame s) (cpu_esp (kcpu s) - 4) = eflags (kcpu s)"
  "tss_esp0 (kcpu (irq_frame s)) = tss_esp0 (kcpu s)"
  by (simp_all add: irq_frame_def Let_def local_irq_disable_def store_word_def load_word_def kset_defs)

lemma load_word_set_cpu [simp]: "load_word (set_cpu f s) = load_word s"
  by (simp add: load_word_def [abs_def] set_cpu_def)

lemma kcpu_set_cpu [simp]: "kcpu (set_cpu f s) = f (kcpu s)" "need_reschedule (set_cpu f s) = need_reschedule s"
  by (simp_all add: set_cpu_def)

lemma ticking_simps [simp]:
  "nodes (ticking s) = nodes s" "locks (ticking s) = locks s" "debug_spinlocks (ticking s) = debug_spinlocks s"
  "reg_sched (ticking s) = reg_sched s" "threads (ticking s) = threads s"
  "irq_handler_table (kdrv (ticking s)) = irq_handler_table (kdrv s)"
  "mach_state_running (ticking s) = mach_state_running s" "need_reschedule (ticking s) = need_reschedule s"
  "mutex_locks (ticking s) = mutex_locks s"
  "cpu_esp (kcpu (ticking s)) = cpu_esp (kcpu s) - 48" "load_word (ticking s) (cpu_esp (kcpu s) - 4) = eflags (kcpu s)"
  by (simp_all add: ticking_def set_drv_def load_word_def [abs_def] irq_frame_simps [unfolded load_word_def])

lemma timer_quiet:
  assumes "timer_ready s" and "debug_spinlocks s"
  shows "main_irq_handler opt 0 (irq_frame s) = scheduler_tick (ticking s)"
proof -
  let ?u = "(irq_frame s)\<lparr>jiffies := jiffies s + 1\<rparr>"
  have "update_timers ?u = Some ?u"
    using assms by (simp add: update_timers_def timer_ready_def spin_lock_eq spin_unlock_eq)
  then show ?thesis
    using assms
    by (simp add: main_irq_handler_def call_irq_def timer_interrupt_handler_def timer_ready_def ticking_def set_drv_def)
qed

lemma ticking_ok:
  assumes "sched_ok Q qs s" and "timer_ready s"
  shows "sched_ok Q qs (ticking s)" and "CURRENT (ticking s) = CURRENT s"
proof -
  show c: "CURRENT (ticking s) = CURRENT s" using assms(2) by (simp add: CURRENT_def timer_ready_def)
  show "sched_ok Q qs (ticking s)" by (rule sched_ok_cong [OF assms(1)]) (simp_all add: c)
qed

definition irq_exit :: "kernel \<Rightarrow> kernel" where
  "irq_exit s =
    (let s3 = set_cpu (\<lambda>c. c\<lparr>cpu_esp := cpu_esp c + 4\<rparr>) s;
         (s4, new) = (if need_reschedule s3 = 0 then (s3, cpu_esp (kcpu s3))
                      else prepare_deffered_context_switch (cpu_esp (kcpu s3)) (s3\<lparr>need_reschedule := 0\<rparr>))
     in set_cpu (\<lambda>c. c\<lparr>cpu_esp := new + 44, eflags := load_word s4 (new + 40)\<rparr>) s4)"

lemma do_handle_irq_eq:
  assumes "sched_ok Q qs s" and "timer_ready s" and "qs RqQueue = t # ts"
  shows "do_handle_irq opt 0 s =
    Some (irq_exit (if quantum (threads s (CURRENT s)) = 1 then tick_expired t (ticking s) else tick_within (ticking s)))"
proof -
  note k = ticking_ok [OF assms(1,2)]
  have "do_handle_irq opt 0 s = map_option irq_exit (main_irq_handler opt 0 (irq_frame s))"
    by (cases "main_irq_handler opt 0 (irq_frame s)")
      (simp_all add: do_handle_irq_def irq_frame_def irq_exit_def Let_def split: prod.splits)
  then show ?thesis
    using timer_quiet [OF assms(2) sched_okD(6) [OF assms(1)]] scheduler_calls(4) [OF k(1)] sched0_tick_eq [OF k(1) assms(3)] k(2)
    by simp
qed

lemma irq_within:
  assumes ok: "sched_ok Q qs s" and rdy: "timer_ready s" and rq: "qs RqQueue \<noteq> []" and q: "quantum (threads s (CURRENT s)) \<noteq> 1"
  shows "\<exists>s'. do_handle_irq opt 0 s = Some s' \<and> sched_ok Q qs s' \<and> timer_ready s' \<and> kcpu s' = kcpu s \<and>
    quantum (threads s' (CURRENT s)) = quantum (threads s (CURRENT s)) - 1"
proof -
  let ?u = "tick_within (ticking s)" and ?s' = "irq_exit (tick_within (ticking s))"
  note k = ticking_ok [OF ok rdy]
  obtain t ts where tt: "qs RqQueue = t # ts" using rq by (cases "qs RqQueue") auto
  have u: "kcpu ?u = kcpu (ticking s)" "need_reschedule ?u = 0" "load_word ?u = load_word (ticking s)"
    using rdy by (simp_all add: tick_within_def timer_ready_def load_word_def [abs_def] set_thread_def)
  have s': "?s' = set_cpu (\<lambda>c. c\<lparr>cpu_esp := cpu_esp (kcpu s), eflags := eflags (kcpu s)\<rparr>) ?u"
    using u by (simp add: irq_exit_def Let_def) (simp add: set_cpu_def)
  have kc: "kcpu ?s' = kcpu s"
    unfolding s' using u(1) by (simp add: set_cpu_def ticking_def irq_frame_def local_irq_disable_def set_drv_def store_word_def set_slab_def Let_def)
  have f: "nodes ?s' = nodes s" "locks ?s' = locks s" "debug_spinlocks ?s' = debug_spinlocks s" "reg_sched ?s' = reg_sched s"
    "mach_state_running ?s' = mach_state_running s" "need_reschedule ?s' = need_reschedule s"
    "irq_handler_table (kdrv ?s') = irq_handler_table (kdrv s)"
    "threads ?s' = (threads s)(CURRENT s := (threads s (CURRENT s))
       \<lparr>quantum := quantum (threads s (CURRENT s)) - 1, last_tick := jiffies (ticking s)\<rparr>)"
    unfolding s' using k(2) by (simp_all add: tick_within_def set_cpu_def set_thread_def)
  have "sched_ok Q qs ?s'"
    by (rule sched_ok_cong [OF ok]) (simp_all add: f(1-4,8) CURRENT_def kc)
  moreover have "timer_ready ?s'" using rdy by (simp add: timer_ready_def f kc CURRENT_def)
  ultimately show ?thesis
    using do_handle_irq_eq [OF ok rdy tt, of opt] q kc f(8) by simp
qed

lemma irq_exit_switch:
  assumes "need_reschedule u \<noteq> 0" and "next_thread u = t" and "THREAD (cpu_esp (kcpu u) + 4) = c" and "t \<noteq> c"
  shows "nodes (irq_exit u) = nodes u" "locks (irq_exit u) = locks u" "debug_spinlocks (irq_exit u) = debug_spinlocks u"
    "reg_sched (irq_exit u) = reg_sched u" "mutex_locks (irq_exit u) = mutex_locks u" "need_reschedule (irq_exit u) = 0"
    "threads (irq_exit u) = (threads u)(c := (threads u c)\<lparr>esp := cpu_esp (kcpu u) + 4\<rparr>)"
    "cpu_esp (kcpu (irq_exit u)) = esp (threads u t) + 44"
  using assms by (simp_all add: irq_exit_def prepare_deffered_context_switch_def Let_def CURRENT_def switch_map_def kset_defs)

lemma irq_expired:
  assumes ok: "sched_ok Q qs s" and rdy: "timer_ready s" and rq: "qs RqQueue = t # ts" and t: "t \<noteq> CURRENT s"
    and q: "quantum (threads s (CURRENT s)) = 1"
  shows "\<exists>s'. do_handle_irq opt 0 s = Some s' \<and> sched_ok Q (qs(RqQueue := ts @ [t])) s' \<and> CURRENT s' = t \<and>
    quantum (threads s' (CURRENT s)) = SCHED_MAX_QUANTUM \<and> need_reschedule s' = 0 \<and> mutex_locks s' = mutex_locks s"
proof -
  let ?c = "CURRENT s" and ?u = "tick_expired t (ticking s)" and ?s' = "irq_exit (tick_expired t (ticking s))"
  note k = ticking_ok [OF ok rdy]
  note e = tick_expired_ok [OF k(1) rq]
  have t': "t \<in> set (qs RqQueue)" by (simp add: rq)
  have u: "need_reschedule ?u = 1" "next_thread ?u = t" "mutex_locks ?u = mutex_locks s"
    "esp (threads ?u r) = esp (threads s r)" "quantum (threads ?u ?c) = SCHED_MAX_QUANTUM" for r
    using t k(2) by (auto simp: tick_expired_def Let_def set_thread_def queue_tail_def unqueue_def set_nodes_def)
  have sp: "cpu_esp (kcpu ?u) + 4 = cpu_esp (kcpu s) - 44"
    using e(2) by simp
  then have c: "THREAD (cpu_esp (kcpu ?u) + 4) = ?c"
    unfolding sp using rdy by (simp add: timer_ready_def)
  have "need_reschedule ?u \<noteq> 0" using u(1) by simp
  note f = irq_exit_switch [OF this u(2) c t, unfolded sp]
  have ct: "CURRENT ?s' = t"
    using sched_okD(5) [OF ok sched_okD(3) [OF ok] t' t] by (simp add: CURRENT_def f(8) u(4) parked_def)
  have "sched_ok Q (qs(RqQueue := ts @ [t])) ?s'"
    unfolding sched_ok_def
  proof (intro conjI ballI impI)
    show "tqs_ok Q (qs(RqQueue := ts @ [t])) ?s'"
      by (rule tqs_ok_cong [OF sched_okD(1) [OF e(1)]]) (simp_all add: f(1,7))
    show "unlocked Q ?s'" using sched_okD(2) [OF e(1)] by (simp add: unlocked_def f(2,3))
    fix q x assume x: "q \<in> Q" "x \<in> set ((qs(RqQueue := ts @ [t])) q)"
    then have "x \<in> set (qs q)" using rq by (auto split: if_splits)
    then show "parked ?s' x"
      using sched_okD(5) [OF ok x(1)] by (cases "x = ?c") (simp_all add: parked_def f(7) u(4) CURRENT_def)
  qed (use sched_okD [OF e(1)] f(4) in simp_all)
  then show ?thesis
    using do_handle_irq_eq [OF ok rdy rq, of opt] q ct f(5,6,7) u(3,5) by simp
qed

primrec timer_irqs :: "bool \<Rightarrow> nat \<Rightarrow> kernel \<Rightarrow> kernel option" where
  "timer_irqs opt 0 s = Some s"
| "timer_irqs opt (Suc n) s = Option.bind (do_handle_irq opt 0 s) (timer_irqs opt n)"

lemma timer_irqs_slice:
  assumes "sched_ok Q qs s" and "timer_ready s" and rq: "qs RqQueue = t # ts" and t: "t \<noteq> CURRENT s"
    and "unat (quantum (threads s (CURRENT s))) = Suc n"
  shows "(\<forall>k\<le>n. \<exists>s'. timer_irqs opt k s = Some s' \<and> kcpu s' = kcpu s) \<and>
    (\<exists>s'. timer_irqs opt (Suc n) s = Some s' \<and> sched_ok Q (qs(RqQueue := ts @ [t])) s' \<and> CURRENT s' = t \<and>
      quantum (threads s' (CURRENT s)) = SCHED_MAX_QUANTUM)"
  using assms(1,2,4,5)
proof (induction n arbitrary: s)
  case 0
  then have "quantum (threads s (CURRENT s)) = 1" by (simp add: word_unat_eq_iff)
  from irq_expired [OF 0(1,2) rq 0(3) this, of opt] show ?case by (auto simp del: fun_upd_apply)
next
  case (Suc n)
  have q: "quantum (threads s (CURRENT s)) \<noteq> 1" using Suc.prems(4) by auto
  from irq_within [OF Suc.prems(1,2) _ q, of opt] obtain s1 where
    s1: "do_handle_irq opt 0 s = Some s1" "sched_ok Q qs s1" "timer_ready s1" "kcpu s1 = kcpu s"
      "quantum (threads s1 (CURRENT s)) = quantum (threads s (CURRENT s)) - 1" using rq by auto
  have c: "CURRENT s1 = CURRENT s" using s1(4) by (simp add: CURRENT_def)
  have "unat (quantum (threads s (CURRENT s)) - 1) = Suc n"
    using Suc.prems(4) by (subst unat_minus_one) auto
  then have ih: "(\<forall>k\<le>n. \<exists>s'. timer_irqs opt k s1 = Some s' \<and> kcpu s' = kcpu s1) \<and>
    (\<exists>s'. timer_irqs opt (Suc n) s1 = Some s' \<and> sched_ok Q (qs(RqQueue := ts @ [t])) s' \<and> CURRENT s' = t \<and>
      quantum (threads s' (CURRENT s1)) = SCHED_MAX_QUANTUM)"
    using Suc.IH [OF s1(2,3)] Suc.prems(3) c s1(5) by (simp del: fun_upd_apply timer_irqs.simps)
  have step: "timer_irqs opt (Suc k) s = timer_irqs opt k s1" for k using s1(1) by simp
  have "\<exists>s'. timer_irqs opt k s = Some s' \<and> kcpu s' = kcpu s" if "k \<le> Suc n" for k
    using that ih step s1(4) by (cases k) (auto simp del: timer_irqs.simps(2))
  then show ?case using ih step [of "Suc n"] c by (simp del: fun_upd_apply timer_irqs.simps)
qed

section \<open>A state in which the timer ends a quantum\<close>

definition two_threads :: kernel where
  "two_threads = queue_tail a_thread RqQueue (queue_tail b_thread RqQueue
     (idle_kernel\<lparr>kdrv := undefined\<lparr>irq_handler_table := (\<lambda>_. Some Timer_interrupt_handler)\<rparr>,
        mach_state_running := True, need_reschedule := 0\<rparr>))"

lemma two_threads_ok:
  assumes "RqQueue \<in> Q"
  shows "sched_ok Q (run_only [b_thread, a_thread]) two_threads"
proof -
  let ?s0 = "idle_kernel\<lparr>kdrv := undefined\<lparr>irq_handler_table := (\<lambda>_. Some Timer_interrupt_handler)\<rparr>,
        mach_state_running := True, need_reschedule := 0\<rparr>"
  have pk: "parked ?s0 a_thread" "parked ?s0 b_thread"
    by (simp_all add: parked_def idle_kernel_def THREAD_eqs a_thread_def b_thread_def)
  have off: "off_queues Q (run_only []) b_thread" "off_queues Q (run_only [b_thread]) a_thread"
    by (auto simp: off_queues_def a_thread_def b_thread_def split: if_splits)
  have ok0: "sched_ok Q (run_only []) ?s0"
    using sched_ok_idle [of ?s0 Q] assms by (simp add: idle_kernel_def fun_upd_idem)
  have ok1: "sched_ok Q (run_only [b_thread]) (queue_tail b_thread RqQueue ?s0)"
    using sched_ok_add [OF ok0 assms off(1)] pk by simp
  show ?thesis
    using sched_ok_add [OF ok1 assms off(2)] pk by (simp add: two_threads_def)
qed

lemma two_threads_simps [simp]:
  "CURRENT two_threads = a_thread" "quantum (threads two_threads a_thread) = 1" "mutex_locks two_threads m = 0"
  by (simp_all add: two_threads_def idle_kernel_def CURRENT_def THREAD_eqs a_thread_def queue_tail_def kset_defs)

lemma ab_distinct: "b_thread \<noteq> a_thread"
  by (simp add: a_thread_def b_thread_def)

lemma two_threads_ready: "timer_ready two_threads"
proof -
  have "THREAD 0x107D0 = 0x10F10" "THREAD 0x107D4 = 0x10F10"
    by (simp_all add: THREAD_def PAGE_SIZE_def SIZEOF_THREAD_def)
  moreover have "klist0_empty Future (nodes two_threads)"
    by (simp add: two_threads_def idle_kernel_def queue_tail_def kset_defs klist0_prepend_def klist0_empty_def set_prev_def set_next_def Let_def)
  ultimately show ?thesis
    by (simp add: timer_ready_def two_threads_def idle_kernel_def CURRENT_def THREAD_eqs queue_tail_def kset_defs)
qed

section \<open>Properties\<close>

text \<open>
  C9. Time slices.  Let a thread other than the running one be at the head of the run queue, with the timer set up and no interval pending.
  Then the running thread goes on after each timer interrupt of its quantum, with stack pointer, flags and page directory
  as they were, and the interrupt that uses the quantum up returns into the head of the run queue, which moves to
  the tail, and gives the preempted thread a full quantum.
\<close>

theorem time_slice:
  assumes "sched_ok Q qs s" and "timer_ready s" and "qs RqQueue = t # ts" and "t \<noteq> CURRENT s"
    and "quantum (threads s (CURRENT s)) \<noteq> 0"
  shows "(\<forall>k < unat (quantum (threads s (CURRENT s))). \<exists>s'. timer_irqs opt k s = Some s' \<and> kcpu s' = kcpu s) \<and>
    (\<exists>s'. timer_irqs opt (unat (quantum (threads s (CURRENT s)))) s = Some s' \<and> sched_ok Q (qs(RqQueue := ts @ [t])) s' \<and>
      CURRENT s' = t \<and> quantum (threads s' (CURRENT s)) = SCHED_MAX_QUANTUM)"
proof -
  obtain n where n: "unat (quantum (threads s (CURRENT s))) = Suc n"
    using assms(5) by (cases "unat (quantum (threads s (CURRENT s)))") (auto simp: unat_eq_0)
  show ?thesis
    unfolding n less_Suc_eq_le using timer_irqs_slice [OF assms(1-4) n] .
qed

theorem time_slice_witness:
  "\<exists>s'. timer_irqs False 1 two_threads = Some s' \<and> CURRENT s' = b_thread \<and>
    sched_ok {RqQueue} (run_only [a_thread, b_thread]) s'"
  using time_slice [OF two_threads_ok two_threads_ready, of "{RqQueue}" b_thread "[a_thread]" False]
  by (auto simp: ab_distinct)

text \<open>
  C21. The test and the sleep of \<^verbatim>\<open>mutex_lock\<close> are not atomic.  Let the running thread find the mutex locked by the only other runnable
  thread and let its quantum end at that moment.  The holder then unlocks the mutex, finds no sleeper to wake, and yields; the first
  thread goes on into its sleep.  Every call returns, the mutex is free, and the thread sleeps on it: it has
  missed its wake-up and is not runnable any more.
\<close>

theorem mutex_lost_wakeup:
  assumes "sched_ok Q qs s" and "timer_ready s" and "MutexSleepers m \<in> Q" and "qs (MutexSleepers m) = []"
    and "qs RqQueue = [a, CURRENT s]" and "quantum (threads s (CURRENT s)) = 1" and "mutex_locks s m = 0"
  shows "\<exists>s'. do {
      let (s1, busy) = mutex_trylock m s;
      _ \<leftarrow> bug_on (\<not> busy);
      s2 \<leftarrow> do_handle_irq opt 0 s1;
      s3 \<leftarrow> mutex_unlock m s2;
      s4 \<leftarrow> scheduler_yield s3;
      scheduler_dequeue (MutexSleepers m) s4
    } = Some s' \<and> mutex_locks s' m = 1 \<and> CURRENT s' = CURRENT s \<and>
    sched_ok Q (qs(RqQueue := [a], MutexSleepers m := [CURRENT s])) s'"
proof -
  let ?b = "CURRENT s" and ?s1 = "s\<lparr>mutex_locks := (mutex_locks s)(m := 0)\<rparr>"
  have ab: "a \<noteq> ?b" using tqs_ok_distinct [OF sched_okD(1,3) [OF assms(1)]] assms(5) by simp
  have s1: "mutex_trylock m s = (?s1, True)" "CURRENT ?s1 = ?b" "timer_ready ?s1"
    using assms(2,7) by (simp_all add: mutex_trylock_eq CURRENT_def timer_ready_def)
  have q1: "qs RqQueue = a # [?b]" using assms(5) by simp
  have ok1: "sched_ok Q qs ?s1" by (rule sched_ok_set_mutex [OF assms(1)])
  have b1: "a \<noteq> CURRENT ?s1" "quantum (threads ?s1 (CURRENT ?s1)) = 1" using ab assms(6) s1(2) by simp_all
  from irq_expired [where qs = qs, OF ok1 s1(3) q1 b1] obtain s2 where e: "do_handle_irq opt 0 ?s1 = Some s2"
      "sched_ok Q (qs(RqQueue := [?b] @ [a])) s2" "CURRENT s2 = a" "mutex_locks s2 = mutex_locks ?s1" by blast
  then have s2: "sched_ok Q (qs(RqQueue := [?b, a])) s2" "mutex_locks s2 m = 0" by simp_all
  have mv: "move True True (MutexSleepers m) RqQueue (qs(RqQueue := [?b, a])) = qs(RqQueue := [?b, a])"
    using assms(4) by (simp add: move_def)
  obtain s3 where s3: "mutex_unlock m s2 = Some s3" "sched_ok Q (qs(RqQueue := [?b, a])) s3" "mutex_locks s3 m = 1"
    using mutex_unlock_ok [OF s2(1) assms(3) s2(2)] unfolding mv by blast
  have q3: "(qs(RqQueue := [?b, a])) RqQueue = ?b # [a]" by simp
  obtain s4 where s4: "scheduler_yield s3 = Some s4" "sched_ok Q (qs(RqQueue := [?b, a], RqQueue := [a] @ [?b])) s4" "CURRENT s4 = ?b"
    using s0.yld_law [OF s3(2) q3] by blast
  let ?qs4 = "qs(RqQueue := [a, ?b])"
  have ok4: "sched_ok Q ?qs4 s4" using s4(2) by simp
  obtain s5 where s5: "scheduler_dequeue (MutexSleepers m) s4 = Some s5" "CURRENT s5 = ?b"
      "sched_ok Q (sleep_queues ?b (MutexSleepers m) ?qs4) s5"
    using s0.deq_law [OF ok4 assms(3)] ab s4(3) by auto
  have sq: "sleep_queues ?b (MutexSleepers m) ?qs4 = qs(RqQueue := [a], MutexSleepers m := [?b])"
    using ab assms(4) by (simp add: sleep_queues_def Let_def)
  have "mutex_locks s5 m = 1"
    using scheduler_frames(2) [OF s5(1)] scheduler_frames(3) [OF s4(1)] s3(3) by simp
  then show ?thesis
    using s1(1) e(1) s3(1) s4(1) s5(1,2) s5(3) [unfolded sq] by simp
qed

theorem mutex_lost_wakeup_witness:
  "\<exists>s'. do {
      let (s1, busy) = mutex_trylock 0x4000 two_threads;
      _ \<leftarrow> bug_on (\<not> busy);
      s2 \<leftarrow> do_handle_irq False 0 s1;
      s3 \<leftarrow> mutex_unlock 0x4000 s2;
      s4 \<leftarrow> scheduler_yield s3;
      scheduler_dequeue (MutexSleepers 0x4000) s4
    } = Some s' \<and> mutex_locks s' 0x4000 = 1 \<and> CURRENT s' = a_thread"
  using mutex_lost_wakeup [OF two_threads_ok two_threads_ready, of "{RqQueue, MutexSleepers 0x4000}" "0x4000" b_thread False]
  by auto

end
