(* ===== verification/Drivers_Props.thy ===== *)
theory Drivers_Props
  imports Preempt_Props
begin

text \<open>
  The buffers of the drivers: the ring of the keyboard (\<^verbatim>\<open>drivers/keyboard/pc-kbd.c\<close>) and a page of a byte queue
  (\<^verbatim>\<open>kernel/lib/kqueue.c\<close>).
\<close>

section \<open>The keyboard\<close>

text \<open>The scan code that the \<open>i\<close>-th read of the keyboard port from now on returns.\<close>

definition scan_code :: "kernel \<Rightarrow> nat \<Rightarrow> u8" where
  "scan_code s i = io_read (pic_io (kpic (kdrv s))) (io_reads (pic_io (kpic (kdrv s))) + i) KEYBOARD_IO"

primrec presses :: "nat \<Rightarrow> kernel \<Rightarrow> kernel option" where
  "presses 0 s = Some s"
| "presses (Suc n) s = Option.bind (presses n s) pckbd_intr"

fun key_reads :: "nat \<Rightarrow> kernel \<Rightarrow> (kernel \<times> u16 list) option" where
  "key_reads 0 s = Some (s, [])"
| "key_reads (Suc n) s = do {
     (s1, k) \<leftarrow> pckbd_read (\<lambda>_. None) s;
     (s2, ks) \<leftarrow> key_reads n s1;
     Some (s2, k # ks)
   }"

lemma sched_ok_set_drv: "sched_ok Q qs s \<Longrightarrow> sched_ok Q qs (s\<lparr>kdrv := d\<rparr>)"
  by (erule sched_ok_cong) (simp_all add: CURRENT_def)

lemma pckbd_intr_stores:
  assumes ok: "sched_ok Q qs s" and q: "KbdTq \<in> Q" and u: "users (kdrv s) \<noteq> 0" and c: "scan_code s 0 AND 0x80 = 0"
    and w: "w = (if write_idx (kdrv s) = KEYBOARD_BUFSIZE then 0 else write_idx (kdrv s))" "w < KEYBOARD_BUFSIZE" "w + 1 \<noteq> read_idx (kdrv s)"
  shows "\<exists>s'. pckbd_intr s = Some s' \<and> sched_ok Q (move True True KbdTq RqQueue qs) s' \<and>
    users (kdrv s') = users (kdrv s) \<and> read_idx (kdrv s') = read_idx (kdrv s) \<and> write_idx (kdrv s') = w + 1 \<and>
    key_buf (kdrv s') = (key_buf (kdrv s))[unat w := scan_code s 0] \<and> (\<forall>i. scan_code s' i = scan_code s (Suc i))"
proof -
  let ?io = "pic_io (kpic (kdrv s))"
  let ?d1 = "(kdrv s)\<lparr>kpic := (kpic (kdrv s))\<lparr>pic_io := ?io\<lparr>io_reads := Suc (io_reads ?io)\<rparr>\<rparr>,
      key_buf := (key_buf (kdrv s))[unat w := scan_code s 0], write_idx := w + 1\<rparr>"
  have ok1: "sched_ok Q qs (s\<lparr>kdrv := ?d1\<rparr>)" by (rule sched_ok_set_drv [OF ok])
  from s0.enq_law [OF ok1 q] obtain s' where e: "scheduler_enqueue KbdTq (s\<lparr>kdrv := ?d1\<rparr>) = Some (s', qs KbdTq \<noteq> [])"
    "sched_ok Q (move True True KbdTq RqQueue qs) s'" by blast
  have k: "kdrv s' = ?d1" using scheduler_frames(1) [OF e(1)] by simp
  have "pckbd_intr s = Some s'"
    using u c w e(1) by (auto simp: pckbd_intr_def k_inb_def inb_def set_drv_def scan_code_def key_store_def Let_def)
  then show ?thesis using e(2) by (simp add: k scan_code_def)
qed

lemma pckbd_read_fetches:
  assumes "read_idx (kdrv s) \<noteq> write_idx (kdrv s)" and "read_idx (kdrv s) < KEYBOARD_BUFSIZE"
    and "unat (key_buf (kdrv s) ! unat (read_idx (kdrv s))) < length pckbd_sctrans"
  shows "pckbd_read others s = Some (s\<lparr>kdrv := (kdrv s)\<lparr>read_idx := read_idx (kdrv s) + 1\<rparr>\<rparr>,
    pckbd_sctrans ! unat (key_buf (kdrv s) ! unat (read_idx (kdrv s))))"
  using assms by (auto simp: pckbd_read_def key_fetch_def Let_def)

definition kbd_filled :: "kernel \<Rightarrow> nat \<Rightarrow> kernel \<Rightarrow> bool" where
  "kbd_filled s0 n s \<longleftrightarrow> users (kdrv s) \<noteq> 0 \<and> read_idx (kdrv s) = 0 \<and> write_idx (kdrv s) = of_nat n \<and>
     length (key_buf (kdrv s)) = 10 \<and> (\<forall>i<n. key_buf (kdrv s) ! i = scan_code s0 i) \<and>
     (\<forall>i. scan_code s i = scan_code s0 (n + i))"

lemma presses_fill:
  assumes "sched_ok Q qs s" and "KbdTq \<in> Q" and "kbd_filled s 0 s" and "\<And>i. i < n \<Longrightarrow> scan_code s i AND 0x80 = 0" and "n \<le> 10"
  shows "\<exists>s' qs'. presses n s = Some s' \<and> sched_ok Q qs' s' \<and> kbd_filled s n s'"
  using assms(4,5)
proof (induction n)
  case 0
  then show ?case using assms(1,3) by auto
next
  case (Suc n)
  then obtain s1 qs1 where s1: "presses n s = Some s1" "sched_ok Q qs1 s1" "kbd_filled s n s1" by auto
  have n: "n < 10" using Suc.prems(2) by simp
  have un: "unat (of_nat n :: u32) = n" using n by (intro unat_of_nat32) simp
  have w: "(of_nat n :: u32) < KEYBOARD_BUFSIZE" "(of_nat n :: u32) \<noteq> KEYBOARD_BUFSIZE" "(of_nat n :: u32) + 1 \<noteq> 0"
    using n un by (simp_all add: KEYBOARD_BUFSIZE_def word_less_nat_alt word_unat_eq_iff unat_word_ariths)
  have "scan_code s1 0 AND 0x80 = 0" using s1(3) Suc.prems(1) [of n] by (simp add: kbd_filled_def)
  from pckbd_intr_stores [OF s1(2) assms(2) _ this refl] obtain s2 where
    s2: "pckbd_intr s1 = Some s2" "sched_ok Q (move True True KbdTq RqQueue qs1) s2"
      "users (kdrv s2) = users (kdrv s1)" "read_idx (kdrv s2) = 0" "write_idx (kdrv s2) = of_nat (Suc n)"
      "key_buf (kdrv s2) = (key_buf (kdrv s1))[n := scan_code s1 0]" "\<forall>i. scan_code s2 i = scan_code s1 (Suc i)"
    using s1(3) w un by (auto simp: kbd_filled_def add.commute)
  have "kbd_filled s (Suc n) s2"
    using s1(3) s2(3-7) n by (auto simp: kbd_filled_def nth_list_update less_Suc_eq)
  then show ?case using s1(1) s2(1,2) by auto
qed

lemma key_reads_fetch:
  assumes "kbd_filled s0 n s" and "n \<le> 10" and "\<And>i. i < n \<Longrightarrow> unat (scan_code s0 i) < length pckbd_sctrans" and "m \<le> n"
  shows "\<exists>s'. key_reads m (s\<lparr>kdrv := (kdrv s)\<lparr>read_idx := of_nat (n - m)\<rparr>\<rparr>) =
    Some (s', map (\<lambda>i. pckbd_sctrans ! unat (scan_code s0 i)) [n - m..<n])"
  using assms(4)
proof (induction m)
  case (Suc m)
  let ?i = "n - Suc m" and ?s = "s\<lparr>kdrv := (kdrv s)\<lparr>read_idx := of_nat (n - Suc m)\<rparr>\<rparr>"
  have i: "?i < n" "?i < 10" "Suc ?i = n - m" using Suc.prems assms(2) by auto
  have "?i < 2 ^ 32" "n < 2 ^ 32" using i assms(2) by simp_all
  note un = unat_of_nat32 [OF this(1)] unat_of_nat32 [OF this(2)]
  have b: "key_buf (kdrv s) ! ?i = scan_code s0 ?i" "write_idx (kdrv s) = of_nat n" using assms(1) i by (simp_all add: kbd_filled_def)
  have ne: "(of_nat ?i :: u32) \<noteq> of_nat n" using un i by (metis less_irrefl)
  have lt: "(of_nat ?i :: u32) < KEYBOARD_BUFSIZE" using un i by (simp add: KEYBOARD_BUFSIZE_def word_less_nat_alt)
  have tb: "unat (key_buf (kdrv ?s) ! unat (read_idx (kdrv ?s))) < length pckbd_sctrans" using b un assms(3) [OF i(1)] by simp
  have rd: "pckbd_read (\<lambda>_. None) ?s = Some (s\<lparr>kdrv := (kdrv s)\<lparr>read_idx := of_nat (n - m)\<rparr>\<rparr>, pckbd_sctrans ! unat (scan_code s0 ?i))"
    using pckbd_read_fetches [of ?s, OF _ _ tb] ne lt b un i(3) [symmetric] by (simp add: add.commute)
  have "[?i..<n] = ?i # [n - m..<n]" using i by (simp add: upt_conv_Cons)
  then show ?case using Suc rd by (auto simp del: upt_conv_Cons)
qed (simp add: exI)

lemma press_code: "unat c < 128 \<Longrightarrow> c AND 0x80 = 0" for c :: u8
proof -
  assume "unat c < 128"
  then have "\<not> bit (unat c) 7" by (simp add: bit_iff_odd)
  then have "\<not> bit c 7" by (simp add: bit_unsigned_iff)
  then have "c AND 2 ^ 7 = 0" by (simp only: and_exp_eq_0_iff_not_bit not_False_eq_True)
  then show ?thesis by simp
qed

lemma sctrans_length: "length pckbd_sctrans = 106"
  by (simp add: pckbd_sctrans_def)

text \<open>A press that finds the buffer full starts it again.\<close>

lemma press_when_full:
  assumes "sched_ok Q qs s" and "KbdTq \<in> Q" and "kbd_filled s0 10 s" and "unat (scan_code s0 10) < length pckbd_sctrans"
  shows "\<exists>s' s''. pckbd_intr s = Some s' \<and> key_reads 1 s' = Some (s'', [pckbd_sctrans ! unat (scan_code s0 10)]) \<and>
    read_idx (kdrv s'') = write_idx (kdrv s'')"
proof -
  have c: "scan_code s 0 = scan_code s0 10" using assms(3) by (simp add: kbd_filled_def)
  have "scan_code s 0 AND 0x80 = 0" unfolding c using assms(4) by (intro press_code) (simp add: sctrans_length)
  from pckbd_intr_stores [OF assms(1,2) _ this refl] obtain s' where
    s': "pckbd_intr s = Some s'" "read_idx (kdrv s') = 0" "write_idx (kdrv s') = 1"
      "key_buf (kdrv s') = (key_buf (kdrv s))[0 := scan_code s 0]"
    using assms(3) by (auto simp: kbd_filled_def KEYBOARD_BUFSIZE_def)
  have "key_buf (kdrv s') ! 0 = scan_code s0 10" using s'(4) c assms(3) by (simp add: kbd_filled_def)
  then show ?thesis
    using s' assms(4) pckbd_read_fetches [of s' "\<lambda>_. None"]
    by (intro exI [of _ s'] exI [of _ "s'\<lparr>kdrv := (kdrv s')\<lparr>read_idx := 1\<rparr>\<rparr>"]) (simp add: KEYBOARD_BUFSIZE_def)
qed

text \<open>
  C40. The ring of the keyboard.  On a freshly opened keyboard, up to ten key presses in a row are read back in order, translated by the table.
  The eleventh press meets a test for a full buffer that does not know about the wrap-around: it is stored
  over the first key, and the reader gets it alone; the ten keys before it are lost.
\<close>

theorem keyboard_ring:
  assumes "sched_ok Q qs s" and "KbdTq \<in> Q" and "users (kdrv s) \<noteq> 0" and "read_idx (kdrv s) = 0" and "write_idx (kdrv s) = 0"
    and "length (key_buf (kdrv s)) = 10" and "\<forall>i\<le>10. unat (scan_code s i) < length pckbd_sctrans"
  shows "(\<forall>n\<le>10. \<exists>s' s''. presses n s = Some s' \<and>
      key_reads n s' = Some (s'', map (\<lambda>i. pckbd_sctrans ! unat (scan_code s i)) [0..<n])) \<and>
    (\<exists>s' s''. presses 11 s = Some s' \<and> key_reads 1 s' = Some (s'', [pckbd_sctrans ! unat (scan_code s 10)]) \<and>
      read_idx (kdrv s'') = write_idx (kdrv s''))"
proof -
  have f0: "kbd_filled s 0 s" using assms(3-6) by (simp add: kbd_filled_def)
  have code: "scan_code s i AND 0x80 = 0" if "i \<le> 10" for i
    using assms(7) that by (intro press_code) (auto simp: sctrans_length)
  have fill: "\<exists>s' qs'. presses n s = Some s' \<and> sched_ok Q qs' s' \<and> kbd_filled s n s'" if "n \<le> 10" for n
    using presses_fill [OF assms(1,2) f0, of n] code that by simp
  have "\<exists>s' s''. presses n s = Some s' \<and> key_reads n s' = Some (s'', map (\<lambda>i. pckbd_sctrans ! unat (scan_code s i)) [0..<n])"
    if n: "n \<le> 10" for n
  proof -
    obtain s' where s': "presses n s = Some s'" "kbd_filled s n s'" using fill [OF n] by blast
    have "s'\<lparr>kdrv := (kdrv s')\<lparr>read_idx := of_nat (n - n)\<rparr>\<rparr> = s'" using s'(2) by (simp add: kbd_filled_def)
    then show ?thesis using key_reads_fetch [OF s'(2) n _ le_refl] assms(7) n s'(1) by auto
  qed
  moreover obtain s10 qs10 where "presses 10 s = Some s10" "sched_ok Q qs10 s10" "kbd_filled s 10 s10" using fill [of 10] by auto
  moreover have "presses 11 s = Option.bind (presses 10 s) pckbd_intr" using presses.simps(2) [of 10 s] by simp
  ultimately show ?thesis using press_when_full [of Q qs10 s10 s] assms(2,7) by auto
qed

definition kbd_kernel :: kernel where
  "kbd_kernel = two_threads\<lparr>kdrv := undefined\<lparr>key_buf := replicate 10 0, read_idx := 0, write_idx := 0, users := 1,
     kpic := undefined\<lparr>pic_io := undefined\<lparr>io_read := (\<lambda>n _. of_nat (n mod 100)), io_reads := 16\<rparr>\<rparr>\<rparr>\<rparr>"

lemma kbd_kernel_simps:
  "users (kdrv kbd_kernel) = 1" "read_idx (kdrv kbd_kernel) = 0" "write_idx (kdrv kbd_kernel) = 0"
  "length (key_buf (kdrv kbd_kernel)) = 10"
  by (simp_all add: kbd_kernel_def)

theorem keyboard_ring_witness:
  "(\<exists>s' s''. presses 2 kbd_kernel = Some s' \<and> key_reads 2 s' = Some (s'', [0x71, 0x77])) \<and>
   (\<exists>s' s''. presses 11 kbd_kernel = Some s' \<and> key_reads 1 s' = Some (s'', [0x7b]))"
proof -
  have ok: "sched_ok {RqQueue, KbdTq} (run_only [b_thread, a_thread]) kbd_kernel"
    unfolding kbd_kernel_def by (rule sched_ok_set_drv [OF two_threads_ok]) simp
  have sc: "scan_code kbd_kernel i = of_nat ((16 + i) mod 100)" for i
    by (simp add: scan_code_def kbd_kernel_def)
  have "unat (of_nat (n mod 100) :: u8) < 106" for n :: nat
    using mod_less_divisor [of 100 n] by (simp add: unat_of_nat)
  then have sl: "\<forall>i\<le>10. unat (scan_code kbd_kernel i) < length pckbd_sctrans"
    unfolding sc sctrans_length by blast
  have us: "users (kdrv kbd_kernel) \<noteq> 0" and q: "KbdTq \<in> {RqQueue, KbdTq}" by (simp_all add: kbd_kernel_simps)
  note r = keyboard_ring [OF ok q us kbd_kernel_simps(2-4) sl]
  from conjunct1 [OF r, THEN spec [of _ 2]] conjunct2 [OF r] show ?thesis
    by (auto simp: sc pckbd_sctrans_def upt_rec)
qed

section \<open>Byte queues\<close>

text \<open>Kernel addresses are their own linear addresses: copying between them is \<^verbatim>\<open>memory_copy\<close>.\<close>

definition kernel_range :: "u32 \<Rightarrow> nat \<Rightarrow> bool" where
  "kernel_range a n \<longleftrightarrow> unat a + n \<le> 0x40000000"

lemma kernel_range_linear:
  assumes "kernel_range a n" and "i < n"
  shows "linear s (a + of_nat i) = Some (a + of_nat i)"
  using assms unat_add_offset [of a i]
  by (simp add: kernel_range_def linear_def in_kernel_def USERMEM_START_def word_less_nat_alt)

lemma u_copy_up:
  assumes "kernel_range d (i + n)" and "kernel_range a (i + n)"
  shows "u_copy_bytes d a [i..<i + n] s = Some (s\<lparr>bytes := copy_up d a i n (bytes s)\<rparr>)"
  using assms
proof (induction n arbitrary: i s)
  case (Suc n)
  show ?case
    using Suc.IH [of "Suc i"] Suc.prems kernel_range_linear [of _ "i + Suc n" i]
    by (simp add: upt_conv_Cons del: upt_Suc)
qed simp

lemma u_copy_down:
  assumes "kernel_range d n" and "kernel_range a n"
  shows "u_copy_bytes d a (rev [0..<n]) s = Some (s\<lparr>bytes := copy_down d a n (bytes s)\<rparr>)"
  using assms
proof (induction n arbitrary: s)
  case (Suc n)
  show ?case
    using Suc.IH Suc.prems kernel_range_linear [of _ "Suc n" n] by (simp add: kernel_range_def)
qed simp

lemma u_copy_kernel:
  assumes "kernel_range d n" and "kernel_range a n"
  shows "u_memory_copy d a n s = Some (s\<lparr>bytes := memory_copy d a n (bytes s)\<rparr>)"
  using assms u_copy_up [of d 0 n a s] u_copy_down [of d n a s] by (simp add: u_memory_copy_def memory_copy_def)

lemma bytes_at_copied:
  assumes "kernel_range d n" and "kernel_range a n"
  shows "bytes_at (memory_copy d a n m) d n = bytes_at m a n"
  using assms unat_of_nat32 by (auto simp: bytes_at_def kernel_range_def memory_copy_spec)

lemma bytes_at_kept:
  assumes "kernel_range d n" and "kernel_range a n" and "kernel_range b k" and "unat b + k \<le> unat d \<or> unat d + n \<le> unat b"
  shows "bytes_at (memory_copy d a n m) b k = bytes_at m b k"
proof -
  have "\<not> unat (b + of_nat i - d) < n" if "i < k" for i
  proof
    assume l: "unat (b + of_nat i - d) < n"
    have "unat (d + (b + of_nat i - d)) = unat d + unat (b + of_nat i - d)"
      using l assms(1) unat_add_offset [of d "unat (b + of_nat i - d)"] by (simp add: kernel_range_def)
    then have "unat b + i = unat d + unat (b + of_nat i - d)"
      using that assms(3) unat_add_offset [of b i] by (simp add: kernel_range_def)
    then show False using l that assms(4) by linarith
  qed
  then show ?thesis using assms(1,2) by (simp add: bytes_at_def kernel_range_def memory_copy_spec)
qed

text \<open>The queue \<open>q\<close> has one page, at \<open>p\<close>, with \<open>c\<close> bytes from \<open>b\<close> on.\<close>

definition one_page :: "u32 \<Rightarrow> u32 \<Rightarrow> u32 \<Rightarrow> nat \<Rightarrow> kernel \<Rightarrow> bool" where
  "one_page q p b c s \<longleftrightarrow> next (nodes s) (KqPages q) = KqPage p \<and> prev (nodes s) (KqPages q) = KqPage p \<and>
     kp_base (kp_of s p) = b \<and> kp_count (kp_of s p) = int c"

lemmas queue_state = kq_of_def kp_of_def set_kq_def set_kp_def set_drv_def kqueue_size_def

lemma MAX_COUNT_eq: "MAX_COUNT = 4080"
  by (simp add: MAX_COUNT_def PAGE_SIZE_def SIZEOF_KQUEUE_PAGE_def)

lemma push_on_page:
  assumes pg: "one_page q p b c s" and c: "c < 4080" "c + n \<le> 4080" and r: "kernel_range b (c + n)" "kernel_range data n"
  shows "\<exists>s'. kqueue_push q data (of_nat n) s = Some (s', 0) \<and> one_page q p b (c + n) s' \<and>
    bytes_at (bytes s') b (c + n) = bytes_at (bytes s) b c @ bytes_at (bytes s) data n \<and>
    kqueue_size q s' = kqueue_size q s + of_nat n"
proof -
  let ?d = "b + of_nat c"
  let ?m = "memory_copy ?d data n (bytes s)"
  have un: "unat (of_nat n :: u32) = n" "unat (of_nat c :: u32) = c" using c by (simp_all add: unat_of_nat32)
  have d: "unat ?d = unat b + c" using r(1) by (intro unat_add_offset) (simp add: kernel_range_def)
  then have rd: "kernel_range ?d n" "kernel_range b c" using r(1) by (simp_all add: kernel_range_def)
  have room: "(of_nat c :: u32) < 4080" "(of_nat n :: u32) \<le> 4080 - of_nat c"
    using c un by (simp_all add: word_less_nat_alt word_le_nat_alt unat_sub_if_size)
  have "kqueue_push q data (of_nat n) s = Some (set_kq q (\<lambda>k. k\<lparr>kq_count := kq_count k + of_nat n\<rparr>)
      (set_kp p (\<lambda>p. p\<lparr>kp_count := kp_count p + uint (of_nat n :: u32)\<rparr>) (s\<lparr>bytes := ?m\<rparr>)), 0)"
    using pg room un u_copy_kernel [OF rd(1) r(2)]
    by (simp add: kqueue_push_def one_page_def klist0_empty_def kqueue_entry_def MAX_COUNT_eq)
  moreover have "bytes_at ?m b (c + n) = bytes_at (bytes s) b c @ bytes_at (bytes s) data n"
    using bytes_at_copied [OF rd(1) r(2)] bytes_at_kept [OF rd(1) r(2) rd(2)] d by (simp add: bytes_at_append)
  moreover have "uint (of_nat n :: u32) = int n" using un(1) by (simp flip: unat_eq_nat_uint add: uint_nat)
  ultimately show ?thesis using pg by (auto simp: one_page_def queue_state)
qed

lemma pull_from_page:
  assumes pg: "one_page q p b c s" and c: "n < c" "c \<le> 4080" and r: "kernel_range b c" "kernel_range data n"
    and ap: "unat data + n \<le> unat b \<or> unat b + c \<le> unat data"
  shows "\<exists>s'. kqueue_pull_tail q data (of_nat n) s = Some (s', of_nat n) \<and> one_page q p (b + of_nat n) (c - n) s' \<and>
    bytes_at (bytes s') data n @ bytes_at (bytes s') (b + of_nat n) (c - n) = bytes_at (bytes s) b c \<and>
    kqueue_size q s' = kqueue_size q s - of_nat n"
proof -
  let ?m = "memory_copy data b n (bytes s)"
  have un: "unat (of_nat n :: u32) = n" "unat (of_nat c :: u32) = c" using c by (simp_all add: unat_of_nat32)
  have d: "unat (b + of_nat n) = unat b + n" using r(1) c by (intro unat_add_offset) (simp add: kernel_range_def)
  have rb: "kernel_range b n" "kernel_range (b + of_nat n) (c - n)" using r(1) c d by (simp_all add: kernel_range_def)
  have lt: "(of_nat n :: u32) < of_nat c" using c un by (simp add: word_less_nat_alt)
  have "kqueue_pull_tail q data (of_nat n) s = Some (set_kq q (\<lambda>k. k\<lparr>kq_count := kq_count k - of_nat n\<rparr>)
      (set_kp p (\<lambda>p. p\<lparr>kp_count := kp_count p - uint (of_nat n :: u32), kp_base := kp_base p + of_nat n\<rparr>)
        (s\<lparr>bytes := ?m\<rparr>)), of_nat n)"
    using pg lt un u_copy_kernel [OF r(2) rb(1)]
    by (simp add: kqueue_pull_tail_def pull_tail_loop.simps one_page_def klist0_empty_def kqueue_entry_def)
  moreover have "bytes_at ?m data n @ bytes_at ?m (b + of_nat n) (c - n) = bytes_at (bytes s) b c"
    using bytes_at_copied [OF r(2) rb(1)] bytes_at_kept [OF r(2) rb(1,2)] ap c d bytes_at_append [of _ b n "c - n"] by auto
  moreover have "uint (of_nat n :: u32) = int n" using un(1) by (simp flip: unat_eq_nat_uint add: uint_nat)
  ultimately show ?thesis using pg c by (auto simp: one_page_def queue_state)
qed

text \<open>
  C20. A byte queue with one page is a queue of bytes: \<^verbatim>\<open>kqueue_push\<close> of \<open>n\<close> bytes for which the page counts enough room appends them, \<^verbatim>\<open>kqueue_pull_tail\<close>
  of fewer bytes than there are returns that many from the front and leaves the others.  The room is
  counted without the bytes that were pulled from the page: a full page from which \<open>n\<close> bytes were pulled takes \<open>n\<close> more, and
  all of them are written behind the end of the page.
\<close>

theorem kqueue_fifo:
  assumes "one_page q p b c s" and "kernel_range b (c + n)" and "kernel_range data n" and "0 < n"
    and "unat data + n \<le> unat b \<or> unat b + (c + n) \<le> unat data"
  shows "(c + n \<le> 4080 \<longrightarrow> (\<exists>s'. kqueue_push q data (of_nat n) s = Some (s', 0) \<and> one_page q p b (c + n) s' \<and>
      bytes_at (bytes s') b (c + n) = bytes_at (bytes s) b c @ bytes_at (bytes s) data n \<and>
      kqueue_size q s' = kqueue_size q s + of_nat n)) \<and>
    (n < c \<and> c \<le> 4080 \<longrightarrow> (\<exists>s'. kqueue_pull_tail q data (of_nat n) s = Some (s', of_nat n) \<and> one_page q p (b + of_nat n) (c - n) s' \<and>
      bytes_at (bytes s') data n @ bytes_at (bytes s') (b + of_nat n) (c - n) = bytes_at (bytes s) b c \<and>
      kqueue_size q s' = kqueue_size q s - of_nat n)) \<and>
    (n < c \<and> c = 4080 \<and> b = p + of_nat SIZEOF_KQUEUE_PAGE \<longrightarrow>
      (\<exists>s' s''. kqueue_pull_tail q data (of_nat n) s = Some (s', of_nat n) \<and> kqueue_push q data (of_nat n) s' = Some (s'', 0) \<and>
        bytes_at (bytes s'') (p + of_nat PAGE_SIZE) n = bytes_at (bytes s) b n))"
proof (intro conjI impI)
  assume "c + n \<le> 4080"
  then show "\<exists>s'. kqueue_push q data (of_nat n) s = Some (s', 0) \<and> one_page q p b (c + n) s' \<and>
      bytes_at (bytes s') b (c + n) = bytes_at (bytes s) b c @ bytes_at (bytes s) data n \<and>
      kqueue_size q s' = kqueue_size q s + of_nat n"
    using assms(4) by (intro push_on_page [OF assms(1) _ _ assms(2,3)]) simp_all
next
  assume n: "n < c \<and> c \<le> 4080"
  have "kernel_range b c" using assms(2) by (simp add: kernel_range_def)
  then show "\<exists>s'. kqueue_pull_tail q data (of_nat n) s = Some (s', of_nat n) \<and> one_page q p (b + of_nat n) (c - n) s' \<and>
      bytes_at (bytes s') data n @ bytes_at (bytes s') (b + of_nat n) (c - n) = bytes_at (bytes s) b c \<and>
      kqueue_size q s' = kqueue_size q s - of_nat n"
    using n assms(3,5) by (intro pull_from_page [OF assms(1)]) auto
next
  assume n: "n < c \<and> c = 4080 \<and> b = p + of_nat SIZEOF_KQUEUE_PAGE"
  have "kernel_range b c" using assms(2) by (simp add: kernel_range_def)
  from pull_from_page [OF assms(1) _ _ this assms(3)] n assms(5) obtain s' where
    s': "kqueue_pull_tail q data (of_nat n) s = Some (s', of_nat n)" "one_page q p (b + of_nat n) (c - n) s'"
      "bytes_at (bytes s') data n @ bytes_at (bytes s') (b + of_nat n) (c - n) = bytes_at (bytes s) b c" by auto
  have d: "unat (b + of_nat n) = unat b + n" using assms(2) by (intro unat_add_offset) (simp add: kernel_range_def)
  then have "kernel_range (b + of_nat n) (c - n + n)" using assms(2) n by (simp add: kernel_range_def)
  from push_on_page [OF s'(2) _ _ this assms(3)] n assms(4) obtain s'' where
    s'': "kqueue_push q data (of_nat n) s' = Some (s'', 0)"
      "bytes_at (bytes s'') (b + of_nat n) (c - n + n) = bytes_at (bytes s') (b + of_nat n) (c - n) @ bytes_at (bytes s') data n" by auto
  have e: "b + of_nat n + of_nat (c - n) = p + of_nat PAGE_SIZE"
    using n by (simp add: SIZEOF_KQUEUE_PAGE_def PAGE_SIZE_def of_nat_diff)
  have "bytes_at (bytes s'') (p + of_nat PAGE_SIZE) n = bytes_at (bytes s') data n"
    using s''(2) unfolding bytes_at_append e by simp
  moreover have "bytes_at (bytes s') data n = bytes_at (bytes s) b n"
    using s'(3) n bytes_at_append [of "bytes s" b n "c - n"] by simp
  ultimately show "\<exists>s' s''. kqueue_pull_tail q data (of_nat n) s = Some (s', of_nat n) \<and> kqueue_push q data (of_nat n) s' = Some (s'', 0) \<and>
      bytes_at (bytes s'') (p + of_nat PAGE_SIZE) n = bytes_at (bytes s) b n" using s'(1) s''(1) by auto
qed

definition sample_bytes :: memory where
  "sample_bytes = (\<lambda>a. if a = 0x1010 then 1 else if a = 0x8000 then 2 else 0)"

definition queue_kernel :: "nat \<Rightarrow> kernel" where
  "queue_kernel c = undefined\<lparr>nodes := \<lparr>prev = (\<lambda>_. KqPage 0x1000), next = (\<lambda>_. KqPage 0x1000)\<rparr>, bytes := sample_bytes,
     kdrv := undefined\<lparr>kqueues := (\<lambda>_. \<lparr>kq_count = of_nat c\<rparr>), kq_pages := (\<lambda>_. \<lparr>kp_base = 0x1010, kp_count = int c\<rparr>)\<rparr>\<rparr>"

theorem kqueue_fifo_witness:
  "(\<exists>s'. kqueue_push 0x500 0x8000 2 (queue_kernel 3) = Some (s', 0) \<and> bytes_at (bytes s') 0x1010 5 = [1, 0, 0, 2, 0]) \<and>
   (\<exists>s' s''. kqueue_pull_tail 0x500 0x8000 2 (queue_kernel 4080) = Some (s', 2) \<and> kqueue_push 0x500 0x8000 2 s' = Some (s'', 0) \<and>
     bytes_at (bytes s'') 0x2000 2 = [1, 0])"
proof -
  have pg: "one_page 0x500 0x1000 0x1010 c (queue_kernel c)" for c
    by (simp add: one_page_def queue_kernel_def kp_of_def)
  have r: "kernel_range 0x1010 (3 + 2)" "kernel_range 0x1010 (4080 + 2)" "kernel_range 0x8000 2" by (simp_all add: kernel_range_def)
  have m: "bytes (queue_kernel c) = sample_bytes" for c by (simp add: queue_kernel_def)
  have "\<exists>s'. kqueue_push 0x500 0x8000 (of_nat 2) (queue_kernel 3) = Some (s', 0) \<and> bytes_at (bytes s') 0x1010 (3 + 2) =
      bytes_at sample_bytes 0x1010 3 @ bytes_at sample_bytes 0x8000 2"
    using conjunct1 [OF kqueue_fifo [OF pg r(1,3)]] by (auto simp: m)
  moreover have "\<exists>s' s''. kqueue_pull_tail 0x500 0x8000 (of_nat 2) (queue_kernel 4080) = Some (s', of_nat 2) \<and>
      kqueue_push 0x500 0x8000 (of_nat 2) s' = Some (s'', 0) \<and> bytes_at (bytes s'') (0x1000 + of_nat PAGE_SIZE) 2 = bytes_at sample_bytes 0x1010 2"
    using conjunct2 [OF conjunct2 [OF kqueue_fifo [OF pg r(2,3)]]] by (simp only: m) (simp add: SIZEOF_KQUEUE_PAGE_def)
  ultimately show ?thesis by (simp add: bytes_at_def sample_bytes_def upt_rec PAGE_SIZE_def)
qed

end
