(* ===== verification/Klibc_String.thy ===== *)
theory Klibc_String
  imports Klib
begin

text \<open>
  The memory and string functions of the user-space library, \<^verbatim>\<open>usr/klibc/mem*.c\<close> and \<^verbatim>\<open>usr/klibc/str*.c\<close>, on the flat memory of \<^verbatim>\<open>Klib\<close>.
  A loop that runs until it meets a byte is a partial function; a null pointer is the address 0.
\<close>

section \<open>Memory\<close>

fun memset :: "u32 \<Rightarrow> u8 \<Rightarrow> nat \<Rightarrow> memory \<Rightarrow> memory" where
  "memset q c 0 m = m"
| "memset q c (Suc n) m = memset (q + 1) c n (m(q := c))"

text \<open>The string instructions \<^verbatim>\<open>movsl\<close> and \<^verbatim>\<open>movsb\<close> with a repeat prefix, forwards and backwards.\<close>

fun rep_movsb :: "nat \<Rightarrow> u32 \<Rightarrow> u32 \<Rightarrow> memory \<Rightarrow> memory" where
  "rep_movsb 0 p q m = m"
| "rep_movsb (Suc n) p q m = rep_movsb n (p + 1) (q + 1) (m(q := m p))"

fun rep_movsb_down :: "nat \<Rightarrow> u32 \<Rightarrow> u32 \<Rightarrow> memory \<Rightarrow> memory" where
  "rep_movsb_down 0 p q m = m"
| "rep_movsb_down (Suc n) p q m = rep_movsb_down n (p - 1) (q - 1) (m(q := m p))"

fun rep_movsl :: "nat \<Rightarrow> u32 \<Rightarrow> u32 \<Rightarrow> memory \<Rightarrow> memory" where
  "rep_movsl 0 p q m = m"
| "rep_movsl (Suc n) p q m =
    rep_movsl n (p + 4) (q + 4) (m(q := m p, q + 1 := m (p + 1), q + 2 := m (p + 2), q + 3 := m (p + 3)))"

definition memcpy :: "u32 \<Rightarrow> u32 \<Rightarrow> u32 \<Rightarrow> memory \<Rightarrow> memory" where
  "memcpy dst src n m =
    (let nl = unat (drop_bit 2 n)
     in rep_movsb (unat (n AND 3)) (src + of_nat (4 * nl)) (dst + of_nat (4 * nl)) (rep_movsl nl src dst m))"

definition memmove :: "u32 \<Rightarrow> u32 \<Rightarrow> u32 \<Rightarrow> memory \<Rightarrow> memory" where
  "memmove dst src n m =
    (if dst < src then rep_movsb (unat n) src dst m
     else rep_movsb_down (unat n) (src + (n - 1)) (dst + (n - 1)) m)"

fun memcmp :: "memory \<Rightarrow> u32 \<Rightarrow> u32 \<Rightarrow> nat \<Rightarrow> int" where
  "memcmp m c1 c2 0 = 0"
| "memcmp m c1 c2 (Suc n) =
    (let d = uint (m c1) - uint (m c2) in if d \<noteq> 0 then d else memcmp m (c1 + 1) (c2 + 1) n)"

fun memchr :: "memory \<Rightarrow> u32 \<Rightarrow> u8 \<Rightarrow> nat \<Rightarrow> u32" where
  "memchr m sp c 0 = 0"
| "memchr m sp c (Suc n) = (if m sp = c then sp else memchr m (sp + 1) c n)"

fun memrchr_loop :: "memory \<Rightarrow> u32 \<Rightarrow> u8 \<Rightarrow> nat \<Rightarrow> u32" where
  "memrchr_loop m sp c 0 = 0"
| "memrchr_loop m sp c (Suc n) = (if m sp = c then sp else memrchr_loop m (sp - 1) c n)"

definition memrchr :: "memory \<Rightarrow> u32 \<Rightarrow> u8 \<Rightarrow> u32 \<Rightarrow> u32" where
  "memrchr m s c n = memrchr_loop m (s + n - 1) c (unat n)"

fun memccpy :: "u32 \<Rightarrow> u32 \<Rightarrow> u8 \<Rightarrow> nat \<Rightarrow> memory \<Rightarrow> memory \<times> u32" where
  "memccpy q p c 0 m = (m, 0)"
| "memccpy q p c (Suc n) m =
    (let ch = m p; m1 = m(q := ch) in if ch = c then (m1, q + 1) else memccpy (q + 1) (p + 1) c n m1)"

fun memswap :: "u32 \<Rightarrow> u32 \<Rightarrow> nat \<Rightarrow> memory \<Rightarrow> memory" where
  "memswap p q 0 m = m"
| "memswap p q (Suc n) m = (let tmp = m p; m1 = m(p := m q) in memswap (p + 1) (q + 1) n (m1(q := tmp)))"

partial_function (option) memmem_loop :: "memory \<Rightarrow> u32 \<Rightarrow> u32 \<Rightarrow> u32 \<Rightarrow> u32 \<Rightarrow> u32 \<Rightarrow> u32 \<Rightarrow> u32 \<Rightarrow> u32 option" where
  "memmem_loop mem y n x m k l j =
    (if j \<le> n - m then
       (if mem (x + 1) \<noteq> mem (y + (j + 1)) then memmem_loop mem y n x m k l (j + k)
        else if memcmp mem (x + 2) (y + j + 2) (unat (m - 2)) = 0 \<and> mem x = mem (y + j) then Some (y + j)
        else memmem_loop mem y n x m k l (j + l))
     else Some 0)"

fun memmem_one :: "memory \<Rightarrow> u32 \<Rightarrow> u32 \<Rightarrow> nat \<Rightarrow> u32" where
  "memmem_one mem y x 0 = 0"
| "memmem_one mem y x (Suc n) = (if mem y = mem x then y else memmem_one mem (y + 1) x n)"

definition memmem :: "memory \<Rightarrow> u32 \<Rightarrow> u32 \<Rightarrow> u32 \<Rightarrow> u32 \<Rightarrow> u32 option" where
  "memmem mem y n x m =
    (if n < m \<or> m = 0 \<or> n = 0 then Some 0
     else if m \<noteq> 1 then
       (let (k, l) = (if mem x = mem (x + 1) then (2, 1) else (1, 2)) in memmem_loop mem y n x m k l 0)
     else Some (memmem_one mem y x (unat n)))"

section \<open>Strings\<close>

partial_function (option) strlen_loop :: "memory \<Rightarrow> u32 \<Rightarrow> u32 option" where
  "strlen_loop m ss = (if m ss \<noteq> 0 then strlen_loop m (ss + 1) else Some ss)"

definition strlen :: "memory \<Rightarrow> u32 \<Rightarrow> u32 option" where
  "strlen m s = map_option (\<lambda>ss. ss - s) (strlen_loop m s)"

fun strnlen_loop :: "memory \<Rightarrow> u32 \<Rightarrow> nat \<Rightarrow> u32" where
  "strnlen_loop m ss 0 = ss"
| "strnlen_loop m ss (Suc maxlen) = (if m ss \<noteq> 0 then strnlen_loop m (ss + 1) maxlen else ss)"

definition strnlen :: "memory \<Rightarrow> u32 \<Rightarrow> u32 \<Rightarrow> u32" where
  "strnlen m s maxlen = strnlen_loop m s (unat maxlen) - s"

partial_function (option) strchr :: "memory \<Rightarrow> u32 \<Rightarrow> u8 \<Rightarrow> u32 option" where
  "strchr m s c = (if m s \<noteq> c then (if m s = 0 then Some 0 else strchr m (s + 1) c) else Some s)"

partial_function (option) strrchr_loop :: "memory \<Rightarrow> u32 \<Rightarrow> u8 \<Rightarrow> u32 \<Rightarrow> u32 option" where
  "strrchr_loop m s c found =
    (if m s \<noteq> 0 then strrchr_loop m (s + 1) c (if m s = c then s else found) else Some found)"

definition strrchr :: "memory \<Rightarrow> u32 \<Rightarrow> u8 \<Rightarrow> u32 option" where
  "strrchr m s c = strrchr_loop m s c 0"

partial_function (option) strcpy :: "u32 \<Rightarrow> u32 \<Rightarrow> memory \<Rightarrow> memory option" where
  "strcpy q p m = (let ch = m p; m1 = m(q := ch) in if ch \<noteq> 0 then strcpy (q + 1) (p + 1) m1 else Some m1)"

fun strncpy :: "u32 \<Rightarrow> u32 \<Rightarrow> nat \<Rightarrow> memory \<Rightarrow> memory" where
  "strncpy q p 0 m = memset q 0 0 m"
| "strncpy q p (Suc n) m =
    (let ch = m p; m1 = m(q := ch) in if ch = 0 then memset (q + 1) 0 n m1 else strncpy (q + 1) (p + 1) n m1)"

definition strcat :: "u32 \<Rightarrow> u32 \<Rightarrow> memory \<Rightarrow> memory option" where
  "strcat dst src m = do { q \<leftarrow> strchr m dst 0; strcpy q src m }"

fun strncat_loop :: "u32 \<Rightarrow> u32 \<Rightarrow> nat \<Rightarrow> memory \<Rightarrow> memory" where
  "strncat_loop q p 0 m = m(q := 0)"
| "strncat_loop q p (Suc n) m =
    (let ch = m p; m1 = m(q := ch) in if ch = 0 then m1 else strncat_loop (q + 1) (p + 1) n m1)"

definition strncat :: "u32 \<Rightarrow> u32 \<Rightarrow> u32 \<Rightarrow> memory \<Rightarrow> memory option" where
  "strncat dst src n m = do { q \<leftarrow> strchr m dst 0; Some (strncat_loop q src (unat n) m) }"

text \<open>The loop that \<^verbatim>\<open>strlcpy\<close> and \<^verbatim>\<open>strlcat\<close> share: copy what fits, count the rest.\<close>

partial_function (option) strlcpy_loop :: "u32 \<Rightarrow> u32 \<Rightarrow> u32 \<Rightarrow> u32 \<Rightarrow> memory \<Rightarrow> (memory \<times> u32 \<times> u32) option" where
  "strlcpy_loop q p bytes sz m =
    (let ch = m p
     in if ch \<noteq> 0 then
          (if bytes + 1 < sz then strlcpy_loop (q + 1) (p + 1) (bytes + 1) sz (m(q := ch))
           else strlcpy_loop q (p + 1) (bytes + 1) sz m)
        else Some (m, q, bytes))"

definition strlcpy :: "u32 \<Rightarrow> u32 \<Rightarrow> u32 \<Rightarrow> memory \<Rightarrow> (memory \<times> u32) option" where
  "strlcpy dst src sz m = do {
     (m1, q, bytes) \<leftarrow> strlcpy_loop dst src 0 sz m;
     Some (if sz \<noteq> 0 then m1(q := 0) else m1, bytes)
   }"

fun strlcat_end :: "memory \<Rightarrow> u32 \<Rightarrow> u32 \<Rightarrow> nat \<Rightarrow> u32 \<times> u32" where
  "strlcat_end m q bytes 0 = (q, bytes)"
| "strlcat_end m q bytes (Suc n) = (if m q \<noteq> 0 then strlcat_end m (q + 1) (bytes + 1) n else (q, bytes))"

definition strlcat :: "u32 \<Rightarrow> u32 \<Rightarrow> u32 \<Rightarrow> memory \<Rightarrow> (memory \<times> u32) option" where
  "strlcat dst src sz m =
    (let (q, bytes) = strlcat_end m dst 0 (unat sz)
     in if bytes = sz then do { l \<leftarrow> strlen m src; Some (m, bytes + l) }
        else do {
          (m1, q1, b1) \<leftarrow> strlcpy_loop q src bytes sz m;
          Some (m1(q1 := 0), b1)
        })"

partial_function (option) strcmp :: "memory \<Rightarrow> u32 \<Rightarrow> u32 \<Rightarrow> int option" where
  "strcmp m c1 c2 =
    (let d = uint (m c1) - uint (m c2) in if d \<noteq> 0 \<or> m c1 = 0 then Some d else strcmp m (c1 + 1) (c2 + 1))"

fun strncmp :: "memory \<Rightarrow> u32 \<Rightarrow> u32 \<Rightarrow> nat \<Rightarrow> int" where
  "strncmp m c1 c2 0 = 0"
| "strncmp m c1 c2 (Suc n) =
    (let d = uint (m c1) - uint (m c2) in if d \<noteq> 0 \<or> m c1 = 0 then d else strncmp m (c1 + 1) (c2 + 1) n)"

definition strstr :: "memory \<Rightarrow> u32 \<Rightarrow> u32 \<Rightarrow> u32 option" where
  "strstr mem haystack needle = do {
     n \<leftarrow> strlen mem haystack;
     m \<leftarrow> strlen mem needle;
     memmem mem haystack n needle m
   }"

subsection \<open>Spans and tokens\<close>

partial_function (option) fill_matchmap :: "memory \<Rightarrow> u32 \<Rightarrow> (u8 \<Rightarrow> bool) \<Rightarrow> (u8 \<Rightarrow> bool) option" where
  "fill_matchmap m p matchmap = (if m p \<noteq> 0 then fill_matchmap m (p + 1) (matchmap(m p := True)) else Some matchmap)"

partial_function (option) span_loop :: "memory \<Rightarrow> u32 \<Rightarrow> (u8 \<Rightarrow> bool) \<Rightarrow> bool \<Rightarrow> u32 \<Rightarrow> u32 option" where
  "span_loop m s matchmap parity n =
    (if matchmap (m s) \<noteq> parity then span_loop m (s + 1) matchmap parity (n + 1) else Some n)"

definition strxspn :: "memory \<Rightarrow> u32 \<Rightarrow> u32 \<Rightarrow> bool \<Rightarrow> u32 option" where
  "strxspn m s mp parity = do {
     matchmap \<leftarrow> fill_matchmap m mp (\<lambda>_. False);
     span_loop m s (matchmap(0 := parity)) parity 0
   }"

definition strspn :: "memory \<Rightarrow> u32 \<Rightarrow> u32 \<Rightarrow> u32 option" where
  "strspn m s accept = strxspn m s accept False"

definition strcspn :: "memory \<Rightarrow> u32 \<Rightarrow> u32 \<Rightarrow> u32 option" where
  "strcspn m s reject = strxspn m s reject True"

definition strpbrk :: "memory \<Rightarrow> u32 \<Rightarrow> u32 \<Rightarrow> u32 option" where
  "strpbrk m s accept = do {
     n \<leftarrow> strxspn m s accept True;
     Some (if m (s + n) \<noteq> 0 then s + n else 0)
   }"

text \<open>\<^verbatim>\<open>strsep\<close> takes the value of \<^verbatim>\<open>*stringp\<close> and returns the memory, the new value and the token.\<close>

definition strsep :: "u32 \<Rightarrow> u32 \<Rightarrow> memory \<Rightarrow> (memory \<times> u32 \<times> u32) option" where
  "strsep s delim m =
    (if s = 0 then Some (m, s, 0)
     else do {
       e \<leftarrow> strpbrk m s delim;
       Some (if e \<noteq> 0 then (m(e := 0), e + 1, s) else (m, e, s))
     })"

partial_function (option) strtok_loop :: "u32 \<Rightarrow> u32 \<Rightarrow> memory \<Rightarrow> (memory \<times> u32 \<times> u32) option" where
  "strtok_loop holder delim m = do {
     (m1, h1, s) \<leftarrow> strsep holder delim m;
     if s \<noteq> 0 \<and> m1 s = 0 then strtok_loop h1 delim m1 else Some (m1, h1, s)
   }"

definition strtok :: "u32 \<Rightarrow> u32 \<Rightarrow> u32 \<Rightarrow> memory \<Rightarrow> (memory \<times> u32 \<times> u32) option" where
  "strtok s delim holder m = strtok_loop (if s \<noteq> 0 then s else holder) delim m"

section \<open>Searching\<close>

lemma bytes_at_Suc: "bytes_at m a (Suc n) = m a # bytes_at m (a + 1) n"
  using bytes_at_append [of m a 1 n] by (simp add: bytes_at_def)

lemma memcmp_zero: "memcmp m a b n = 0 \<longleftrightarrow> bytes_at m a n = bytes_at m b n"
proof (induction n arbitrary: a b)
  case (Suc n)
  have "uint (m a) - uint (m b) = 0 \<longleftrightarrow> m a = m b" by (simp add: word_uint_eq_iff)
  then show ?case using Suc by (simp only: memcmp.simps bytes_at_Suc Let_def list.inject split: if_split) auto
qed (simp add: bytes_at_def)

lemma find_upt_from: "find P [i..<n] = (if i < n then if P i then Some i else find P [Suc i..<n] else None)"
  by (simp add: upt_conv_Cons)

definition occurs :: "memory \<Rightarrow> u32 \<Rightarrow> u32 \<Rightarrow> nat \<Rightarrow> nat \<Rightarrow> bool" where
  "occurs mem y x m i \<longleftrightarrow> bytes_at mem (y + of_nat i) m = bytes_at mem x m"

definition found :: "u32 \<Rightarrow> nat option \<Rightarrow> u32" where
  "found y r = (case r of None \<Rightarrow> 0 | Some i \<Rightarrow> y + of_nat i)"

lemma occurs_two:
  assumes "2 \<le> m"
  shows "occurs mem y x m i \<longleftrightarrow> mem (y + of_nat i) = mem x \<and> mem (y + of_nat (Suc i)) = mem (x + 1) \<and>
    memcmp mem (x + 2) (y + of_nat i + 2) (m - 2) = 0"
proof -
  obtain k where k: "m = Suc (Suc k)" using le_Suc_ex [OF assms] by auto
  have e: "y + of_nat i + 1 = y + of_nat (Suc i)" "y + of_nat (Suc i) + 1 = y + of_nat i + 2" "x + 1 + 1 = x + 2" "Suc (Suc k) - 2 = k"
    by simp_all
  show ?thesis unfolding k occurs_def bytes_at_Suc memcmp_zero e list.inject by metis
qed

lemma memmem_one_finds: "memmem_one mem y x n = found y (find (occurs mem y x 1) [0..<n])"
proof -
  have "memmem_one mem (y + of_nat i) x k = found y (find (occurs mem y x 1) [i..<i + k])" for i k
  proof (induction k arbitrary: i)
    case (Suc k)
    have "occurs mem y x 1 i \<longleftrightarrow> mem (y + of_nat i) = mem x" by (simp add: occurs_def bytes_at_Suc) (simp add: bytes_at_def)
    then show ?case
      using Suc [of "Suc i"] find_upt_from [of "occurs mem y x 1" i "i + Suc k"]
      by (simp add: found_def add.commute add.left_commute)
  qed (simp add: found_def)
  from this [of 0 n] show ?thesis by simp
qed

lemma memmem_loop_step:
  "memmem_loop mem y n x m k l (of_nat j) =
    (if of_nat j \<le> n - m then
       (if mem (x + 1) \<noteq> mem (y + of_nat (Suc j)) then memmem_loop mem y n x m k l (of_nat j + k)
        else if memcmp mem (x + 2) (y + of_nat j + 2) (unat (m - 2)) = 0 \<and> mem x = mem (y + of_nat j) then Some (y + of_nat j)
        else memmem_loop mem y n x m k l (of_nat j + l))
     else Some 0)"
proof -
  have "y + (of_nat j + 1) = y + of_nat (Suc j)" by simp
  then show ?thesis by (subst memmem_loop.simps) (simp only:)
qed

lemma memmem_loop_finds:
  assumes m: "2 \<le> unat m" "m \<le> n" and kl: "(k, l) = (if mem x = mem (x + 1) then (2, 1) else (1, 2))"
    and "j \<le> unat n - unat m + 2"
  shows "memmem_loop mem y n x m k l (of_nat j) = Some (found y (find (occurs mem y x (unat m)) [j..<Suc (unat n) - unat m]))"
  using assms(4)
proof (induction "unat n - unat m + 2 - j" arbitrary: j rule: less_induct)
  case less
  let ?P = "occurs mem y x (unat m)" and ?e = "Suc (unat n) - unat m"
  have b: "unat n < 2 ^ 32" "unat m \<le> unat n" using m(2) unat_less32 [of n] by (auto simp: word_le_nat_alt)
  have uj: "unat (of_nat j :: u32) = j" using less.prems b m(1) by (intro unat_of_nat32) linarith
  have cond: "(of_nat j :: u32) \<le> n - m \<longleftrightarrow> j < ?e"
    using b uj by (auto simp: word_le_nat_alt unat_sub m(2))
  have k: "k = of_nat (unat k)" "l = of_nat (unat l)" "unat k \<in> {1, 2}" "unat l \<in> {1, 2}" using kl by (auto split: if_splits)
  have skip: "memmem_loop mem y n x m k l (of_nat j + of_nat d) = Some (found y (find ?P [j + d..<?e]))"
    if "j < ?e" "d \<in> {1, 2}" for d
    using less.hyps [of "j + d"] that b by auto
  show ?case
  proof (cases "j < ?e")
    case False
    then show ?thesis using cond by (simp add: memmem_loop_step found_def)
  next
    case True
    note occ = occurs_two [OF m(1), of mem y x]
    have m2: "unat (m - 2) = unat m - 2" using m(1) by (simp add: unat_sub word_le_nat_alt)
    have two: "find ?P [j..<?e] = find ?P [j + 2..<?e]" if "\<not> ?P j" "\<not> ?P (Suc j)"
      using that find_upt_from [of ?P j ?e] find_upt_from [of ?P "Suc j" ?e] by (auto simp: numeral_2_eq_2)
    have one: "find ?P [j..<?e] = find ?P [j + 1..<?e]" if "\<not> ?P j"
      using that True find_upt_from [of ?P j ?e] by simp
    show ?thesis
    proof (cases "mem (x + 1) = mem (y + of_nat (Suc j))")
      case differ: False
      then have no: "\<not> ?P j" by (simp add: occ)
      have "\<not> ?P (Suc j)" if "k = 2" using that kl differ by (auto simp: occ split: if_splits)
      then have "find ?P [j..<?e] = find ?P [j + unat k..<?e]" using one two no k(3) by (auto simp: word_unat_eq_iff)
      then show ?thesis
        using skip [OF True k(3)] cond True differ k(1) by (simp only: memmem_loop_step) simp
    next
      case same: True
      show ?thesis
      proof (cases "?P j")
        case True
        then show ?thesis
          using same cond \<open>j < ?e\<close> find_upt_from [of ?P j ?e] occ by (simp only: memmem_loop_step m2 found_def) simp
      next
        case no: False
        have "\<not> ?P (Suc j)" if "l = 2" using that kl same by (auto simp: occ split: if_splits)
        then have "find ?P [j..<?e] = find ?P [j + unat l..<?e]" using one two no k(4) by (auto simp: word_unat_eq_iff)
        moreover have "\<not> (memcmp mem (x + 2) (y + of_nat j + 2) (unat (m - 2)) = 0 \<and> mem x = mem (y + of_nat j))"
          using no same unfolding occ m2 by metis
        then have "memmem_loop mem y n x m k l (of_nat j) = memmem_loop mem y n x m k l (of_nat j + l)"
          using cond True same by (simp only: memmem_loop_step if_False if_True not_True_eq_False simp_thms)
        ultimately show ?thesis using skip [OF True k(4)] k(2) by simp
      qed
    qed
  qed
qed

section \<open>Bounded copies\<close>

text \<open>A string of \<open>l\<close> characters at \<open>p\<close>.\<close>

definition cstring :: "memory \<Rightarrow> u32 \<Rightarrow> nat \<Rightarrow> bool" where
  "cstring m p l \<longleftrightarrow> (\<forall>i<l. m (p + of_nat i) \<noteq> 0) \<and> m (p + of_nat l) = 0 \<and> l < 2 ^ 32"

definition clear_of :: "u32 \<Rightarrow> nat \<Rightarrow> u32 \<Rightarrow> nat \<Rightarrow> bool" where
  "clear_of p l q k \<longleftrightarrow> (\<forall>i\<le>l. k \<le> unat (p + of_nat i - q))"

text \<open>The memory after the first \<open>k\<close> bytes from \<open>p\<close> have been copied to \<open>q\<close>.\<close>

definition copied :: "u32 \<Rightarrow> u32 \<Rightarrow> nat \<Rightarrow> memory \<Rightarrow> memory" where
  "copied q p k m = (\<lambda>a. if unat (a - q) < k then m (p + (a - q)) else m a)"

lemma cstring_Suc:
  assumes "cstring m p (Suc l)"
  shows "m p \<noteq> 0" "cstring m (p + 1) l"
proof -
  have "m (p + of_nat i) \<noteq> 0" if "i < Suc l" for i using assms that by (simp add: cstring_def)
  from this [of 0] show "m p \<noteq> 0" by simp
  have "m (p + 1 + of_nat i) \<noteq> 0" if "i < l" for i
    using \<open>\<And>i. i < Suc l \<Longrightarrow> m (p + of_nat i) \<noteq> 0\<close> [of "Suc i"] that by (simp add: add.assoc)
  then show "cstring m (p + 1) l" using assms by (simp add: cstring_def add.assoc)
qed

lemma cstring_cong: "cstring m p l \<Longrightarrow> (\<And>i. i \<le> l \<Longrightarrow> m' (p + of_nat i) = m (p + of_nat i)) \<Longrightarrow> cstring m' p l"
  by (simp add: cstring_def)

lemma strlen_loop_finds: "cstring m p l \<Longrightarrow> strlen_loop m p = Some (p + of_nat l)"
proof (induction l arbitrary: p)
  case 0
  then show ?case by (subst strlen_loop.simps) (simp add: cstring_def)
next
  case (Suc l)
  then show ?case using cstring_Suc [OF Suc.prems] by (subst strlen_loop.simps) (simp add: add.assoc)
qed

lemma strlen_eq: "cstring m p l \<Longrightarrow> strlen m p = Some (of_nat l)"
  by (simp add: strlen_def strlen_loop_finds)

lemma copied_zero [simp]: "copied q p 0 m = m"
  by (simp add: copied_def)

lemma copied_Suc:
  assumes "k < 2 ^ 32" and "\<And>i. i \<le> k \<Longrightarrow> p + of_nat i \<noteq> q"
  shows "copied (q + 1) (p + 1) k (m(q := m p)) = copied q p (Suc k) m"
proof
  fix a
  show "copied (q + 1) (p + 1) k (m(q := m p)) a = copied q p (Suc k) m a"
  proof (cases "a = q")
    case True
    have "unat (-1 :: u32) = 2 ^ 32 - 1" by (simp add: unsigned_minus_1_eq_mask mask_eq_exp_minus_1)
    then show ?thesis using True assms(1) by (simp add: copied_def)
  next
    case False
    have d: "unat (a - (q + 1)) = unat (a - q) - 1" "0 < unat (a - q)"
      using False unat_minus_one [of "a - q"] by (simp_all add: diff_diff_eq unat_gt_0)
    have e: "p + 1 + (a - (q + 1)) = p + (a - q)" by simp
    have "p + (a - q) \<noteq> q" if "unat (a - q) \<le> k" using assms(2) [OF that] by simp
    then show ?thesis using d False unfolding copied_def e by auto
  qed
qed

text \<open>The block copies, on areas that do not overlap.\<close>

definition apart :: "u32 \<Rightarrow> u32 \<Rightarrow> nat \<Rightarrow> bool" where
  "apart p q n \<longleftrightarrow> (\<forall>i<n. \<forall>j<n. p + of_nat i \<noteq> q + of_nat j)"

lemma apart_shift: "apart p q (a + b) \<Longrightarrow> apart (p + of_nat a) (q + of_nat a) b"
  unfolding apart_def
proof (intro allI impI)
  fix i j
  assume a: "\<forall>i<a + b. \<forall>j<a + b. p + of_nat i \<noteq> q + of_nat j" and "i < b" "j < b"
  then have "p + of_nat (a + i) \<noteq> q + of_nat (a + j)" by simp
  then show "p + of_nat a + of_nat i \<noteq> q + of_nat a + of_nat j" by (simp add: add.assoc)
qed

lemma apart_less: "apart p q n \<Longrightarrow> k \<le> n \<Longrightarrow> apart p q k"
  by (simp add: apart_def)

lemma rep_movsb_copied: "apart p q n \<Longrightarrow> n \<le> 2 ^ 32 \<Longrightarrow> rep_movsb n p q m = copied q p n m"
proof (induction n arbitrary: p q m)
  case (Suc n)
  have "p + of_nat i \<noteq> q + of_nat 0" if "i \<le> n" for i
    using Suc.prems(1) that less_Suc_eq_le [of i n] zero_less_Suc [of n] unfolding apart_def by blast
  then have "copied (q + 1) (p + 1) n (m(q := m p)) = copied q p (Suc n) m" using Suc.prems(2) by (intro copied_Suc) simp_all
  moreover have "apart (p + 1) (q + 1) n" using apart_shift [of p q 1 n] Suc.prems(1) by simp
  ultimately show ?case using Suc.IH Suc.prems(2) by simp
qed simp

lemma rep_movsb_add: "rep_movsb (a + b) p q m = rep_movsb b (p + of_nat a) (q + of_nat a) (rep_movsb a p q m)"
  by (induction a arbitrary: p q m) (simp_all add: add.assoc)

lemma movsl_movsb:
  assumes "apart p q 4"
  shows "m(q := m p, q + 1 := m (p + 1), q + 2 := m (p + 2), q + 3 := m (p + 3)) = rep_movsb 4 p q m"
proof -
  have "p + of_nat i \<noteq> q + of_nat j" if "i < 4" "j < 4" for i j using assms that by (simp add: apart_def)
  from this [of 1 0] this [of 2 0] this [of 2 1] this [of 3 0] this [of 3 1] this [of 3 2]
  have "p + 1 \<noteq> q" "p + 2 \<noteq> q" "p + 2 \<noteq> q + 1" "p + 3 \<noteq> q" "p + 3 \<noteq> q + 1" "p + 3 \<noteq> q + 2" by simp_all
  then show ?thesis by (simp add: eval_nat_numeral add.assoc)
qed

lemma rep_movsl_movsb: "apart p q (4 * n) \<Longrightarrow> rep_movsl n p q m = rep_movsb (4 * n) p q m"
proof (induction n arbitrary: p q m)
  case (Suc n)
  have "apart p q 4" "apart (p + 4) (q + 4) (4 * n)" using Suc.prems apart_less [of p q "4 + 4 * n" 4] apart_shift [of p q 4 "4 * n"] by simp_all
  then show ?case using Suc.IH rep_movsb_add [of 4 "4 * n" p q m] movsl_movsb [of p q m] by simp
qed simp

lemma memcpy_copied:
  assumes "apart src dst (unat n)"
  shows "memcpy dst src n m = copied dst src (unat n) m"
proof -
  let ?k = "unat n div 4"
  have d: "unat (drop_bit 2 n) = ?k" "unat (n AND 3) = unat n mod 4"
    using take_bit_eq_mask [of 2 n] unsigned_take_bit_eq [of 2 n, where ?'a = nat] unsigned_drop_bit_eq [of 2 n, where ?'a = nat] unat_less32 [of n]
    by (simp_all add: mask_eq_exp_minus_1 take_bit_eq_mod drop_bit_eq_div)
  have e: "4 * ?k + unat n mod 4 = unat n" by simp
  have "rep_movsl ?k src dst m = rep_movsb (4 * ?k) src dst m" using apart_less [OF assms, of "4 * ?k"] by (intro rep_movsl_movsb) simp
  then have "memcpy dst src n m = rep_movsb (4 * ?k + unat n mod 4) src dst m" unfolding memcpy_def Let_def d rep_movsb_add by simp
  then show ?thesis using rep_movsb_copied [OF assms, of m] unat_less32 [of n] e by simp
qed

lemma strlcpy_loop_copies:
  assumes "cstring m p l" and "unat b + l < 2 ^ 32" and "clear_of p l q (min l (unat sz - 1 - unat b))"
  shows "strlcpy_loop q p b sz m = Some (copied q p (min l (unat sz - 1 - unat b)) m, q + of_nat (min l (unat sz - 1 - unat b)), b + of_nat l)"
  using assms
proof (induction l arbitrary: q p b m)
  case 0
  then show ?case by (subst strlcpy_loop.simps) (simp add: cstring_def)
next
  case (Suc l)
  have b1: "unat (b + 1) = unat b + 1" using Suc.prems(2) unat_add_offset [of b 1] by simp
  have bl: "b + 1 + of_nat l = b + of_nat (Suc l)" by simp
  note c = cstring_Suc [OF Suc.prems(1)]
  show ?case
  proof (cases "unat b + 1 < unat sz")
    case True
    let ?k = "min l (unat sz - 1 - unat (b + 1))" and ?m = "m(q := m p)"
    have k: "min (Suc l) (unat sz - 1 - unat b) = Suc ?k" using True b1 by simp
    have far: "Suc ?k \<le> unat (p + of_nat i - q)" if "i \<le> Suc l" for i using Suc.prems(3) that unfolding k clear_of_def by blast
    have ne: "p + of_nat i \<noteq> q" if "i \<le> Suc l" for i using far [OF that] by auto
    have "cstring ?m (p + 1) l"
      using c(2) by (rule cstring_cong) (use ne [of "Suc _"] in \<open>auto simp: add.assoc\<close>)
    moreover have "clear_of (p + 1) l (q + 1) ?k"
      unfolding clear_of_def using far by (metis (no_types, lifting) Suc_leD add.commute add.left_commute add_diff_cancel_left le_SucI)
    moreover have "unat (b + 1) + l < 2 ^ 32" using b1 Suc.prems(2) by simp
    ultimately have "strlcpy_loop (q + 1) (p + 1) (b + 1) sz ?m = Some (copied (q + 1) (p + 1) ?k ?m, q + 1 + of_nat ?k, b + 1 + of_nat l)"
      by (intro Suc.IH)
    moreover have "copied (q + 1) (p + 1) ?k ?m = copied q p (Suc ?k) m"
      using Suc.prems(2) by (intro copied_Suc ne) auto
    moreover have "q + 1 + of_nat ?k = q + of_nat (Suc ?k)" by simp
    moreover have "b + 1 < sz" using True b1 by (simp add: word_less_nat_alt)
    ultimately show ?thesis using c(1) unfolding k by (subst strlcpy_loop.simps) (simp only: Let_def bl simp_thms if_True)
  next
    case False
    then have k: "min (Suc l) (unat sz - 1 - unat b) = 0" "min l (unat sz - 1 - unat (b + 1)) = 0" "\<not> b + 1 < sz"
      using b1 by (simp_all add: word_less_nat_alt)
    have "clear_of (p + 1) l q 0" by (simp add: clear_of_def)
    then have "strlcpy_loop q (p + 1) (b + 1) sz m = Some (m, q, b + 1 + of_nat l)"
      using Suc.IH [OF c(2), of "b + 1" q] b1 Suc.prems(2) k(2) by simp
    then show ?thesis using c(1) k(3) unfolding k(1) by (subst strlcpy_loop.simps) (simp add: Let_def)
  qed
qed

lemma strlcat_end_finds:
  "cstring m q l \<Longrightarrow> strlcat_end m q b n = (q + of_nat (min l n), b + of_nat (min l n))"
proof (induction n arbitrary: q b l)
  case (Suc n)
  show ?case
  proof (cases l)
    case 0
    then show ?thesis using Suc.prems by (simp add: cstring_def)
  next
    case (Suc l')
    then show ?thesis using Suc.IH cstring_Suc [of m q l'] \<open>cstring m q l\<close> by (simp add: add.assoc)
  qed
qed simp

section \<open>Properties\<close>

text \<open>
  C25. \<^verbatim>\<open>memmem\<close> finds the first occurrence.  The search that looks at the second byte of the needle first and skips one or two places
  returns for every haystack and every needle that is not empty what the plain search from left to right returns, and the null pointer when there
  is no occurrence.  For an empty needle it returns the null pointer, too.
\<close>

theorem memmem_first:
  "memmem mem y n x m = Some (if m = 0 then 0 else found y (find (occurs mem y x (unat m)) [0..<Suc (unat n) - unat m]))"
proof (cases "n < m \<or> m = 0 \<or> n = 0")
  case True
  then have "[0..<Suc (unat n) - unat m] = []" if "m \<noteq> 0"
    using that unat_gt_0 [of m] by (auto simp: word_less_nat_alt)
  then show ?thesis using True by (auto simp: memmem_def found_def)
next
  case False
  then have m: "m \<le> n" "0 < unat m" "unat m \<le> unat n" by (auto simp: word_le_nat_alt not_less unat_gt_0)
  show ?thesis
  proof (cases "m = 1")
    case True
    then show ?thesis using False by (simp add: memmem_def memmem_one_finds)
  next
    case ne: False
    then have "2 \<le> unat m" using m(2) by (metis One_nat_def Suc_leI le_neq_implies_less numeral_2_eq_2 unsigned_1 word_unat_eq_iff)
    moreover obtain k l :: u32 where kl: "(k, l) = (if mem x = mem (x + 1) then (2, 1) else (1, 2))" by (metis surj_pair)
    ultimately have "memmem_loop mem y n x m k l 0 = Some (found y (find (occurs mem y x (unat m)) [0..<Suc (unat n) - unat m]))"
      using memmem_loop_finds [OF _ m(1) kl, of 0 y] by simp
    then show ?thesis using False ne by (simp add: memmem_def kl [symmetric])
  qed
qed

text \<open>
  C26. \<^verbatim>\<open>strlcpy\<close> and \<^verbatim>\<open>strlcat\<close> stay within the buffer.  For strings that do not overlap with the buffer both return, with the length of the string they tried to make; they copy
  as much as fits with the terminator, terminate the result, and change no byte outside of the first \<open>size\<close> of the buffer.  With size 0, or when
  the buffer holds no string shorter than the size, nothing is written.
\<close>

theorem strlcpy_strlcat_bounded:
  assumes "cstring m src l" and "cstring m dst d" and "d + l < 2 ^ 32" and "clear_of src l dst (d + l)"
    and "kl = min l (unat sz - 1)" and "kd = min l (unat sz - 1 - d)"
  shows "strlcpy dst src sz m = Some (if sz = 0 then m else (copied dst src kl m)(dst + of_nat kl := 0), of_nat l) \<and>
    strlcat dst src sz m = (if unat sz \<le> d then Some (m, sz + of_nat l)
      else Some ((copied (dst + of_nat d) src kd m)(dst + of_nat d + of_nat kd := 0), of_nat (d + l)))"
proof
  have "clear_of src l dst (min l (unat sz - 1 - unat (0 :: u32)))" using assms(4) by (auto simp: clear_of_def)
  from strlcpy_loop_copies [OF assms(1) _ this]
  show "strlcpy dst src sz m = Some (if sz = 0 then m else (copied dst src kl m)(dst + of_nat kl := 0), of_nat l)"
    using assms(3,5) by (auto simp: strlcpy_def)
  have ud: "unat (of_nat d :: u32) = d" using assms(3) by (intro unat_of_nat32) simp
  have e: "strlcat_end m dst 0 (unat sz) = (dst + of_nat (min d (unat sz)), of_nat (min d (unat sz)))"
    using strlcat_end_finds [OF assms(2), of 0] by simp
  show "strlcat dst src sz m = (if unat sz \<le> d then Some (m, sz + of_nat l)
      else Some ((copied (dst + of_nat d) src kd m)(dst + of_nat d + of_nat kd := 0), of_nat (d + l)))"
  proof (cases "unat sz \<le> d")
    case True
    then show ?thesis using e strlen_eq [OF assms(1)] by (simp add: strlcat_def)
  next
    case False
    have "kd \<le> unat (src + of_nat i - (dst + of_nat d))" if "i \<le> l" for i
    proof -
      have far: "d + l \<le> unat (src + of_nat i - dst)" using assms(4) that by (simp add: clear_of_def)
      then have "unat (src + of_nat i - dst - of_nat d) = unat (src + of_nat i - dst) - d"
        using ud by (simp add: unat_sub word_le_nat_alt)
      then show ?thesis using far assms(6) by (simp add: diff_diff_eq)
    qed
    then have "clear_of src l (dst + of_nat d) (min l (unat sz - 1 - unat (of_nat d :: u32)))"
      unfolding ud assms(6) [symmetric] by (simp add: clear_of_def)
    from strlcpy_loop_copies [OF assms(1) _ this] have
      "strlcpy_loop (dst + of_nat d) src (of_nat d) sz m = Some (copied (dst + of_nat d) src kd m, dst + of_nat d + of_nat kd, of_nat (d + l))"
      using assms(3) unfolding ud assms(6) by simp
    moreover have "of_nat d \<noteq> sz" using False ud by auto
    ultimately show ?thesis using False e by (simp add: strlcat_def min_def)
  qed
qed

theorem strlcpy_strlcat_bounded_witness:
  "strlcpy 100 0 2 (\<lambda>a. if a < 3 then 65 else 0) =
     Some ((copied 100 0 1 (\<lambda>a. if a < 3 then 65 else 0))(101 := 0), 3)"
proof -
  let ?m = "\<lambda>a. if a < 3 then 65 else (0 :: u8)" 
  have lt: "(of_nat i :: u32) < 3 \<longleftrightarrow> i < 3" if "i \<le> 3" for i
    using that by (auto simp: le_Suc_eq numeral_3_eq_3)
  have "cstring ?m 0 3" using lt by (simp add: cstring_def)
  moreover have "cstring ?m 100 0" by (simp add: cstring_def)
  moreover have "clear_of 0 3 100 (0 + 3)" by (auto simp: clear_of_def le_Suc_eq numeral_3_eq_3)
  ultimately show ?thesis using strlcpy_strlcat_bounded [of ?m 0 3 100 0 1 2 1] by simp
qed

end
