(* ===== verification/Klibc_Sort.thy ===== *)
theory Klibc_Sort
  imports Klibc_String "HOL-Library.Multiset"
begin

text \<open>
  Sorting and searching of the user-space library: \<^verbatim>\<open>usr/klibc/qsort.c\<close> (which is a comb sort) and \<^verbatim>\<open>usr/klibc/bsearch.c\<close>.
  A comparison function is given pointers to two objects; it is a function of the bytes of the objects.
\<close>

section \<open>Operations\<close>

definition newgap :: "u32 \<Rightarrow> u32" where
  "newgap gap =
    (let gap1 = (gap * 10) div 13;
         gap2 = (if gap1 = 9 \<or> gap1 = 10 then 11 else gap1)
     in if gap2 < 1 then 1 else gap2)"

text \<open>The inner loop, with the number of iterations that are left.\<close>

fun qsort_pass :: "(u8 list \<Rightarrow> u8 list \<Rightarrow> int) \<Rightarrow> u32 \<Rightarrow> u32 \<Rightarrow> u32 \<Rightarrow> nat \<Rightarrow> u32 \<Rightarrow> u32 \<Rightarrow> memory \<Rightarrow> bool \<Rightarrow> memory \<times> bool" where
  "qsort_pass compar base sz gap 0 i p1 m swapped = (m, swapped)"
| "qsort_pass compar base sz gap (Suc n) i p1 m swapped =
    (let j = i + gap;
         p2 = base + j * sz
     in if compar (bytes_at m p1 (unat sz)) (bytes_at m p2 (unat sz)) > 0
        then qsort_pass compar base sz gap n (i + 1) (p1 + sz) (memswap p1 p2 (unat sz) m) True
        else qsort_pass compar base sz gap n (i + 1) (p1 + sz) m swapped)"

partial_function (option) qsort_loop :: "u32 \<Rightarrow> u32 \<Rightarrow> u32 \<Rightarrow> (u8 list \<Rightarrow> u8 list \<Rightarrow> int) \<Rightarrow> u32 \<Rightarrow> memory \<Rightarrow> memory option" where
  "qsort_loop base nmemb sz compar gap m =
    (let gap1 = newgap gap;
         (m1, swapped) = qsort_pass compar base sz gap1 (unat (nmemb - gap1)) 0 base m False
     in if gap1 > 1 \<or> swapped then qsort_loop base nmemb sz compar gap1 m1 else Some m1)"

definition qsort :: "u32 \<Rightarrow> u32 \<Rightarrow> u32 \<Rightarrow> (u8 list \<Rightarrow> u8 list \<Rightarrow> int) \<Rightarrow> memory \<Rightarrow> memory option" where
  "qsort base nmemb sz compar m = qsort_loop base nmemb sz compar nmemb m"

lemma half_less: "nmemb \<noteq> 0 \<Longrightarrow> unat (nmemb div 2) < unat nmemb" "nmemb \<noteq> 0 \<Longrightarrow> unat (nmemb - (nmemb div 2 + 1)) < unat nmemb"
  for nmemb :: u32
proof -
  assume "nmemb \<noteq> 0"
  then have n: "0 < unat nmemb" by (simp add: unat_gt_0)
  then show h: "unat (nmemb div 2) < unat nmemb" by (simp add: unat_div)
  have "unat (nmemb div 2 + 1) = unat (nmemb div 2) + 1" using h unat_less32 [of nmemb] unat_add_offset [of "nmemb div 2" 1] by simp
  then show "unat (nmemb - (nmemb div 2 + 1)) < unat nmemb" using h by (simp add: unat_sub word_le_nat_alt)
qed

function bsearch :: "memory \<Rightarrow> (u8 list \<Rightarrow> int) \<Rightarrow> u32 \<Rightarrow> u32 \<Rightarrow> u32 \<Rightarrow> u32" where
  "bsearch m cmp base nmemb sz =
    (if nmemb = 0 then 0
     else let mididx = nmemb div 2;
              midobj = base + mididx * sz;
              diff = cmp (bytes_at m midobj (unat sz))
          in if diff = 0 then midobj
             else if diff > 0 then bsearch m cmp (midobj + sz) (nmemb - (mididx + 1)) sz
             else bsearch m cmp base mididx sz)"
  by pat_completeness auto
termination
  by (relation "measure (\<lambda>(m, cmp, base, nmemb, sz). unat nmemb)") (auto simp: half_less)

declare bsearch.simps [simp del]

section \<open>Arrays of objects\<close>

definition objs :: "memory \<Rightarrow> u32 \<Rightarrow> nat \<Rightarrow> nat \<Rightarrow> u8 list list" where
  "objs m base sz n = map (\<lambda>i. bytes_at m (base + of_nat (i * sz)) sz) [0..<n]"

definition in_array :: "u32 \<Rightarrow> nat \<Rightarrow> u32 \<Rightarrow> bool" where
  "in_array base n a \<longleftrightarrow> unat base \<le> unat a \<and> unat a < unat base + n"

lemma length_objs [simp]: "length (objs m base sz n) = n"
  by (simp add: objs_def)

lemma nth_objs: "i < n \<Longrightarrow> objs m base sz n ! i = bytes_at m (base + of_nat (i * sz)) sz"
  by (simp add: objs_def)

lemma in_array_0 [simp]: "\<not> in_array p 0 a"
  by (simp add: in_array_def)

lemma in_array_next:
  assumes "unat p + Suc n \<le> 2 ^ 32"
  shows "in_array (p + 1) n a \<longleftrightarrow> unat p < unat a \<and> unat a < unat p + Suc n"
proof (cases "n = 0")
  case False
  then have "unat (p + 1) = unat p + 1" using assms unat_add_offset [of p 1] by simp
  then show ?thesis by (auto simp: in_array_def)
qed (auto simp: in_array_def)

lemma in_array_Suc:
  assumes "unat p + Suc n \<le> 2 ^ 32"
  shows "in_array p (Suc n) a \<longleftrightarrow> a = p \<or> in_array (p + 1) n a"
  unfolding in_array_next [OF assms] by (auto simp: in_array_def word_unat_eq_iff)

lemma memswap_spec:
  assumes "unat p + n \<le> unat q" and "unat q + n \<le> 2 ^ 32"
  shows "memswap p q n m a =
    (if in_array p n a then m (a + (q - p)) else if in_array q n a then m (a - (q - p)) else m a)"
  using assms
proof (induction n arbitrary: p q m)
  case (Suc n)
  let ?d = "q - p" and ?m = "m(p := m q, q := m p)"
  have d: "unat ?d = unat q - unat p" using Suc.prems by (simp add: unat_sub word_le_nat_alt)
  have sp: "in_array p (Suc n) a \<longleftrightarrow> a = p \<or> in_array (p + 1) n a" "in_array q (Suc n) a \<longleftrightarrow> a = q \<or> in_array (q + 1) n a"
    using Suc.prems by (auto intro!: in_array_Suc)
  have step: "memswap p q (Suc n) m = memswap (p + 1) (q + 1) n ?m" by (simp add: Let_def)
  have IH: "memswap (p + 1) (q + 1) n ?m a =
      (if in_array (p + 1) n a then ?m (a + ?d) else if in_array (q + 1) n a then ?m (a - ?d) else ?m a)"
  proof (cases "n = 0")
    case False
    then have "unat (p + 1) = unat p + 1" "unat (q + 1) = unat q + 1"
      using Suc.prems unat_add_offset [of p 1] unat_add_offset [of q 1] by simp_all
    then have "unat (p + 1) + n \<le> unat (q + 1)" "unat (q + 1) + n \<le> 2 ^ 32" using Suc.prems by simp_all
    from Suc.IH [OF this, of ?m] show ?thesis by (simp only: add_diff_cancel_right)
  qed simp
  have up: "a + ?d \<noteq> p \<and> a + ?d \<noteq> q \<and> a \<noteq> p \<and> a \<noteq> q" if "in_array (p + 1) n a"
  proof -
    have a: "unat p < unat a" "unat a < unat p + Suc n" using that in_array_next [of p n a] Suc.prems by auto
    then have "unat (a + ?d) = unat a + (unat q - unat p)"
      using unat_add_offset [of a "unat ?d"] d Suc.prems by simp
    then show ?thesis using a Suc.prems by (auto simp: word_unat_eq_iff)
  qed
  have down: "a - ?d \<noteq> p \<and> a - ?d \<noteq> q \<and> a \<noteq> p \<and> a \<noteq> q \<and> \<not> in_array (p + 1) n a" if "in_array (q + 1) n a"
  proof -
    have a: "unat q < unat a" "unat a < unat q + Suc n" using that in_array_next [of q n a] Suc.prems by auto
    then have "unat (a - ?d) = unat a - (unat q - unat p)" using d by (simp add: unat_sub word_le_nat_alt)
    then show ?thesis using a Suc.prems in_array_next [of p n a] by (auto simp: word_unat_eq_iff)
  qed
  have "unat p + Suc n \<le> 2 ^ 32" "unat q + Suc n \<le> 2 ^ 32" using Suc.prems by simp_all
  note nx = in_array_next [OF this(1)] in_array_next [OF this(2)]
  have ne: "\<not> in_array (p + 1) n p" "\<not> in_array (q + 1) n p" "\<not> in_array (p + 1) n q" "\<not> in_array (q + 1) n q" "p \<noteq> q"
    unfolding nx using Suc.prems by auto
  have pq: "p + ?d = q" "q - ?d = p" by simp_all
  show ?case
  proof (cases "a = p \<or> a = q")
    case True
    then show ?thesis unfolding step IH sp using ne pq by (elim disjE) simp_all
  next
    case False
    then show ?thesis unfolding step IH sp using up down by simp
  qed
qed (auto simp: in_array_def)

text \<open>The array lies below the end of the address space; its objects are swapped in place.\<close>

lemma element_address:
  fixes base :: u32
  assumes "unat base + n * sz \<le> 2 ^ 32" and "k < n" and "t < sz"
  shows "unat (base + of_nat (k * sz) + of_nat t) = unat base + (k * sz + t)"
proof -
  have "Suc k * sz \<le> n * sz" using assms(2) by (intro mult_le_mono1) simp
  then have "unat base + (k * sz + t) < 2 ^ 32" using assms(1,3) by simp
  then show ?thesis using unat_add_offset [of base "k * sz + t"] by (simp add: add.assoc)
qed

lemma in_object:
  assumes "unat base + n * sz \<le> 2 ^ 32" and "k < n" "i < n" and "t < sz"
  shows "in_array (base + of_nat (i * sz)) sz (base + of_nat (k * sz) + of_nat t) \<longleftrightarrow> i = k"
proof -
  have i: "unat (base + of_nat (i * sz)) = unat base + i * sz" using element_address [OF assms(1,3), of 0] assms(4) by simp
  have "i * sz \<le> k * sz + t \<and> k * sz + t < i * sz + sz \<longleftrightarrow> i = k"
    using mult_le_mono1 [of "Suc i" k sz] mult_le_mono1 [of "Suc k" i sz] assms(4) by (cases i k rule: linorder_cases) auto
  then show ?thesis unfolding in_array_def i element_address [OF assms(1,2,4)] by auto
qed

lemma swap_objects:
  assumes b: "unat base + n * sz \<le> 2 ^ 32" and ij: "i < j" "j < n"
  shows "objs (memswap (base + of_nat (i * sz)) (base + of_nat (j * sz)) sz m) base sz n =
      (objs m base sz n)[i := objs m base sz n ! j, j := objs m base sz n ! i]"
    and "\<not> in_array base (n * sz) a \<Longrightarrow> memswap (base + of_nat (i * sz)) (base + of_nat (j * sz)) sz m a = m a"
proof -
  let ?p = "base + of_nat (i * sz)" and ?q = "base + of_nat (j * sz)"
  have i: "i < n" using ij by simp
  have le: "Suc i * sz \<le> j * sz" "Suc j * sz \<le> n * sz" using ij mult_le_mono1 [of "Suc i" j sz] mult_le_mono1 [of "Suc j" n sz] by simp_all
  have u: "unat ?p = unat base + i * sz" "unat ?q = unat base + j * sz" if "0 < sz"
    using element_address [OF b i that] element_address [OF b ij(2) that] by simp_all
  have "unat ?p + sz \<le> unat ?q \<and> unat ?q + sz \<le> 2 ^ 32" if "0 < sz" using u [OF that] le b by simp
  then have sp: "memswap ?p ?q sz m a = (if in_array ?p sz a then m (a + (?q - ?p)) else if in_array ?q sz a then m (a - (?q - ?p)) else m a)" for a
    by (cases "sz = 0") (simp_all add: memswap_spec)
  show "memswap ?p ?q sz m a = m a" if "\<not> in_array base (n * sz) a"
    using that sp [of a] u le by (cases "sz = 0") (auto simp: in_array_def)
  show "objs (memswap ?p ?q sz m) base sz n = (objs m base sz n)[i := objs m base sz n ! j, j := objs m base sz n ! i]"
  proof (rule nth_equalityI)
    fix k
    assume "k < length (objs (memswap ?p ?q sz m) base sz n)"
    then have k: "k < n" by simp
    have "memswap ?p ?q sz m (base + of_nat (k * sz) + of_nat t) =
        m (base + of_nat ((if k = i then j else if k = j then i else k) * sz) + of_nat t)" if "t < sz" for t
    proof -
      have "base + of_nat (i * sz) + of_nat t + (?q - ?p) = base + of_nat (j * sz) + of_nat t"
        "base + of_nat (j * sz) + of_nat t - (?q - ?p) = base + of_nat (i * sz) + of_nat t" by simp_all
      then show ?thesis unfolding sp using in_object [OF b k i that] in_object [OF b k ij(2) that] ij(1) by (auto simp: ac_simps)
    qed
    then have "bytes_at (memswap ?p ?q sz m) (base + of_nat (k * sz)) sz =
        bytes_at m (base + of_nat ((if k = i then j else if k = j then i else k) * sz)) sz"
      by (simp add: bytes_at_def)
    then show "objs (memswap ?p ?q sz m) base sz n ! k = (objs m base sz n)[i := objs m base sz n ! j, j := objs m base sz n ! i] ! k"
      using k i ij by (auto simp: nth_objs nth_list_update)
  qed simp
qed

section \<open>Passes over lists\<close>

text \<open>The same loop on the list of objects.\<close>

fun lpass :: "('a \<Rightarrow> 'a \<Rightarrow> int) \<Rightarrow> nat \<Rightarrow> nat \<Rightarrow> nat \<Rightarrow> 'a list \<Rightarrow> bool \<Rightarrow> 'a list \<times> bool" where
  "lpass cmp g 0 i xs sw = (xs, sw)"
| "lpass cmp g (Suc n) i xs sw =
    (if cmp (xs ! i) (xs ! (i + g)) > 0 then lpass cmp g n (Suc i) (xs[i := xs ! (i + g), i + g := xs ! i]) True
     else lpass cmp g n (Suc i) xs sw)"

lemma pass_refines:
  assumes b: "unat base + N * unat sz \<le> 2 ^ 32" and g: "0 < unat gap" and "i + n + unat gap \<le> N"
  shows "objs (fst (qsort_pass cmp base sz gap n (of_nat i) (base + of_nat (i * unat sz)) m sw)) base (unat sz) N =
      fst (lpass cmp (unat gap) n i (objs m base (unat sz) N) sw) \<and>
    snd (qsort_pass cmp base sz gap n (of_nat i) (base + of_nat (i * unat sz)) m sw) =
      snd (lpass cmp (unat gap) n i (objs m base (unat sz) N) sw) \<and>
    (\<forall>a. \<not> in_array base (N * unat sz) a \<longrightarrow>
      fst (qsort_pass cmp base sz gap n (of_nat i) (base + of_nat (i * unat sz)) m sw) a = m a)"
  using assms(3)
proof (induction n arbitrary: i m sw)
  case (Suc n)
  let ?s = "unat sz" and ?g = "unat gap"
  have i: "i < N" "i + ?g < N" "i < i + ?g" using Suc.prems g by simp_all
  have p2: "base + (of_nat i + gap) * sz = base + of_nat ((i + ?g) * ?s)" by (simp add: algebra_simps)
  have nxt: "of_nat i + 1 = (of_nat (Suc i) :: u32)" "base + of_nat (i * ?s) + sz = base + of_nat (Suc i * ?s)"
    by (simp_all add: algebra_simps)
  note sw = swap_objects(1) [OF b i(3,2), of m] swap_objects(2) [OF b i(3,2), of _ m]
  have IH: "Suc i + n + unat gap \<le> N" using Suc.prems by simp
  show ?case
    using Suc.IH [OF IH, of m sw] Suc.IH [OF IH, of "memswap (base + of_nat (i * ?s)) (base + of_nat ((i + ?g) * ?s)) ?s m" True] sw
      nth_objs [OF i(1), of m base ?s] nth_objs [OF i(2), of m base ?s]
    unfolding qsort_pass.simps lpass.simps Let_def p2 nxt by auto
qed simp

lemma lpass_mset:
  "i + n + g \<le> length xs \<Longrightarrow> mset (fst (lpass cmp g n i xs sw)) = mset xs"
proof (induction n arbitrary: i xs sw)
  case (Suc n)
  have "mset (xs[i := xs ! (i + g), i + g := xs ! i]) = mset xs" using Suc.prems by (intro mset_swap) simp_all
  then show ?case using Suc.IH [of "Suc i"] Suc.prems by simp
qed simp

lemma lpass_unswapped:
  "\<not> snd (lpass cmp g n i xs sw) \<Longrightarrow>
    fst (lpass cmp g n i xs sw) = xs \<and> \<not> sw \<and> (\<forall>k. i \<le> k \<and> k < i + n \<longrightarrow> cmp (xs ! k) (xs ! (k + g)) \<le> 0)"
proof (induction n arbitrary: i xs sw)
  case (Suc n)
  have T: "snd (lpass cmp g n j ys True)" for j ys by (induction n arbitrary: j ys) auto
  then have c: "\<not> cmp (xs ! i) (xs ! (i + g)) > 0" using Suc.prems by (auto split: if_splits)
  moreover have "k = i \<or> Suc i \<le> k" if "i \<le> k" for k using that by auto
  ultimately show ?case using Suc.IH [of "Suc i" xs sw] Suc.prems by force
qed simp

section \<open>Progress\<close>

text \<open>A swap of two objects in the wrong order moves weight to the right.\<close>

definition weight :: "('a \<Rightarrow> nat) \<Rightarrow> 'a list \<Rightarrow> nat" where
  "weight r xs = (\<Sum>i<length xs. i * r (xs ! i))"

lemma weight_swap:
  assumes "i < j" and "j < length xs" and "r (xs ! j) < r (xs ! i)"
  shows "weight r xs < weight r (xs[i := xs ! j, j := xs ! i])"
proof -
  let ?ys = "xs[i := xs ! j, j := xs ! i]" and ?I = "{..<length xs} - {i} - {j}"
  have split: "(\<Sum>k<length xs. f k) = f i + (f j + sum f ?I)" for f :: "nat \<Rightarrow> nat"
    using assms(1,2) by (subst sum.remove [of _ i], simp_all, subst sum.remove [of _ j], simp_all)
  have "sum (\<lambda>k. k * r (?ys ! k)) ?I = sum (\<lambda>k. k * r (xs ! k)) ?I" by (intro sum.cong) auto
  moreover have "i * r (xs ! i) + j * r (xs ! j) < i * r (xs ! j) + j * r (xs ! i)"
  proof -
    obtain d e where "j = i + Suc d" "r (xs ! i) = r (xs ! j) + Suc e" using assms(1,3) by (metis add_Suc_right less_imp_Suc_add)
    then show ?thesis by (simp add: algebra_simps)
  qed
  ultimately show ?thesis
    using assms(1,2) unfolding weight_def by (simp add: split)
qed

lemma weight_bound: "(\<And>x. x \<in> set xs \<Longrightarrow> r x \<le> b) \<Longrightarrow> weight r xs \<le> length xs * (length xs * b)"
proof -
  assume r: "\<And>x. x \<in> set xs \<Longrightarrow> r x \<le> b"
  have "weight r xs \<le> (\<Sum>i<length xs. length xs * b)"
    unfolding weight_def by (intro sum_mono mult_le_mono r) auto
  then show ?thesis by simp
qed

text \<open>What the library asks of a comparison function: it orders the objects of the given size.\<close>

definition comparator :: "('a \<Rightarrow> 'a \<Rightarrow> int) \<Rightarrow> 'a set \<Rightarrow> bool" where
  "comparator cmp S \<longleftrightarrow> (\<forall>x\<in>S. \<forall>y\<in>S. cmp x y > 0 \<longleftrightarrow> cmp y x < 0) \<and>
     (\<forall>x\<in>S. \<forall>y\<in>S. \<forall>z\<in>S. cmp x y \<le> 0 \<longrightarrow> cmp y z \<le> 0 \<longrightarrow> cmp x z \<le> 0)"

definition rank :: "('a \<Rightarrow> 'a \<Rightarrow> int) \<Rightarrow> 'a set \<Rightarrow> 'a \<Rightarrow> nat" where
  "rank cmp S x = card {y \<in> S. cmp y x < 0}"

lemma rank_less:
  assumes c: "comparator cmp S" and "finite S" and xy: "x \<in> S" "y \<in> S" and "cmp x y > 0"
  shows "rank cmp S y < rank cmp S x"
proof -
  have "cmp z x < 0" if "z \<in> S" "cmp z y < 0" for z
  proof (rule ccontr)
    assume "\<not> cmp z x < 0"
    moreover have "cmp x z > 0 \<longleftrightarrow> cmp z x < 0" "cmp x z \<le> 0 \<Longrightarrow> cmp z y \<le> 0 \<Longrightarrow> cmp x y \<le> 0"
      using c xy that(1) unfolding comparator_def by blast+
    ultimately show False using assms(5) that(2) by simp
  qed
  moreover have "cmp x y > 0 \<longleftrightarrow> cmp y x < 0" "cmp y y > 0 \<longleftrightarrow> cmp y y < 0" using c xy unfolding comparator_def by blast+
  then have "cmp y x < 0" "\<not> cmp y y < 0" using assms(5) by auto
  ultimately have "{z \<in> S. cmp z y < 0} \<subset> {z \<in> S. cmp z x < 0}" using xy(2) by blast
  then show ?thesis unfolding rank_def using assms(2) by (intro psubset_card_mono) auto
qed

lemma lpass_weight:
  assumes "comparator cmp S" and "finite S" and "set xs \<subseteq> S" and "0 < g" and "i + n + g \<le> length xs"
  shows "weight (rank cmp S) xs + (if snd (lpass cmp g n i xs False) then 1 else 0) \<le> weight (rank cmp S) (fst (lpass cmp g n i xs False))"
proof -
  have mono: "weight (rank cmp S) xs \<le> weight (rank cmp S) (fst (lpass cmp g n i xs sw)) \<and>
      (snd (lpass cmp g n i xs sw) \<longrightarrow> sw \<or> weight (rank cmp S) xs < weight (rank cmp S) (fst (lpass cmp g n i xs sw)))" for sw
    using assms(3,5)
  proof (induction n arbitrary: i xs sw)
    case (Suc n)
    show ?case
    proof (cases "cmp (xs ! i) (xs ! (i + g)) > 0")
      case True
      let ?ys = "xs[i := xs ! (i + g), i + g := xs ! i]"
      have "xs ! i \<in> S" "xs ! (i + g) \<in> S" using Suc.prems by (auto intro: nth_mem)
      then have "weight (rank cmp S) xs < weight (rank cmp S) ?ys"
        using rank_less [OF assms(1,2) _ _ True] assms(4) Suc.prems(2) by (intro weight_swap) auto
      moreover have "mset ?ys = mset xs" using Suc.prems(2) by (intro mset_swap) simp_all
      then have "set ?ys = set xs" by (rule mset_eq_setD)
      ultimately show ?thesis using Suc.IH [of ?ys "Suc i" True] Suc.prems True by fastforce
    next
      case False
      then show ?thesis using Suc.IH [of xs "Suc i" sw] Suc.prems by simp
    qed
  qed simp
  show ?thesis using mono [of False] by auto
qed

lemma newgap_1: "newgap 1 = 1"
  by (simp add: newgap_def)

lemma newgap_less:
  assumes "2 \<le> unat gap"
  shows "unat (newgap gap) < unat gap" and "1 \<le> unat (newgap gap)"
proof -
  let ?g = "(gap * 10) div 13"
  have "unat (gap * 10) \<le> unat gap * 10" by (simp add: unat_word_ariths)
  then have g: "unat ?g \<le> unat gap * 10 div 13" by (simp add: unat_div div_le_mono)
  have n: "unat (newgap gap) = (if unat ?g = 9 \<or> unat ?g = 10 then 11 else if unat ?g < 1 then 1 else unat ?g)"
    by (auto simp: newgap_def Let_def word_unat_eq_iff word_less_nat_alt)
  show "unat (newgap gap) < unat gap" using g assms unfolding n by (auto split: if_splits)
  show "1 \<le> unat (newgap gap)" unfolding n by auto
qed

lemma newgap_range:
  assumes "1 \<le> unat gap"
  shows "1 \<le> unat (newgap gap)" and "unat (newgap gap) \<le> unat gap" and "gap = 1 \<or> unat (newgap gap) < unat gap"
proof -
  have "gap = 1 \<or> 2 \<le> unat gap" using assms by (auto simp: word_unat_eq_iff)
  then show "1 \<le> unat (newgap gap)" "unat (newgap gap) \<le> unat gap" "gap = 1 \<or> unat (newgap gap) < unat gap"
    using newgap_less [of gap] by (auto simp: newgap_1)
qed

lemma sorted_adjacent:
  assumes "comparator cmp S" and "set xs \<subseteq> S" and "\<forall>k. Suc k < length xs \<longrightarrow> cmp (xs ! k) (xs ! Suc k) \<le> 0"
  shows "sorted_wrt (\<lambda>x y. cmp x y \<le> 0) xs"
proof -
  let ?R = "\<lambda>x y. x \<in> S \<and> y \<in> S \<and> cmp x y \<le> 0"
  have "transp ?R" using assms(1) unfolding comparator_def by (intro transpI) blast
  moreover have "\<forall>k. Suc k < length xs \<longrightarrow> ?R (xs ! k) (xs ! Suc k)" using assms(2,3) by (auto simp: subset_iff)
  ultimately have "sorted_wrt ?R xs" by (simp add: sorted_wrt_iff_nth_Suc_transp)
  then show ?thesis by (rule sorted_wrt_mono_rel [rotated]) simp
qed

section \<open>The sort\<close>

lemma qsort_loop_step:
  assumes b: "unat base + unat nmemb * unat sz \<le> 2 ^ 32" and g: "1 \<le> unat (newgap gap)" "unat (newgap gap) \<le> unat nmemb"
  obtains m1 where "qsort_loop base nmemb sz cmp gap m =
      (if newgap gap > 1 \<or> snd (lpass cmp (unat (newgap gap)) (unat nmemb - unat (newgap gap)) 0 (objs m base (unat sz) (unat nmemb)) False)
       then qsort_loop base nmemb sz cmp (newgap gap) m1 else Some m1)"
    and "objs m1 base (unat sz) (unat nmemb) =
      fst (lpass cmp (unat (newgap gap)) (unat nmemb - unat (newgap gap)) 0 (objs m base (unat sz) (unat nmemb)) False)"
    and "\<forall>a. \<not> in_array base (unat nmemb * unat sz) a \<longrightarrow> m1 a = m a"
proof -
  have n: "unat (nmemb - newgap gap) = unat nmemb - unat (newgap gap)" using g(2) by (simp add: unat_sub word_le_nat_alt)
  let ?r = "qsort_pass cmp base sz (newgap gap) (unat nmemb - unat (newgap gap)) 0 base m False"
  have g0: "0 < unat (newgap gap)" "0 + (unat nmemb - unat (newgap gap)) + unat (newgap gap) \<le> unat nmemb" using g by simp_all
  note r = pass_refines [OF b g0, of cmp m False]
  show thesis
  proof (rule that [of "fst ?r"])
    show "qsort_loop base nmemb sz cmp gap m =
      (if newgap gap > 1 \<or> snd (lpass cmp (unat (newgap gap)) (unat nmemb - unat (newgap gap)) 0 (objs m base (unat sz) (unat nmemb)) False)
       then qsort_loop base nmemb sz cmp (newgap gap) (fst ?r) else Some (fst ?r))"
      using r by (subst qsort_loop.simps) (simp add: n case_prod_unfold Let_def)
  qed (use r in simp_all)
qed

text \<open>Outside the last passes the gap decreases; with gap 1 every pass that swaps increases the weight.\<close>

definition sort_measure :: "('a \<Rightarrow> 'a \<Rightarrow> int) \<Rightarrow> 'a set \<Rightarrow> u32 \<Rightarrow> 'a list \<Rightarrow> nat" where
  "sort_measure cmp S gap xs =
    (let b = length xs * (length xs * card S) in unat gap * Suc b + (b - weight (rank cmp S) xs))"

lemma rank_bound: "finite S \<Longrightarrow> rank cmp S x \<le> card S"
  unfolding rank_def by (rule card_mono) auto

lemma sort_measure_pass:
  assumes c: "comparator cmp S" and f: "finite S" and s: "set xs \<subseteq> S" and g: "1 \<le> unat gap" "unat gap \<le> length xs"
    and p: "lpass cmp (unat (newgap gap)) (length xs - unat (newgap gap)) 0 xs False = (ys, sw)"
    and more: "newgap gap > 1 \<or> sw"
  shows "sort_measure cmp S (newgap gap) ys < sort_measure cmp S gap xs"
proof -
  let ?b = "length xs * (length xs * card S)" and ?w = "weight (rank cmp S)"
  have n: "1 \<le> unat (newgap gap)" "unat (newgap gap) \<le> length xs" "gap = 1 \<or> unat (newgap gap) < unat gap"
    using newgap_range [OF g(1)] g(2) by simp_all
  then have pre: "0 < unat (newgap gap)" "0 + (length xs - unat (newgap gap)) + unat (newgap gap) \<le> length xs" by simp_all
  have m: "mset ys = mset xs" using lpass_mset [OF pre(2), of cmp False] p by simp
  then have l: "length ys = length xs" "set ys = set xs" by (auto dest: mset_eq_length mset_eq_setD)
  have "?w xs + (if sw then 1 else 0) \<le> ?w ys" using lpass_weight [OF c f s pre] p by simp
  moreover have "?w ys \<le> ?b" using weight_bound [of ys "rank cmp S" "card S"] rank_bound [OF f] l by simp
  moreover have "unat (newgap gap) * Suc ?b + Suc ?b \<le> unat gap * Suc ?b" if "unat (newgap gap) < unat gap"
    using mult_le_mono1 [of "Suc (unat (newgap gap))" "unat gap" "Suc ?b"] that by simp
  moreover have "sw" if "gap = 1" using more that newgap_1 by simp
  ultimately show ?thesis using n(3) newgap_1 unfolding sort_measure_def Let_def l(1) by (auto split: if_splits)
qed

lemma qsort_loop_sorts:
  assumes b: "unat base + unat nmemb * unat sz \<le> 2 ^ 32" and c: "comparator cmp {x. length x = unat sz}"
    and g: "1 \<le> unat gap" "unat gap \<le> unat nmemb"
  shows "\<exists>m'. qsort_loop base nmemb sz cmp gap m = Some m' \<and>
    mset (objs m' base (unat sz) (unat nmemb)) = mset (objs m base (unat sz) (unat nmemb)) \<and>
    sorted_wrt (\<lambda>x y. cmp x y \<le> 0) (objs m' base (unat sz) (unat nmemb)) \<and>
    (\<forall>a. \<not> in_array base (unat nmemb * unat sz) a \<longrightarrow> m' a = m a)"
  using g
proof (induction "sort_measure cmp {x. length x = unat sz} gap (objs m base (unat sz) (unat nmemb))" arbitrary: gap m rule: less_induct)
  case less
  let ?S = "{x :: u8 list. length x = unat sz}" and ?xs = "objs m base (unat sz) (unat nmemb)" and ?h = "newgap gap"
  let ?p = "lpass cmp (unat ?h) (unat nmemb - unat ?h) 0 ?xs False"
  have f: "finite ?S" using finite_lists_length_eq [of "UNIV :: u8 set" "unat sz"] by simp
  have s: "set ?xs \<subseteq> ?S" by (auto simp: objs_def)
  have n: "1 \<le> unat ?h" "unat ?h \<le> unat nmemb"
    using newgap_range [OF less.prems(1)] less.prems(2) by simp_all
  obtain m1 where m1: "qsort_loop base nmemb sz cmp gap m = (if ?h > 1 \<or> snd ?p then qsort_loop base nmemb sz cmp ?h m1 else Some m1)"
    "objs m1 base (unat sz) (unat nmemb) = fst ?p" "\<forall>a. \<not> in_array base (unat nmemb * unat sz) a \<longrightarrow> m1 a = m a"
    using qsort_loop_step [OF b n] by blast
  have ms: "mset (fst ?p) = mset ?xs" using n by (intro lpass_mset) simp
  show ?case
  proof (cases "?h > 1 \<or> snd ?p")
    case True
    have "sort_measure cmp ?S ?h (fst ?p) < sort_measure cmp ?S gap ?xs"
      using sort_measure_pass [OF c f s, of gap "fst ?p" "snd ?p"] less.prems True by simp
    then show ?thesis using less.hyps [of ?h m1] n m1 ms True by fastforce
  next
    case False
    then have h: "unat ?h = 1" using n by (simp add: word_less_nat_alt)
    then have "fst ?p = ?xs \<and> (\<forall>k. Suc k < length ?xs \<longrightarrow> cmp (?xs ! k) (?xs ! Suc k) \<le> 0)"
      using lpass_unswapped [of cmp "unat ?h" "unat nmemb - unat ?h" 0 ?xs False] False by auto
    then show ?thesis using sorted_adjacent [OF c s] m1 False by simp
  qed
qed

text \<open>
  C14. \<^verbatim>\<open>qsort\<close> on a non-empty array that does not run over the end of the address space returns, for every comparison function
  that orders the objects of the given size: afterwards the array holds the same objects in ascending order, and no byte outside it has
  changed. That the do-while loop ends is part of the statement: above gap 1 the gap decreases although \<^verbatim>\<open>gap * 10\<close> may wrap,
  and at gap 1 a pass either swaps nothing or moves weight to the end of the array.
\<close>

theorem qsort_sorts:
  assumes "0 < unat nmemb" and "unat base + unat nmemb * unat sz \<le> 2 ^ 32" and "comparator cmp {x. length x = unat sz}"
  shows "\<exists>m'. qsort base nmemb sz cmp m = Some m' \<and>
    mset (objs m' base (unat sz) (unat nmemb)) = mset (objs m base (unat sz) (unat nmemb)) \<and>
    sorted_wrt (\<lambda>x y. cmp x y \<le> 0) (objs m' base (unat sz) (unat nmemb)) \<and>
    (\<forall>a. \<not> in_array base (unat nmemb * unat sz) a \<longrightarrow> m' a = m a)"
  unfolding qsort_def using assms(1) by (intro qsort_loop_sorts [OF assms(2,3)]) simp_all

theorem qsort_sorts_witness:
  "\<exists>m'. qsort 4096 3 1 (\<lambda>x y. uint (hd x) - uint (hd y)) (\<lambda>a. if a = 4096 then 7 else if a = 4097 then 9 else 4) = Some m' \<and>
    mset (objs m' 4096 1 3) = {#[7], [9], [4]#} \<and>
    sorted_wrt (\<lambda>x y. uint (hd x) - uint (hd y) \<le> 0) (objs m' 4096 1 3) \<and> m' 4099 = 4"
proof -
  let ?m = "\<lambda>a :: u32. if a = 4096 then 7 else if a = 4097 then 9 else (4 :: u8)"
  have "comparator (\<lambda>x y. uint (hd x) - uint (hd y)) {x :: u8 list. length x = unat (1 :: u32)}" by (auto simp: comparator_def)
  moreover have "objs ?m 4096 1 3 = [[7], [9], [4]]" by (simp add: objs_def bytes_at_def upt_rec)
  moreover have "\<not> in_array 4096 3 4099" by (simp add: in_array_def)
  ultimately show ?thesis using qsort_sorts [of 3 4096 1 "\<lambda>x y. uint (hd x) - uint (hd y)" ?m] by fastforce
qed

text \<open>An empty array is not sorted at once: the bound of the inner loop wraps, and the first pass has all indices but one.\<close>

lemma qsort_empty_bound: "unat ((0 :: u32) - newgap 0) = 2 ^ 32 - 1"
  by (simp add: newgap_def unsigned_minus_1_eq_mask mask_eq_exp_minus_1)

section \<open>The search\<close>

lemma objs_take: "k \<le> n \<Longrightarrow> objs m base sz k = take k (objs m base sz n)"
  by (simp add: objs_def take_map)

lemma objs_drop: "objs m (base + of_nat (k * sz)) sz (n - k) = drop k (objs m base sz n)"
proof (rule nth_equalityI)
  fix i
  assume "i < length (objs m (base + of_nat (k * sz)) sz (n - k))"
  then have "i < n - k" "k + i < n" by simp_all
  moreover have "base + of_nat (k * sz) + of_nat (i * sz) = base + of_nat ((k + i) * sz)" by (simp add: algebra_simps)
  ultimately show "objs m (base + of_nat (k * sz)) sz (n - k) ! i = drop k (objs m base sz n) ! i" by (simp only: nth_objs length_objs nth_drop)
qed simp

definition hit :: "memory \<Rightarrow> (u8 list \<Rightarrow> int) \<Rightarrow> u32 \<Rightarrow> nat \<Rightarrow> nat \<Rightarrow> u32 \<Rightarrow> bool" where
  "hit m cmp base sz n p \<longleftrightarrow> (\<exists>i<n. p = base + of_nat (i * sz) \<and> cmp (bytes_at m p sz) = 0)"

lemma hit_drop:
  assumes "hit m cmp (base + of_nat (k * sz)) sz (n - k) p"
  shows "hit m cmp base sz n p"
proof -
  obtain i where i: "i < n - k" "p = base + of_nat (k * sz) + of_nat (i * sz)" "cmp (bytes_at m p sz) = 0" using assms unfolding hit_def by blast
  have "base + of_nat (k * sz) + of_nat (i * sz) = base + of_nat ((k + i) * sz)" by (simp add: algebra_simps)
  then show ?thesis unfolding hit_def using i by (intro exI [of _ "k + i"]) simp
qed

lemma hit_take: "hit m cmp base sz k p \<Longrightarrow> k \<le> n \<Longrightarrow> hit m cmp base sz n p"
  unfolding hit_def using less_le_trans by blast

lemma set_split: "k < length xs \<Longrightarrow> set xs = set (take k xs) \<union> {xs ! k} \<union> set (drop (Suc k) xs)"
  by (subst id_take_nth_drop [of k xs]) auto

lemma bex_part:
  assumes "S = A \<union> {x} \<union> B" and "\<not> P x"
  shows "\<forall>y \<in> A. \<not> P y \<Longrightarrow> (\<exists>y \<in> S. P y) \<longleftrightarrow> (\<exists>y \<in> B. P y)" and "\<forall>y \<in> B. \<not> P y \<Longrightarrow> (\<exists>y \<in> S. P y) \<longleftrightarrow> (\<exists>y \<in> A. P y)"
  using assms by auto

lemma upper_half:
  fixes base nmemb sz :: u32
  assumes b: "unat base + unat nmemb * unat sz \<le> 2 ^ 32" and "nmemb \<noteq> 0" and "0 < unat base"
  shows "base + nmemb div 2 * sz + sz = base + of_nat (Suc (unat (nmemb div 2)) * unat sz)"
    and "unat (nmemb - (nmemb div 2 + 1)) = unat nmemb - Suc (unat (nmemb div 2))"
    and "nmemb - (nmemb div 2 + 1) \<noteq> 0 \<Longrightarrow> 0 < unat (base + nmemb div 2 * sz + sz)"
    and "unat (base + nmemb div 2 * sz + sz) + unat (nmemb - (nmemb div 2 + 1)) * unat sz \<le> 2 ^ 32"
proof -
  let ?k = "unat (nmemb div 2)" and ?n = "unat nmemb" and ?s = "unat sz"
  have k: "?k < ?n" using half_less(1) [OF assms(2)] .
  show e: "base + nmemb div 2 * sz + sz = base + of_nat (Suc ?k * ?s)" by (simp add: algebra_simps)
  have "unat (nmemb div 2 + 1) = Suc ?k" using k unat_less32 [of nmemb] unat_add_offset [of "nmemb div 2" 1] by simp
  then show n: "unat (nmemb - (nmemb div 2 + 1)) = ?n - Suc ?k" using k by (simp add: unat_sub word_le_nat_alt)
  have d: "(?n - Suc ?k) * ?s + Suc ?k * ?s = ?n * ?s" using k by (simp only: add_mult_distrib [symmetric]) simp
  have u: "unat (base + nmemb div 2 * sz + sz) = unat base + Suc ?k * ?s \<or> (?n - Suc ?k) * ?s = 0"
    unfolding e using unat_add_offset [of base "Suc ?k * ?s"] d b by linarith
  show "unat (base + nmemb div 2 * sz + sz) + unat (nmemb - (nmemb div 2 + 1)) * ?s \<le> 2 ^ 32"
    unfolding n using u d b unat_less32 [of "base + nmemb div 2 * sz + sz"] by linarith
  assume "nmemb - (nmemb div 2 + 1) \<noteq> 0"
  then have "0 < ?n - Suc ?k" using n by (metis unat_gt_0)
  then have "?s = 0 \<or> unat (base + nmemb div 2 * sz + sz) = unat base + Suc ?k * ?s" using u by auto
  then show "0 < unat (base + nmemb div 2 * sz + sz)" using assms(3) unfolding e by (elim disjE) simp_all
qed

lemma bsearch_spec:
  assumes "0 < unat sz" and "nmemb \<noteq> 0 \<Longrightarrow> 0 < unat base" and "unat base + unat nmemb * unat sz \<le> 2 ^ 32"
    and "sorted_wrt (\<lambda>x y. sgn (cmp y) \<le> sgn (cmp x)) (objs m base (unat sz) (unat nmemb))"
  shows "if \<exists>x \<in> set (objs m base (unat sz) (unat nmemb)). cmp x = 0
    then bsearch m cmp base nmemb sz \<noteq> 0 \<and> hit m cmp base (unat sz) (unat nmemb) (bsearch m cmp base nmemb sz)
    else bsearch m cmp base nmemb sz = 0"
  using assms
proof (induction "unat nmemb" arbitrary: base nmemb rule: less_induct)
  case less
  let ?n = "unat nmemb" and ?s = "unat sz" and ?k = "unat (nmemb div 2)" and ?xs = "objs m base (unat sz) (unat nmemb)"
  let ?mid = "base + nmemb div 2 * sz"
  have mid: "base + of_nat (?k * ?s) = ?mid" by simp
  show ?case
  proof (cases "nmemb = 0")
    case True
    then show ?thesis by (simp add: bsearch.simps objs_def)
  next
    case False
    have k: "?k < ?n" using half_less(1) [OF False] .
    have le: "Suc ?k * ?s \<le> ?n * ?s" using k by (intro mult_le_mono1) simp
    have x: "?xs ! ?k = bytes_at m ?mid ?s" using k by (simp add: nth_objs)
    have sp: "set ?xs = set (take ?k ?xs) \<union> {?xs ! ?k} \<union> set (drop (Suc ?k) ?xs)" using k by (intro set_split) simp
    have step: "bsearch m cmp base nmemb sz = (if cmp (?xs ! ?k) = 0 then ?mid
        else if cmp (?xs ! ?k) > 0 then bsearch m cmp (?mid + sz) (nmemb - (nmemb div 2 + 1)) sz else bsearch m cmp base (nmemb div 2) sz)"
      using False by (subst bsearch.simps) (simp add: x Let_def)
    have sorted: "sorted_wrt (\<lambda>x y. sgn (cmp y) \<le> sgn (cmp x)) (take ?k ?xs)" "sorted_wrt (\<lambda>x y. sgn (cmp y) \<le> sgn (cmp x)) (drop (Suc ?k) ?xs)"
      using less.prems(4) by (auto intro: sorted_wrt_take sorted_wrt_drop)
    have ord: "\<forall>y \<in> set (take ?k ?xs). sgn (cmp (?xs ! ?k)) \<le> sgn (cmp y)" "\<forall>y \<in> set (drop (Suc ?k) ?xs). sgn (cmp y) \<le> sgn (cmp (?xs ! ?k))"
      using less.prems(4) k by (auto simp: in_set_conv_nth sorted_wrt_iff_nth_less)
    have um: "unat ?mid = unat base + ?k * ?s" using element_address [OF less.prems(3) k less.prems(1)] by simp
    consider "cmp (?xs ! ?k) = 0" | "cmp (?xs ! ?k) > 0" | "cmp (?xs ! ?k) < 0" by linarith
    then show ?thesis
    proof cases
      case 1
      then have "?mid \<noteq> 0" "hit m cmp base ?s ?n ?mid" using um less.prems(2) False k x mid by (auto simp: hit_def)
      then show ?thesis using 1 sp step by auto
    next
      case 2
      have no: "\<forall>y \<in> set (take ?k ?xs). cmp y \<noteq> 0" using ord(1) 2 by force
      note u = upper_half [OF less.prems(3) False less.prems(2) [OF False]]
      have dr: "objs m (?mid + sz) ?s (?n - Suc ?k) = drop (Suc ?k) ?xs" unfolding u(1) by (rule objs_drop)
      have "hit m cmp base ?s ?n p" if "hit m cmp (?mid + sz) ?s (?n - Suc ?k) p" for p
        using that unfolding u(1) by (rule hit_drop)
      moreover have "(\<exists>x \<in> set ?xs. cmp x = 0) \<longleftrightarrow> (\<exists>x \<in> set (drop (Suc ?k) ?xs). cmp x = 0)" using bex_part(1) [OF sp, of "\<lambda>x. cmp x = 0"] no 2 by simp
      ultimately show ?thesis
        using less.hyps [OF half_less(2) [OF False] less.prems(1) u(3,4)] sorted(2) 2 step unfolding u(2) dr by (simp split: if_splits)
    next
      case 3
      have no: "\<forall>y \<in> set (drop (Suc ?k) ?xs). cmp y \<noteq> 0" using ord(2) 3 by force
      have b: "unat base + ?k * ?s \<le> 2 ^ 32" using le less.prems(3) by simp
      have "hit m cmp base ?s ?n p" if "hit m cmp base ?s ?k p" for p using hit_take [OF that, of ?n] k by simp
      moreover have "(\<exists>x \<in> set ?xs. cmp x = 0) \<longleftrightarrow> (\<exists>x \<in> set (take ?k ?xs). cmp x = 0)" using bex_part(2) [OF sp, of "\<lambda>x. cmp x = 0"] no 3 by simp
      moreover have "objs m base ?s ?k = take ?k ?xs" using k by (intro objs_take) simp
      ultimately show ?thesis
        using less.hyps [OF k less.prems(1) less.prems(2) [OF False] b] sorted(1) 3 step by (simp split: if_splits)
    qed
  qed
qed

text \<open>
  C27. \<^verbatim>\<open>bsearch\<close> on an array whose objects the comparison with the key puts in order (first those below the key, then those equal to
  it, then those above it) returns the address of an object that compares equal to the key when the array has one, and the null pointer
  exactly when it has none; the search ends on every array.
\<close>

theorem bsearch_correct:
  assumes "0 < unat sz" and "0 < unat base" and "unat base + unat nmemb * unat sz \<le> 2 ^ 32"
    and "sorted_wrt (\<lambda>x y. sgn (cmp y) \<le> sgn (cmp x)) (objs m base (unat sz) (unat nmemb))"
  shows "if \<exists>x \<in> set (objs m base (unat sz) (unat nmemb)). cmp x = 0
    then \<exists>i < unat nmemb. bsearch m cmp base nmemb sz = base + of_nat (i * unat sz) \<and> bsearch m cmp base nmemb sz \<noteq> 0 \<and>
      cmp (objs m base (unat sz) (unat nmemb) ! i) = 0
    else bsearch m cmp base nmemb sz = 0"
  using bsearch_spec [OF assms] unfolding hit_def by (auto simp: nth_objs split: if_splits)

theorem bsearch_correct_witness:
  "bsearch (\<lambda>a. if a = 4096 then 4 else if a = 4097 then 7 else 9) (\<lambda>x. 9 - uint (hd x)) 4096 3 1 = 4098 \<and>
   bsearch (\<lambda>a. if a = 4096 then 4 else if a = 4097 then 7 else 9) (\<lambda>x. 5 - uint (hd x)) 4096 3 1 = 0"
proof -
  let ?m = "\<lambda>a :: u32. if a = 4096 then 4 else if a = 4097 then 7 else (9 :: u8)"
  have o: "objs ?m 4096 1 3 = [[4], [7], [9]]" by (simp add: objs_def bytes_at_def upt_rec)
  have "\<exists>i<3. bsearch ?m (\<lambda>x. 9 - uint (hd x)) 4096 3 1 = 4096 + of_nat i \<and> 9 - uint (hd ([[4 :: u8], [7], [9]] ! i)) = 0"
    using bsearch_correct [of 1 4096 3 "\<lambda>x. 9 - uint (hd x)" ?m] o by auto
  moreover have "bsearch ?m (\<lambda>x. 5 - uint (hd x)) 4096 3 1 = 0"
    using bsearch_correct [of 1 4096 3 "\<lambda>x. 5 - uint (hd x)" ?m] o by simp
  ultimately show ?thesis by (auto simp: less_Suc_eq numeral_3_eq_3)
qed

end
