(* ===== verification/Klibc_Malloc.thy ===== *)
theory Klibc_Malloc
  imports Klist0 Klibc_String
begin

text \<open>
  The heap of a user program: \<^verbatim>\<open>usr/klibc/malloc.c\<close>, \<^verbatim>\<open>realloc.c\<close>, \<^verbatim>\<open>sbrk.c\<close> and \<^verbatim>\<open>brk.c\<close>, configured to use \<^verbatim>\<open>sbrk\<close>, without \<^verbatim>\<open>DEBUG_MALLOC\<close>.

  The headers of the blocks are maps from addresses, one for each field; the pairs of links \<^verbatim>\<open>a.next\<close>, \<^verbatim>\<open>a.prev\<close> and \<^verbatim>\<open>next_free\<close>,
  \<^verbatim>\<open>prev_free\<close> are two heaps of list nodes.  The contents of the blocks are in \<open>ubytes\<close>.  The system call \<^verbatim>\<open>brk\<close> is a parameter, with the
  state of the system in \<open>usys\<close>; the locale \<open>program_break\<close> says what the library relies on.  The address of the list head is a parameter too.
\<close>

section \<open>Operations\<close>

abbreviation ARENA_TYPE_USED :: u32 where "ARENA_TYPE_USED \<equiv> 0"
abbreviation ARENA_TYPE_FREE :: u32 where "ARENA_TYPE_FREE \<equiv> 1"
abbreviation ARENA_TYPE_HEAD :: u32 where "ARENA_TYPE_HEAD \<equiv> 2"

abbreviation ARENA_HEADER_SIZE :: u32 where "ARENA_HEADER_SIZE \<equiv> 16"
abbreviation MALLOC_CHUNK_SIZE :: u32 where "MALLOC_CHUNK_SIZE \<equiv> 65536"
abbreviation SBRK_ALIGNMENT :: u32 where "SBRK_ALIGNMENT \<equiv> 32"
abbreviation USER_ENOMEM :: int where "USER_ENOMEM \<equiv> 12"

record 'k uheap =
  a_type :: "u32 \<Rightarrow> u32"
  a_size :: "u32 \<Rightarrow> u32"
  a_links :: "u32 klist0_node"
  f_links :: "u32 klist0_node"
  ubytes :: memory
  current_brk :: u32
  uerrno :: int
  usys :: 'k

definition set_type :: "u32 \<Rightarrow> u32 \<Rightarrow> 'k uheap \<Rightarrow> 'k uheap" where
  "set_type b v h = h\<lparr>a_type := (a_type h)(b := v)\<rparr>"

definition set_size :: "u32 \<Rightarrow> u32 \<Rightarrow> 'k uheap \<Rightarrow> 'k uheap" where
  "set_size b v h = h\<lparr>a_size := (a_size h)(b := v)\<rparr>"

definition unchain :: "u32 \<Rightarrow> u32 klist0_node \<Rightarrow> u32 klist0_node" where
  "unchain ah l = (let ap = prev l ah; an = next l ah in set_prev an ap (set_next ap an l))"

definition remove_from_main_chain :: "u32 \<Rightarrow> 'k uheap \<Rightarrow> 'k uheap" where
  "remove_from_main_chain ah h = h\<lparr>a_links := unchain ah (a_links h)\<rparr>"

definition remove_from_free_chain :: "u32 \<Rightarrow> 'k uheap \<Rightarrow> 'k uheap" where
  "remove_from_free_chain ah h = h\<lparr>f_links := unchain ah (f_links h)\<rparr>"

definition remove_from_chains :: "u32 \<Rightarrow> 'k uheap \<Rightarrow> 'k uheap" where
  "remove_from_chains ah h = remove_from_main_chain ah (remove_from_free_chain ah h)"

definition malloc_from_block :: "u32 \<Rightarrow> u32 \<Rightarrow> 'k uheap \<Rightarrow> 'k uheap \<times> u32" where
  "malloc_from_block fp sz h =
    (let fsize = a_size h fp;
         h1 =
           (if fsize \<ge> sz + 2 * ARENA_HEADER_SIZE then
              let nfp = fp + sz;
                  na = next (a_links h) fp;
                  fpn = next (f_links h) fp;
                  fpp = prev (f_links h) fp
              in set_size fp sz (set_type fp ARENA_TYPE_USED (set_size nfp (fsize - sz) (set_type nfp ARENA_TYPE_FREE h)))
                 \<lparr>a_links := set_next fp nfp (set_prev na nfp (set_next nfp na (set_prev nfp fp (a_links h)))),
                  f_links := set_next fpp nfp (set_prev fpn nfp (set_prev nfp fpp (set_next nfp fpn (f_links h))))\<rparr>
            else remove_from_free_chain fp (set_type fp ARENA_TYPE_USED h))
     in (h1, fp + ARENA_HEADER_SIZE))"

definition free_block :: "u32 \<Rightarrow> u32 \<Rightarrow> 'k uheap \<Rightarrow> 'k uheap \<times> u32" where
  "free_block mh ah h =
    (let pah = prev (a_links h) ah;
         nah = next (a_links h) ah;
         (h1, ah1) =
           (if a_type h pah = ARENA_TYPE_FREE \<and> pah + a_size h pah = ah then
              ((set_size pah (a_size h pah + a_size h ah) h)\<lparr>a_links := set_prev nah pah (set_next pah nah (a_links h))\<rparr>, pah)
            else
              let l1 = set_prev ah mh (set_next ah (next (f_links h) mh) (f_links h));
                  l2 = set_next mh ah l1
              in ((set_type ah ARENA_TYPE_FREE h)\<lparr>f_links := set_prev (next l2 ah) ah l2\<rparr>, ah))
     in if a_type h1 nah = ARENA_TYPE_FREE \<and> ah1 + a_size h1 ah1 = nah
        then (remove_from_chains nah (set_size ah1 (a_size h1 ah1 + a_size h1 nah) h1), ah1)
        else (h1, ah1))"

definition align_up :: "u32 \<Rightarrow> u32 \<Rightarrow> u32" where
  "align_up p a = (p + a - 1) AND NOT (a - 1)"

text \<open>\<^verbatim>\<open>sbrk\<close> and \<^verbatim>\<open>brk\<close> of the library; \<open>sys_brk\<close> is the system call.\<close>

definition lib_sbrk :: "(u32 \<Rightarrow> 'k \<Rightarrow> 'k \<times> u32) \<Rightarrow> u32 \<Rightarrow> 'k uheap \<Rightarrow> 'k uheap \<times> u32" where
  "lib_sbrk sys_brk increment h =
    (let h1 = (if current_brk h = 0 then let (k, r) = sys_brk 0 (usys h) in h\<lparr>usys := k, current_brk := r\<rparr> else h);
         start = align_up (current_brk h1) SBRK_ALIGNMENT;
         end = start + increment;
         (k, new_brk) = sys_brk end (usys h1);
         h2 = h1\<lparr>usys := k\<rparr>
     in if new_brk = - 1 then (h2, - 1)
        else if new_brk < end then (h2\<lparr>uerrno := USER_ENOMEM\<rparr>, - 1)
        else (h2\<lparr>current_brk := new_brk\<rparr>, start))"

definition lib_brk :: "(u32 \<Rightarrow> 'k \<Rightarrow> 'k \<times> u32) \<Rightarrow> u32 \<Rightarrow> 'k uheap \<Rightarrow> 'k uheap \<times> int" where
  "lib_brk sys_brk end_data_segment h =
    (let (k, new_brk) = sys_brk end_data_segment (usys h);
         h1 = h\<lparr>usys := k\<rparr>
     in if new_brk \<noteq> end_data_segment then (h1, - 1) else (h1\<lparr>current_brk := new_brk\<rparr>, 0))"

definition arena_round :: "u32 \<Rightarrow> u32" where
  "arena_round sz = (sz + 2 * ARENA_HEADER_SIZE - 1) AND NOT (ARENA_HEADER_SIZE - 1)"

text \<open>The two loops of \<^verbatim>\<open>malloc\<close>: the first block that is large enough, and the place of a new block in the chain.\<close>

partial_function (option) find_fit :: "'k uheap \<Rightarrow> u32 \<Rightarrow> u32 \<Rightarrow> u32 option option" where
  "find_fit h sz fp =
    (if a_type h fp = ARENA_TYPE_HEAD then Some None
     else if a_size h fp \<ge> sz then Some (Some fp)
     else find_fit h sz (next (f_links h) fp))"

partial_function (option) find_place :: "'k uheap \<Rightarrow> u32 \<Rightarrow> u32 \<Rightarrow> u32 option" where
  "find_place h fp pah =
    (if a_type h pah = ARENA_TYPE_HEAD \<or> pah < fp then Some pah
     else find_place h fp (prev (a_links h) pah))"

definition malloc :: "(u32 \<Rightarrow> 'k \<Rightarrow> 'k \<times> u32) \<Rightarrow> u32 \<Rightarrow> u32 \<Rightarrow> 'k uheap \<Rightarrow> ('k uheap \<times> u32) option" where
  "malloc sys_brk mh sz h =
    (if sz = 0 then Some (h, 0)
     else do {
       let sz1 = arena_round sz;
       fit \<leftarrow> find_fit h sz1 (next (f_links h) mh);
       (case fit of
          Some fp \<Rightarrow> Some (malloc_from_block fp sz1 h)
        | None \<Rightarrow> do {
            let fsize = (sz1 + (MALLOC_CHUNK_SIZE - 1)) AND NOT (MALLOC_CHUNK_SIZE - 1);
            let (h1, fp) = lib_sbrk sys_brk fsize h;
            if fp = - 1 then Some (h1, 0)
            else do {
              let h2 = set_size fp fsize (set_type fp ARENA_TYPE_FREE h1);
              pah \<leftarrow> find_place h2 fp (prev (a_links h2) mh);
              let l1 = set_prev fp pah (set_next fp (next (a_links h2) pah) (a_links h2));
              let l2 = set_next pah fp l1;
              let (h3, fp1) = free_block mh fp (h2\<lparr>a_links := set_prev (next l2 fp) fp l2\<rparr>);
              Some (malloc_from_block fp1 sz1 h3)
            }
          })
     })"

definition free :: "(u32 \<Rightarrow> 'k \<Rightarrow> 'k \<times> u32) \<Rightarrow> u32 \<Rightarrow> u32 \<Rightarrow> 'k uheap \<Rightarrow> 'k uheap" where
  "free sys_brk mh ptr h =
    (if ptr = 0 then h
     else let (h1, ah) = free_block mh (ptr - ARENA_HEADER_SIZE) h
          in if a_size h1 ah \<ge> MALLOC_CHUNK_SIZE \<and> ah + a_size h1 ah = current_brk h1
             then fst (lib_brk sys_brk ah (remove_from_chains ah h1)) else h1)"

text \<open>
  When there is no memory \<^verbatim>\<open>realloc\<close> copies to the null pointer: address 0 belongs to the kernel, the page fault is not resolved, and
  the call does not return.
\<close>

definition realloc :: "(u32 \<Rightarrow> 'k \<Rightarrow> 'k \<times> u32) \<Rightarrow> u32 \<Rightarrow> u32 \<Rightarrow> u32 \<Rightarrow> 'k uheap \<Rightarrow> ('k uheap \<times> u32) option" where
  "realloc sys_brk mh ptr sz h =
    (if ptr = 0 then malloc sys_brk mh sz h
     else if sz = 0 then Some (free sys_brk mh ptr h, 0)
     else
       let sz1 = arena_round sz;
           ah = ptr - ARENA_HEADER_SIZE
       in if a_size h ah \<ge> sz1 \<and> sz1 \<ge> drop_bit 2 (a_size h ah) then Some (h, ptr)
          else do {
            let oldsize = a_size h ah - ARENA_HEADER_SIZE;
            (h1, newptr) \<leftarrow> malloc sys_brk mh sz1 h;
            let n = (if sz1 < oldsize then sz1 else oldsize);
            if newptr = 0 \<and> n \<noteq> 0 then None
            else Some (free sys_brk mh ptr (h1\<lparr>ubytes := memcpy newptr ptr n (ubytes h1)\<rparr>), newptr)
          })"

definition calloc :: "(u32 \<Rightarrow> 'k \<Rightarrow> 'k \<times> u32) \<Rightarrow> u32 \<Rightarrow> u32 \<Rightarrow> u32 \<Rightarrow> 'k uheap \<Rightarrow> ('k uheap \<times> u32) option" where
  "calloc sys_brk mh nmemb sz h = do {
     let sz1 = sz * nmemb;
     (h1, ptr) \<leftarrow> malloc sys_brk mh sz1 h;
     Some (if ptr \<noteq> 0 then h1\<lparr>ubytes := memset ptr 0 (unat sz1) (ubytes h1)\<rparr> else h1, ptr)
   }"

section \<open>Chains\<close>

lemma klist_unchain:
  assumes "klist l mh (xs @ x # ys)"
  shows "klist (unchain x l) mh (xs @ ys)"
proof -
  note ne = klist_member_linked [OF assms, of x]
  have "x \<notin> set (mh # xs @ ys)" using klist_distinct [OF assms] by auto
  then have "next (unchain x l) n = next (klist0_unlink x l) n \<and> prev (unchain x l) n = prev (klist0_unlink x l) n"
    if "n \<in> set (mh # xs @ ys)" for n
    using that ne by (auto simp: unchain_def klist0_unlink_upd Let_def)
  then show ?thesis using klist_unlink(1) [OF assms] klist_cong [of mh "xs @ ys" "unchain x l" "klist0_unlink x l"] by simp
qed

lemma klist_insert_after:
  assumes k: "klist l mh (xs @ ys)" and n: "n \<notin> set (mh # xs @ ys)" and x: "x = last (mh # xs)"
    and nx: "next l' = (next l)(n := next l x, x := n)" and pr: "prev l' = (prev l)(n := x, next l x := n)"
  shows "klist l' mh (xs @ n # ys)"
proof -
  let ?y = "hd (ys @ [mh])"
  have "kseg l mh xs ?y" using k by (cases ys) (simp_all add: klist_def)
  then have e: "next l x = ?y" "prev l ?y = x" unfolding x by (auto dest: kseg_next_last kseg_prev_end simp del: last.simps)
  have "last (mh # xs) \<in> set (mh # xs)" by (rule last_in_set) simp
  then have "x \<in> set (mh # xs)" unfolding x .
  moreover have "?y \<in> set (mh # ys)" by (cases ys) simp_all
  ultimately have ny: "n \<noteq> x" "n \<noteq> ?y" using n by auto
  have "klist (klist0_prepend n ?y l) mh (xs @ n # ys)"
  proof (cases ys)
    case Nil
    then show ?thesis using klist_prepend [of l mh xs n] k n by simp
  next
    case (Cons y zs)
    then show ?thesis using klist_prepend_before [of l mh xs y zs n] k n by simp
  qed
  moreover have "next l' = next (klist0_prepend n ?y l)" "prev l' = prev (klist0_prepend n ?y l)"
    using klist0_prepend_upd [of n ?y l] ny nx pr e by simp_all
  ultimately show ?thesis using klist_cong [of mh "xs @ n # ys" l' "klist0_prepend n ?y l"] by simp
qed

lemma klist_replace:
  fixes x :: u32
  assumes k: "klist l mh (xs @ x # ys)" and n: "n \<notin> set (mh # xs @ x # ys)"
    and nx: "next l' = (next l)(n := next l x, prev l x := n)" and pr: "prev l' = (prev l)(n := prev l x, next l x := n)"
  shows "klist l' mh (xs @ n # ys)"
proof -
  let ?l1 = "\<lparr>prev = (prev l)(n := x, next l x := n), next = (next l)(n := next l x, x := n)\<rparr>"
  have "klist ?l1 mh ((xs @ [x]) @ n # ys)" using k n by (intro klist_insert_after [of l mh "xs @ [x]" ys n x]) auto
  then have u: "klist (unchain x ?l1) mh (xs @ n # ys)" by (intro klist_unchain) simp
  have x: "x \<in> set (mh # xs @ x # ys)" "x \<notin> set (mh # xs @ n # ys)" using klist_distinct [OF k] n by auto
  have d: "next l x \<noteq> x" "prev l x \<noteq> x" "next l x \<noteq> n" "prev l x \<noteq> n"
    using klist_member_linked [OF k, of x] klist_neighbours [OF k x(1)] n by auto
  have nx1: "next ?l1 x = n" "prev ?l1 x = prev l x" using d n by auto
  then have "next l' m = next (unchain x ?l1) m \<and> prev l' m = prev (unchain x ?l1) m" if "m \<in> set (mh # xs @ n # ys)" for m
    using that x(2) d n by (auto simp: unchain_def Let_def nx pr)
  then show ?thesis using klist_cong [of mh "xs @ n # ys" l' "unchain x ?l1"] u by simp
qed

lemma klist_next_of: "klist l mh (xs @ x # ys) \<Longrightarrow> next l x = hd (ys @ [mh])"
  by (cases ys) (simp_all add: klist_def)

lemma klist_prev_of: "klist l mh (xs @ x # ys) \<Longrightarrow> prev l x = last (mh # xs)"
  unfolding klist_def by (auto dest: kseg_prev_end simp del: last.simps)

section \<open>The blocks of the arena\<close>

text \<open>
  Blocks in ascending order without overlap, between \<open>lo\<close> and \<open>hi\<close>, aligned and large enough for a free header.
\<close>

definition blocks_ok :: "nat \<Rightarrow> nat \<Rightarrow> (u32 \<Rightarrow> u32) \<Rightarrow> u32 list \<Rightarrow> bool" where
  "blocks_ok lo hi s bs \<longleftrightarrow> sorted_wrt (\<lambda>a b. unat a + unat (s a) \<le> unat b) bs \<and>
    (\<forall>b \<in> set bs. lo \<le> unat b \<and> unat b + unat (s b) \<le> hi \<and> 16 dvd unat b \<and> 16 dvd unat (s b) \<and> 32 \<le> unat (s b))"

lemma blocks_ok_cong: "(\<And>b. b \<in> set bs \<Longrightarrow> s b = t b) \<Longrightarrow> blocks_ok lo hi s bs = blocks_ok lo hi t bs"
  unfolding blocks_ok_def by (auto simp: sorted_wrt_iff_nth_less)

lemma blocks_split:
  assumes ok: "blocks_ok lo hi s (xs @ b # ys)" and hi: "hi < 2 ^ 32"
    and z: "unat z + 32 \<le> unat (s b)" "16 dvd unat z" "32 \<le> unat z"
  shows "unat (b + z) = unat b + unat z" and "b + z \<notin> set (xs @ b # ys)"
    and "blocks_ok lo hi (s(b + z := s b - z, b := z)) (xs @ b # (b + z) # ys)"
    and "unat (b + z) + unat (s b - z) = unat b + unat (s b)"
proof -
  have b: "unat b + unat (s b) \<le> hi" "16 dvd unat b" "16 dvd unat (s b)" "lo \<le> unat b" using ok by (auto simp: blocks_ok_def)
  show n: "unat (b + z) = unat b + unat z" using b z hi unat_add_offset [of b "unat z"] by simp
  have r: "unat (s b - z) = unat (s b) - unat z" using z by (simp add: unat_sub word_le_nat_alt)
  show e: "unat (b + z) + unat (s b - z) = unat b + unat (s b)" using n r z by simp
  have out: "b + z \<notin> set xs" "b + z \<noteq> b" "b + z \<notin> set ys" "b \<notin> set xs" "b \<notin> set ys"
    using ok n z by (auto simp: blocks_ok_def sorted_wrt_append word_unat_eq_iff)
  then show "b + z \<notin> set (xs @ b # ys)" by simp
  let ?t = "s(b + z := s b - z, b := z)"
  have t: "?t x = s x" if "x \<in> set xs \<or> x \<in> set ys" for x using that out by auto
  have "16 dvd unat (b + z)" "16 dvd unat (s b - z)" "32 \<le> unat (s b - z)" using n r b z by (simp_all add: dvd_diff_nat)
  moreover have "sorted_wrt (\<lambda>a c. unat a + unat (?t a) \<le> unat c) xs" "sorted_wrt (\<lambda>a c. unat a + unat (?t a) \<le> unat c) ys"
    using ok t by (auto simp: blocks_ok_def sorted_wrt_append elim!: sorted_wrt_mono_rel [rotated])
  ultimately show "blocks_ok lo hi ?t (xs @ b # (b + z) # ys)"
    using ok t out(2) n e b z unfolding blocks_ok_def by (auto simp: sorted_wrt_append fun_upd_same fun_upd_other split: if_splits)
qed

lemma blocks_merge:
  assumes ok: "blocks_ok lo hi s (xs @ a # b # ys)" and hi: "hi < 2 ^ 32" and adj: "a + s a = b"
  shows "unat (s a + s b) = unat (s a) + unat (s b)" and "blocks_ok lo hi (s(a := s a + s b)) (xs @ a # ys)"
    and "a + (s a + s b) = b + s b"
proof -
  have b: "unat b + unat (s b) \<le> hi" "unat a + unat (s a) \<le> hi" using ok by (auto simp: blocks_ok_def)
  have u: "unat b = unat a + unat (s a)" using b hi adj unat_add_offset [of a "unat (s a)"] by simp
  show n: "unat (s a + s b) = unat (s a) + unat (s b)" using b u hi unat_add_offset [of "s a" "unat (s b)"] by simp
  show "a + (s a + s b) = b + s b" using adj by (simp add: add.assoc [symmetric])
  have "\<forall>x \<in> set xs. unat x + unat (s x) \<le> unat a" "\<forall>y \<in> set ys. unat a + unat (s a) \<le> unat y" "32 \<le> unat (s a)"
    using ok by (auto simp: blocks_ok_def sorted_wrt_append)
  then have out: "a \<notin> set xs" "a \<notin> set ys" by force+
  have t: "(s(a := s a + s b)) x = s x" if "x \<in> set xs \<or> x \<in> set ys" for x using that out by auto
  have "sorted_wrt (\<lambda>c d. unat c + unat ((s(a := s a + s b)) c) \<le> unat d) xs" "sorted_wrt (\<lambda>c d. unat c + unat ((s(a := s a + s b)) c) \<le> unat d) ys"
    using ok t by (auto simp: blocks_ok_def sorted_wrt_append elim!: sorted_wrt_mono_rel [rotated])
  then show "blocks_ok lo hi (s(a := s a + s b)) (xs @ a # ys)"
    using ok t n u b unfolding blocks_ok_def by (auto simp: sorted_wrt_append fun_upd_same fun_upd_other)
qed

lemma blocks_remove: "blocks_ok lo hi s (xs @ b # ys) \<Longrightarrow> blocks_ok lo hi s (xs @ ys)"
  by (auto simp: blocks_ok_def sorted_wrt_append)

text \<open>
  The arena: both chains are rings through the head, the free chain holds the free blocks except those in \<open>X\<close>.  Two free blocks
  that touch are merged.
\<close>

definition arena :: "u32 \<Rightarrow> nat \<Rightarrow> nat \<Rightarrow> u32 set \<Rightarrow> 'k uheap \<Rightarrow> u32 list \<Rightarrow> u32 list \<Rightarrow> bool" where
  "arena mh lo hi X h bs fs \<longleftrightarrow> klist (a_links h) mh bs \<and> klist (f_links h) mh fs \<and> a_type h mh = ARENA_TYPE_HEAD \<and>
    (\<forall>b \<in> set bs. a_type h b \<in> {ARENA_TYPE_USED, ARENA_TYPE_FREE}) \<and> set fs = {b \<in> set bs - X. a_type h b = ARENA_TYPE_FREE} \<and>
    blocks_ok lo hi (a_size h) bs \<and> unat mh < lo \<and> hi < 2 ^ 32"

definition adjacent :: "'k uheap \<Rightarrow> u32 \<Rightarrow> u32 \<Rightarrow> bool" where
  "adjacent h a b \<longleftrightarrow> a_type h a = ARENA_TYPE_FREE \<and> a_type h b = ARENA_TYPE_FREE \<and> a + a_size h a = b"

definition merged_arena :: "'k uheap \<Rightarrow> u32 list \<Rightarrow> bool" where
  "merged_arena h bs \<longleftrightarrow> successively (\<lambda>a b. \<not> adjacent h a b) bs"

definition used :: "'k uheap \<Rightarrow> u32 list \<Rightarrow> (u32 \<times> u32) set" where
  "used h bs = (\<lambda>b. (b, a_size h b)) ` {b \<in> set bs. a_type h b = ARENA_TYPE_USED}"

lemma arenaD:
  assumes "arena mh lo hi X h bs fs"
  shows "klist (a_links h) mh bs" "klist (f_links h) mh fs" "a_type h mh = ARENA_TYPE_HEAD"
    "b \<in> set bs \<Longrightarrow> a_type h b = ARENA_TYPE_USED \<or> a_type h b = ARENA_TYPE_FREE"
    "set fs = {b \<in> set bs - X. a_type h b = ARENA_TYPE_FREE}" "blocks_ok lo hi (a_size h) bs" "unat mh < lo" "hi < 2 ^ 32" "mh \<notin> set bs" "distinct bs"
  using assms klist_distinct [of "a_links h" mh bs] unfolding arena_def by auto

lemmas heap_field_defs = set_type_def set_size_def

lemma successively_cong_set:
  "(\<And>a b. a \<in> set xs \<Longrightarrow> b \<in> set xs \<Longrightarrow> P a b = Q a b) \<Longrightarrow> successively P xs = successively Q xs"
  by (induction P xs rule: successively.induct) auto

lemma merged_arena_simps [simp]:
  "merged_arena h []" "merged_arena h [b]"
  "merged_arena h (b # c # bs) \<longleftrightarrow> \<not> adjacent h b c \<and> merged_arena h (c # bs)"
  by (simp_all add: merged_arena_def)

lemma merged_arena_append:
  "merged_arena h (xs @ b # ys) \<longleftrightarrow> merged_arena h xs \<and> merged_arena h ys \<and>
    (xs \<noteq> [] \<longrightarrow> \<not> adjacent h (last xs) b) \<and> (ys \<noteq> [] \<longrightarrow> \<not> adjacent h b (hd ys))"
  unfolding merged_arena_def by (cases ys) (auto simp: successively_append_iff)

lemma merged_arena_cong:
  assumes "\<And>b. b \<in> set bs \<Longrightarrow> a_type h' b = a_type h b \<and> a_size h' b = a_size h b"
  shows "merged_arena h' bs = merged_arena h bs"
  unfolding merged_arena_def using assms by (intro successively_cong_set) (auto simp: adjacent_def)

lemma from_block_whole:
  assumes a: "arena mh lo hi {} h (xs @ fp # ys) fs" and m: "merged_arena h (xs @ fp # ys)" and f: "a_type h fp = ARENA_TYPE_FREE"
    and g: "h' = remove_from_free_chain fp (set_type fp ARENA_TYPE_USED h)"
  shows "arena mh lo hi {} h' (xs @ fp # ys) (remove1 fp fs)" and "merged_arena h' (xs @ fp # ys)"
    and "used h' (xs @ fp # ys) = insert (fp, a_size h fp) (used h (xs @ fp # ys))"
proof -
  note d = arenaD [OF a]
  have "fp \<in> set fs" using d(5) f by simp
  then obtain f1 f2 where fs: "fs = f1 @ fp # f2" "fp \<notin> set f1" by (meson split_list_first)
  have "distinct fs" using klist_distinct [OF d(2)] by simp
  then have r: "remove1 fp fs = f1 @ f2" "set (remove1 fp fs) = set fs - {fp}" using fs by (auto simp: remove1_append)
  have ne: "fp \<noteq> mh" "fp \<notin> set xs" "fp \<notin> set ys" using d(9,10) by auto
  have "klist (f_links h') mh (f1 @ f2)" unfolding g remove_from_free_chain_def using klist_unchain [of "f_links h" mh f1 fp f2] d(2) fs by (simp add: set_type_def)
  then show "arena mh lo hi {} h' (xs @ fp # ys) (remove1 fp fs)"
    using d ne r unfolding arena_def by (auto simp: g remove_from_free_chain_def set_type_def)
  have "merged_arena h' xs = merged_arena h xs" "merged_arena h' ys = merged_arena h ys"
    using ne by (auto intro!: merged_arena_cong simp: g remove_from_free_chain_def set_type_def)
  then show "merged_arena h' (xs @ fp # ys)"
    using m unfolding merged_arena_append by (auto simp: adjacent_def g remove_from_free_chain_def set_type_def)
  show "used h' (xs @ fp # ys) = insert (fp, a_size h fp) (used h (xs @ fp # ys))"
    using ne by (auto simp: used_def g remove_from_free_chain_def set_type_def)
qed

definition split_block :: "u32 \<Rightarrow> u32 \<Rightarrow> 'k uheap \<Rightarrow> 'k uheap" where
  "split_block fp sz h =
    (let nfp = fp + sz; na = next (a_links h) fp; fpn = next (f_links h) fp; fpp = prev (f_links h) fp
     in set_size fp sz (set_type fp ARENA_TYPE_USED (set_size nfp (a_size h fp - sz) (set_type nfp ARENA_TYPE_FREE h)))
          \<lparr>a_links := set_next fp nfp (set_prev na nfp (set_next nfp na (set_prev nfp fp (a_links h)))),
           f_links := set_next fpp nfp (set_prev fpn nfp (set_prev nfp fpp (set_next nfp fpn (f_links h))))\<rparr>)"

lemma from_block_split:
  assumes a: "arena mh lo hi {} h (xs @ fp # ys) fs" and m: "merged_arena h (xs @ fp # ys)" and f: "a_type h fp = ARENA_TYPE_FREE"
    and z: "unat sz + 32 \<le> unat (a_size h fp)" "16 dvd unat sz" "32 \<le> unat sz" and g: "h' = split_block fp sz h"
  obtains fs' where "arena mh lo hi {} h' (xs @ fp # (fp + sz) # ys) fs'" and "merged_arena h' (xs @ fp # (fp + sz) # ys)"
    and "used h' (xs @ fp # (fp + sz) # ys) = insert (fp, sz) (used h (xs @ fp # ys))"
proof -
  let ?n = "fp + sz" and ?bs = "xs @ fp # (fp + sz) # ys"
  note d = arenaD [OF a]
  note sp = blocks_split [OF d(6,8) z]
  have ne: "fp \<noteq> mh" "fp \<notin> set xs" "fp \<notin> set ys" using d(9,10) by auto
  have n: "?n \<notin> set xs" "?n \<notin> set ys" "?n \<noteq> fp" "fp \<noteq> ?n" using sp(2) by auto
  have "lo \<le> unat fp" using d(6) by (simp add: blocks_ok_def)
  then have "?n \<noteq> mh" using sp(1) d(7) by (auto simp: word_unat_eq_iff)
  note n = n this
  have "fp \<in> set fs" using d(5) f by simp
  then obtain f1 f2 where fs: "fs = f1 @ fp # f2" by (meson split_list)
  have fd: "distinct (f1 @ fp # f2)" using klist_distinct [OF d(2)] fs by simp
  have nf: "?n \<notin> set fs" using d(5) sp(2) by auto
  have ty: "a_type h' = (a_type h)(?n := ARENA_TYPE_FREE, fp := ARENA_TYPE_USED)" and sz: "a_size h' = (a_size h)(?n := a_size h fp - sz, fp := sz)"
    by (simp_all add: g split_block_def heap_field_defs Let_def)
  have "klist (a_links h') mh ((xs @ [fp]) @ ?n # ys)"
    using d(1) sp(2) n(5) by (intro klist_insert_after [of "a_links h" mh "xs @ [fp]" ys ?n fp]) (auto simp: g split_block_def Let_def)
  moreover have "klist (f_links h') mh (f1 @ ?n # f2)"
    using d(2) nf n(5) fs by (intro klist_replace [of "f_links h" mh f1 fp f2 ?n]) (auto simp: g split_block_def Let_def)
  moreover have "set (f1 @ ?n # f2) = insert ?n (set fs - {fp})" using fd fs by auto
  ultimately have ar: "arena mh lo hi {} h' ?bs (f1 @ ?n # f2)"
    using d ne n sp(3) unfolding arena_def ty sz by auto
  have "merged_arena h' xs = merged_arena h xs" "merged_arena h' ys = merged_arena h ys"
    using ne n by (auto intro!: merged_arena_cong simp: ty sz)
  moreover have "?n + (a_size h fp - sz) = fp + a_size h fp" by simp
  ultimately have me: "merged_arena h' ?bs"
    using m f ne n merged_arena_append [of h' "[]" ?n ys] unfolding merged_arena_append [of _ xs]
    by (cases ys) (auto simp: adjacent_def ty sz)
  have "used h' ?bs = insert (fp, sz) (used h (xs @ fp # ys))" using ne n f unfolding used_def ty sz by auto
  with ar me show thesis by (rule that)
qed

definition same_process :: "'k uheap \<Rightarrow> 'k uheap \<Rightarrow> bool" where
  "same_process h h' \<longleftrightarrow> ubytes h' = ubytes h \<and> current_brk h' = current_brk h \<and> usys h' = usys h"

lemma from_block_ok:
  assumes a: "arena mh lo hi {} h bs fs" and m: "merged_arena h bs" and fp: "fp \<in> set bs" "a_type h fp = ARENA_TYPE_FREE"
    and z: "sz \<le> a_size h fp" "16 dvd unat sz" "32 \<le> unat sz" "unat sz + 32 < 2 ^ 32"
  obtains h' bs' fs' s where "malloc_from_block fp sz h = (h', fp + ARENA_HEADER_SIZE)" and "arena mh lo hi {} h' bs' fs'"
    and "merged_arena h' bs'" and "used h' bs' = insert (fp, s) (used h bs)" and "sz \<le> s" and "same_process h h'"
proof -
  obtain xs ys where bs: "bs = xs @ fp # ys" using fp(1) by (meson split_list)
  note a = a [unfolded bs] and m = m [unfolded bs]
  have "unat (sz + 32) = unat sz + 32" using z(4) unat_add_offset [of sz 32] by simp
  then have c: "a_size h fp \<ge> sz + 2 * ARENA_HEADER_SIZE \<longleftrightarrow> unat sz + 32 \<le> unat (a_size h fp)" by (simp add: word_le_nat_alt)
  show thesis
  proof (cases "unat sz + 32 \<le> unat (a_size h fp)")
    case True
    have e: "malloc_from_block fp sz h = (split_block fp sz h, fp + ARENA_HEADER_SIZE)"
      using True c by (simp add: malloc_from_block_def split_block_def Let_def)
    have s: "same_process h (split_block fp sz h)" by (simp add: same_process_def split_block_def Let_def heap_field_defs)
    show thesis
      by (rule from_block_split [OF a m fp(2) True z(2,3) refl]) (rule that [OF e _ _ _ order_refl s], simp_all add: bs)
  next
    case False
    let ?h = "remove_from_free_chain fp (set_type fp ARENA_TYPE_USED h)"
    have e: "malloc_from_block fp sz h = (?h, fp + ARENA_HEADER_SIZE)" using False c by (simp add: malloc_from_block_def Let_def)
    have s: "same_process h ?h" by (simp add: same_process_def remove_from_free_chain_def set_type_def)
    note w = from_block_whole [OF a m fp(2) refl]
    show thesis by (rule that [OF e w(1,2) _ z(1) s]) (simp add: w(3) bs)
  qed
qed

section \<open>Release of a block\<close>

definition free_left :: "u32 \<Rightarrow> u32 \<Rightarrow> 'k uheap \<Rightarrow> 'k uheap \<times> u32" where
  "free_left mh ah h =
    (let pah = prev (a_links h) ah; nah = next (a_links h) ah
     in if a_type h pah = ARENA_TYPE_FREE \<and> pah + a_size h pah = ah then
          ((set_size pah (a_size h pah + a_size h ah) h)\<lparr>a_links := set_prev nah pah (set_next pah nah (a_links h))\<rparr>, pah)
        else
          let l1 = set_prev ah mh (set_next ah (next (f_links h) mh) (f_links h)); l2 = set_next mh ah l1
          in ((set_type ah ARENA_TYPE_FREE h)\<lparr>f_links := set_prev (next l2 ah) ah l2\<rparr>, ah))"

definition free_right :: "u32 \<Rightarrow> u32 \<Rightarrow> 'k uheap \<Rightarrow> 'k uheap" where
  "free_right nah ah h =
    (if a_type h nah = ARENA_TYPE_FREE \<and> ah + a_size h ah = nah
     then remove_from_chains nah (set_size ah (a_size h ah + a_size h nah) h) else h)"

lemma free_block_steps:
  "free_block mh ah h = (let nah = next (a_links h) ah; (h1, ah1) = free_left mh ah h in (free_right nah ah1 h1, ah1))"
  unfolding free_block_def free_left_def free_right_def Let_def by (auto split: prod.splits)

lemma free_left_merges:
  assumes a: "arena mh lo hi {ah} h ((xs @ [p]) @ ah # ys) fs" and m: "merged_arena h (xs @ [p])"
    and f: "a_type h p = ARENA_TYPE_FREE" "p + a_size h p = ah"
    and g: "h' = (set_size p (a_size h p + a_size h ah) h)\<lparr>a_links := unchain ah (a_links h)\<rparr>"
  shows "arena mh lo hi {} h' (xs @ p # ys) fs" and "merged_arena h' (xs @ [p])"
    and "unat (a_size h ah) \<le> unat (a_size h' p)" and "used h' (xs @ p # ys) = used h (xs @ p # ah # ys) - {(ah, a_size h ah)}"
proof -
  note d = arenaD [OF a]
  have ne: "ah \<noteq> mh" "ah \<notin> set xs" "ah \<notin> set ys" "ah \<noteq> p" "p \<notin> set xs" "p \<notin> set ys" using d(9,10) by auto
  have d6: "blocks_ok lo hi (a_size h) (xs @ p # ah # ys)" using d(6) by simp
  note bm = blocks_merge [OF d6 d(8) f(2)]
  have "klist (unchain ah (a_links h)) mh ((xs @ [p]) @ ys)" using d(1) by (rule klist_unchain)
  then show "arena mh lo hi {} h' (xs @ p # ys) fs"
    using d bm(2) ne unfolding arena_def g by (auto simp: set_size_def)
  have "merged_arena h' xs = merged_arena h xs" using ne by (auto intro!: merged_arena_cong simp: g set_size_def)
  moreover have "xs \<noteq> [] \<Longrightarrow> last xs \<noteq> p" using ne(5) by auto
  ultimately show "merged_arena h' (xs @ [p])"
    using m unfolding merged_arena_append by (auto simp: adjacent_def g set_size_def)
  show "unat (a_size h ah) \<le> unat (a_size h' p)" using bm(1) by (simp add: g set_size_def)
  show "used h' (xs @ p # ys) = used h (xs @ p # ah # ys) - {(ah, a_size h ah)}"
    using ne f(1) by (auto simp: used_def g set_size_def)
qed

lemma free_left_inserts:
  assumes a: "arena mh lo hi {ah} h (xs @ ah # ys) fs" and m: "merged_arena h xs"
    and f: "xs \<noteq> [] \<Longrightarrow> \<not> (a_type h (last xs) = ARENA_TYPE_FREE \<and> last xs + a_size h (last xs) = ah)"
    and l: "next l = (next (f_links h))(ah := next (f_links h) mh, mh := ah)" "prev l = (prev (f_links h))(ah := mh, next (f_links h) mh := ah)"
    and g: "h' = (set_type ah ARENA_TYPE_FREE h)\<lparr>f_links := l\<rparr>"
  shows "arena mh lo hi {} h' (xs @ ah # ys) (ah # fs)" and "merged_arena h' (xs @ [ah])"
    and "used h' (xs @ ah # ys) = used h (xs @ ah # ys) - {(ah, a_size h ah)}"
proof -
  note d = arenaD [OF a]
  have ne: "ah \<noteq> mh" "ah \<notin> set xs" "ah \<notin> set ys" "ah \<notin> set fs" using d(5,9,10) by auto
  have "klist l mh ([] @ ah # fs)" using d(2) ne l by (intro klist_insert_after [of "f_links h" mh "[]" fs ah mh]) auto
  then show "arena mh lo hi {} h' (xs @ ah # ys) (ah # fs)"
    using d ne unfolding arena_def g by (auto simp: set_type_def)
  have "merged_arena h' xs = merged_arena h xs" using ne by (auto intro!: merged_arena_cong simp: g set_type_def)
  moreover have "xs \<noteq> [] \<Longrightarrow> last xs \<noteq> ah" using ne(2) by auto
  ultimately show "merged_arena h' (xs @ [ah])"
    using m f unfolding merged_arena_append by (auto simp: adjacent_def g set_type_def)
  show "used h' (xs @ ah # ys) = used h (xs @ ah # ys) - {(ah, a_size h ah)}"
    using ne by (auto simp: used_def g set_type_def)
qed

lemma free_left_ok:
  assumes a: "arena mh lo hi {ah} h (xs @ ah # ys) fs" and m: "merged_arena h xs"
  obtains h' b xs' fs' where "free_left mh ah h = (h', b)" and "arena mh lo hi {} h' (xs' @ b # ys) fs'" and "merged_arena h' (xs' @ [b])"
    and "a_type h' b = ARENA_TYPE_FREE" and "\<forall>c \<in> set ys. a_type h' c = a_type h c \<and> a_size h' c = a_size h c"
    and "used h' (xs' @ b # ys) = used h (xs @ ah # ys) - {(ah, a_size h ah)}" and "same_process h h'"
    and "unat (a_size h ah) \<le> unat (a_size h' b)"
proof -
  note d = arenaD [OF a]
  let ?p = "prev (a_links h) ah"
  have p: "?p = last (mh # xs)" using klist_prev_of [OF d(1)] .
  have ne: "ah \<noteq> mh" "ah \<notin> set xs" "ah \<notin> set ys" using d(9,10) by auto
  show thesis
  proof (cases "a_type h ?p = ARENA_TYPE_FREE \<and> ?p + a_size h ?p = ah")
    case True
    then have "xs \<noteq> []" using p d(3) by auto
    then obtain xs0 q where xs: "xs = xs0 @ [q]" by (metis rev_exhaust)
    then have q: "?p = q" using p by simp
    let ?h = "(set_size q (a_size h q + a_size h ah) h)\<lparr>a_links := unchain ah (a_links h)\<rparr>"
    have e: "free_left mh ah h = (?h, q)" using True unfolding free_left_def unchain_def Let_def q by simp
    have f: "a_type h q = ARENA_TYPE_FREE" "q + a_size h q = ah" using True q by simp_all
    note fl = free_left_merges [OF a [unfolded xs] m [unfolded xs] f refl]
    have pn: "\<forall>c \<in> set ys. a_type ?h c = a_type h c \<and> a_size ?h c = a_size h c" using d(10) xs by (auto simp: set_size_def)
    have u: "used ?h (xs0 @ q # ys) = used h (xs @ ah # ys) - {(ah, a_size h ah)}" using fl(4) xs by simp
    show thesis
      by (rule that [OF e fl(1,2) _ pn u _ fl(3)]) (simp_all add: f set_size_def same_process_def)
  next
    case False
    let ?l1 = "set_prev ah mh (set_next ah (next (f_links h) mh) (f_links h))"
    let ?l = "set_prev (next (set_next mh ah ?l1) ah) ah (set_next mh ah ?l1)" and ?h = "set_type ah ARENA_TYPE_FREE h"
    have e: "free_left mh ah h = (?h\<lparr>f_links := ?l\<rparr>, ah)" unfolding free_left_def Let_def by (simp only: False if_False)
    have l: "next ?l = (next (f_links h))(ah := next (f_links h) mh, mh := ah)" "prev ?l = (prev (f_links h))(ah := mh, next (f_links h) mh := ah)"
      using ne(1) by auto
    have "xs \<noteq> [] \<Longrightarrow> \<not> (a_type h (last xs) = ARENA_TYPE_FREE \<and> last xs + a_size h (last xs) = ah)" using False p by auto
    note fl = free_left_inserts [OF a m this l refl]
    show thesis
      by (rule that [OF e fl(1,2) _ _ fl(3)]) (use ne in \<open>auto simp: set_type_def same_process_def\<close>)
  qed
qed

lemma free_right_merges:
  assumes a: "arena mh lo hi {} h (xs @ b # c # ys) fs" and m: "merged_arena h (xs @ [b])" "merged_arena h (c # ys)"
    and f: "adjacent h b c" and g: "h' = remove_from_chains c (set_size b (a_size h b + a_size h c) h)"
  shows "arena mh lo hi {} h' (xs @ b # ys) (remove1 c fs)" and "merged_arena h' (xs @ b # ys)" and "a_type h' = a_type h"
    and "unat (a_size h b) \<le> unat (a_size h' b)" and "used h' (xs @ b # ys) = used h (xs @ b # c # ys)"
proof -
  note d = arenaD [OF a]
  have ne: "c \<noteq> mh" "c \<notin> set xs" "c \<notin> set ys" "c \<noteq> b" "b \<notin> set xs" "b \<notin> set ys" using d(9,10) by auto
  note fb = f [unfolded adjacent_def]
  note bm = blocks_merge [OF d(6,8) conjunct2 [OF conjunct2 [OF fb]]]
  have "c \<in> set fs" using d(5) fb by simp
  then obtain f1 f2 where fs: "fs = f1 @ c # f2" "c \<notin> set f1" by (meson split_list_first)
  have "distinct fs" using klist_distinct [OF d(2)] by simp
  then have r: "remove1 c fs = f1 @ f2" "set (remove1 c fs) = set fs - {c}" using fs by (auto simp: remove1_append)
  have h': "a_type h' = a_type h" "a_size h' = (a_size h)(b := a_size h b + a_size h c)"
      "a_links h' = unchain c (a_links h)" "f_links h' = unchain c (f_links h)"
    by (simp_all add: g remove_from_chains_def remove_from_main_chain_def remove_from_free_chain_def set_size_def)
  show "a_type h' = a_type h" by (rule h'(1))
  have "klist (a_links h') mh ((xs @ [b]) @ ys)" "klist (f_links h') mh (f1 @ f2)"
    unfolding h' using d(1,2) fs klist_unchain [of "a_links h" mh "xs @ [b]" c ys] klist_unchain [of "f_links h" mh f1 c f2] by simp_all
  then show "arena mh lo hi {} h' (xs @ b # ys) (remove1 c fs)"
    using d bm(2) r ne unfolding arena_def h' by auto
  have mc: "merged_arena h ys" "ys \<noteq> [] \<Longrightarrow> \<not> adjacent h c (hd ys)" using m(2) merged_arena_append [of h "[]" c ys] by simp_all
  have mb: "merged_arena h xs" "xs \<noteq> [] \<Longrightarrow> \<not> adjacent h (last xs) b" using m(1) by (simp_all add: merged_arena_append)
  have "merged_arena h' xs = merged_arena h xs" "merged_arena h' ys = merged_arena h ys"
    using ne by (auto intro!: merged_arena_cong simp: h')
  moreover have "xs \<noteq> [] \<Longrightarrow> last xs \<noteq> b" "ys \<noteq> [] \<Longrightarrow> hd ys \<noteq> b" using ne(5,6) by (auto dest: hd_in_set last_in_set)
  ultimately show "merged_arena h' (xs @ b # ys)"
    using mc mb fb unfolding merged_arena_append by (auto simp: adjacent_def h' add.assoc)
  show "unat (a_size h b) \<le> unat (a_size h' b)" using bm(1) by (simp add: h')
  show "used h' (xs @ b # ys) = used h (xs @ b # c # ys)" using ne fb by (auto simp: used_def h')
qed

lemma free_right_ok:
  assumes a: "arena mh lo hi {} h (xs @ b # ys) fs" and m: "merged_arena h (xs @ [b])" "merged_arena h ys" and f: "a_type h b = ARENA_TYPE_FREE"
    and n: "nah = hd (ys @ [mh])"
  obtains ys' fs' where "arena mh lo hi {} (free_right nah b h) (xs @ b # ys') fs'" and "merged_arena (free_right nah b h) (xs @ b # ys')"
    and "a_type (free_right nah b h) b = ARENA_TYPE_FREE" and "unat (a_size h b) \<le> unat (a_size (free_right nah b h) b)"
    and "used (free_right nah b h) (xs @ b # ys') = used h (xs @ b # ys)" and "same_process h (free_right nah b h)"
proof (cases "ys \<noteq> [] \<and> adjacent h b nah")
  case True
  then obtain ys0 where ys: "ys = nah # ys0" using n by (cases ys) auto
  have e: "free_right nah b h = remove_from_chains nah (set_size b (a_size h b + a_size h nah) h)"
    using True by (simp add: free_right_def adjacent_def)
  note fr = free_right_merges [OF a [unfolded ys] m [unfolded ys] conjunct2 [OF True] e]
  have "same_process h (free_right nah b h)"
    by (simp add: e same_process_def remove_from_chains_def remove_from_main_chain_def remove_from_free_chain_def set_size_def)
  then show thesis using that [OF fr(1,2)] fr f ys by simp
next
  case False
  have "a_type h mh \<noteq> ARENA_TYPE_FREE" using arenaD(3) [OF a] by simp
  then have na: "\<not> (a_type h nah = ARENA_TYPE_FREE \<and> b + a_size h b = nah)" using False n f by (auto simp: adjacent_def)
  then have e: "free_right nah b h = h" unfolding free_right_def by (simp only: if_False)
  have "merged_arena h (xs @ b # ys)"
    using m na n unfolding merged_arena_append by (auto simp: adjacent_def)
  then show thesis using that [of ys fs] a f unfolding e by (simp add: same_process_def)
qed

text \<open>What \<^verbatim>\<open>__free_block\<close> does: the block is free and part of a free block that nothing can be merged with.\<close>

lemma free_block_ok:
  assumes a: "arena mh lo hi {ah} h (xs @ ah # ys) fs" and m: "merged_arena h xs" "merged_arena h ys"
  obtains h' b bs' fs' where "free_block mh ah h = (h', b)" and "arena mh lo hi {} h' bs' fs'" and "merged_arena h' bs'" and "b \<in> set bs'"
    and "a_type h' b = ARENA_TYPE_FREE" and "unat (a_size h ah) \<le> unat (a_size h' b)"
    and "used h' bs' = used h (xs @ ah # ys) - {(ah, a_size h ah)}" and "same_process h h'"
proof -
  obtain h1 b xs' fs1 where l: "free_left mh ah h = (h1, b)" "arena mh lo hi {} h1 (xs' @ b # ys) fs1" "merged_arena h1 (xs' @ [b])"
      "a_type h1 b = ARENA_TYPE_FREE" "\<forall>c \<in> set ys. a_type h1 c = a_type h c \<and> a_size h1 c = a_size h c"
      "used h1 (xs' @ b # ys) = used h (xs @ ah # ys) - {(ah, a_size h ah)}" "same_process h h1" "unat (a_size h ah) \<le> unat (a_size h1 b)"
    by (rule free_left_ok [OF a m(1)])
  have n: "next (a_links h) ah = hd (ys @ [mh])" using klist_next_of [OF arenaD(1) [OF a]] .
  have "merged_arena h1 ys" using m(2) l(5) merged_arena_cong [of ys h1 h] by simp
  then obtain ys' fs' where r: "arena mh lo hi {} (free_right (hd (ys @ [mh])) b h1) (xs' @ b # ys') fs'"
      "merged_arena (free_right (hd (ys @ [mh])) b h1) (xs' @ b # ys')" "a_type (free_right (hd (ys @ [mh])) b h1) b = ARENA_TYPE_FREE"
      "unat (a_size h1 b) \<le> unat (a_size (free_right (hd (ys @ [mh])) b h1) b)"
      "used (free_right (hd (ys @ [mh])) b h1) (xs' @ b # ys') = used h1 (xs' @ b # ys)" "same_process h1 (free_right (hd (ys @ [mh])) b h1)"
    by (rule free_right_ok [OF l(2,3) _ l(4) refl])
  have "free_block mh ah h = (free_right (hd (ys @ [mh])) b h1, b)" by (simp add: free_block_steps l(1) n)
  then show thesis using that r l(6-8) by (fastforce simp: same_process_def)
qed

section \<open>Sizes\<close>

lemma mask_round_up:
  fixes x :: u32
  assumes "k < 32" and "unat x + 2 ^ k \<le> 2 ^ 32"
  shows "unat x \<le> unat ((x + mask k) AND NOT (mask k))" and "unat ((x + mask k) AND NOT (mask k)) < unat x + 2 ^ k"
    and "2 ^ k dvd unat ((x + mask k) AND NOT (mask k))"
proof -
  have m: "unat (mask k :: u32) = 2 ^ k - 1" using assms(1) by (simp add: mask_eq_exp_minus_1 unat_sub_pow)
  have p: "(0::nat) < 2 ^ k" by simp
  have "unat x + unat (mask k :: u32) < 2 ^ 32" using m p assms(2) by linarith
  then have "unat (x + mask k) = unat x + unat (mask k :: u32)"
    using unat_add_offset [of x "unat (mask k :: u32)"] by (simp only: of_nat_unat ucast_id)
  then have s: "unat (x + mask k) = unat x + (2 ^ k - 1)" by (simp only: m)
  let ?n = "unat x + (2 ^ k - 1)"
  have e: "unat ((x + mask k) AND NOT (mask k)) = ?n div 2 ^ k * 2 ^ k" by (simp only: and_not_mask_div s)
  have d: "?n div 2 ^ k * 2 ^ k + ?n mod 2 ^ k = ?n" "?n mod 2 ^ k < 2 ^ k" by (simp_all only: div_mult_mod_eq mod_less_divisor p)
  show "unat x \<le> unat ((x + mask k) AND NOT (mask k))" unfolding e using d p by linarith
  show "unat ((x + mask k) AND NOT (mask k)) < unat x + 2 ^ k" unfolding e using d p by linarith
  show "2 ^ k dvd unat ((x + mask k) AND NOT (mask k))" unfolding e by simp
qed

lemma masks_heap: "mask 4 = (15 :: u32)" "mask 5 = (31 :: u32)" "mask 16 = (65535 :: u32)"
  by (simp_all add: mask_eq_exp_minus_1)

lemma arena_round_ok:
  assumes "unat sz \<le> 2 ^ 31"
  shows "unat sz + 16 \<le> unat (arena_round sz)" and "unat (arena_round sz) < unat sz + 32" and "16 dvd unat (arena_round sz)" and "32 \<le> unat (arena_round sz) \<or> sz = 0"
proof -
  have u: "unat (sz + 16) = unat sz + 16" using assms unat_add_offset [of sz 16] by simp
  have e: "arena_round sz = ((sz + 16) + mask 4) AND NOT (mask 4)" by (simp add: arena_round_def masks_heap)
  have b: "unat (sz + 16) + 2 ^ 4 \<le> 2 ^ 32" using assms u by simp
  note r = mask_round_up [OF _ b, unfolded u, folded e]
  show "unat sz + 16 \<le> unat (arena_round sz)" "unat (arena_round sz) < unat sz + 32" "16 dvd unat (arena_round sz)" using r by simp_all
  then have "unat sz = 0 \<or> 32 \<le> unat (arena_round sz)" by (elim dvdE) presburger
  then show "32 \<le> unat (arena_round sz) \<or> sz = 0" by (auto simp: word_unat_eq_iff)
qed

lemma chunk_round_ok:
  assumes "unat sz \<le> 2 ^ 31"
  shows "unat sz \<le> unat ((sz + 65535) AND NOT 65535)" and "unat ((sz + 65535) AND NOT 65535) < unat sz + 65536"
    and "65536 dvd unat ((sz + 65535) AND NOT (65535 :: u32))"
  using mask_round_up [of 16 sz] assms by (simp_all add: masks_heap)

lemma align_up_ok:
  assumes "unat p + 32 \<le> 2 ^ 32"
  shows "unat p \<le> unat (align_up p SBRK_ALIGNMENT)" and "unat (align_up p SBRK_ALIGNMENT) < unat p + 32" and "32 dvd unat (align_up p SBRK_ALIGNMENT)"
  using mask_round_up [of 5 p] assms by (simp_all add: masks_heap align_up_def add.commute)

section \<open>The break\<close>

text \<open>
  What the library relies on: the call with a null pointer returns the base of the heap; any other call above the base either fails, or
  returns the new limit of the memory the program may use, which does not fall below the address asked for or the old limit.
\<close>

definition heap_inv :: "('k \<Rightarrow> bool) \<Rightarrow> ('k \<Rightarrow> u32) \<Rightarrow> ('k \<Rightarrow> u32) \<Rightarrow> u32 \<Rightarrow> 'k uheap \<Rightarrow> u32 list \<Rightarrow> u32 list \<Rightarrow> bool" where
  "heap_inv k_ok base limit mh h bs fs \<longleftrightarrow> k_ok (usys h) \<and>
    arena mh (unat (base (usys h))) (min (unat (current_brk h)) (unat (limit (usys h)))) {} h bs fs \<and> merged_arena h bs \<and>
    (current_brk h = 0 \<or> base (usys h) \<le> current_brk h) \<and> unat (current_brk h) \<le> 3 * 2 ^ 30"

definition same_blocks :: "'k uheap \<Rightarrow> 'k uheap \<Rightarrow> bool" where
  "same_blocks h h' \<longleftrightarrow> a_type h' = a_type h \<and> a_size h' = a_size h \<and> a_links h' = a_links h \<and> f_links h' = f_links h \<and> ubytes h' = ubytes h"

lemma arena_mono:
  assumes "arena mh lo hi X h bs fs" and "same_blocks h h'" and "\<forall>b \<in> set bs. unat b + unat (a_size h b) \<le> hi'" and "hi' < 2 ^ 32"
  shows "arena mh lo hi' X h' bs fs"
  using assms unfolding arena_def same_blocks_def blocks_ok_def by auto

lemma blocks_end: "arena mh lo hi X h bs fs \<Longrightarrow> b \<in> set bs \<Longrightarrow> unat b + unat (a_size h b) \<le> hi"
  by (simp add: arena_def blocks_ok_def)

lemma same_blocks_used: "same_blocks h h' \<Longrightarrow> used h' bs = used h bs \<and> (merged_arena h' bs \<longleftrightarrow> merged_arena h bs)"
  using merged_arena_cong [of bs h' h] by (auto simp: same_blocks_def used_def)

lemma find_fit_kseg:
  assumes "kseg (f_links h) a fs mh" and "a_type h mh = ARENA_TYPE_HEAD" and "\<forall>b \<in> set fs. a_type h b \<noteq> ARENA_TYPE_HEAD"
  shows "find_fit h sz (next (f_links h) a) = Some (find (\<lambda>b. sz \<le> a_size h b) fs)"
  using assms by (induction fs arbitrary: a) (auto simp: find_fit.simps)

lemma find_fit_ok: "arena mh lo hi {} h bs fs \<Longrightarrow> find_fit h sz (next (f_links h) mh) = Some (find (\<lambda>b. sz \<le> a_size h b) fs)"
  by (rule find_fit_kseg) (auto simp: arena_def klist_def)

lemma free_not_used: "a_type h b = ARENA_TYPE_FREE \<Longrightarrow> (b, s) \<notin> used h bs"
  by (auto simp: used_def)

lemma block_pointer:
  assumes "arena mh lo hi X h bs fs" and "b \<in> set bs"
  shows "unat (b + ARENA_HEADER_SIZE) = unat b + 16" and "b + ARENA_HEADER_SIZE \<noteq> 0"
proof -
  have "unat b + unat (a_size h b) \<le> hi" "32 \<le> unat (a_size h b)" "hi < 2 ^ 32" using assms by (simp_all add: arena_def blocks_ok_def)
  then show e: "unat (b + ARENA_HEADER_SIZE) = unat b + 16" using unat_add_offset [of b 16] by simp
  then show "b + ARENA_HEADER_SIZE \<noteq> 0" by (metis add_is_0 unsigned_0 zero_neq_numeral)
qed

text \<open>A block from the system goes to the end of the main chain.\<close>

lemma chunk_new:
  assumes a: "arena mh lo hi X h bs fs" and e: "\<forall>b \<in> set bs. unat b + unat (a_size h b) \<le> unat fp" and "lo \<le> unat fp"
  shows "fp \<notin> set (mh # bs)"
proof -
  have "32 \<le> unat (a_size h b)" if "b \<in> set bs" for b using arenaD(6) [OF a] that by (simp add: blocks_ok_def)
  then show ?thesis using e arenaD(7) [OF a] assms(3) by force
qed

lemma add_chunk:
  assumes a: "arena mh lo hi {} h bs fs" and m: "merged_arena h bs" and e: "\<forall>b \<in> set bs. unat b + unat (a_size h b) \<le> unat fp" and fp: "lo \<le> unat fp" "16 dvd unat fp"
    and z: "16 dvd unat z" "32 \<le> unat z" and hi: "unat fp + unat z \<le> hi"
    and g: "h1 = set_size fp z (set_type fp ARENA_TYPE_FREE h)"
  shows "find_place h1 fp (prev (a_links h1) mh) = Some (last (mh # bs))"
    and "next l = (next (a_links h))(fp := next (a_links h) (last (mh # bs)), last (mh # bs) := fp) \<Longrightarrow>
      prev l = (prev (a_links h))(fp := last (mh # bs), next (a_links h) (last (mh # bs)) := fp) \<Longrightarrow>
      arena mh lo hi {fp} (h1\<lparr>a_links := l\<rparr>) (bs @ [fp]) fs"
    and "merged_arena (h1\<lparr>a_links := l\<rparr>) bs" and "used (h1\<lparr>a_links := l\<rparr>) (bs @ [fp]) = used h bs"
proof -
  note d = arenaD [OF a]
  have big: "32 \<le> unat (a_size h b)" if "b \<in> set bs" for b using d(6) that by (simp add: blocks_ok_def)
  have ne: "fp \<noteq> mh" "fp \<notin> set bs" using chunk_new [OF a e fp(1)] by auto
  have h1: "a_type h1 = (a_type h)(fp := ARENA_TYPE_FREE)" "a_size h1 = (a_size h)(fp := z)" "a_links h1 = a_links h" "f_links h1 = f_links h"
    by (simp_all add: g heap_field_defs)
  have "a_type h1 (last (mh # bs)) = ARENA_TYPE_HEAD \<or> last (mh # bs) < fp"
  proof (cases "bs = []")
    case False
    then have "unat (last bs) + unat (a_size h (last bs)) \<le> unat fp" "32 \<le> unat (a_size h (last bs))" using e big by simp_all
    then show ?thesis using False by (simp add: word_less_nat_alt)
  qed (use ne d(3) h1 in simp)
  then show "find_place h1 fp (prev (a_links h1) mh) = Some (last (mh # bs))"
    using klist_prev [OF d(1)] by (subst find_place.simps) (simp add: h1)
  show "arena mh lo hi {fp} (h1\<lparr>a_links := l\<rparr>) (bs @ [fp]) fs"
    if l: "next l = (next (a_links h))(fp := next (a_links h) (last (mh # bs)), last (mh # bs) := fp)"
      "prev l = (prev (a_links h))(fp := last (mh # bs), next (a_links h) (last (mh # bs)) := fp)"
  proof -
    have "klist l mh (bs @ fp # [])" using d(1) ne by (intro klist_insert_after [OF _ _ refl l]) simp_all
    moreover have "sorted_wrt (\<lambda>a b. unat a + unat (a_size h1 a) \<le> unat b) bs"
      using d(6) ne by (auto simp: blocks_ok_def h1 elim!: sorted_wrt_mono_rel [rotated])
    then have "blocks_ok lo hi (a_size h1) (bs @ [fp])" using d(6) ne e fp z hi by (auto simp: blocks_ok_def sorted_wrt_append h1)
    ultimately show ?thesis using d ne unfolding arena_def by (auto simp: h1)
  qed
  have "merged_arena (h1\<lparr>a_links := l\<rparr>) bs = merged_arena h bs" using ne by (intro merged_arena_cong) (auto simp: h1)
  then show "merged_arena (h1\<lparr>a_links := l\<rparr>) bs" using m by simp
  show "used (h1\<lparr>a_links := l\<rparr>) (bs @ [fp]) = used h bs" using ne by (auto simp: used_def h1)
qed

text \<open>What \<^verbatim>\<open>malloc\<close> gives to its caller.\<close>

definition gets :: "'k uheap \<Rightarrow> u32 list \<Rightarrow> u32 \<Rightarrow> 'k uheap \<Rightarrow> u32 list \<Rightarrow> u32 \<Rightarrow> bool" where
  "gets h bs n h' bs' p \<longleftrightarrow> p \<noteq> 0 \<and> (\<exists>b s. p = b + ARENA_HEADER_SIZE \<and> used h' bs' = insert (b, s) (used h bs) \<and> b \<notin> fst ` used h bs \<and> unat n + 16 \<le> unat s)"

text \<open>A free block leaves both chains.\<close>

lemma remove_free:
  assumes a: "arena mh lo hi {} h (xs @ c # ys) fs" and f: "a_type h c = ARENA_TYPE_FREE" and g: "h' = remove_from_chains c h"
  shows "arena mh lo hi {} h' (xs @ ys) (remove1 c fs)" and "used h' (xs @ ys) = used h (xs @ c # ys)"
    and "a_type h' = a_type h" and "a_size h' = a_size h" and "same_process h h'"
proof -
  note d = arenaD [OF a]
  have ne: "c \<notin> set xs" "c \<notin> set ys" using d(10) by auto
  have "c \<in> set fs" using d(5) f by simp
  then obtain f1 f2 where fs: "fs = f1 @ c # f2" "c \<notin> set f1" by (meson split_list_first)
  have "distinct fs" using klist_distinct [OF d(2)] by simp
  then have r: "remove1 c fs = f1 @ f2" "set (remove1 c fs) = set fs - {c}" using fs by (auto simp: remove1_append)
  have h': "a_type h' = a_type h" "a_size h' = a_size h" "a_links h' = unchain c (a_links h)" "f_links h' = unchain c (f_links h)"
    by (simp_all add: g remove_from_chains_def remove_from_main_chain_def remove_from_free_chain_def)
  have "klist (a_links h') mh (xs @ ys)" "klist (f_links h') mh (f1 @ f2)"
    unfolding h' using d(1,2) fs klist_unchain [of "a_links h" mh xs c ys] klist_unchain [of "f_links h" mh f1 c f2] by simp_all
  then show "arena mh lo hi {} h' (xs @ ys) (remove1 c fs)" using d ne r blocks_remove [OF d(6)] unfolding arena_def h' by auto
  show "used h' (xs @ ys) = used h (xs @ c # ys)" using f by (auto simp: used_def h')
  show "a_type h' = a_type h" "a_size h' = a_size h" by (rule h')+
  show "same_process h h'" by (simp add: g same_process_def remove_from_chains_def remove_from_main_chain_def remove_from_free_chain_def)
qed

locale program_break =
  fixes sys_brk :: "u32 \<Rightarrow> 'k \<Rightarrow> 'k \<times> u32" and k_ok :: "'k \<Rightarrow> bool" and base :: "'k \<Rightarrow> u32" and limit :: "'k \<Rightarrow> u32"
  assumes brk_query: "k_ok k \<Longrightarrow> sys_brk 0 k = (k, base k)"
    and brk_space: "k_ok k \<Longrightarrow> 0 < unat (base k) \<and> unat (limit k) \<le> 3 * 2 ^ 30"
    and brk_result: "k_ok k \<Longrightarrow> base k \<le> a \<Longrightarrow> sys_brk a k = (k', r) \<Longrightarrow>
      k_ok k' \<and> base k' = base k \<and> (r = - 1 \<and> limit k' = limit k \<or> r = limit k' \<and> min a (limit k) \<le> limit k')"
    and base_limit: "k_ok k \<Longrightarrow> base k \<le> limit k"
begin

lemma heap_invI:
  assumes i: "heap_inv k_ok base limit mh h bs fs" and s: "same_blocks h h'" and k: "k_ok (usys h')" "base (usys h') = base (usys h)"
    and c: "current_brk h' \<noteq> 0 \<Longrightarrow> base (usys h) \<le> current_brk h'" "unat (current_brk h') \<le> 3 * 2 ^ 30"
    and e: "\<forall>b \<in> set bs. unat b + unat (a_size h b) \<le> unat (current_brk h') \<and> unat b + unat (a_size h b) \<le> unat (limit (usys h'))"
  shows "heap_inv k_ok base limit mh h' bs fs"
proof -
  have "min (unat (current_brk h')) (unat (limit (usys h'))) < 2 ^ 32" using c(2) by simp
  then show ?thesis
    using i k c e arena_mono [of mh _ _ "{}" h bs fs h'] same_blocks_used [OF s] s unfolding heap_inv_def by auto
qed

lemma sbrk_ok:
  assumes i: "heap_inv k_ok base limit mh h bs fs" and inc: "0 < unat inc" "unat inc \<le> 2 ^ 30 - 64" and r: "lib_sbrk sys_brk inc h = (h', p)"
  shows "same_blocks h h'" and "heap_inv k_ok base limit mh h' bs fs" and "base (usys h') = base (usys h)"
    and "p = - 1 \<or> (\<forall>b \<in> set bs. unat b + unat (a_size h b) \<le> unat p) \<and> 32 dvd unat p \<and> unat (base (usys h)) \<le> unat p \<and>
      unat p + unat inc \<le> min (unat (current_brk h')) (unat (limit (usys h')))"
proof -
  let ?k = "usys h"
  define c where "c = (if current_brk h = 0 then base ?k else current_brk h)"
  define st where "st = align_up c SBRK_ALIGNMENT"
  obtain k' nb where b: "sys_brk (st + inc) ?k = (k', nb)" by fastforce
  have k: "k_ok ?k" "unat (current_brk h) \<le> 3 * 2 ^ 30" using i by (simp_all add: heap_inv_def)
  note sp = brk_space [OF k(1)] base_limit [OF k(1)]
  have c: "base ?k \<le> c" "unat c \<le> 3 * 2 ^ 30" "c \<noteq> 0" "unat (current_brk h) \<le> unat c" using i k sp by (auto simp: c_def heap_inv_def word_le_nat_alt)
  have ends: "unat b + unat (a_size h b) \<le> unat c" "unat b + unat (a_size h b) \<le> unat (limit ?k)" if "b \<in> set bs" for b
    using that i blocks_end [of mh _ _ "{}" h bs fs b] c(4) by (fastforce simp: heap_inv_def)+
  have st: "unat c \<le> unat st" "unat st < unat c + 32" "32 dvd unat st" using align_up_ok [of c] c(2) by (simp_all add: st_def)
  have en: "unat (st + inc) = unat st + unat inc" using st(2) c(2) inc(2) unat_add_offset [of st "unat inc"] by simp
  have "base ?k \<le> st + inc" using en st(1) c(1) by (simp add: word_le_nat_alt)
  note res = brk_result [OF k(1) this b]
  have f: "lib_sbrk sys_brk inc h = (if nb = - 1 then (h\<lparr>current_brk := c, usys := k'\<rparr>, - 1)
      else if nb < st + inc then (h\<lparr>current_brk := c, uerrno := USER_ENOMEM, usys := k'\<rparr>, - 1) else (h\<lparr>current_brk := nb, usys := k'\<rparr>, st))"
    using b brk_query [OF k(1)] unfolding lib_sbrk_def c_def st_def by (auto simp: Let_def)
  have h': "current_brk h' = (if nb = - 1 \<or> nb < st + inc then c else nb)" "usys h' = k'" "p = (if nb = - 1 \<or> nb < st + inc then - 1 else st)"
    and s: "same_blocks h h'"
    using r unfolding f by (auto simp: same_blocks_def split: if_splits)
  show "same_blocks h h'" by (rule s)
  show bs: "base (usys h') = base ?k" using res by (simp add: h')
  have nb: "nb \<noteq> - 1 \<Longrightarrow> nb = limit k'" and lk: "unat (limit k') \<le> 3 * 2 ^ 30" using res brk_space [of k'] by auto
  have neg: "limit k' \<noteq> - 1"
  proof
    assume "limit k' = - 1"
    then show False using lk by (simp add: unsigned_minus_1_eq_mask mask_eq_exp_minus_1)
  qed
  have lim: "unat (limit ?k) \<le> unat (limit k')" if "nb = - 1 \<or> nb < st + inc"
    using res that neg by (auto simp: word_le_nat_alt word_less_nat_alt min_def split: if_splits)
  have ok: "nb = limit k'" "unat (st + inc) \<le> unat nb" if "\<not> (nb = - 1 \<or> nb < st + inc)" using that nb by (auto simp: word_less_nat_alt)
  have "\<forall>b \<in> set bs. unat b + unat (a_size h b) \<le> unat (current_brk h') \<and> unat b + unat (a_size h b) \<le> unat (limit (usys h'))"
    using ends lim ok en st(1) by (cases "nb = - 1 \<or> nb < st + inc") (fastforce simp: h')+
  moreover have "base ?k \<le> current_brk h'" "unat (current_brk h') \<le> 3 * 2 ^ 30"
    using c lk ok en st(1) by (auto simp: h' word_le_nat_alt)
  ultimately show "heap_inv k_ok base limit mh h' bs fs" using res by (intro heap_invI [OF i s _ bs]) (simp_all add: h')
  show "p = - 1 \<or> (\<forall>b \<in> set bs. unat b + unat (a_size h b) \<le> unat p) \<and> 32 dvd unat p \<and> unat (base ?k) \<le> unat p \<and>
      unat p + unat inc \<le> min (unat (current_brk h')) (unat (limit (usys h')))"
    using ends st c(1) ok en by (cases "nb = - 1 \<or> nb < st + inc") (fastforce simp: h' word_le_nat_alt)+
qed

lemma alloc_from_free:
  assumes i: "heap_inv k_ok base limit mh h bs fs" and fp: "fp \<in> set bs" "a_type h fp = ARENA_TYPE_FREE" "sz \<le> a_size h fp"
    and z: "16 dvd unat sz" "32 \<le> unat sz" "unat sz + 32 < 2 ^ 32"
  obtains h' bs' fs' s where "malloc_from_block fp sz h = (h', fp + ARENA_HEADER_SIZE)" and "heap_inv k_ok base limit mh h' bs' fs'"
    and "used h' bs' = insert (fp, s) (used h bs)" and "sz \<le> s" and "same_process h h'"
proof -
  have a: "arena mh (unat (base (usys h))) (min (unat (current_brk h)) (unat (limit (usys h)))) {} h bs fs" "merged_arena h bs" using i by (simp_all add: heap_inv_def)
  show thesis
    by (rule from_block_ok [OF a fp z]) (rule that, use i in \<open>auto simp: heap_inv_def same_process_def\<close>)
qed

lemma alloc_gets:
  assumes i: "heap_inv k_ok base limit mh h bs fs" and fp: "fp \<in> set bs" "a_type h fp = ARENA_TYPE_FREE" "arena_round n \<le> a_size h fp"
    and n: "0 < unat n" "unat n \<le> 2 ^ 29"
  obtains h' bs' fs' where "malloc_from_block fp (arena_round n) h = (h', fp + ARENA_HEADER_SIZE)" and "heap_inv k_ok base limit mh h' bs' fs'"
    and "gets h bs n h' bs' (fp + ARENA_HEADER_SIZE)" and "same_process h h'"
proof -
  note r = arena_round_ok [of n]
  have z: "16 dvd unat (arena_round n)" "32 \<le> unat (arena_round n)" "unat (arena_round n) + 32 < 2 ^ 32" "unat n + 16 \<le> unat (arena_round n)"
    using r n by auto
  have p: "fp + ARENA_HEADER_SIZE \<noteq> 0" using block_pointer(2) i fp(1) unfolding heap_inv_def by blast
  show thesis
  proof (rule alloc_from_free [OF i fp z(1-3)])
    fix h' bs' fs' s
    assume *: "malloc_from_block fp (arena_round n) h = (h', fp + ARENA_HEADER_SIZE)" "heap_inv k_ok base limit mh h' bs' fs'"
      "used h' bs' = insert (fp, s) (used h bs)" "arena_round n \<le> s" "same_process h h'"
    then have "gets h bs n h' bs' (fp + ARENA_HEADER_SIZE)"
      using p free_not_used [OF fp(2)] z(4) by (force simp: gets_def word_le_nat_alt)
    with * show thesis by (intro that)
  qed
qed

lemma malloc_chunk:
  assumes i: "heap_inv k_ok base limit mh h1 bs fs" and n: "0 < unat n" "unat n \<le> 2 ^ 29"
    and f: "fsize = (arena_round n + 65535) AND NOT 65535"
    and e: "\<forall>b \<in> set bs. unat b + unat (a_size h1 b) \<le> unat fp" "32 dvd unat fp" "unat (base (usys h1)) \<le> unat fp"
      "unat fp + unat fsize \<le> min (unat (current_brk h1)) (unat (limit (usys h1)))"
    and h2: "h2 = set_size fp fsize (set_type fp ARENA_TYPE_FREE h1)"
    and l: "next l = (next (a_links h1))(fp := next (a_links h1) (last (mh # bs)), last (mh # bs) := fp)"
      "prev l = (prev (a_links h1))(fp := last (mh # bs), next (a_links h1) (last (mh # bs)) := fp)"
  obtains h3 b h' bs' fs' where "free_block mh fp (h2\<lparr>a_links := l\<rparr>) = (h3, b)" and "malloc_from_block b (arena_round n) h3 = (h', b + ARENA_HEADER_SIZE)"
    and "heap_inv k_ok base limit mh h' bs' fs'" and "gets h1 bs n h' bs' (b + ARENA_HEADER_SIZE)" and "same_process h1 h'"
proof -
  let ?h = "h2\<lparr>a_links := l\<rparr>"
  have a: "arena mh (unat (base (usys h1))) (min (unat (current_brk h1)) (unat (limit (usys h1)))) {} h1 bs fs" "merged_arena h1 bs"
    using i by (simp_all add: heap_inv_def)
  have r: "16 dvd unat (arena_round n)" "32 \<le> unat (arena_round n)" "unat (arena_round n) \<le> 2 ^ 31" using arena_round_ok [of n] n by auto
  note cr = chunk_round_ok [OF r(3), folded f]
  have z: "16 dvd unat fsize" "32 \<le> unat fsize" "16 dvd unat fp"
    using cr r(2) e(2) by (auto intro: dvd_trans [of 16 65536] dvd_trans [of 16 32])
  note ac = add_chunk [OF a e(1) e(3) z(3) z(1,2) e(4) h2]
  have sp: "same_process h1 ?h" "a_size ?h fp = fsize" by (simp_all add: h2 same_process_def heap_field_defs)
  show thesis
  proof (rule free_block_ok [of mh _ _ fp ?h bs "[]" fs, OF ac(2) [OF l] ac(3)])
    fix h3 b bs3 fs3
    assume *: "free_block mh fp ?h = (h3, b)" "arena mh (unat (base (usys h1))) (min (unat (current_brk h1)) (unat (limit (usys h1)))) {} h3 bs3 fs3"
      "merged_arena h3 bs3" "b \<in> set bs3" "a_type h3 b = ARENA_TYPE_FREE" "unat (a_size ?h fp) \<le> unat (a_size h3 b)"
      "used h3 bs3 = used ?h (bs @ [fp]) - {(fp, a_size ?h fp)}" "same_process ?h h3"
    have "heap_inv k_ok base limit mh h3 bs3 fs3" using * i sp by (simp add: heap_inv_def same_process_def)
    moreover have "arena_round n \<le> a_size h3 b" using *(6) sp(2) cr(1) by (simp add: word_le_nat_alt)
    ultimately obtain h' bs' fs' where m: "malloc_from_block b (arena_round n) h3 = (h', b + ARENA_HEADER_SIZE)" "heap_inv k_ok base limit mh h' bs' fs'"
        "gets h3 bs3 n h' bs' (b + ARENA_HEADER_SIZE)" "same_process h3 h'"
      using alloc_gets [OF _ *(4,5) _ n] by metis
    have "a_type ?h fp = ARENA_TYPE_FREE" by (simp add: h2 heap_field_defs)
    then have "used h3 bs3 = used h1 bs" using *(7) ac(4) [of l] free_not_used [of ?h fp "a_size ?h fp" "bs @ [fp]"] by auto
    then have "gets h1 bs n h' bs' (b + ARENA_HEADER_SIZE)" using m(3) by (simp add: gets_def)
    moreover have "same_process h1 h'" using sp(1) *(8) m(4) by (simp add: same_process_def)
    ultimately show thesis using that *(1) m(1,2) by blast
  qed simp_all
qed

lemma malloc_new_chunk:
  assumes i: "heap_inv k_ok base limit mh h1 bs fs" and n: "0 < unat n" "unat n \<le> 2 ^ 29"
    and f: "fsize = (arena_round n + 65535) AND NOT 65535"
    and e: "(\<forall>b \<in> set bs. unat b + unat (a_size h1 b) \<le> unat fp) \<and> 32 dvd unat fp \<and> unat (base (usys h1)) \<le> unat fp \<and>
      unat fp + unat fsize \<le> min (unat (current_brk h1)) (unat (limit (usys h1)))"
    and fp: "fp \<noteq> - 1" and sb: "lib_sbrk sys_brk fsize h = (h1, fp)" and ff: "find_fit h (arena_round n) (next (f_links h) mh) = Some None"
  obtains h' b bs' fs' where "malloc sys_brk mh n h = Some (h', b + ARENA_HEADER_SIZE)" and "heap_inv k_ok base limit mh h' bs' fs'"
    and "gets h1 bs n h' bs' (b + ARENA_HEADER_SIZE)" and "same_process h1 h'"
proof -
  let ?h2 = "set_size fp fsize (set_type fp ARENA_TYPE_FREE h1)" and ?x = "last (mh # bs)"
  let ?l2 = "set_next ?x fp (set_prev fp ?x (set_next fp (next (a_links ?h2) ?x) (a_links ?h2)))"
  let ?l = "set_prev (next ?l2 fp) fp ?l2"
  have n0: "n \<noteq> 0" using n(1) by auto
  have a: "arena mh (unat (base (usys h1))) (min (unat (current_brk h1)) (unat (limit (usys h1)))) {} h1 bs fs" "merged_arena h1 bs"
    using i by (simp_all add: heap_inv_def)
  note e = conjunct1 [OF e] conjunct1 [OF conjunct2 [OF e]] conjunct1 [OF conjunct2 [OF conjunct2 [OF e]]] conjunct2 [OF conjunct2 [OF conjunct2 [OF e]]]
  have r: "32 \<le> unat (arena_round n)" "unat (arena_round n) \<le> 2 ^ 31" using arena_round_ok [of n] n by auto
  note cr = chunk_round_ok [OF r(2), folded f]
  have z: "16 dvd unat fsize" "32 \<le> unat fsize" "16 dvd unat fp"
    using cr r(1) e(2) by (auto intro: dvd_trans [of 16 65536] dvd_trans [of 16 32])
  note pl = add_chunk(1) [OF a e(1) e(3) z(3) z(1,2) e(4) refl]
  have "?x \<in> set (mh # bs)" by (rule last_in_set) simp
  moreover have "fp \<notin> set (mh # bs)" by (rule chunk_new [OF a(1) e(1,3)])
  ultimately have ne: "fp \<noteq> ?x" by metis
  have l: "next ?l = (next (a_links h1))(fp := next (a_links h1) ?x, ?x := fp)" "prev ?l = (prev (a_links h1))(fp := ?x, next (a_links h1) ?x := fp)"
    using ne by (simp_all add: heap_field_defs del: last.simps)
  have m: "malloc sys_brk mh n h = (let (h3, b) = free_block mh fp (?h2\<lparr>a_links := ?l\<rparr>) in Some (malloc_from_block b (arena_round n) h3))"
    using n0 ff sb fp pl f by (simp add: malloc_def Let_def del: last.simps)
  show thesis
    by (rule malloc_chunk [OF i n f e refl l]) (rule that, simp_all add: m)
qed

lemma malloc_ok:
  assumes i: "heap_inv k_ok base limit mh h bs fs" and n: "0 < unat n" "unat n \<le> 2 ^ 29"
  obtains h' p bs' fs' where "malloc sys_brk mh n h = Some (h', p)" and "heap_inv k_ok base limit mh h' bs' fs'" and "ubytes h' = ubytes h"
    and "base (usys h') = base (usys h)"
    and "p = 0 \<and> used h' bs' = used h bs \<or> gets h bs n h' bs' p"
    and "p = 0 \<longleftrightarrow> (\<forall>b \<in> set fs. a_size h b < arena_round n) \<and> snd (lib_sbrk sys_brk ((arena_round n + 65535) AND NOT 65535) h) = - 1"
proof -
  let ?z = "arena_round n" and ?fsize = "(arena_round n + 65535) AND NOT 65535"
  have a: "arena mh (unat (base (usys h))) (min (unat (current_brk h)) (unat (limit (usys h)))) {} h bs fs" using i by (simp add: heap_inv_def)
  have n0: "n \<noteq> 0" using n(1) by auto
  note ff = find_fit_ok [OF a, of ?z]
  show thesis
  proof (cases "find (\<lambda>b. ?z \<le> a_size h b) fs")
    case (Some fp)
    then have "fp \<in> set fs" "?z \<le> a_size h fp" by (auto simp: find_Some_iff)
    then have fp: "fp \<in> set bs" "a_type h fp = ARENA_TYPE_FREE" "?z \<le> a_size h fp" using arenaD(5) [OF a] by auto
    obtain h' bs' fs' where m: "malloc_from_block fp ?z h = (h', fp + ARENA_HEADER_SIZE)" "heap_inv k_ok base limit mh h' bs' fs'"
        "gets h bs n h' bs' (fp + ARENA_HEADER_SIZE)" "same_process h h'"
      by (rule alloc_gets [OF i fp n])
    then have e: "malloc sys_brk mh n h = Some (h', fp + ARENA_HEADER_SIZE)" using n0 ff Some by (simp add: malloc_def)
    have "\<not> (\<forall>b \<in> set fs. a_size h b < ?z)" "fp + ARENA_HEADER_SIZE \<noteq> 0"
      using \<open>fp \<in> set fs\<close> fp(3) m(3) by (auto simp: gets_def not_less)
    then show thesis using that [OF e m(2)] m(3,4) by (simp add: same_process_def)
  next
    case None
    have small: "\<forall>b \<in> set fs. a_size h b < ?z" using None by (auto simp: find_None_iff)
    obtain h1 fp where sb: "lib_sbrk sys_brk ?fsize h = (h1, fp)" by fastforce
    have "unat ?z < unat n + 32" "32 \<le> unat ?z" using arena_round_ok [of n] n n0 by auto
    then have "0 < unat ?fsize" "unat ?fsize \<le> 2 ^ 30 - 64" using chunk_round_ok [of ?z] n(2) by auto
    note sk = sbrk_ok [OF i this sb]
    have u: "used h1 bs = used h bs" "ubytes h1 = ubytes h" using same_blocks_used [OF sk(1)] sk(1) by (auto simp: same_blocks_def)
    show thesis
    proof (cases "fp = - 1")
      case True
      then have "malloc sys_brk mh n h = Some (h1, 0)" using n0 ff None sb by (simp add: malloc_def)
      then show thesis using that [of h1 0 bs fs] sk u small sb True by simp
    next
      case False
      obtain h' b bs' fs' where c: "malloc sys_brk mh n h = Some (h', b + ARENA_HEADER_SIZE)" "heap_inv k_ok base limit mh h' bs' fs'"
          "gets h1 bs n h' bs' (b + ARENA_HEADER_SIZE)" "same_process h1 h'"
        by (rule malloc_new_chunk [OF sk(2) n refl _ False sb]) (use sk ff None False in \<open>auto simp: same_blocks_def\<close>)
      then have g: "gets h bs n h' bs' (b + ARENA_HEADER_SIZE)" using u by (simp add: gets_def)
      then have "b + ARENA_HEADER_SIZE \<noteq> 0" by (simp add: gets_def)
      then show thesis using that [OF c(1,2)] g c(4) sk u sb False by (simp add: same_process_def)
    qed
  qed
qed

lemma brk_ok:
  assumes i: "heap_inv k_ok base limit mh h bs fs" and c: "\<forall>b \<in> set bs. unat b + unat (a_size h b) \<le> unat c"
    and r: "base (usys h) \<le> c" "c \<le> current_brk h" "c \<le> limit (usys h)"
  shows "heap_inv k_ok base limit mh (fst (lib_brk sys_brk c h)) bs fs" and "same_blocks h (fst (lib_brk sys_brk c h))"
    and "base (usys (fst (lib_brk sys_brk c h))) = base (usys h)"
proof -
  obtain k' nb where b: "sys_brk c (usys h) = (k', nb)" by fastforce
  let ?h = "fst (lib_brk sys_brk c h)"
  have k: "k_ok (usys h)" "unat (current_brk h) \<le> 3 * 2 ^ 30" using i by (simp_all add: heap_inv_def)
  note res = brk_result [OF k(1) r(1) b]
  have h: "?h = h\<lparr>usys := k', current_brk := (if nb = c then c else current_brk h)\<rparr>" by (simp add: lib_brk_def b)
  show s: "same_blocks h ?h" and bs: "base (usys ?h) = base (usys h)" using res by (simp_all add: h same_blocks_def)
  have "unat c \<le> unat (limit k')" using res r(3) by (auto simp: word_le_nat_alt min_def split: if_splits)
  moreover have "unat c \<le> unat (current_brk h)" using r(2) by (simp add: word_le_nat_alt)
  ultimately have le: "unat c \<le> unat (current_brk ?h)" "unat c \<le> unat (limit (usys ?h))" "unat (current_brk ?h) \<le> 3 * 2 ^ 30" "base (usys h) \<le> current_brk ?h"
    using k(2) r by (auto simp: h)
  show "heap_inv k_ok base limit mh ?h bs fs"
    using c le res by (intro heap_invI [OF i s _ bs]) (auto simp: h intro: order_trans)
qed

lemma trim_ok:
  assumes i: "heap_inv k_ok base limit mh h bs fs" and c: "c \<in> set bs" "a_type h c = ARENA_TYPE_FREE" "c + a_size h c = current_brk h"
  obtains bs' fs' where "heap_inv k_ok base limit mh (fst (lib_brk sys_brk c (remove_from_chains c h))) bs' fs'"
    and "used (fst (lib_brk sys_brk c (remove_from_chains c h))) bs' = used h bs"
    and "ubytes (fst (lib_brk sys_brk c (remove_from_chains c h))) = ubytes h"
    and "base (usys (fst (lib_brk sys_brk c (remove_from_chains c h)))) = base (usys h)"
    and "\<forall>b \<in> set bs'. unat b + unat (a_size h b) \<le> unat c" and "unat c + unat (a_size h c) = unat (current_brk h)"
proof -
  let ?hi = "min (unat (current_brk h)) (unat (limit (usys h)))" and ?h = "remove_from_chains c h"
  have a: "arena mh (unat (base (usys h))) ?hi {} h bs fs" "merged_arena h bs" using i by (simp_all add: heap_inv_def)
  obtain xs ys where bs: "bs = xs @ c # ys" using c(1) by (meson split_list)
  note rf = remove_free [OF a(1) [unfolded bs] c(2) refl]
  have bl: "lo \<le> unat b \<and> unat b + unat (a_size h b) \<le> ?hi \<and> 32 \<le> unat (a_size h b)" if "b \<in> set bs" "lo = unat (base (usys h))" for b lo
    using arenaD(6) [OF a(1)] that by (simp add: blocks_ok_def)
  have so: "\<forall>x \<in> set xs. unat x + unat (a_size h x) \<le> unat c" "\<forall>y \<in> set ys. unat c + unat (a_size h c) \<le> unat y"
    using arenaD(6) [OF a(1)] by (auto simp: bs blocks_ok_def sorted_wrt_append)
  have "unat (c + a_size h c) = unat c + unat (a_size h c)" using bl [OF c(1) refl] unat_less32 [of "current_brk h"] unat_add_offset [of c "unat (a_size h c)"] by simp
  then have e: "unat c + unat (a_size h c) = unat (current_brk h)" using c(3) by simp
  have ys: "ys = []" using so(2) e bl [of "hd ys"] by (cases ys) (auto simp: bs)
  have "merged_arena ?h xs" using a(2) merged_arena_cong [of xs ?h h] rf(3,4) by (simp add: bs merged_arena_append)
  then have i1: "heap_inv k_ok base limit mh ?h xs (remove1 c fs)" using i rf(1,5) ys by (simp add: heap_inv_def same_process_def)
  have r: "base (usys ?h) \<le> c" "c \<le> current_brk ?h" "c \<le> limit (usys ?h)"
    using bl [OF c(1) refl] rf(5) by (auto simp: word_le_nat_alt same_process_def)
  have "\<forall>x \<in> set xs. unat x + unat (a_size ?h x) \<le> unat c" using so(1) rf(4) by simp
  note b = brk_ok [OF i1 this r]
  have "used (fst (lib_brk sys_brk c ?h)) xs = used h bs" using same_blocks_used [OF b(2)] rf(2) ys by (simp add: bs)
  then show thesis using that [OF b(1)] b(2,3) rf(5) so(1) e by (simp add: same_blocks_def same_process_def)
qed

lemma free_block_inv:
  assumes i: "heap_inv k_ok base limit mh h bs fs" and u: "(b, s) \<in> used h bs"
  obtains h1 c bs1 fs1 where "free_block mh b h = (h1, c)" and "heap_inv k_ok base limit mh h1 bs1 fs1" and "c \<in> set bs1"
    and "a_type h1 c = ARENA_TYPE_FREE" and "used h1 bs1 = used h bs - {(b, s)}" and "same_process h h1" and "b \<in> set bs"
proof -
  let ?lo = "unat (base (usys h))" and ?hi = "min (unat (current_brk h)) (unat (limit (usys h)))"
  have a: "arena mh ?lo ?hi {} h bs fs" "merged_arena h bs" using i by (simp_all add: heap_inv_def)
  have b: "b \<in> set bs" "a_type h b = ARENA_TYPE_USED" "s = a_size h b" using u by (auto simp: used_def)
  then obtain xs ys where bs: "bs = xs @ b # ys" by (meson split_list)
  have "arena mh ?lo ?hi {b} h (xs @ b # ys) fs" using a(1) b(2) unfolding bs arena_def by auto
  moreover have "merged_arena h xs" "merged_arena h ys" using a(2) by (simp_all add: bs merged_arena_append)
  ultimately obtain h1 c bs1 fs1 where f: "free_block mh b h = (h1, c)" "arena mh ?lo ?hi {} h1 bs1 fs1" "merged_arena h1 bs1" "c \<in> set bs1"
      "a_type h1 c = ARENA_TYPE_FREE" "used h1 bs1 = used h bs - {(b, s)}" "same_process h h1"
    using free_block_ok [of mh ?lo ?hi b h xs ys fs] unfolding bs b(3) by metis
  have "heap_inv k_ok base limit mh h1 bs1 fs1" using f(2,3,7) i by (simp add: heap_inv_def same_process_def)
  then show thesis using that f b(1) by blast
qed

lemma free_ok:
  assumes i: "heap_inv k_ok base limit mh h bs fs" and u: "(b, s) \<in> used h bs"
  obtains bs' fs' where "heap_inv k_ok base limit mh (free sys_brk mh (b + ARENA_HEADER_SIZE) h) bs' fs'"
    and "used (free sys_brk mh (b + ARENA_HEADER_SIZE) h) bs' = used h bs - {(b, s)}" and "ubytes (free sys_brk mh (b + ARENA_HEADER_SIZE) h) = ubytes h"
    and "base (usys (free sys_brk mh (b + ARENA_HEADER_SIZE) h)) = base (usys h)"
proof -
  let ?f = "free sys_brk mh (b + ARENA_HEADER_SIZE) h"
  obtain h1 c bs1 fs1 where f: "free_block mh b h = (h1, c)" "heap_inv k_ok base limit mh h1 bs1 fs1" "c \<in> set bs1"
      "a_type h1 c = ARENA_TYPE_FREE" "used h1 bs1 = used h bs - {(b, s)}" "same_process h h1" "b \<in> set bs"
    by (rule free_block_inv [OF i u])
  have p: "b + ARENA_HEADER_SIZE \<noteq> 0" using block_pointer(2) i f(7) unfolding heap_inv_def by blast
  let ?c = "a_size h1 c \<ge> MALLOC_CHUNK_SIZE \<and> c + a_size h1 c = current_brk h1" and ?h2 = "remove_from_chains c h1"
  have fr: "?f = (if ?c then fst (lib_brk sys_brk c ?h2) else h1)" using p f(1) by (simp add: free_def)
  show thesis
  proof (cases ?c)
    case False
    then have "?f = h1" unfolding fr by (simp only: if_False)
    then show thesis using that [of bs1 fs1] f(2,5,6) by (simp add: same_process_def)
  next
    case True
    then have e: "?f = fst (lib_brk sys_brk c ?h2)" using fr by simp
    show thesis
      by (rule trim_ok [OF f(2,3,4) conjunct2 [OF True]]) (rule that, use f(5,6) in \<open>simp_all add: e same_process_def\<close>)
  qed
qed

end

end
