(* ===== verification/Klibc_Heap.thy ===== *)
theory Klibc_Heap
  imports Klibc_Malloc Vm
begin

text \<open>
  The heap of a user program on this kernel: the library's allocator with the system call \<^verbatim>\<open>brk\<close> of \<^verbatim>\<open>kernel/brk.c\<close> as its source of
  memory.  The kernel's call meets the contract \<open>program_break\<close>; the rest follows what a program does to the heap.
\<close>

section \<open>The kernel as provider of memory\<close>

definition heap_limit :: "kernel \<Rightarrow> u32" where
  "heap_limit s = m_start (mma_of s (heap_mma s)) + m_sizelim (mma_of s (heap_mma s))"

definition heap_base :: "kernel \<Rightarrow> u32" where
  "heap_base s = m_start (mma_of s (heap_mma s))"

definition heap_area_ok :: "kernel \<Rightarrow> bool" where
  "heap_area_ok s \<longleftrightarrow> heap_base s = USERMEM_HEAP \<and> m_sizelim (mma_of s (heap_mma s)) \<le> USERMEM_HEAPLIM"

lemma set_mma_simps [simp]:
  "heap_mma (set_mma a f s) = heap_mma s"
  "mma_of (set_mma a f s) b = (if b = a then f (mma_of s a) else mma_of s b)"
  by (simp_all add: heap_mma_def set_mma_def mma_of_def mapping_of_def CURRENT_def set_vm_def)

text \<open>\<^verbatim>\<open>brk\<close> adds the distance from the base to the limit, where its caller expects the limit to be set.\<close>

lemma unat_add_fits: "unat x + unat y < 2 ^ 32 \<Longrightarrow> unat (x + y) = unat x + unat y" for x y :: u32
  using unat_add_offset [of x "unat y"] by simp

lemma heap_limit_unat:
  assumes "heap_area_ok s"
  shows "unat (heap_limit s) = unat USERMEM_HEAP + unat (m_sizelim (mma_of s (heap_mma s)))"
proof -
  have l: "unat (m_sizelim (mma_of s (heap_mma s))) \<le> 0x80000" "heap_limit s = USERMEM_HEAP + m_sizelim (mma_of s (heap_mma s))"
    using assms by (simp_all add: heap_area_ok_def heap_base_def heap_limit_def USERMEM_HEAPLIM_def word_le_nat_alt)
  have "unat USERMEM_HEAP = 0x80000000" by (simp add: USERMEM_HEAP_def)
  then show ?thesis using l unat_add_fits [of USERMEM_HEAP "m_sizelim (mma_of s (heap_mma s))"] by simp
qed

lemma brk_adds:
  assumes ok: "heap_area_ok s" and a: "USERMEM_HEAP \<le> a"
  obtains "brk a s = (s, - 1)" and "unat USERMEM_HEAPLIM < unat (heap_limit s) - unat USERMEM_HEAP + (unat a - unat USERMEM_HEAP)"
  | s' where "brk a s = (s', heap_limit s')" and "heap_area_ok s'" and "unat (heap_limit s') = unat (heap_limit s) + (unat a - unat USERMEM_HEAP)"
proof -
  let ?m = "heap_mma s" let ?L = "m_sizelim (mma_of s ?m)" and ?inc = "a - USERMEM_HEAP"
  have b: "m_start (mma_of s ?m) = USERMEM_HEAP" "unat ?L \<le> 0x80000" "unat USERMEM_HEAP = 0x80000000"
    using ok by (simp_all add: heap_area_ok_def heap_base_def USERMEM_HEAPLIM_def word_le_nat_alt USERMEM_HEAP_def)
  have inc: "unat ?inc = unat a - unat USERMEM_HEAP" using a by (simp add: unat_sub)
  then have sum: "unat (?L + ?inc) = unat ?L + (unat a - unat USERMEM_HEAP)"
    using b unat_less32 [of a] unat_add_fits [of ?L ?inc] by simp
  have "a \<noteq> 0" using a b(3) by (auto simp: word_le_nat_alt)
  then have e: "brk a s = sbrk ?inc s" by (simp add: brk_def Let_def b(1))
  let ?s = "set_mma ?m (\<lambda>m. m\<lparr>m_sizelim := m_sizelim m + ?inc\<rparr>) s"
  show thesis
  proof (cases "?L + ?inc \<le> USERMEM_HEAPLIM")
    case True
    then have "heap_area_ok ?s" "brk a s = (?s, heap_limit ?s)"
      using b(1) ok unfolding e by (simp_all add: heap_area_ok_def heap_base_def heap_limit_def sbrk_def Let_def)
    moreover have "m_sizelim (mma_of ?s (heap_mma ?s)) = ?L + ?inc" by simp
    ultimately show thesis using that(2) [of ?s] heap_limit_unat [OF ok] heap_limit_unat [of ?s] sum by simp
  next
    case False
    then show thesis using that(1) sum heap_limit_unat [OF ok] unfolding e by (simp add: sbrk_def Let_def word_le_nat_alt)
  qed
qed

text \<open>
  The limit of a new heap is never initialised (\<^verbatim>\<open>exec.c\<close>).  All that a program may count on is where its heap starts; a limit above
  \<^verbatim>\<open>USERMEM_HEAPLIM\<close> stands for no memory at all, until a call of \<^verbatim>\<open>brk\<close> happens to wrap it.
\<close>

definition heap_start_ok :: "kernel \<Rightarrow> bool" where
  "heap_start_ok s \<longleftrightarrow> heap_base s = USERMEM_HEAP"

definition heap_top :: "kernel \<Rightarrow> u32" where
  "heap_top s = (if m_sizelim (mma_of s (heap_mma s)) \<le> USERMEM_HEAPLIM then heap_limit s else heap_base s)"

lemma heap_top_area: "heap_area_ok s \<Longrightarrow> heap_top s = heap_limit s"
  by (simp add: heap_area_ok_def heap_top_def)

lemma heap_top_bounds:
  assumes "heap_start_ok s"
  shows "unat USERMEM_HEAP \<le> unat (heap_top s)" and "unat (heap_top s) \<le> unat USERMEM_HEAP + unat USERMEM_HEAPLIM"
    and "unat USERMEM_HEAP < unat (heap_top s) \<Longrightarrow> heap_area_ok s"
proof -
  have a: "unat (heap_limit s) = unat USERMEM_HEAP + unat (m_sizelim (mma_of s (heap_mma s)))" if "m_sizelim (mma_of s (heap_mma s)) \<le> USERMEM_HEAPLIM"
    using that assms by (intro heap_limit_unat) (simp add: heap_area_ok_def heap_start_ok_def)
  show "unat USERMEM_HEAP \<le> unat (heap_top s)" "unat (heap_top s) \<le> unat USERMEM_HEAP + unat USERMEM_HEAPLIM"
    using a assms by (auto simp: heap_top_def heap_start_ok_def word_le_nat_alt)
  show "heap_area_ok s" if "unat USERMEM_HEAP < unat (heap_top s)"
    using that assms by (auto simp: heap_area_ok_def heap_top_def heap_start_ok_def split: if_splits)
qed

lemma brk_wraps:
  assumes ok: "heap_start_ok s" and g: "\<not> m_sizelim (mma_of s (heap_mma s)) \<le> USERMEM_HEAPLIM" and a: "USERMEM_HEAP \<le> a" and r: "brk a s = (s', r)"
  shows "r = - 1 \<and> s' = s \<or> r = heap_limit s' \<and> heap_area_ok s'"
proof -
  have "a \<noteq> 0" using a by (auto simp: word_le_nat_alt USERMEM_HEAP_def)
  then have "brk a s = sbrk (a - USERMEM_HEAP) s" using ok by (simp add: brk_def Let_def heap_start_ok_def heap_base_def)
  then show ?thesis
    using r ok by (auto simp: sbrk_def Let_def heap_area_ok_def heap_start_ok_def heap_base_def heap_limit_def split: if_splits)
qed

interpretation kb: program_break brk heap_start_ok heap_base heap_top
proof
  fix k :: kernel
  assume ok: "heap_start_ok k"
  show "brk 0 k = (k, heap_base k)" by (simp add: brk_def heap_base_def Let_def)
  note tb = heap_top_bounds [OF ok]
  have hb: "heap_base k = USERMEM_HEAP" "unat USERMEM_HEAP = 0x80000000" "unat USERMEM_HEAPLIM = 0x80000"
    using ok by (simp_all add: heap_start_ok_def USERMEM_HEAP_def USERMEM_HEAPLIM_def)
  then show "0 < unat (heap_base k) \<and> unat (heap_top k) \<le> 3 * 2 ^ 30" "heap_base k \<le> heap_top k" using tb(1,2) by (simp_all add: word_le_nat_alt)
  fix a k' r
  assume a: "heap_base k \<le> a" and r: "brk a k = (k', r)"
  show "heap_start_ok k' \<and> heap_base k' = heap_base k \<and>
      (r = - 1 \<and> heap_top k' = heap_top k \<or> r = heap_top k' \<and> min a (heap_top k) \<le> heap_top k')"
  proof (cases "heap_area_ok k")
    case True
    have "USERMEM_HEAP \<le> a" using a hb(1) by simp
    then show ?thesis using r ok True heap_top_area [OF True] heap_top_area [of k']
      by (cases rule: brk_adds [OF True]) (auto simp: heap_area_ok_def heap_start_ok_def word_le_nat_alt min_def)
  next
    case False
    then have g: "\<not> m_sizelim (mma_of k (heap_mma k)) \<le> USERMEM_HEAPLIM" using hb(1) by (simp add: heap_area_ok_def)
    then have t: "heap_top k = USERMEM_HEAP" using hb(1) by (simp add: heap_top_def)
    consider "r = - 1" "k' = k" | "r = heap_limit k'" "heap_area_ok k'" using brk_wraps [OF ok g _ r] a hb(1) by auto
    then show ?thesis
    proof cases
      case 2
      then have k': "heap_start_ok k'" "heap_top k' = heap_limit k'" using heap_top_area by (simp_all add: heap_area_ok_def heap_start_ok_def)
      then show ?thesis using 2 hb(1) t heap_top_bounds(1) [OF k'(1)] by (auto simp: heap_start_ok_def word_le_nat_alt min_def)
    qed (use ok in simp)
  qed
qed

section \<open>Programs\<close>

text \<open>The areas a program holds: the address and the usable length of every block in use.\<close>

definition held_areas :: "u32 \<Rightarrow> 'k uheap \<Rightarrow> (u32 \<times> nat) set" where
  "held_areas mh h = (case klist0_for_each (a_links h) mh of None \<Rightarrow> {} | Some bs \<Rightarrow> (\<lambda>(b, s). (b + ARENA_HEADER_SIZE, unat s - 16)) ` used h bs)"

definition areas_ok :: "u32 \<Rightarrow> (u32 \<times> nat) set \<Rightarrow> bool" where
  "areas_ok lim A \<longleftrightarrow>
    (\<forall>(p, n) \<in> A. 16 dvd unat p \<and> 0 < n \<and> unat USERMEM_HEAP \<le> unat p \<and> unat p + n \<le> unat lim) \<and>
    (\<forall>(p, n) \<in> A. \<forall>(q, m) \<in> A. (p, n) \<noteq> (q, m) \<longrightarrow> unat p + n \<le> unat q \<or> unat q + m \<le> unat p)"

text \<open>
  The initial state of \<^verbatim>\<open>malloc.c\<close>, and what may happen to the heap: calls of the library with areas the program holds, writes to them, and
  anything in the kernel that does not take memory away from the program.
\<close>

definition fresh_heap :: "u32 \<Rightarrow> 'k uheap \<Rightarrow> bool" where
  "fresh_heap mh h \<longleftrightarrow> a_type h mh = ARENA_TYPE_HEAD \<and> klist (a_links h) mh [] \<and> klist (f_links h) mh [] \<and> current_brk h = 0"

inductive heap_reach :: "u32 \<Rightarrow> kernel uheap \<Rightarrow> bool" for mh where
  start: "fresh_heap mh h \<Longrightarrow> unat mh < unat USERMEM_HEAP \<Longrightarrow> heap_start_ok (usys h) \<Longrightarrow> heap_reach mh h"
| malloc: "heap_reach mh h \<Longrightarrow> unat n \<le> 2 ^ 29 \<Longrightarrow> malloc brk mh n h = Some (h', p) \<Longrightarrow> heap_reach mh h'"
| free: "heap_reach mh h \<Longrightarrow> (p, n) \<in> held_areas mh h \<Longrightarrow> heap_reach mh (free brk mh p h)"
| store: "heap_reach mh h \<Longrightarrow> (p, n) \<in> held_areas mh h \<Longrightarrow> i < n \<Longrightarrow> heap_reach mh (h\<lparr>ubytes := (ubytes h)(p + of_nat i := v)\<rparr>)"
| system: "heap_reach mh h \<Longrightarrow> heap_start_ok s \<Longrightarrow> heap_top (usys h) \<le> heap_top s \<Longrightarrow> heap_reach mh (h\<lparr>usys := s\<rparr>)"

abbreviation kheap_inv :: "u32 \<Rightarrow> kernel uheap \<Rightarrow> u32 list \<Rightarrow> u32 list \<Rightarrow> bool" where
  "kheap_inv \<equiv> heap_inv heap_start_ok heap_base heap_top"

lemma heap_inv_arena: "heap_inv k_ok bas limit mh h bs fs \<Longrightarrow>
    arena mh (unat (bas (usys h))) (min (unat (current_brk h)) (unat (limit (usys h)))) {} h bs fs"
  by (simp add: heap_inv_def)

lemma held_areas_eq:
  assumes "heap_inv k_ok bas limit mh h bs fs"
  shows "held_areas mh h = (\<lambda>(b, s). (b + ARENA_HEADER_SIZE, unat s - 16)) ` used h bs"
  unfolding held_areas_def using klist_for_each [OF arenaD(1) [OF heap_inv_arena [OF assms]]] by simp

lemma fresh_heap_inv:
  assumes "fresh_heap mh h" and "unat mh < unat USERMEM_HEAP" and "heap_start_ok (usys h)"
  shows "kheap_inv mh h [] []"
  using assms unfolding fresh_heap_def heap_inv_def arena_def blocks_ok_def heap_start_ok_def by simp

lemma used_in_arena: "(b, s) \<in> used h bs \<Longrightarrow> b \<in> set bs \<and> s = a_size h b"
  by (auto simp: used_def)

lemma blocks_apart:
  assumes "blocks_ok lo hi s bs" and "b \<in> set bs" and "c \<in> set bs" and "b \<noteq> c"
  shows "unat b + unat (s b) \<le> unat c \<or> unat c + unat (s c) \<le> unat b"
proof -
  obtain i j where ij: "i < length bs" "bs ! i = b" "j < length bs" "bs ! j = c" using assms(2,3) by (auto simp: in_set_conv_nth)
  have "sorted_wrt (\<lambda>a b. unat a + unat (s a) \<le> unat b) bs" using assms(1) by (simp add: blocks_ok_def)
  then show ?thesis using ij assms(4) by (cases i j rule: linorder_cases) (auto simp: sorted_wrt_iff_nth_less)
qed

lemma held_block:
  assumes i: "kheap_inv mh h bs fs" and l: "(p, n) \<in> held_areas mh h"
  obtains b where "b \<in> set bs" and "p = b + ARENA_HEADER_SIZE" and "unat p = unat b + 16" and "unat (a_size h b) = n + 16"
    and "unat b + unat (a_size h b) \<le> unat (heap_top (usys h))" and "unat USERMEM_HEAP \<le> unat b" and "16 dvd unat p" and "16 \<le> n"
proof -
  obtain b s where b: "(b, s) \<in> used h bs" "p = b + ARENA_HEADER_SIZE" "n = unat s - 16" using l held_areas_eq [OF i] by auto
  note a = heap_inv_arena [OF i]
  have m: "b \<in> set bs" "s = a_size h b" using used_in_arena [OF b(1)] by simp_all
  have bl: "unat USERMEM_HEAP \<le> unat b" "unat b + unat (a_size h b) \<le> unat (heap_top (usys h))" "16 dvd unat b" "32 \<le> unat (a_size h b)"
    using arenaD(6) [OF a] m(1) i by (auto simp: blocks_ok_def heap_inv_def heap_start_ok_def)
  show thesis using that [OF m(1) b(2)] block_pointer(1) [OF a m(1)] b m(2) bl by simp
qed

lemma held_areas_ok:
  assumes i: "kheap_inv mh h bs fs"
  shows "areas_ok (heap_top (usys h)) (held_areas mh h)"
proof -
  note bl = arenaD(6) [OF heap_inv_arena [OF i]]
  have "unat p + n \<le> unat q \<or> unat q + m \<le> unat p" if pn: "(p, n) \<in> held_areas mh h" and qm: "(q, m) \<in> held_areas mh h" and ne: "(p, n) \<noteq> (q, m)" for p n q m
  proof -
    obtain b where b: "b \<in> set bs" "unat p = unat b + 16" "unat (a_size h b) = n + 16" "p = b + ARENA_HEADER_SIZE" using held_block [OF i pn] by metis
    obtain c where c: "c \<in> set bs" "unat q = unat c + 16" "unat (a_size h c) = m + 16" "q = c + ARENA_HEADER_SIZE" using held_block [OF i qm] by metis
    have "b \<noteq> c" using ne b c by auto
    then show ?thesis using blocks_apart [OF bl b(1) c(1)] b c by auto
  qed
  moreover have "16 dvd unat p \<and> 0 < n \<and> unat USERMEM_HEAP \<le> unat p \<and> unat p + n \<le> unat (heap_top (usys h))" if pn: "(p, n) \<in> held_areas mh h" for p n
  proof -
    obtain b where "unat p = unat b + 16" "unat (a_size h b) = n + 16" "unat b + unat (a_size h b) \<le> unat (heap_top (usys h))"
      "unat USERMEM_HEAP \<le> unat b" "16 dvd unat p" "16 \<le> n" using held_block [OF i pn] by metis
    then show ?thesis by simp
  qed
  ultimately show ?thesis unfolding areas_ok_def by blast
qed

lemma gets_area:
  assumes "kheap_inv mh h bs fs" and i': "kheap_inv mh h' bs' fs'" and g: "gets h bs n h' bs' p"
  shows "p \<noteq> 0 \<and> (\<exists>l. unat n \<le> l \<and> p \<notin> fst ` held_areas mh h \<and> held_areas mh h' = insert (p, l) (held_areas mh h))"
proof -
  obtain b s where b: "p = b + ARENA_HEADER_SIZE" "used h' bs' = insert (b, s) (used h bs)" "b \<notin> fst ` used h bs" "unat n + 16 \<le> unat s"
    using g unfolding gets_def by blast
  then have "held_areas mh h' = insert (p, unat s - 16) (held_areas mh h)" using held_areas_eq [OF assms(1)] held_areas_eq [OF i'] by simp
  moreover have "p \<notin> fst ` held_areas mh h" using b(1,3) held_areas_eq [OF assms(1)] by force
  ultimately show ?thesis using b(4) g unfolding gets_def by (intro conjI exI [of _ "unat s - 16"]) auto
qed

lemma reach_inv: "heap_reach mh h \<Longrightarrow> \<exists>bs fs. kheap_inv mh h bs fs"
proof (induction rule: heap_reach.induct)
  case (start h)
  then show ?case using fresh_heap_inv by blast
next
  case (malloc h n h' p)
  then obtain bs fs where i: "kheap_inv mh h bs fs" by blast
  show ?case
  proof (cases "n = 0")
    case True
    then show ?thesis using malloc.hyps(3) i by (auto simp: malloc_def)
  next
    case False
    then have "0 < unat n" by (simp add: unat_gt_0)
    then show ?thesis using kb.malloc_ok [OF i _ malloc.hyps(2)] malloc.hyps(3) by (metis option.inject prod.inject)
  qed
next
  case (free h p n)
  then obtain bs fs where i: "kheap_inv mh h bs fs" by blast
  then obtain b s where "(b, s) \<in> used h bs" "p = b + ARENA_HEADER_SIZE" using free.hyps(2) held_areas_eq [OF i] by auto
  then show ?case using kb.free_ok [OF i] by metis
next
  case (store h p n i v)
  then obtain bs fs where i: "kheap_inv mh h bs fs" by blast
  then have "kheap_inv mh (h\<lparr>ubytes := (ubytes h)(p + of_nat i := v)\<rparr>) bs fs"
    using merged_arena_cong [of bs "h\<lparr>ubytes := (ubytes h)(p + of_nat i := v)\<rparr>" h] by (simp add: heap_inv_def arena_def)
  then show ?case by blast
next
  case (system h s)
  then obtain bs fs where i: "kheap_inv mh h bs fs" by blast
  have "same_blocks h (h\<lparr>usys := s\<rparr>)" by (simp add: same_blocks_def)
  moreover have "\<forall>b \<in> set bs. unat b + unat (a_size h b) \<le> unat (current_brk h) \<and> unat b + unat (a_size h b) \<le> unat (heap_top s)"
    using blocks_end [OF heap_inv_arena [OF i]] system.hyps(3) by (fastforce simp: word_le_nat_alt)
  ultimately have "kheap_inv mh (h\<lparr>usys := s\<rparr>) bs fs"
    using i system.hyps(2) by (intro kb.heap_invI [OF i]) (auto simp: heap_inv_def heap_start_ok_def)
  then show ?case by blast
qed

lemma free_area:
  assumes i: "kheap_inv mh h bs fs" and l: "(p, n) \<in> held_areas mh h"
  shows "held_areas mh (free brk mh p h) = held_areas mh h - {(p, n)}" and "ubytes (free brk mh p h) = ubytes h"
proof -
  obtain b s where b: "(b, s) \<in> used h bs" "p = b + ARENA_HEADER_SIZE" "n = unat s - 16" using l held_areas_eq [OF i] by auto
  obtain bs' fs' where f: "kheap_inv mh (free brk mh p h) bs' fs'" "used (free brk mh p h) bs' = used h bs - {(b, s)}" "ubytes (free brk mh p h) = ubytes h"
    using kb.free_ok [OF i b(1)] unfolding b(2) by metis
  have "inj_on (\<lambda>(b, s). (b + ARENA_HEADER_SIZE, unat s - 16)) (used h bs)" by (auto simp: inj_on_def used_def)
  then show "held_areas mh (free brk mh p h) = held_areas mh h - {(p, n)}"
    using b(1) unfolding held_areas_eq [OF i] held_areas_eq [OF f(1)] f(2) by (subst inj_on_image_set_diff) (auto simp: b)
  show "ubytes (free brk mh p h) = ubytes h" by (rule f(3))
qed

section \<open>When there is no memory\<close>

text \<open>
  The size of the block and of the chunk for a request, and the two reasons for the kernel to refuse a chunk: the new limit is above
  \<^verbatim>\<open>USERMEM_HEAPLIM\<close>, or, when the uninitialised limit wraps, below the end of the chunk.
\<close>

definition block_size :: "nat \<Rightarrow> nat" where
  "block_size n = (n + 31) div 16 * 16"

definition chunk_size :: "nat \<Rightarrow> nat" where
  "chunk_size n = (block_size n + 65535) div 65536 * 65536"

definition break_refused :: "nat \<Rightarrow> kernel uheap \<Rightarrow> bool" where
  "break_refused inc h \<longleftrightarrow>
    (let c = (if current_brk h = 0 then USERMEM_HEAP else current_brk h);
         e = (unat c + 31) div 32 * 32 + inc - unat USERMEM_HEAP;
         l = (unat (m_sizelim (mma_of (usys h) (heap_mma (usys h)))) + e) mod 2 ^ 32
     in unat USERMEM_HEAPLIM < l \<or> l < e)"

definition heap_exhausted :: "u32 \<Rightarrow> nat \<Rightarrow> kernel uheap \<Rightarrow> bool" where
  "heap_exhausted mh n h \<longleftrightarrow>
    (\<forall>fs. klist0_for_each (f_links h) mh = Some fs \<longrightarrow> (\<forall>b \<in> set fs. unat (a_size h b) < block_size n)) \<and> break_refused (chunk_size n) h"

lemma round_unique:
  fixes x y :: nat
  assumes "x \<le> y" and "y < x + k" and "k dvd y" and "0 < k"
  shows "y = (x + (k - 1)) div k * k"
proof -
  obtain q where q: "y = k * q" using assms(3) by blast
  have "(x + (k - 1)) div k = q"
  proof (rule div_nat_eqI)
    show "k * q \<le> x + (k - 1)" using assms(2) q by simp
    show "x + (k - 1) < k * Suc q" using assms(1,4) q by simp
  qed
  then show ?thesis using q by simp
qed

lemma arena_round_unat: "unat n \<le> 2 ^ 31 \<Longrightarrow> unat (arena_round n) = block_size (unat n)"
  using round_unique [of "unat n + 16" "unat (arena_round n)" 16] arena_round_ok [of n] by (simp add: block_size_def)

lemma chunk_round_unat:
  assumes "unat n \<le> 2 ^ 30"
  shows "unat ((arena_round n + 65535) AND NOT 65535) = chunk_size (unat n)"
proof -
  have "unat (arena_round n) \<le> 2 ^ 31" using arena_round_ok [of n] assms by simp
  then show ?thesis
    using round_unique [of "unat (arena_round n)" _ 65536] chunk_round_ok [of "arena_round n"] arena_round_unat [of n] assms
    by (simp add: chunk_size_def)
qed

lemma kernel_brk_result:
  assumes ok: "heap_start_ok s" and a: "USERMEM_HEAP \<le> a"
  shows "snd (brk a s) = (if m_sizelim (mma_of s (heap_mma s)) + (a - USERMEM_HEAP) \<le> USERMEM_HEAPLIM
    then USERMEM_HEAP + (m_sizelim (mma_of s (heap_mma s)) + (a - USERMEM_HEAP)) else - 1)"
proof -
  have "a \<noteq> 0" using a by (auto simp: word_le_nat_alt USERMEM_HEAP_def)
  then show ?thesis using ok by (simp add: brk_def sbrk_def Let_def heap_start_ok_def heap_base_def)
qed

lemma sbrk_refused:
  assumes i: "kheap_inv mh h bs fs" and inc: "0 < unat inc" "unat inc \<le> 2 ^ 30 - 64"
  shows "snd (lib_sbrk brk inc h) = - 1 \<longleftrightarrow> break_refused (unat inc) h"
proof -
  define c where "c = (if current_brk h = 0 then USERMEM_HEAP else current_brk h)"
  define st where "st = align_up c SBRK_ALIGNMENT"
  define g where "g = m_sizelim (mma_of (usys h) (heap_mma (usys h)))"
  define d where "d = st + inc - USERMEM_HEAP"
  have B: "unat USERMEM_HEAP = 0x80000000" "unat USERMEM_HEAPLIM = 0x80000" by (simp_all add: USERMEM_HEAP_def USERMEM_HEAPLIM_def)
  have ok: "heap_start_ok (usys h)" using i by (simp add: heap_inv_def)
  have c: "unat USERMEM_HEAP \<le> unat c" "unat c \<le> 3 * 2 ^ 30"
    using i ok B by (auto simp: c_def heap_inv_def heap_start_ok_def word_le_nat_alt)
  note au = align_up_ok [of c, folded st_def]
  have st: "unat st = (unat c + 31) div 32 * 32" "unat st < unat c + 32" "unat c \<le> unat st"
    using au c(2) round_unique [of "unat c" "unat st" 32] by simp_all
  have e: "unat (st + inc) = unat st + unat inc" using st(2) c(2) inc(2) by (intro unat_add_fits) simp
  then have le: "USERMEM_HEAP \<le> st + inc" using st(3) c(1) by (simp add: word_le_nat_alt)
  have ud: "unat d = (unat c + 31) div 32 * 32 + unat inc - unat USERMEM_HEAP" using le e st(1) by (simp add: d_def unat_sub)
  have gd: "unat (g + d) = (unat g + unat d) mod 2 ^ 32" by (simp add: unat_word_ariths)
  obtain k nb where k: "brk (st + inc) (usys h) = (k, nb)" by fastforce
  have nb: "nb = (if g + d \<le> USERMEM_HEAPLIM then USERMEM_HEAP + (g + d) else - 1)"
    using kernel_brk_result [OF ok le] k by (simp add: g_def d_def)
  have q: "brk 0 (usys h) = (usys h, USERMEM_HEAP)" using ok by (simp add: brk_def Let_def heap_start_ok_def heap_base_def)
  have f: "snd (lib_sbrk brk inc h) = (if nb = - 1 \<or> nb < st + inc then - 1 else st)"
    using k q unfolding lib_sbrk_def c_def st_def by (auto simp: Let_def)
  have neg: "x \<noteq> - 1" if "unat x \<le> 3 * 2 ^ 30 + 32" for x :: u32
    using that by (auto simp: unsigned_minus_1_eq_mask mask_eq_exp_minus_1 dest: arg_cong [of _ _ unat])
  have "snd (lib_sbrk brk inc h) = - 1 \<longleftrightarrow> \<not> g + d \<le> USERMEM_HEAPLIM \<or> unat (g + d) < unat d"
  proof (cases "g + d \<le> USERMEM_HEAPLIM")
    case True
    then have u2: "unat (g + d) \<le> 0x80000" using B by (simp add: word_le_nat_alt)
    then have u: "unat (USERMEM_HEAP + (g + d)) = unat USERMEM_HEAP + unat (g + d)" "unat (g + d) \<le> 0x80000"
      using B(1) unat_add_fits [of USERMEM_HEAP "g + d"] by simp_all
    have "nb \<noteq> - 1" "st \<noteq> - 1" using neg [of nb] neg [of st] u B st(2) c(2) nb True by auto
    moreover have "nb < st + inc \<longleftrightarrow> unat (g + d) < unat d" using nb True u(1) e ud st(1,3) c(1) by (auto simp: word_less_nat_alt)
    ultimately show ?thesis using f True by auto
  qed (simp add: f nb)
  then show ?thesis unfolding break_refused_def Let_def ud [symmetric, unfolded c_def] g_def [symmetric] gd [symmetric] by (simp add: word_le_nat_alt not_le)
qed

lemma malloc_fails_when:
  assumes i: "kheap_inv mh h bs fs" and n: "0 < unat n" "unat n \<le> 2 ^ 29"
  shows "(\<forall>b \<in> set fs. a_size h b < arena_round n) \<and> snd (lib_sbrk brk ((arena_round n + 65535) AND NOT 65535) h) = - 1 \<longleftrightarrow>
    heap_exhausted mh (unat n) h"
proof -
  have fe: "klist0_for_each (f_links h) mh = Some fs" using klist_for_each [OF arenaD(2) [OF heap_inv_arena [OF i]]] .
  have z: "unat (arena_round n) = block_size (unat n)" "unat ((arena_round n + 65535) AND NOT 65535) = chunk_size (unat n)"
    using arena_round_unat [of n] chunk_round_unat [of n] n by simp_all
  have "unat (arena_round n) < unat n + 32" "32 \<le> unat (arena_round n)" using arena_round_ok [of n] n by auto
  then have "0 < unat ((arena_round n + 65535) AND NOT 65535)" "unat ((arena_round n + 65535) AND NOT 65535) \<le> 2 ^ 30 - 64"
    using chunk_round_ok [of "arena_round n"] n(2) by auto
  from sbrk_refused [OF i this] show ?thesis unfolding heap_exhausted_def fe z word_less_nat_alt by auto
qed


text \<open>A program that has just started.\<close>

definition started :: "kernel uheap" where
  "started = \<lparr>a_type = (\<lambda>_. ARENA_TYPE_HEAD), a_size = (\<lambda>_. 0), a_links = \<lparr>prev = (\<lambda>n. n), next = (\<lambda>n. n)\<rparr>,
     f_links = \<lparr>prev = (\<lambda>n. n), next = (\<lambda>n. n)\<rparr>, ubytes = (\<lambda>_. 0), current_brk = 0, uerrno = 0,
     usys = undefined\<lparr>kvm := undefined\<lparr>mmas := (\<lambda>_. undefined\<lparr>m_start := USERMEM_HEAP, m_sizelim := 0\<rparr>)\<rparr>\<rparr>\<rparr>"

lemma started_reach: "heap_reach 0x40001000 started"
proof (rule heap_reach.start)
  show "fresh_heap 0x40001000 started" by (simp add: fresh_heap_def started_def klist_Nil_iff)
  show "heap_start_ok (usys started)" by (simp add: started_def heap_start_ok_def heap_base_def mma_of_def)
qed (simp add: USERMEM_HEAP_def)

lemma started_sbrk: "\<exists>k. lib_sbrk brk 0x10000 started = (started\<lparr>current_brk := 0x80010000, usys := k\<rparr>, 0x80000000)"
  by (simp add: lib_sbrk_def started_def brk_def sbrk_def heap_mma_def mma_of_def set_mma_def set_vm_def mapping_of_def CURRENT_def align_up_def Let_def
      USERMEM_HEAP_def USERMEM_HEAPLIM_def)

lemma started_simps:
  "a_type started = (\<lambda>_. ARENA_TYPE_HEAD)" "a_size started = (\<lambda>_. 0)"
  "a_links started = \<lparr>prev = (\<lambda>n. n), next = (\<lambda>n. n)\<rparr>" "f_links started = \<lparr>prev = (\<lambda>n. n), next = (\<lambda>n. n)\<rparr>"
  by (simp_all add: started_def)

lemma started_malloc:
  "\<exists>h. malloc brk 0x40001000 100 started = Some (h, 0x80000010) \<and> a_type h 0x40001000 = ARENA_TYPE_HEAD \<and> a_type h 0x80000080 = ARENA_TYPE_FREE \<and>
    a_size h 0x80000000 = 0x80 \<and> a_size h 0x80000080 = 0xFF80 \<and> prev (a_links h) 0x80000000 = 0x40001000 \<and> next (a_links h) 0x80000000 = 0x80000080 \<and>
    current_brk h = 0x80010000 \<and> next (f_links h) 0x40001000 = 0x80000080"
proof -
  obtain k where k: "lib_sbrk brk 0x10000 started = (started\<lparr>current_brk := 0x80010000, usys := k\<rparr>, 0x80000000)" using started_sbrk by blast
  show ?thesis
    by (simp add: malloc_def arena_round_def find_fit.simps [of started] k find_place.simps free_block_def malloc_from_block_def Let_def heap_field_defs started_simps)
qed

lemma started_area:
  obtains h l where "malloc brk 0x40001000 100 started = Some (h, 0x80000010)" and "heap_reach 0x40001000 h" and "100 \<le> l"
    and "held_areas 0x40001000 h = {(0x80000010, l)}"
proof -
  obtain h where m: "malloc brk 0x40001000 100 started = Some (h, 0x80000010)" using started_malloc by blast
  have n: "0 < unat (100 :: u32)" "unat (100 :: u32) \<le> 2 ^ 29" by simp_all
  have r: "heap_reach 0x40001000 h" by (rule heap_reach.malloc [OF started_reach n(2) m])
  have i: "kheap_inv 0x40001000 started [] []"
    by (rule fresh_heap_inv)
      (simp_all add: fresh_heap_def started_def klist_Nil_iff heap_start_ok_def heap_base_def mma_of_def USERMEM_HEAP_def)
  obtain h2 p bs fs where h2: "malloc brk 0x40001000 100 started = Some (h2, p)" "kheap_inv 0x40001000 h2 bs fs" "ubytes h2 = ubytes started"
      "heap_base (usys h2) = heap_base (usys started)"
      "p = 0 \<and> used h2 bs = used started [] \<or> gets started [] 100 h2 bs p"
    by (rule kb.malloc_ok [OF i n])
  then have "h2 = h" "p = 0x80000010" using m by simp_all
  then have g: "kheap_inv 0x40001000 h bs fs" "gets started [] 100 h bs 0x80000010" using h2 by simp_all
  have "held_areas 0x40001000 started = {}" using held_areas_eq [OF i] by (simp add: used_def)
  then show thesis using gets_area [OF i g] that [OF m r] by auto
qed


section \<open>Reallocation\<close>

lemma area_offset:
  assumes "areas_ok lim A" and "(p, n) \<in> A" and "i < n"
  shows "unat (p + of_nat i) = unat p + i"
proof -
  have "unat p + n \<le> unat lim" using assms(1,2) by (auto simp: areas_ok_def)
  then show ?thesis using assms(3) unat_less32 [of lim] unat_add_offset [of p i] by simp
qed

lemma areas_apart:
  assumes ok: "areas_ok lim A" and pq: "(p, n) \<in> A" "(q, l) \<in> A" "p \<noteq> q" and ij: "i < n" "j < l"
  shows "p + of_nat i \<noteq> q + of_nat j"
proof -
  have "unat p + n \<le> unat q \<or> unat q + l \<le> unat p" using ok pq unfolding areas_ok_def by blast
  then show ?thesis using area_offset [OF ok pq(1) ij(1)] area_offset [OF ok pq(2) ij(2)] ij by (auto simp: word_unat_eq_iff)
qed

lemma copied_area:
  assumes ok: "areas_ok lim A" and q: "(q, l) \<in> A" and k: "k \<le> l"
  shows "i < k \<Longrightarrow> copied q p k m (q + of_nat i) = m (p + of_nat i)"
    and "(r, n) \<in> A \<Longrightarrow> r \<noteq> q \<Longrightarrow> i < n \<Longrightarrow> copied q p k m (r + of_nat i) = m (r + of_nat i)"
proof -
  show "copied q p k m (q + of_nat i) = m (p + of_nat i)" if "i < k"
  proof -
    have "unat q + l \<le> unat lim" using ok q by (auto simp: areas_ok_def)
    then have "i < 2 ^ 32" using that k unat_less32 [of lim] by linarith
    then show ?thesis using that by (simp add: copied_def unat_of_nat32)
  qed
  show "copied q p k m (r + of_nat i) = m (r + of_nat i)" if r: "(r, n) \<in> A" "r \<noteq> q" "i < n"
  proof -
    have "\<not> unat (r + of_nat i - q) < k"
    proof
      assume "unat (r + of_nat i - q) < k"
      then have "r + of_nat i \<noteq> q + of_nat (unat (r + of_nat i - q))" using k by (intro areas_apart [OF ok r(1) q r(2,3)]) simp
      then show False by simp
    qed
    then show ?thesis by (simp add: copied_def)
  qed
qed

lemma set_bytes_inv:
  assumes "kheap_inv mh h bs fs"
  shows "kheap_inv mh (h\<lparr>ubytes := m\<rparr>) bs fs" and "held_areas mh (h\<lparr>ubytes := m\<rparr>) = held_areas mh h"
proof -
  show i: "kheap_inv mh (h\<lparr>ubytes := m\<rparr>) bs fs"
    using assms merged_arena_cong [of bs "h\<lparr>ubytes := m\<rparr>" h] by (simp add: heap_inv_def arena_def)
  show "held_areas mh (h\<lparr>ubytes := m\<rparr>) = held_areas mh h" unfolding held_areas_eq [OF i] held_areas_eq [OF assms] by (simp add: used_def)
qed

text \<open>The new area of a call of \<^verbatim>\<open>realloc\<close> that moves.\<close>

definition moved :: "u32 \<Rightarrow> kernel uheap \<Rightarrow> kernel uheap \<Rightarrow> u32 \<Rightarrow> nat \<Rightarrow> u32 \<Rightarrow> nat \<Rightarrow> bool" where
  "moved mh h h' p n q m \<longleftrightarrow> q \<noteq> 0 \<and> q \<noteq> p \<and>
    (\<exists>l. m \<le> l \<and> held_areas mh h' = insert (q, l) (held_areas mh h - {(p, n)})) \<and>
    (\<forall>i < min n m. ubytes h' (q + of_nat i) = ubytes h (p + of_nat i)) \<and>
    (\<forall>(r, k) \<in> held_areas mh h - {(p, n)}. \<forall>i<k. ubytes h' (r + of_nat i) = ubytes h (r + of_nat i))"

lemma moved_copy:
  assumes i: "kheap_inv mh h bs fs" and p: "(p, n) \<in> held_areas mh h" and al: "kheap_inv mh h1 bs1 fs1" "ubytes h1 = ubytes h" "gets h bs z h1 bs1 q"
    and k: "unat k = min (unat z) n" and m: "m \<le> unat z"
  shows "moved mh h (free brk mh p (h1\<lparr>ubytes := memcpy q p k (ubytes h1)\<rparr>)) p n q m"
proof -
  let ?A = "held_areas mh h" and ?h2 = "h1\<lparr>ubytes := memcpy q p k (ubytes h1)\<rparr>"
  note i2 = set_bytes_inv [OF al(1), of "memcpy q p k (ubytes h1)"]
  obtain l where l: "q \<noteq> 0" "unat z \<le> l" "q \<notin> fst ` ?A" "held_areas mh h1 = insert (q, l) ?A" using gets_area [OF i al(1,3)] by blast
  have qp: "q \<noteq> p" using l(3) p by force
  have "(p, n) \<in> held_areas mh ?h2" using p l(4) i2(2) by simp
  note fr = free_area [OF i2(1) this]
  have ok: "areas_ok (heap_top (usys h1)) (insert (q, l) ?A)" using held_areas_ok [OF al(1)] l(4) by simp
  have "p + of_nat i \<noteq> q + of_nat j" if "i < unat k" "j < unat k" for i j
    by (rule areas_apart [OF ok, of p n q l]) (use that k l(2) qp p in simp_all)
  then have "apart p q (unat k)" unfolding apart_def by blast
  then have ub: "ubytes (free brk mh p ?h2) = copied q p (unat k) (ubytes h)" using fr(2) memcpy_copied [of p q k "ubytes h1"] al(2) by simp
  have kl: "unat k \<le> l" using k l(2) by simp
  note cp = copied_area [OF ok insertI1 kl, where p = p and m = "ubytes h"]
  have ha: "held_areas mh (free brk mh p ?h2) = insert (q, l) (?A - {(p, n)})" using fr(1) i2(2) l(4) qp by auto
  have c1: "\<forall>i < min n m. ubytes (free brk mh p ?h2) (q + of_nat i) = ubytes h (p + of_nat i)" unfolding ub using cp(1) k m by simp
  have c2: "\<forall>(r, k) \<in> ?A - {(p, n)}. \<forall>i<k. ubytes (free brk mh p ?h2) (r + of_nat i) = ubytes h (r + of_nat i)"
    unfolding ub using cp(2) l(3) by force
  have ml: "m \<le> l" using m l(2) by simp
  show ?thesis unfolding moved_def by (intro conjI exI [of _ l]) (fact l(1) qp ml ha c1 c2)+
qed

lemma realloc_moves:
  assumes i: "kheap_inv mh h bs fs" and p: "(p, n) \<in> held_areas mh h" and m: "0 < unat m" "unat m \<le> 2 ^ 28"
    and move: "\<not> (block_size (unat m) \<le> n + 16 \<and> (n + 16) div 4 \<le> block_size (unat m))"
  shows "if heap_exhausted mh (block_size (unat m)) h then realloc brk mh p m h = None
    else \<exists>h' q. realloc brk mh p m h = Some (h', q) \<and> moved mh h h' p n q (unat m)"
proof -
  let ?z = "arena_round m" and ?ah = "p - ARENA_HEADER_SIZE"
  obtain b where b: "p = b + ARENA_HEADER_SIZE" "unat p = unat b + 16" "unat (a_size h b) = n + 16" "16 \<le> n" using held_block [OF i p] by metis
  have p0: "p \<noteq> 0" and m0: "m \<noteq> 0" using b(2) m(1) by auto
  have ah: "?ah = b" using b(1) by simp
  have r: "unat m + 16 \<le> unat ?z" "unat ?z < unat m + 32" "unat ?z = block_size (unat m)" using arena_round_ok [of m] arena_round_unat [of m] m by auto
  have old: "unat (a_size h ?ah - ARENA_HEADER_SIZE) = n" using b(3) by (simp add: ah unat_sub word_le_nat_alt)
  define k where "k = (if ?z < a_size h ?ah - ARENA_HEADER_SIZE then ?z else a_size h ?ah - ARENA_HEADER_SIZE)"
  have k: "unat k = min (unat ?z) n" using old by (simp add: k_def word_less_nat_alt min_def)
  then have k0: "k \<noteq> 0" using r(1) m(1) b(4) by (auto simp: min_def split: if_splits)
  have z: "0 < unat ?z" "unat ?z \<le> 2 ^ 29" using r m by simp_all
  obtain h1 q bs1 fs1 where al: "malloc brk mh ?z h = Some (h1, q)" "kheap_inv mh h1 bs1 fs1" "ubytes h1 = ubytes h"
      "q = 0 \<and> used h1 bs1 = used h bs \<or> gets h bs ?z h1 bs1 q" "q = 0 \<longleftrightarrow> heap_exhausted mh (unat ?z) h"
    using kb.malloc_ok [OF i z] unfolding malloc_fails_when [OF i z] by metis
  have "unat (drop_bit 2 (a_size h b)) = (n + 16) div 4" unfolding unat_drop_bit_eq b(3) by (simp add: drop_bit_eq_div)
  then have "\<not> (?z \<le> a_size h ?ah \<and> drop_bit 2 (a_size h ?ah) \<le> ?z)"
    using move r(3) b(3) unfolding ah word_le_nat_alt by simp
  then have e: "realloc brk mh p m h =
      (if q = 0 then None else Some (free brk mh p (h1\<lparr>ubytes := memcpy q p k (ubytes h1)\<rparr>), q))"
    using p0 m0 al(1) k0 unfolding realloc_def k_def [symmetric] Let_def by auto
  show ?thesis
  proof (cases "q = 0")
    case True
    then show ?thesis using e al(5) r(3) by simp
  next
    case False
    then have "gets h bs ?z h1 bs1 q" using al(4) by simp
    then have "moved mh h (free brk mh p (h1\<lparr>ubytes := memcpy q p k (ubytes h1)\<rparr>)) p n q (unat m)"
      using moved_copy [OF i p al(2,3) _ k, of q "unat m"] r(1) by simp
    then show ?thesis using e al(5) r(3) False by auto
  qed
qed



section \<open>The break moves up only\<close>


definition grown :: "u32 \<Rightarrow> kernel uheap" where
  "grown l = started\<lparr>current_brk := USERMEM_HEAP + l,
     usys := undefined\<lparr>kvm := undefined\<lparr>mmas := (\<lambda>_. undefined\<lparr>m_start := USERMEM_HEAP, m_sizelim := l\<rparr>)\<rparr>\<rparr>\<rparr>"


lemma brk_keeps_break:
  assumes "heap_area_ok (usys h)" and "USERMEM_HEAP \<le> c" and "c < heap_limit (usys h)"
  shows "current_brk (fst (lib_brk brk c h)) = current_brk h"
proof (cases rule: brk_adds [OF assms(1,2)])
  case 1
  have "c \<noteq> - 1" using assms(3) by (metis word_less_nat_alt word_not_simps(3) max_word_max not_le)
  then show ?thesis by (simp add: lib_brk_def 1(1))
next
  case (2 s')
  then have "heap_limit s' \<noteq> c" using assms(3) by (auto simp: word_less_nat_alt)
  then show ?thesis by (simp add: lib_brk_def 2(1))
qed

text \<open>
  C23. Memory that \<^verbatim>\<open>free\<close> gives back is lost.  In every state that a program can reach with requests of at most \<open>2 ^ 29\<close> bytes: when the free block that results ends at the break and has the size of a chunk, \<^verbatim>\<open>free\<close> takes it off both
  chains and calls \<^verbatim>\<open>brk\<close>, which on this kernel never lowers the break: afterwards no block reaches into the memory from the start of that
  block to the break, and the next chunk comes from above the break.
\<close>

theorem free_loses_chunk:
  assumes "heap_reach mh h" and "(p, n) \<in> held_areas mh h" and "free_block mh (p - ARENA_HEADER_SIZE) h = (h1, c)"
    and "MALLOC_CHUNK_SIZE \<le> a_size h1 c" and "c + a_size h1 c = current_brk h1"
  shows "current_brk (free brk mh p h) = current_brk h \<and> unat c + unat (a_size h1 c) = unat (current_brk h) \<and>
    (\<exists>bs. klist0_for_each (a_links (free brk mh p h)) mh = Some bs \<and> (\<forall>b \<in> set bs. unat b + unat (a_size (free brk mh p h) b) \<le> unat c))"
proof -
  obtain bs fs where i: "kheap_inv mh h bs fs" using reach_inv [OF assms(1)] by blast
  obtain b s where b: "(b, s) \<in> used h bs" "p = b + ARENA_HEADER_SIZE" using assms(2) held_areas_eq [OF i] by auto
  have ah: "p - ARENA_HEADER_SIZE = b" using b(2) by simp
  obtain h2 c2 bs1 fs1 where f: "free_block mh b h = (h2, c2)" "kheap_inv mh h2 bs1 fs1" "c2 \<in> set bs1" "a_type h2 c2 = ARENA_TYPE_FREE"
      "used h2 bs1 = used h bs - {(b, s)}" "same_process h h2" "b \<in> set bs"
    by (rule kb.free_block_inv [OF i b(1)])
  have eq: "h2 = h1" "c2 = c" using f(1) assms(3) ah by simp_all
  let ?h = "remove_from_chains c h1" and ?f = "fst (lib_brk brk c (remove_from_chains c h1))"
  have "p \<noteq> 0" using block_pointer(2) [OF heap_inv_arena [OF i] f(7)] b(2) by simp
  then have e: "free brk mh p h = ?f" using assms(3-5) by (simp add: free_def)
  obtain bs' fs' where t: "kheap_inv mh ?f bs' fs'" "\<forall>b \<in> set bs'. unat b + unat (a_size h1 b) \<le> unat c" "unat c + unat (a_size h1 c) = unat (current_brk h1)"
    using kb.trim_ok [OF f(2-4)] assms(5) unfolding eq by metis
  have s: "usys ?h = usys h1" "current_brk ?h = current_brk h1" "a_size ?f = a_size h1"
    by (simp_all add: remove_from_chains_def remove_from_main_chain_def remove_from_free_chain_def lib_brk_def Let_def split: prod.splits)
  have "heap_start_ok (usys h1)" "USERMEM_HEAP \<le> c" "c < heap_top (usys h1)"
    using f(2,3) arenaD(6) [OF heap_inv_arena [OF f(2)]] unfolding eq by (auto simp: heap_inv_def heap_start_ok_def blocks_ok_def word_le_nat_alt word_less_nat_alt)
  moreover from this have "heap_area_ok (usys h1)" using heap_top_bounds(3) by (simp add: word_le_nat_alt word_less_nat_alt)
  ultimately have "heap_area_ok (usys h1)" "USERMEM_HEAP \<le> c" "c < heap_limit (usys h1)" using heap_top_area by simp_all
  then have "current_brk ?f = current_brk h1" using brk_keeps_break [of ?h c] s by simp
  moreover have "klist0_for_each (a_links ?f) mh = Some bs'" using klist_for_each [OF arenaD(1) [OF heap_inv_arena [OF t(1)]]] .
  ultimately show ?thesis using t s f(6) unfolding e eq by (auto simp: same_process_def)
qed

theorem free_loses_chunk_witness:
  "\<exists>h. malloc brk 0x40001000 100 started = Some (h, 0x80000010) \<and> current_brk h = 0x80010000 \<and>
    current_brk (free brk 0x40001000 0x80000010 h) = 0x80010000 \<and>
    (\<exists>bs. klist0_for_each (a_links (free brk 0x40001000 0x80000010 h)) 0x40001000 = Some bs \<and>
      (\<forall>b \<in> set bs. unat b + unat (a_size (free brk 0x40001000 0x80000010 h) b) \<le> 0x80000000))"
proof -
  obtain h l where h: "malloc brk 0x40001000 100 started = Some (h, 0x80000010)" "heap_reach 0x40001000 h" "100 \<le> l"
      "held_areas 0x40001000 h = {(0x80000010, l)}"
    by (rule started_area)
  then have "a_type h 0x40001000 = ARENA_TYPE_HEAD" "a_type h 0x80000080 = ARENA_TYPE_FREE" "a_size h 0x80000000 = 0x80" "a_size h 0x80000080 = 0xFF80"
      "prev (a_links h) 0x80000000 = 0x40001000" "next (a_links h) 0x80000000 = 0x80000080" "current_brk h = 0x80010000"
    using started_malloc by simp_all
  then have "\<exists>h1. free_block 0x40001000 0x80000000 h = (h1, 0x80000000) \<and> a_size h1 0x80000000 = 0x10000 \<and> current_brk h1 = 0x80010000 \<and> current_brk h = 0x80010000"
    by (simp add: free_block_def remove_from_chains_def remove_from_main_chain_def remove_from_free_chain_def heap_field_defs Let_def)
  then obtain h1 where f: "free_block 0x40001000 0x80000000 h = (h1, 0x80000000)" "a_size h1 0x80000000 = 0x10000" "current_brk h1 = 0x80010000"
      "current_brk h = 0x80010000" by blast
  have m: "(0x80000010, l) \<in> held_areas 0x40001000 h" using h(4) by simp
  have b: "free_block 0x40001000 (0x80000010 - ARENA_HEADER_SIZE) h = (h1, 0x80000000)" using f(1) by simp
  have "MALLOC_CHUNK_SIZE \<le> a_size h1 0x80000000" "0x80000000 + a_size h1 0x80000000 = current_brk h1" using f by simp_all
  from free_loses_chunk [OF h(2) m b this] show ?thesis using h(1) f(4) by simp
qed

end
