(* ===== verification/Spec2Isabelle.thy ===== *)
theory Spec2Isabelle
  imports Exec Vm_Props Files_Props Timer_Props Drivers_Props Klibc_Sort Klibc_Heap
begin

text \<open>
  A verification library for the kernel of the koowaldah operating system, in its 32-bit i386 build, and for parts of its user-space C library.  All paths are
  relative to \<^verbatim>\<open>src/\<close>.

  \<^bold>\<open>The program.\<close>  The kernel starts from a multiboot loader (\<^verbatim>\<open>kernel/init.c\<close>), divides the physical memory into a boot zone and a user zone
  and hands out piles of pages from them with a buddy allocator (\<^verbatim>\<open>kernel/page_alloc.c\<close>).  Slice pools
  (\<^verbatim>\<open>kernel/slice.c\<close>) cut single pages into objects of one size and \<^verbatim>\<open>galloc\<close> (\<^verbatim>\<open>kernel/galloc.c\<close>) chooses between both.  Threads are
  pages with a stack and a \<^verbatim>\<open>struct thread\<close>; they move between queues (\<^verbatim>\<open>kernel/thread_queue.c\<close>) under a round-robin
  scheduler (\<^verbatim>\<open>kernel/sched0.c\<close> behind \<^verbatim>\<open>kernel/scheduler.c\<close>), which is driven by calls of the threads and by the timer
  interrupt.  Each user thread has page tables (\<^verbatim>\<open>arch/i386/paging.c\<close>) and memory areas (\<^verbatim>\<open>kernel/mem_area.c\<close>).  On top are
  devices and drivers, the file systems with their files, pipes and messages (\<^verbatim>\<open>kernel/fs\<close>), and the loading and duplication of programs
  (\<^verbatim>\<open>kernel/exec.c\<close>, \<^verbatim>\<open>kernel/fork.c\<close>), which user programs reach through the system call gate (\<^verbatim>\<open>arch/i386/syscalls.c\<close>).  User programs are linked with a copy of klibc
  (\<^verbatim>\<open>usr/klibc\<close>), whose heap gets its memory from the kernel's \<^verbatim>\<open>brk\<close> (\<^verbatim>\<open>kernel/brk.c\<close>).  All kernel
  components keep their data in intrusive lists (\<^verbatim>\<open>include/klist0.h\<close>).

  \<^bold>\<open>Conventions.\<close>
  \<^item> A kernel call returns an option: \<open>None\<close> says that control never comes back (\<^verbatim>\<open>bug()\<close>, \<^verbatim>\<open>panic()\<close>, a fault in the kernel or an
    endless loop), so every theorem that concludes \<open>f s = Some _\<close> also says that \<open>f\<close> returns.  A loop whose end is not evident is a
    \<^verbatim>\<open>partial_function (option)\<close>; there is no fuel in the development, and no bound on the number of iterations has been chosen.
  \<^item> Machine integers are words: \<open>u8\<close>, \<open>u16\<close>, \<open>u32\<close>, and pointers are \<open>u32\<close> with wrapping arithmetic.  An \<^verbatim>\<open>int\<close> of C that cannot overflow in the
    code is an \<open>int\<close>; an index into an array of the model is a \<open>nat\<close>.
  \<^item> The state of the memory management is \<open>mm\<close> (zones and page structures) inside \<open>slab\<close> (slice pools and the word memory) inside \<open>gheap\<close>
    (the pools of \<^verbatim>\<open>galloc\<close>); \<open>kernel\<close> is the state of the whole, one field per global variable and one map
    from addresses to contents per structure type.
  \<^item> Word memory holds what the allocators, the stacks and the page tables store as 32-bit words; byte memory holds names, buffers and file
    contents.  The code never reads one as the other, except where a write goes astray; the theorems about such writes name the address.
  \<^item> A list node is a value of a datatype with one constructor per list head and per embedded \<^verbatim>\<open>struct klist0_node\<close>, so that \<^verbatim>\<open>klist0_entry\<close> is a pattern
    match; a head taken for an entry is a fault.  \<^verbatim>\<open>klist0_append\<close> inserts at the front and \<^verbatim>\<open>klist0_prepend\<close> at the back, as in the code.
  \<^item> A function that sleeps takes a parameter \<open>others\<close>, what the rest of the system does until it runs again.  The results of port
    input, the symbol table, the triggers of the profiler, the addresses of static data and the in-kernel tests are parameters too.
  \<^item> \<open>linear\<close> and \<open>view\<close> are the processor's translation of user addresses under the current page directory; copies with user pointers go through it.
    It is a walk of the tables: translations that the processor remembers until \<^verbatim>\<open>cr3\<close> is loaded are not modelled.

  \<^bold>\<open>Theories.\<close>
  \<^item> \<^verbatim>\<open>Koo_Base\<close>: the prelude.  Word types, page constants, \<open>bug\<close>, the collections of facts and the lemmas on lists and words.
  \<^item> \<^verbatim>\<open>Klist0\<close> (\<^verbatim>\<open>include/klist0.h\<close>): the list operations as the assignments of the code; \<open>klist\<close> and \<open>klists\<close> relate a heap of nodes to lists; the locale \<open>intrusive_list\<close>
    (interpretation \<open>k0\<close>) is what other components use.
  \<^item> \<^verbatim>\<open>Klib\<close> (\<^verbatim>\<open>include/lib.h\<close>, \<^verbatim>\<open>kernel/lib/klib.c\<close>) and \<^verbatim>\<open>Bitmap\<close> (\<^verbatim>\<open>include/bitmap.h\<close>, \<^verbatim>\<open>kernel/lib/bitmap.c\<close>): strings, copying, numbers and bit sets against their
    specifications.
  \<^item> \<^verbatim>\<open>Page_Alloc\<close> (definitions), \<^verbatim>\<open>Buddy\<close> (the zone invariant and the proofs about allocation and release), \<^verbatim>\<open>Zone_Init\<close> (\<^verbatim>\<open>mem_zone_init\<close>), \<^verbatim>\<open>Page_Pool\<close> (the locale \<open>pile_pool\<close>,
    its interpretation \<open>zp\<close> on the zone, and the properties): the allocator takes and returns exactly the pages it says, merges whatever can be merged, and
    clients that use it in any order hold disjoint piles.
  \<^item> \<^verbatim>\<open>Slice\<close>, \<^verbatim>\<open>Slice_Props\<close> (\<^verbatim>\<open>kernel/slice.c\<close>): the pool invariant, allocation and release as operations on the set of used objects, the locale \<open>object_pool\<close>
    (interpretation \<open>sp\<close>), when a pool is exhausted, the order in which the objects of a page are handed out, and the object sizes for which the set-up of a page is wrong.
  \<^item> \<^verbatim>\<open>Galloc\<close> (\<^verbatim>\<open>kernel/galloc.c\<close>): the choice of the pool, the round trip, and the one size class that reads past the table.
  \<^item> \<^verbatim>\<open>Vsnprintf\<close> (\<^verbatim>\<open>kernel/lib/vsnprintf.c\<close>, \<^verbatim>\<open>kernel/textio.c\<close>): conversions against the digits of a number, and the format interpreter.
    The address of the table of digits is a parameter, because the least \<^verbatim>\<open>int\<close> makes the code read in front of it.
  \<^item> \<^verbatim>\<open>Arch_I386\<close>: ports, interrupt controller, consoles, descriptors and gates.  \<^verbatim>\<open>Debug_Tools\<close>: profiler, debug keys, symbol lookup.
  \<^item> \<^verbatim>\<open>Kernel\<close>: the state of the kernel proper.
  \<^item> \<^verbatim>\<open>Sched\<close> (locks, queues, \<^verbatim>\<open>sched0\<close>, mutexes, context switch), \<^verbatim>\<open>Threads\<close> (creation, timers, exit).  \<^verbatim>\<open>Sched_Props\<close>: \<open>sched_ok Q qs s\<close> says that the queues \<open>Q\<close>
    hold the lists \<open>qs\<close> of threads, each of them parked with a stack it can be resumed on, and that their locks are free; every call acts on \<open>qs\<close> as a list operation.
    \<^verbatim>\<open>Sched_Run\<close>: the locale \<open>run_queue\<close> (interpretation \<open>s0\<close>), sequences of scheduler calls, fairness, and that waking all sleepers ends.
    \<^verbatim>\<open>Mutex_Props\<close>: mutual exclusion over an inductive step relation.  \<^verbatim>\<open>Preempt_Props\<close>: the timer interrupt from its entry to the switch,
    the length of a time slice, and the wake-up that \<^verbatim>\<open>mutex_lock\<close> can lose.  \<^verbatim>\<open>Timer_Props\<close>: the list of intervals behind \<^verbatim>\<open>tsleep\<close>, the time at which each of
    them is due, what putting a thread to sleep does to the others, and which threads a number of ticks wakes.
  \<^item> \<^verbatim>\<open>Vm\<close>, \<^verbatim>\<open>Vm_Props\<close>: page tables, memory areas, break and page faults; what mapping does to the translation of every address inside and outside of the range, and where \<^verbatim>\<open>clone_map\<close> puts the tables of a new map.
  \<^item> \<^verbatim>\<open>Drivers\<close>, \<^verbatim>\<open>Drivers_Props\<close>: devices, byte queues, serial line, keyboard, interrupt dispatch; the two buffers as queues, and how each of them fails.
  \<^item> \<^verbatim>\<open>Vfs\<close> (super blocks, inodes, names, mounts, virtual file systems, archive reader), \<^verbatim>\<open>Files\<close> (files, pipes, messages), \<^verbatim>\<open>Files_Props\<close> (descriptors as a set of numbers).
  \<^item> \<^verbatim>\<open>Exec\<close>: program loading, \<^verbatim>\<open>fork\<close>, the system call gate and the boot sequence, which composes the set-up of all components.
  \<^item> \<^verbatim>\<open>Klibc_String\<close> (\<^verbatim>\<open>usr/klibc/mem*.c\<close>, \<^verbatim>\<open>usr/klibc/str*.c\<close>): byte-wise functions on a flat memory; the search with skips finds the first occurrence, bounded copies
    stay in their buffers.  \<^verbatim>\<open>Klibc_Sort\<close> (\<^verbatim>\<open>qsort.c\<close>, \<^verbatim>\<open>bsearch.c\<close>): the comb sort ends and sorts in place, for every comparison function; binary search.
  \<^item> \<^verbatim>\<open>Klibc_Malloc\<close> (\<^verbatim>\<open>malloc.c\<close>, \<^verbatim>\<open>realloc.c\<close>, \<^verbatim>\<open>calloc.c\<close>, \<^verbatim>\<open>sbrk.c\<close>, \<^verbatim>\<open>brk.c\<close>): the user heap, with the system call as parameter; \<open>arena\<close> says that the two chains of headers are rings
    over sorted, disjoint blocks, and the locale \<open>program_break\<close> says what the library relies on.  \<^verbatim>\<open>Klibc_Heap\<close>: the interpretation \<open>kb\<close> on the kernel's \<^verbatim>\<open>brk\<close>, for every value of
    the limit of the heap, which the kernel never initialises; what a program can reach with requests of at most \<open>2 ^ 29\<close> bytes (larger ones make the sizes wrap), when there is no memory left,
    \<^verbatim>\<open>realloc\<close>, and what the meeting of the two sides gets wrong.

  \<^bold>\<open>Not modelled.\<close>  The text that \<^verbatim>\<open>kprintf\<close> prints from inside other functions (its own conversion is modelled), since no later step depends on it.  The assembly between the boot loader and
  \<^verbatim>\<open>kern_start\<close>, and the general registers: the model keeps the stack pointer, the flags and the control registers, on which the code computes.  Interrupts between two
  instructions of a kernel function, except where a theorem places one explicitly; \<open>others\<close> covers what happens at the points where a function gives up the
  processor.  The narrow atomic operations, which nobody calls.  The hosted port \<^verbatim>\<open>arch/dummy\<close>, the configuration tool, the in-kernel tests and the user
  programs are not parts of this kernel.  Of \<^verbatim>\<open>usr/klibc\<close> the formatted input and output, the stubs of system calls, the environment, sockets and the copy of zlib.  In the
  model of the user heap the headers of blocks and their contents are separate maps: a write of the program beyond its area is outside the model.
\<close>

end
